(* ===== verification/Prelude.thy ===== *)
theory Prelude
  imports Main "HOL-Library.Word" "HOL-Library.Monad_Syntax" "HOL-Library.Tree"
begin

text \<open>
  Shared vocabulary of the development: the machine integer types of \<^verbatim>\<open>include/stdint.h\<close>,
  pointers, the collections of simplification rules that the component theories fill, and
  the generic lemmas on options, lists and loops that several components use.

  Conventions used everywhere.
  \<^item> An unsigned C++ integer of width \<open>w\<close> is a \<open>w word\<close>, so that \<open>+\<close>, \<open>-\<close> and \<open>*\<close> wrap
    around as the machine does.
  \<^item> A pointer is an \<open>addr option\<close>; \<open>None\<close> is \<^verbatim>\<open>nullptr\<close>.
  \<^item> A function whose C++ body can dereference \<^verbatim>\<open>nullptr\<close>, index outside an array or loop
    for ever returns an \<open>option\<close>: \<open>None\<close> stands for the run that has no defined result,
    and every total-correctness theorem states that the value is \<open>Some\<close>.
\<close>

type_synonym u8 = "8 word"
type_synonym u16 = "16 word"
type_synonym u32 = "32 word"
type_synonym u64 = "64 word"
type_synonym addr = "64 word"
type_synonym ptr = "addr option"
type_synonym byte = "8 word"

named_theorems heap_simps "reading a field after writing a field of the task heap"
named_theorems frame_simps "what an operation leaves unchanged"
named_theorems step_simps "evaluation of one loop iteration"

section \<open>Loops\<close>

text \<open>
  A \<^verbatim>\<open>while\<close> loop is a body that either asks for another round, finishes, or has no defined
  result.  \<open>loop\<close> iterates it; \<open>None\<close> also covers the run that never leaves the loop.
\<close>

datatype ('s, 'r) step = Next 's | Done 'r

partial_function (option) loop :: "('s \<Rightarrow> ('s, 'r) step option) \<Rightarrow> 's \<Rightarrow> 'r option" where
  "loop body s = do {
     x \<leftarrow> body s;
     (case x of Next s' \<Rightarrow> loop body s' | Done r \<Rightarrow> Some r) }"

declare loop.simps [code]

lemma loop_Done: "body s = Some (Done r) \<Longrightarrow> loop body s = Some r"
  by (subst loop.simps) simp

lemma loop_Next: "body s = Some (Next s') \<Longrightarrow> loop body s = loop body s'"
  by (subst loop.simps) simp

lemma loop_None: "body s = None \<Longrightarrow> loop body s = None"
  by (subst loop.simps) simp

text \<open>Partial correctness: whatever the loop returns satisfies the postcondition.\<close>

lemma loop_partial:
  assumes ret: "loop body s = Some r" and inv: "I s"
    and step: "\<And>s s'. I s \<Longrightarrow> body s = Some (Next s') \<Longrightarrow> I s'"
    and final: "\<And>s r. I s \<Longrightarrow> body s = Some (Done r) \<Longrightarrow> Q r"
  shows "Q r"
proof -
  have "b = body \<longrightarrow> I s \<longrightarrow> Q r" if "loop b s = Some r" for b s r
  proof (rule loop.raw_induct [where P = "\<lambda>b s r. b = body \<longrightarrow> I s \<longrightarrow> Q r", OF _ that], intro impI)
    fix f b s r
    assume IH: "\<And>b s r. f b s = Some r \<Longrightarrow> b = body \<longrightarrow> I s \<longrightarrow> Q r"
      and eq: "(b s \<bind> (\<lambda>x. case x of Next s' \<Rightarrow> f b s' | Done r \<Rightarrow> Some r)) = Some r"
      and b: "b = body" and s: "I s"
    from eq obtain x where x: "b s = Some x"
        "(case x of Next s' \<Rightarrow> f b s' | Done r \<Rightarrow> Some r) = Some r"
      by (cases "b s") auto
    show "Q r"
    proof (cases x)
      case (Next s')
      with x b s step have "f b s' = Some r" "I s'" by auto
      with IH b show ?thesis by blast
    next
      case (Done r')
      with x b s final show ?thesis by auto
    qed
  qed
  with ret inv show ?thesis by blast
qed

text \<open>A state the body maps to itself is never left: the run has no result.\<close>

lemma loop_fixpoint: "body s = Some (Next s) \<Longrightarrow> loop body s = None"
proof (cases "loop body s")
  case (Some r)
  assume fix_s: "body s = Some (Next s)"
  have False
    by (rule loop_partial [where I = "\<lambda>s'. s' = s" and Q = "\<lambda>_. False", OF Some])
      (simp_all add: fix_s)
  then show ?thesis ..
qed

text \<open>
  Total correctness of a loop: an invariant, a measure that every further round decreases,
  and a postcondition for the round that finishes.
\<close>

lemma loop_total:
  assumes "I s"
    and body: "\<And>s. I s \<Longrightarrow> (\<exists>s'. body s = Some (Next s') \<and> I s' \<and> m s' < (m s :: nat)) \<or>
        (\<exists>r. body s = Some (Done r) \<and> Q r)"
  shows "\<exists>r. loop body s = Some r \<and> Q r"
  using assms(1)
proof (induction "m s" arbitrary: s rule: less_induct)
  case less
  from body [OF less.prems] show ?case
  proof
    assume "\<exists>s'. body s = Some (Next s') \<and> I s' \<and> m s' < m s"
    then obtain s' where s': "body s = Some (Next s')" "I s'" "m s' < m s" by blast
    from less.hyps [OF s'(3,2)] show ?thesis unfolding loop_Next [of body s s', OF s'(1)] .
  next
    assume "\<exists>r. body s = Some (Done r) \<and> Q r"
    then show ?thesis by (blast intro: loop_Done)
  qed
qed

text \<open>
  The same with a ghost value beside the state: the invariant relates the two, and the measure
  is taken of the ghost value.
\<close>

lemma loop_total_ghost:
  assumes "I g s"
    and body: "\<And>g s. I g s \<Longrightarrow>
        (\<exists>g' s'. body s = Some (Next s') \<and> I g' s' \<and> m g' < (m g :: nat)) \<or>
        (\<exists>r. body s = Some (Done r) \<and> Q r)"
  shows "\<exists>r. loop body s = Some r \<and> Q r"
  using assms(1)
proof (induction "m g" arbitrary: g s rule: less_induct)
  case less
  from body [OF less.prems] show ?case
  proof
    assume "\<exists>g' s'. body s = Some (Next s') \<and> I g' s' \<and> m g' < m g"
    then obtain g' s' where s': "body s = Some (Next s')" "I g' s'" "m g' < m g" by blast
    from less.hyps [OF s'(3,2)] show ?thesis unfolding loop_Next [of body s s', OF s'(1)] .
  next
    assume "\<exists>r. body s = Some (Done r) \<and> Q r"
    then show ?thesis by (blast intro: loop_Done)
  qed
qed

section \<open>Lists and options\<close>

lemma bind_eq_SomeI [intro]: "m = Some x \<Longrightarrow> f x = Some y \<Longrightarrow> m \<bind> f = Some y"
  by simp

lemma option_ne_Some [simp]: "(\<forall>x. p \<noteq> Some x) \<longleftrightarrow> p = None"
  by (cases p) auto

end
