(* ===== verification/TaskTypes.thy ===== *)
theory TaskTypes
  imports Prelude
begin

text \<open>
  The data of \<^verbatim>\<open>include/kernel/task.h\<close> and of the descriptor table of
  \<^verbatim>\<open>include/kernel/vfs.h\<close>: task states, the scheduling entity, the process control block, and
  the state of the scheduler object.  Control blocks live in a store indexed by address, since
  the scheduler, the IPC code and the semaphores all hold pointers to the same blocks.
\<close>

section \<open>Control blocks\<close>

datatype State = Running | Ready | Blocked | Zombie | Dead

record FileDescriptor =
  fd_used :: bool
  fd_file :: ptr
  fd_flags :: u32

record Mem =
  pml4 :: u64
  text_start :: u64
  text_end :: u64
  data_start :: u64
  data_end :: u64
  rodata_start :: u64
  rodata_end :: u64
  bss_start :: u64
  bss_end :: u64
  heap_start :: u64
  heap_end :: u64
  stack_base :: u64

record Tcb =
  rsp0 :: u64
  rip :: u64
  rsp :: u64
  fs :: u16
  gs :: u16
  cr2 :: u64
  trap_nr :: u64
  error_code :: u64

record Entity =
  vruntime :: u64
  sum_exec_runtime :: u64
  weight :: u64
  se_min_vruntime :: u64
  rb_left :: ptr
  rb_right :: ptr
  rb_parent :: ptr
  rb_is_red :: bool

record Pcb =
  pid :: u64
  stat :: State
  flags :: u64
  parent :: ptr
  thread :: ptr
  mm :: Mem
  argv :: u64
  msg :: ptr
  tty :: u64
  time_used :: u64
  exit_code :: u64
  files :: "FileDescriptor list"
  se :: Entity

abbreviation (input) THREAD_NO_ARGS :: u64 where "THREAD_NO_ARGS \<equiv> 4"
abbreviation (input) THREAD_KERNEL :: u64 where "THREAD_KERNEL \<equiv> 8"

section \<open>The scheduler object\<close>

text \<open>
  \<open>pcbs\<close> is the store of control blocks; the other fields are the members of \<^verbatim>\<open>Rq\<close> and
  \<^verbatim>\<open>Sched\<close>.  \<open>sched_lock\<close> is the state word of the scheduler's spin lock.
\<close>

record Sched =
  pcbs :: "addr \<Rightarrow> Pcb"
  rb_root :: ptr
  leftmost :: ptr
  min_vruntime :: u64
  nr_running :: u32
  total_weight :: u64
  sched_current :: ptr
  clock :: u64
  sched_lock :: u32

section \<open>Field access through a pointer\<close>

text \<open>Reads and writes of the tree fields of the block at an address.\<close>

definition lft :: "'a Sched_scheme \<Rightarrow> addr \<Rightarrow> ptr" where
  "lft s a = rb_left (se (pcbs s a))"

definition rgt :: "'a Sched_scheme \<Rightarrow> addr \<Rightarrow> ptr" where
  "rgt s a = rb_right (se (pcbs s a))"

definition par :: "'a Sched_scheme \<Rightarrow> addr \<Rightarrow> ptr" where
  "par s a = rb_parent (se (pcbs s a))"

definition red :: "'a Sched_scheme \<Rightarrow> addr \<Rightarrow> bool" where
  "red s a = rb_is_red (se (pcbs s a))"

definition key :: "'a Sched_scheme \<Rightarrow> addr \<Rightarrow> u64" where
  "key s a = vruntime (se (pcbs s a))"

definition upd_se :: "addr \<Rightarrow> (Entity \<Rightarrow> Entity) \<Rightarrow> 'a Sched_scheme \<Rightarrow> 'a Sched_scheme" where
  "upd_se a f s = s\<lparr>pcbs := (pcbs s)(a := (pcbs s a)\<lparr>se := f (se (pcbs s a))\<rparr>)\<rparr>"

definition set_lft :: "addr \<Rightarrow> ptr \<Rightarrow> 'a Sched_scheme \<Rightarrow> 'a Sched_scheme" where
  "set_lft a v = upd_se a (\<lambda>e. e\<lparr>rb_left := v\<rparr>)"

definition set_rgt :: "addr \<Rightarrow> ptr \<Rightarrow> 'a Sched_scheme \<Rightarrow> 'a Sched_scheme" where
  "set_rgt a v = upd_se a (\<lambda>e. e\<lparr>rb_right := v\<rparr>)"

definition set_par :: "addr \<Rightarrow> ptr \<Rightarrow> 'a Sched_scheme \<Rightarrow> 'a Sched_scheme" where
  "set_par a v = upd_se a (\<lambda>e. e\<lparr>rb_parent := v\<rparr>)"

definition set_red :: "addr \<Rightarrow> bool \<Rightarrow> 'a Sched_scheme \<Rightarrow> 'a Sched_scheme" where
  "set_red a v = upd_se a (\<lambda>e. e\<lparr>rb_is_red := v\<rparr>)"

lemmas acc_defs = lft_def rgt_def par_def red_def key_def
lemmas set_defs = set_lft_def set_rgt_def set_par_def set_red_def upd_se_def

lemma lft_set [heap_simps]:
  "lft (set_lft a v s) b = (if b = a then v else lft s b)"
  "lft (set_rgt a v s) b = lft s b"
  "lft (set_par a v s) b = lft s b"
  "lft (set_red a c s) b = lft s b"
  by (simp_all add: acc_defs set_defs)

lemma rgt_set [heap_simps]:
  "rgt (set_lft a v s) b = rgt s b"
  "rgt (set_rgt a v s) b = (if b = a then v else rgt s b)"
  "rgt (set_par a v s) b = rgt s b"
  "rgt (set_red a c s) b = rgt s b"
  by (simp_all add: acc_defs set_defs)

lemma par_set [heap_simps]:
  "par (set_lft a v s) b = par s b"
  "par (set_rgt a v s) b = par s b"
  "par (set_par a v s) b = (if b = a then v else par s b)"
  "par (set_red a c s) b = par s b"
  by (simp_all add: acc_defs set_defs)

lemma red_set [heap_simps]:
  "red (set_lft a v s) b = red s b"
  "red (set_rgt a v s) b = red s b"
  "red (set_par a v s) b = red s b"
  "red (set_red a c s) b = (if b = a then c else red s b)"
  by (simp_all add: acc_defs set_defs)

lemma key_set [heap_simps]:
  "key (set_lft a v s) b = key s b"
  "key (set_rgt a v s) b = key s b"
  "key (set_par a v s) b = key s b"
  "key (set_red a c s) b = key s b"
  by (simp_all add: acc_defs set_defs)

lemma rb_root_set [heap_simps]:
  "rb_root (set_lft a v s) = rb_root s"
  "rb_root (set_rgt a v s) = rb_root s"
  "rb_root (set_par a v s) = rb_root s"
  "rb_root (set_red a c s) = rb_root s"
  by (simp_all add: set_defs)

lemma acc_sched_upd [heap_simps]:
  "lft (s\<lparr>rb_root := r\<rparr>) = lft s" "lft (s\<lparr>leftmost := r\<rparr>) = lft s"
  "lft (s\<lparr>min_vruntime := m\<rparr>) = lft s"
  "rgt (s\<lparr>rb_root := r\<rparr>) = rgt s" "rgt (s\<lparr>leftmost := r\<rparr>) = rgt s"
  "rgt (s\<lparr>min_vruntime := m\<rparr>) = rgt s"
  "par (s\<lparr>rb_root := r\<rparr>) = par s" "par (s\<lparr>leftmost := r\<rparr>) = par s"
  "par (s\<lparr>min_vruntime := m\<rparr>) = par s"
  "red (s\<lparr>rb_root := r\<rparr>) = red s" "red (s\<lparr>leftmost := r\<rparr>) = red s"
  "red (s\<lparr>min_vruntime := m\<rparr>) = red s"
  "key (s\<lparr>rb_root := r\<rparr>) = key s" "key (s\<lparr>leftmost := r\<rparr>) = key s"
  "key (s\<lparr>min_vruntime := m\<rparr>) = key s"
  by (simp_all add: acc_defs fun_eq_iff)

text \<open>
  \<open>same_but_links\<close>: two states that differ at most in the link and colour fields of control
  blocks and in the root, leftmost and minimum of the tree.  Every tree operation stays
  inside this relation.
\<close>

definition clear_links :: "Pcb \<Rightarrow> Pcb" where
  "clear_links p = p\<lparr>se := (se p)\<lparr>rb_left := None, rb_right := None, rb_parent := None,
     rb_is_red := False\<rparr>\<rparr>"

definition same_but_links :: "'a Sched_scheme \<Rightarrow> 'a Sched_scheme \<Rightarrow> bool" where
  "same_but_links s s' \<longleftrightarrow>
     clear_links \<circ> pcbs s = clear_links \<circ> pcbs s' \<and>
     s'\<lparr>pcbs := pcbs s, rb_root := rb_root s, leftmost := leftmost s,
        min_vruntime := min_vruntime s\<rparr> = s"

lemma same_but_links_refl [simp, intro]: "same_but_links s s"
  by (simp add: same_but_links_def)

lemma same_but_links_trans [trans]:
  assumes "same_but_links s s'" and "same_but_links s' s''"
  shows "same_but_links s s''"
  using assms by (cases s, cases s', cases s'') (auto simp: same_but_links_def)

lemma same_but_links_upd_se:
  assumes "\<And>e. f e\<lparr>rb_left := None, rb_right := None, rb_parent := None, rb_is_red := False\<rparr> =
      e\<lparr>rb_left := None, rb_right := None, rb_parent := None, rb_is_red := False\<rparr>"
  shows "same_but_links s (upd_se a f s)"
  using assms by (cases s) (auto simp: same_but_links_def upd_se_def clear_links_def fun_eq_iff)

lemma same_but_links_set [frame_simps, intro]:
  "same_but_links s (set_lft a v s)"
  "same_but_links s (set_rgt a v s)"
  "same_but_links s (set_par a v s)"
  "same_but_links s (set_red a c s)"
  "same_but_links s (s\<lparr>rb_root := r\<rparr>)"
  "same_but_links s (s\<lparr>leftmost := r\<rparr>)"
  "same_but_links s (s\<lparr>min_vruntime := m\<rparr>)"
  by (simp_all add: set_lft_def set_rgt_def set_par_def set_red_def same_but_links_upd_se)
    (simp_all add: same_but_links_def)

lemma clear_links_eqD:
  assumes "clear_links p = clear_links q"
  shows "stat p = stat q" "pid p = pid q" "flags p = flags q" "time_used p = time_used q"
    "weight (se p) = weight (se q)" "vruntime (se p) = vruntime (se q)"
    "sum_exec_runtime (se p) = sum_exec_runtime (se q)" "msg p = msg q" "mm p = mm q"
    "files p = files q" "argv p = argv q" "thread p = thread q" "exit_code p = exit_code q"
  using assms by (cases p; cases q; cases "se p"; cases "se q"; simp add: clear_links_def)+

lemma same_but_links_pcb:
  assumes "same_but_links s s'"
  shows "clear_links (pcbs s' a) = clear_links (pcbs s a)"
  using assms by (simp add: same_but_links_def fun_eq_iff)

lemma same_but_linksD:
  assumes "same_but_links s s'"
  shows "nr_running s' = nr_running s" "total_weight s' = total_weight s"
    "sched_current s' = sched_current s" "clock s' = clock s" "sched_lock s' = sched_lock s"
    "key s' = key s" "stat (pcbs s' a) = stat (pcbs s a)"
    "weight (se (pcbs s' a)) = weight (se (pcbs s a))"
proof -
  from assms have "s'\<lparr>pcbs := pcbs s, rb_root := rb_root s, leftmost := leftmost s,
        min_vruntime := min_vruntime s\<rparr> = s"
    by (simp add: same_but_links_def)
  then show "nr_running s' = nr_running s" "total_weight s' = total_weight s"
    "sched_current s' = sched_current s" "clock s' = clock s" "sched_lock s' = sched_lock s"
    by (cases s, cases s', simp)+
  show "key s' = key s" "stat (pcbs s' a) = stat (pcbs s a)"
    "weight (se (pcbs s' a)) = weight (se (pcbs s a))"
    using clear_links_eqD [OF same_but_links_pcb [OF assms]] by (simp_all add: key_def fun_eq_iff)
qed

end
