(* ===== verification/RbTree.thy ===== *)
theory RbTree
  imports TaskTypes
begin

text \<open>
  The red-black tree of \<^verbatim>\<open>src/task/rbtree.cc\<close>, operation by operation: colour helpers,
  rotations, insertion with its colour fix-up, node replacement and erasure with its colour
  fix-up.  Pointers are followed in the store of control blocks, every assignment of the
  source is one store update, and the loops are instances of \<open>loop\<close>.
\<close>

section \<open>Colour helpers\<close>

definition RbSetRed :: "ptr \<Rightarrow> 'a Sched_scheme \<Rightarrow> 'a Sched_scheme" where
  "RbSetRed node s = (case node of None \<Rightarrow> s | Some n \<Rightarrow> set_red n True s)"

definition RbSetBlack :: "ptr \<Rightarrow> 'a Sched_scheme \<Rightarrow> 'a Sched_scheme" where
  "RbSetBlack node s = (case node of None \<Rightarrow> s | Some n \<Rightarrow> set_red n False s)"

definition RbIsRed :: "'a Sched_scheme \<Rightarrow> ptr \<Rightarrow> bool" where
  "RbIsRed s node = (case node of None \<Rightarrow> False | Some n \<Rightarrow> red s n)"

definition RbSetParent :: "ptr \<Rightarrow> ptr \<Rightarrow> 'a Sched_scheme \<Rightarrow> 'a Sched_scheme" where
  "RbSetParent node p s = (case node of None \<Rightarrow> s | Some n \<Rightarrow> set_par n p s)"

section \<open>Rotations\<close>

definition RbLeftRotate :: "ptr \<Rightarrow> 'a Sched_scheme \<Rightarrow> 'a Sched_scheme" where
  "RbLeftRotate xp s =
     (case xp of None \<Rightarrow> s | Some x \<Rightarrow>
     (case rgt s x of None \<Rightarrow> s | Some y \<Rightarrow>
       if y = x then s else
       let s1 = set_rgt x (lft s y) s;
           s2 = (case lft s1 y of None \<Rightarrow> s1 | Some b \<Rightarrow> set_par b (Some x) s1);
           s3 = set_par y (par s2 x) s2;
           s4 = (case par s3 x of
                   None \<Rightarrow> s3\<lparr>rb_root := Some y\<rparr>
                 | Some q \<Rightarrow> if Some x = lft s3 q then set_lft q (Some y) s3
                             else set_rgt q (Some y) s3);
           s5 = set_lft y (Some x) s4
       in set_par x (Some y) s5))"

definition RbRightRotate :: "ptr \<Rightarrow> 'a Sched_scheme \<Rightarrow> 'a Sched_scheme" where
  "RbRightRotate yp s =
     (case yp of None \<Rightarrow> s | Some y \<Rightarrow>
     (case lft s y of None \<Rightarrow> s | Some x \<Rightarrow>
       if x = y then s else
       let s1 = set_lft y (rgt s x) s;
           s2 = (case rgt s1 x of None \<Rightarrow> s1 | Some b \<Rightarrow> set_par b (Some y) s1);
           s3 = set_par x (par s2 y) s2;
           s4 = (case par s3 y of
                   None \<Rightarrow> s3\<lparr>rb_root := Some x\<rparr>
                 | Some q \<Rightarrow> if Some y = rgt s3 q then set_rgt q (Some x) s3
                             else set_lft q (Some x) s3);
           s5 = set_rgt x (Some y) s4
       in set_par y (Some x) s5))"

section \<open>Colour fix-up after insertion\<close>

text \<open>One round of the \<^verbatim>\<open>while\<close> loop; the loop state is the variable \<^verbatim>\<open>node\<close> and the store.\<close>

definition insert_fixup_body ::
  "ptr \<times> 'a Sched_scheme \<Rightarrow> (ptr \<times> 'a Sched_scheme, 'a Sched_scheme) step option" where
  "insert_fixup_body = (\<lambda>(node, s).
     case node of None \<Rightarrow> Some (Done s) | Some n \<Rightarrow>
     (case par s n of None \<Rightarrow> Some (Done s) | Some p \<Rightarrow>
     if \<not> red s p then Some (Done s) else
     (case par s p of None \<Rightarrow> Some (Done s) | Some g \<Rightarrow>
     if p = n \<or> g = p \<or> g = n then Some (Done s) else
     if Some p = lft s g then
       let uncle = rgt s g in
       if RbIsRed s uncle then
         Some (Next (Some g, RbSetRed (Some g) (RbSetBlack uncle (RbSetBlack (Some p) s))))
       else
         let (node', p', s1) =
               (if Some n = rgt s p
                then let s1 = RbLeftRotate (Some p) s in (Some p, par s1 p, s1)
                else (Some n, Some p, s))
         in Some (Next (node', RbRightRotate (Some g) (RbSetRed (Some g) (RbSetBlack p' s1))))
     else
       let uncle = lft s g in
       if RbIsRed s uncle then
         Some (Next (Some g, RbSetRed (Some g) (RbSetBlack uncle (RbSetBlack (Some p) s))))
       else
         let (node', p', s1) =
               (if Some n = lft s p
                then let s1 = RbRightRotate (Some p) s in (Some p, par s1 p, s1)
                else (Some n, Some p, s))
         in Some (Next (node', RbLeftRotate (Some g) (RbSetRed (Some g) (RbSetBlack p' s1)))))))"

definition RbInsertColorFixup :: "ptr \<Rightarrow> 'a Sched_scheme \<Rightarrow> 'a Sched_scheme option" where
  "RbInsertColorFixup node s = do {
     s1 \<leftarrow> loop insert_fixup_body (node, s);
     Some (if rb_root s1 \<noteq> None then RbSetBlack (rb_root s1) s1 else s1) }"

section \<open>Insertion\<close>

definition RbInitNode :: "ptr \<Rightarrow> 'a Sched_scheme \<Rightarrow> 'a Sched_scheme" where
  "RbInitNode node s = (case node of None \<Rightarrow> s
     | Some n \<Rightarrow> set_red n True (set_par n None (set_rgt n None (set_lft n None s))))"

text \<open>The search for the insertion point: \<^verbatim>\<open>x\<close> descends, \<^verbatim>\<open>y\<close> trails one step behind.\<close>

definition descend_body :: "'a Sched_scheme \<Rightarrow> u64 \<Rightarrow> ptr \<times> ptr \<Rightarrow> (ptr \<times> ptr, ptr) step option" where
  "descend_body s k = (\<lambda>(y, x).
     case x of None \<Rightarrow> Some (Done y)
     | Some a \<Rightarrow> Some (Next (Some a, if k < key s a then lft s a else rgt s a)))"

text \<open>\<^verbatim>\<open>while (leftmost->se.rb_left) leftmost = leftmost->se.rb_left;\<close>\<close>

definition leftmost_body :: "'a Sched_scheme \<Rightarrow> addr \<Rightarrow> (addr, addr) step option" where
  "leftmost_body s a = (case lft s a of None \<Rightarrow> Some (Done a) | Some b \<Rightarrow> Some (Next b))"

definition RbInsert :: "ptr \<Rightarrow> 'a Sched_scheme \<Rightarrow> 'a Sched_scheme option" where
  "RbInsert node s0 = (case node of None \<Rightarrow> Some s0 | Some n \<Rightarrow> do {
     let s = RbInitNode (Some n) s0;
     y \<leftarrow> loop (descend_body s (key s n)) (None, rb_root s);
     let s1 = set_par n y s;
     let s2 = (case y of
                 None \<Rightarrow> RbSetBlack (Some n) (s1\<lparr>rb_root := Some n\<rparr>)
               | Some b \<Rightarrow> if key s1 n < key s1 b then set_lft b (Some n) s1
                           else set_rgt b (Some n) s1);
     s3 \<leftarrow> (case par s2 n of
              None \<Rightarrow> Some (s2\<lparr>leftmost := Some n\<rparr>)
            | Some p \<Rightarrow> if par s2 p \<noteq> None then RbInsertColorFixup (Some n) s2 else Some s2);
     (case rb_root s3 of
        None \<Rightarrow> Some s3
      | Some r \<Rightarrow> do {
          m \<leftarrow> loop (leftmost_body s3) r;
          Some (s3\<lparr>leftmost := Some m, min_vruntime := key s3 m\<rparr>) }) })"

section \<open>Erasure\<close>

definition RbReplaceNode :: "addr \<Rightarrow> ptr \<Rightarrow> 'a Sched_scheme \<Rightarrow> 'a Sched_scheme" where
  "RbReplaceNode u v s =
     (let s1 = (case par s u of
                  None \<Rightarrow> s\<lparr>rb_root := v\<rparr>
                | Some q \<Rightarrow> if Some u = lft s q then set_lft q v s else set_rgt q v s)
      in case v of None \<Rightarrow> s1 | Some w \<Rightarrow> set_par w (par s1 u) s1)"

text \<open>
  One round of the erase fix-up.  After the first rotation the sibling is read again and then
  dereferenced: a null sibling there is a null dereference, so the round has no result.
\<close>

definition erase_fixup_body ::
  "ptr \<times> ptr \<times> 'a Sched_scheme \<Rightarrow> (ptr \<times> ptr \<times> 'a Sched_scheme, ptr \<times> 'a Sched_scheme) step option" where
  "erase_fixup_body = (\<lambda>(node, prnt, s).
     case prnt of None \<Rightarrow> Some (Done (node, s)) | Some p \<Rightarrow>
     if \<not> (node \<noteq> rb_root s \<and> (node = None \<or> \<not> RbIsRed s node)) then Some (Done (node, s)) else
     if node = lft s p then
       (case rgt s p of None \<Rightarrow> Some (Done (node, s)) | Some sib0 \<Rightarrow> do {
         let s1 = (if red s sib0
                   then RbLeftRotate (Some p) (RbSetRed (Some p) (RbSetBlack (Some sib0) s)) else s);
         sib \<leftarrow> (if red s sib0 then rgt s1 p else Some sib0);
         if (lft s1 sib = None \<or> \<not> RbIsRed s1 (lft s1 sib)) \<and>
            (rgt s1 sib = None \<or> \<not> RbIsRed s1 (rgt s1 sib)) then
           let s2 = RbSetRed (Some sib) s1 in Some (Next (Some p, par s2 p, s2))
         else do {
           let inner = (rgt s1 sib = None \<or> \<not> RbIsRed s1 (rgt s1 sib));
           let s2 = (if inner
                     then RbRightRotate (Some sib) (RbSetRed (Some sib) (RbSetBlack (lft s1 sib) s1))
                     else s1);
           sib2 \<leftarrow> (if inner then rgt s2 p else Some sib);
           let s3 = RbLeftRotate (Some p) (RbSetRed (Some p) (RbSetBlack (rgt s2 sib2) s2));
           Some (Done (rb_root s3, s3)) } })
     else
       (case lft s p of None \<Rightarrow> Some (Done (node, s)) | Some sib0 \<Rightarrow> do {
         let s1 = (if red s sib0
                   then RbRightRotate (Some p) (RbSetRed (Some p) (RbSetBlack (Some sib0) s)) else s);
         sib \<leftarrow> (if red s sib0 then lft s1 p else Some sib0);
         if (rgt s1 sib = None \<or> \<not> RbIsRed s1 (rgt s1 sib)) \<and>
            (lft s1 sib = None \<or> \<not> RbIsRed s1 (lft s1 sib)) then
           let s2 = RbSetRed (Some sib) s1 in Some (Next (Some p, par s2 p, s2))
         else do {
           let inner = (lft s1 sib = None \<or> \<not> RbIsRed s1 (lft s1 sib));
           let s2 = (if inner
                     then RbLeftRotate (Some sib) (RbSetRed (Some sib) (RbSetBlack (rgt s1 sib) s1))
                     else s1);
           sib2 \<leftarrow> (if inner then lft s2 p else Some sib);
           let s3 = RbRightRotate (Some p) (RbSetRed (Some p) (RbSetBlack (lft s2 sib2) s2));
           Some (Done (rb_root s3, s3)) } }))"

definition RbEraseColorFixup :: "ptr \<Rightarrow> ptr \<Rightarrow> 'a Sched_scheme \<Rightarrow> 'a Sched_scheme option" where
  "RbEraseColorFixup node prnt s = do {
     (node', s1) \<leftarrow> loop erase_fixup_body (node, prnt, s);
     Some (if node' \<noteq> None then RbSetBlack node' s1 else s1) }"

text \<open>
  With two children, the successor \<^verbatim>\<open>y\<close> is first taken out of the right subtree: its right child
  \<^verbatim>\<open>x\<close> moves up, and \<^verbatim>\<open>y\<close> takes over what remains of that subtree.
\<close>

definition detach :: "addr \<Rightarrow> addr \<Rightarrow> 'a Sched_scheme \<Rightarrow> 'a Sched_scheme" where
  "detach n y s = (let x = rgt s y;
       s1 = (if x \<noteq> None then RbSetParent x (Some y) s else s)
     in if par s1 y = Some n
        then (if x \<noteq> None then RbSetParent x (Some y) s1 else s1)
        else let s2 = RbReplaceNode y x s1;
                 s3 = set_rgt y (rgt s2 n) s2
             in RbSetParent (rgt s3 n) (Some y) s3)"

text \<open>
  Unlinking the node: the three cases of the source.  The result is the node \<^verbatim>\<open>x\<close> that took
  the free place, the value of \<^verbatim>\<open>x_parent\<close>, the colour the removed position had, and the store.
\<close>

definition erase_unlink :: "addr \<Rightarrow> 'a Sched_scheme \<Rightarrow> (ptr \<times> ptr \<times> bool \<times> 'a Sched_scheme) option" where
  "erase_unlink n s =
     (if lft s n = None then
        Some (rgt s n, par s n, red s n, RbReplaceNode n (rgt s n) s)
      else if rgt s n = None then
        Some (lft s n, par s n, red s n, RbReplaceNode n (lft s n) s)
      else do {
        r \<leftarrow> rgt s n;
        y \<leftarrow> loop (leftmost_body s) r;
        let x = rgt s y;
        let y_red = red s y;
        let s4 = detach n y s;
        let s5 = RbReplaceNode n (Some y) s4;
        let s6 = set_lft y (lft s5 n) s5;
        let s7 = RbSetParent (lft s6 n) (Some y) s6;
        let s8 = RbSetBlack (Some y) s7;
        Some (x, Some y, y_red, set_red y (red s8 n) s8) })"

definition RbErase :: "ptr \<Rightarrow> 'a Sched_scheme \<Rightarrow> 'a Sched_scheme option" where
  "RbErase node s = (case node of None \<Rightarrow> Some s | Some n \<Rightarrow> do {
     (x, x_parent, y_red, s1) \<leftarrow> erase_unlink n s;
     s2 \<leftarrow> (if x \<noteq> None \<and> \<not> y_red then RbEraseColorFixup x x_parent s1 else Some s1);
     s3 \<leftarrow> (case rb_root s2 of
              None \<Rightarrow> Some (s2\<lparr>leftmost := None\<rparr>)
            | Some r \<Rightarrow> do { m \<leftarrow> loop (leftmost_body s2) r; Some (s2\<lparr>leftmost := Some m\<rparr>) });
     Some (case leftmost s3 of
             None \<Rightarrow> s3\<lparr>min_vruntime := 0\<rparr>
           | Some m \<Rightarrow> s3\<lparr>min_vruntime := key s3 m\<rparr>) })"

end
