(* ===== verification/RbShape.thy ===== *)
theory RbShape
  imports RbTree
begin

text \<open>
  What the pointer structure of the run queue stands for.  \<open>rep s p q t\<close> says that in the
  store of \<open>s\<close> the pointer \<open>p\<close> is the root of the tree \<open>t\<close> of addresses and that the parent
  pointer of that root is \<open>q\<close>.  A context is a path of frames from a hole up to the root, and
  \<open>repc\<close> is its representation, so that an operation at a node deep in the tree is reasoned
  about locally: the rotation lemma rewrites the tree in the hole and leaves the context alone.
  Frames carry a direction, so each mirrored pair of cases of the source is one case here.
\<close>

section \<open>Directions\<close>

datatype dir = L | R

fun opp :: "dir \<Rightarrow> dir" where
  "opp L = R"
| "opp R = L"

lemma opp_opp [simp]: "opp (opp d) = d"
  by (cases d) auto

lemma opp_neq [simp]: "opp d \<noteq> d" "d \<noteq> opp d"
  by (cases d; auto)+

text \<open>\<open>mk d t a u\<close>: the node \<open>a\<close> with \<open>t\<close> on side \<open>d\<close> and \<open>u\<close> on the other side.\<close>

fun mk :: "dir \<Rightarrow> addr tree \<Rightarrow> addr \<Rightarrow> addr tree \<Rightarrow> addr tree" where
  "mk L t a u = Node t a u"
| "mk R t a u = Node u a t"

lemma mk_opp: "mk (opp d) t a u = mk d u a t"
  by (cases d) auto

lemma set_tree_mk [simp]: "set_tree (mk d t a u) = insert a (set_tree t \<union> set_tree u)"
  by (cases d) auto

lemma mk_neq_Leaf [simp]: "mk d t a u \<noteq> Leaf" "Leaf \<noteq> mk d t a u"
  by (cases d; auto)+

lemma distinct_mk [simp]:
  "distinct (inorder (mk d t a u)) \<longleftrightarrow> a \<notin> set_tree t \<and> a \<notin> set_tree u \<and>
     set_tree t \<inter> set_tree u = {} \<and> distinct (inorder t) \<and> distinct (inorder u)"
  by (cases d) auto

lemma inorder_mk_rot: "inorder (mk d (mk d a x b) y e) = inorder (mk d a x (mk d b y e))"
  by (cases d) auto

lemma Node_mk: "Node l a r = mk L l a r"
  by simp

definition child :: "'a Sched_scheme \<Rightarrow> dir \<Rightarrow> addr \<Rightarrow> ptr" where
  "child s d a = (case d of L \<Rightarrow> lft s a | R \<Rightarrow> rgt s a)"

definition set_child :: "dir \<Rightarrow> addr \<Rightarrow> ptr \<Rightarrow> 'a Sched_scheme \<Rightarrow> 'a Sched_scheme" where
  "set_child d a v s = (case d of L \<Rightarrow> set_lft a v s | R \<Rightarrow> set_rgt a v s)"

lemma child_simps [simp]: "child s L a = lft s a" "child s R a = rgt s a"
  by (simp_all add: child_def)

lemma child_set [heap_simps]:
  "child (set_child d a v s) d' b = (if d' = d \<and> b = a then v else child s d' b)"
  "child (set_par a v s) d b = child s d b"
  "child (set_red a c s) d b = child s d b"
  "child (s\<lparr>rb_root := r\<rparr>) d b = child s d b"
  "par (set_child d a v s) b = par s b"
  "red (set_child d a v s) b = red s b"
  "rb_root (set_child d a v s) = rb_root s"
  by (cases d; cases d'; simp add: set_child_def heap_simps)
    (cases d; simp add: set_child_def heap_simps)+

section \<open>Trees and contexts in the store\<close>

type_synonym ctx = "(dir \<times> addr \<times> addr tree) list"

fun plug :: "ctx \<Rightarrow> addr tree \<Rightarrow> addr tree" where
  "plug [] t = t"
| "plug ((d, a, u) # c) t = plug c (mk d t a u)"

fun cset :: "ctx \<Rightarrow> addr set" where
  "cset [] = {}"
| "cset ((d, a, u) # c) = insert a (set_tree u \<union> cset c)"

fun dctx :: "ctx \<Rightarrow> bool" where
  "dctx [] \<longleftrightarrow> True"
| "dctx ((d, a, u) # c) \<longleftrightarrow> a \<notin> set_tree u \<and> a \<notin> cset c \<and> set_tree u \<inter> cset c = {} \<and>
     distinct (inorder u) \<and> dctx c"

lemma distinct_plug:
  "distinct (inorder (plug c t)) \<longleftrightarrow> dctx c \<and> distinct (inorder t) \<and> set_tree t \<inter> cset c = {}"
  by (induction c t rule: plug.induct) auto

lemma set_tree_plug: "set_tree (plug c t) = set_tree t \<union> cset c"
  by (induction c t rule: plug.induct) auto

lemma inorder_plug_eq: "\<exists>xs ys. \<forall>t. inorder (plug c t) = xs @ inorder t @ ys"
proof (induction c)
  case Nil
  have "\<forall>t. inorder (plug [] t) = [] @ inorder t @ []" by simp
  then show ?case by blast
next
  case (Cons f c)
  obtain d a u where f: "f = (d, a, u)" by (cases f)
  from Cons obtain xs ys where IH: "\<And>t. inorder (plug c t) = xs @ inorder t @ ys" by blast
  have "\<forall>t. inorder (plug (f # c) t) =
      (xs @ (case d of L \<Rightarrow> [] | R \<Rightarrow> inorder u @ [a])) @ inorder t @
      ((case d of L \<Rightarrow> a # inorder u | R \<Rightarrow> []) @ ys)"
    by (cases d) (simp_all add: f IH)
  then show ?case by blast
qed

lemma inorder_plug_cong: "inorder t = inorder t' \<Longrightarrow> inorder (plug c t) = inorder (plug c t')"
  using inorder_plug_eq [of c] by auto

fun rep :: "'a Sched_scheme \<Rightarrow> ptr \<Rightarrow> ptr \<Rightarrow> addr tree \<Rightarrow> bool" where
  "rep s p q Leaf \<longleftrightarrow> p = None"
| "rep s p q (Node l a r) \<longleftrightarrow>
     p = Some a \<and> par s a = q \<and> rep s (lft s a) (Some a) l \<and> rep s (rgt s a) (Some a) r"

fun repc :: "'a Sched_scheme \<Rightarrow> ctx \<Rightarrow> ptr \<Rightarrow> ptr \<Rightarrow> bool" where
  "repc s [] p q \<longleftrightarrow> rb_root s = p \<and> q = None"
| "repc s ((d, a, u) # c) p q \<longleftrightarrow>
     q = Some a \<and> child s d a = p \<and> rep s (child s (opp d) a) (Some a) u \<and>
     repc s c (Some a) (par s a)"

text \<open>The whole queue: the tree hangs off \<^verbatim>\<open>rb_root\<close> and no block occurs twice.\<close>

definition rb_tree :: "'a Sched_scheme \<Rightarrow> addr tree \<Rightarrow> bool" where
  "rb_tree s t \<longleftrightarrow> rep s (rb_root s) None t \<and> distinct (inorder t)"

lemma rep_mk [simp]:
  "rep s p q (mk d t a u) \<longleftrightarrow> p = Some a \<and> par s a = q \<and>
     rep s (child s d a) (Some a) t \<and> rep s (child s (opp d) a) (Some a) u"
  by (cases d) auto

lemma rep_plug: "rep s (rb_root s) None (plug c t) \<longleftrightarrow> (\<exists>p q. repc s c p q \<and> rep s p q t)"
  by (induction c t rule: plug.induct) auto

lemma rb_tree_plug:
  "rb_tree s (plug c t) \<longleftrightarrow> (\<exists>p q. repc s c p q \<and> rep s p q t) \<and>
     dctx c \<and> distinct (inorder t) \<and> set_tree t \<inter> cset c = {}"
  by (simp add: rb_tree_def rep_plug distinct_plug)

lemma rep_Some_mem: "rep s (Some a) q t \<Longrightarrow> a \<in> set_tree t"
  by (cases t) auto

lemma rep_None [simp]: "rep s None q t \<longleftrightarrow> t = Leaf"
  by (cases t) auto

lemma rep_Leaf_iff: "rep s p q t \<Longrightarrow> (p = None) = (t = Leaf)"
  by (cases t) auto

lemma rep_SomeE:
  assumes "rep s (Some a) q t"
  obtains l r where "t = mk d l a r" "par s a = q" "rep s (child s d a) (Some a) l"
    "rep s (child s (opp d) a) (Some a) r"
  using assms by (cases t; cases d) auto

lemma rep_cong:
  assumes "\<And>a. a \<in> set_tree t \<Longrightarrow> lft s' a = lft s a \<and> rgt s' a = rgt s a \<and> par s' a = par s a"
  shows "rep s' p q t = rep s p q t"
  using assms by (induction t arbitrary: p q) auto

lemma repc_cong:
  assumes "\<And>a. a \<in> cset c \<Longrightarrow> lft s' a = lft s a \<and> rgt s' a = rgt s a \<and> par s' a = par s a"
    and "rb_root s' = rb_root s"
  shows "repc s' c p q = repc s c p q"
  using assms
proof (induction c arbitrary: p q)
  case (Cons f c)
  obtain d a u where f: "f = (d, a, u)" by (cases f)
  have "child s' e a = child s e a" for e using Cons.prems(1) f by (cases e) auto
  moreover have "rep s' p q u = rep s p q u" for p q
    by (rule rep_cong) (simp add: Cons.prems f)
  moreover have "par s' a = par s a" using Cons.prems(1) f by simp
  moreover have "repc s' c p q = repc s c p q" for p q
    using Cons.IH Cons.prems f by simp
  ultimately show ?case by (simp add: f)
qed (simp add: assms)

lemma rep_set [simp]:
  "a \<notin> set_tree t \<Longrightarrow> rep (set_lft a v s) p q t = rep s p q t"
  "a \<notin> set_tree t \<Longrightarrow> rep (set_rgt a v s) p q t = rep s p q t"
  "a \<notin> set_tree t \<Longrightarrow> rep (set_child d a v s) p q t = rep s p q t"
  "a \<notin> set_tree t \<Longrightarrow> rep (set_par a v s) p q t = rep s p q t"
  "rep (set_red a c s) p q t = rep s p q t"
  "rep (s\<lparr>rb_root := r\<rparr>) p q t = rep s p q t"
  "rep (s\<lparr>leftmost := r\<rparr>) p q t = rep s p q t"
  "rep (s\<lparr>min_vruntime := m\<rparr>) p q t = rep s p q t"
  by (rule rep_cong; auto simp: heap_simps set_child_def split: dir.splits)+

lemma repc_set [simp]:
  "a \<notin> cset k \<Longrightarrow> repc (set_lft a v s) k p q = repc s k p q"
  "a \<notin> cset k \<Longrightarrow> repc (set_rgt a v s) k p q = repc s k p q"
  "a \<notin> cset k \<Longrightarrow> repc (set_child d a v s) k p q = repc s k p q"
  "a \<notin> cset k \<Longrightarrow> repc (set_par a v s) k p q = repc s k p q"
  "repc (set_red a c s) k p q = repc s k p q"
  "repc (s\<lparr>leftmost := r\<rparr>) k p q = repc s k p q"
  "repc (s\<lparr>min_vruntime := m\<rparr>) k p q = repc s k p q"
  by (rule repc_cong; auto simp: heap_simps set_child_def split: dir.splits)+

lemma rb_tree_set [simp]:
  "rb_tree (set_red a c s) t = rb_tree s t"
  "rb_tree (s\<lparr>leftmost := r\<rparr>) t = rb_tree s t"
  "rb_tree (s\<lparr>min_vruntime := m\<rparr>) t = rb_tree s t"
  by (simp_all add: rb_tree_def heap_simps)

text \<open>Two trees represented by the same pointer are equal.\<close>

lemma rep_unique: "rep s p q t \<Longrightarrow> rep s p q t' \<Longrightarrow> t = t'"
proof (induction t arbitrary: p q t')
  case (Node l a r)
  then show ?case by (cases t') auto
qed auto

section \<open>Rotations\<close>

definition rot :: "dir \<Rightarrow> addr \<Rightarrow> 'a Sched_scheme \<Rightarrow> 'a Sched_scheme" where
  "rot d x s = (case d of L \<Rightarrow> RbLeftRotate (Some x) s | R \<Rightarrow> RbRightRotate (Some x) s)"

lemma RbRotate_frame [heap_simps]:
  "red (RbLeftRotate p s) = red s" "key (RbLeftRotate p s) = key s"
  "red (RbRightRotate p s) = red s" "key (RbRightRotate p s) = key s"
  by (auto simp: RbLeftRotate_def RbRightRotate_def Let_def heap_simps fun_eq_iff split: option.splits)

lemma rot_frame [heap_simps]: "red (rot d x s) = red s" "key (rot d x s) = key s"
  by (auto simp: rot_def heap_simps split: dir.splits)

lemma ctx_cases:
  obtains "c = []" | g u k where "c = (L, g, u) # k" | g u k where "c = (R, g, u) # k"
proof (cases c)
  case (Cons f k)
  obtain d g u where "f = (d, g, u)" by (cases f)
  with Cons that show ?thesis by (cases d) auto
qed (use that in blast)

lemma rot_rep_L:
  assumes "repc s c (Some x) q" "rep s (Some x) q (Node a x (Node b y e))"
    and "dctx c" "distinct (inorder (Node a x (Node b y e)))"
    and "set_tree (Node a x (Node b y e)) \<inter> cset c = {}"
  shows "repc (RbLeftRotate (Some x) s) c (Some y) q \<and>
    rep (RbLeftRotate (Some x) s) (Some y) q (Node (Node a x b) y e)"
proof -
  have np: "lft s g \<noteq> Some x" if "c = (R, g, u) # k" for u g k
    using that assms by (auto dest: rep_Some_mem)
  show ?thesis using assms np
    by (cases c rule: ctx_cases; cases b) (auto simp: RbLeftRotate_def Let_def heap_simps)
qed

lemma rot_rep_R:
  assumes "repc s c (Some y) q" "rep s (Some y) q (Node (Node a x b) y e)"
    and "dctx c" "distinct (inorder (Node (Node a x b) y e))"
    and "set_tree (Node (Node a x b) y e) \<inter> cset c = {}"
  shows "repc (RbRightRotate (Some y) s) c (Some x) q \<and>
    rep (RbRightRotate (Some y) s) (Some x) q (Node a x (Node b y e))"
proof -
  have np: "rgt s g \<noteq> Some y" if "c = (L, g, u) # k" for u g k
    using that assms by (auto dest: rep_Some_mem)
  show ?thesis using assms np
    by (cases c rule: ctx_cases; cases b) (auto simp: RbRightRotate_def Let_def heap_simps)
qed

text \<open>Both rotations as one rule: the lower of two nested nodes rises to the top.\<close>

lemma rot_rep:
  assumes "repc s c (Some x) q" "rep s (Some x) q (mk d a x (mk d b y e))"
    and "dctx c" "distinct (inorder (mk d a x (mk d b y e)))"
    and "set_tree (mk d a x (mk d b y e)) \<inter> cset c = {}"
  shows "repc (rot d x s) c (Some y) q \<and> rep (rot d x s) (Some y) q (mk d (mk d a x b) y e)"
proof (cases d)
  case L
  with assms rot_rep_L [of s c x q a b y e] show ?thesis by (simp add: rot_def)
next
  case R
  with assms rot_rep_R [of s c x q e y b a] show ?thesis by (simp add: rot_def Un_ac insert_commute)
qed

lemma same_but_links_trans':
  assumes "same_but_links s' s''" and "same_but_links s s'"
  shows "same_but_links s s''"
  using assms(2,1) by (rule same_but_links_trans)

lemma RbRotate_same [frame_simps, intro]:
  "same_but_links s (RbLeftRotate p s)" "same_but_links s (RbRightRotate p s)"
  by (auto simp: RbLeftRotate_def RbRightRotate_def Let_def split: option.splits
      intro!: same_but_links_trans' [OF same_but_links_set(1)] same_but_links_trans' [OF same_but_links_set(2)]
        same_but_links_trans' [OF same_but_links_set(3)] same_but_links_trans' [OF same_but_links_set(5)])

lemma rot_same [frame_simps, intro]: "same_but_links s (rot d x s)"
  by (cases d) (auto simp: rot_def)

lemma RbSet_same [frame_simps, intro]:
  "same_but_links s (RbSetRed p s)" "same_but_links s (RbSetBlack p s)"
  "same_but_links s (RbSetParent p v s)"
  by (auto simp: RbSetRed_def RbSetBlack_def RbSetParent_def split: option.splits)

lemmas links_intros = same_but_links_trans' [OF same_but_links_set(4)]
  same_but_links_trans' [OF rot_same] same_but_links_trans' [OF RbSet_same(1)]
  same_but_links_trans' [OF RbSet_same(2)]

end
