(* ===== verification/RbColour.thy ===== *)
theory RbColour
  imports RbShape
begin

text \<open>
  The red-black invariants of a tree under a colouring of the addresses, their counterpart
  for contexts, and the correctness of the insertion fix-up: it always terminates, never
  changes the in-order sequence, and repairs the one red-red edge it is started with.
\<close>

section \<open>Red-black invariants\<close>

type_synonym colouring = "addr \<Rightarrow> bool"

fun rootred :: "colouring \<Rightarrow> addr tree \<Rightarrow> bool" where
  "rootred col Leaf \<longleftrightarrow> False"
| "rootred col (Node l a r) \<longleftrightarrow> col a"

text \<open>
  \<open>rbh col t h\<close>: no red node has a red child, and every path to a leaf passes \<open>h\<close> black nodes.
\<close>

fun rbh :: "colouring \<Rightarrow> addr tree \<Rightarrow> nat \<Rightarrow> bool" where
  "rbh col Leaf h \<longleftrightarrow> h = 0"
| "rbh col (Node l a r) h \<longleftrightarrow>
     (if col a then \<not> rootred col l \<and> \<not> rootred col r \<and> rbh col l h \<and> rbh col r h
      else h \<noteq> 0 \<and> rbh col l (h - 1) \<and> rbh col r (h - 1))"

definition rbt_ok :: "colouring \<Rightarrow> addr tree \<Rightarrow> bool" where
  "rbt_ok col t \<longleftrightarrow> (\<exists>h. rbh col t h) \<and> \<not> rootred col t"

lemma rootred_mk [simp]: "rootred col (mk d t a u) = col a"
  by (cases d) auto

lemma rbh_mk [simp]:
  "rbh col (mk d t a u) h \<longleftrightarrow>
     (if col a then \<not> rootred col t \<and> \<not> rootred col u \<and> rbh col t h \<and> rbh col u h
      else h \<noteq> 0 \<and> rbh col t (h - 1) \<and> rbh col u (h - 1))"
  by (cases d) auto

text \<open>The frame above the hole, and what a context expects of a subtree of black height \<open>h\<close>.\<close>

fun parred :: "colouring \<Rightarrow> ctx \<Rightarrow> bool" where
  "parred col [] \<longleftrightarrow> False"
| "parred col ((d, a, u) # c) \<longleftrightarrow> col a"

fun cinv :: "colouring \<Rightarrow> ctx \<Rightarrow> nat \<Rightarrow> bool" where
  "cinv col [] h \<longleftrightarrow> True"
| "cinv col ((d, a, u) # c) h \<longleftrightarrow> rbh col u h \<and>
     (if col a then \<not> rootred col u \<and> \<not> parred col c \<and> cinv col c h else cinv col c (Suc h))"

lemma rootred_cong [simp]: "a \<notin> set_tree t \<Longrightarrow> rootred (col(a := b)) t = rootred col t"
  by (cases t) auto

lemma rbh_cong [simp]: "a \<notin> set_tree t \<Longrightarrow> rbh (col(a := b)) t h = rbh col t h"
  by (induction t arbitrary: h) auto

lemma parred_cong [simp]: "a \<notin> cset c \<Longrightarrow> parred (col(a := b)) c = parred col c"
  by (cases c) auto

lemma cinv_cong [simp]: "a \<notin> cset c \<Longrightarrow> cinv (col(a := b)) c h = cinv col c h"
  by (induction col c h rule: cinv.induct) auto

lemma plug_rbh:
  "rbh col t h \<Longrightarrow> cinv col c h \<Longrightarrow> (rootred col t \<longrightarrow> \<not> parred col c) \<Longrightarrow> \<exists>h'. rbh col (plug c t) h'"
proof (induction c t arbitrary: h rule: plug.induct)
  case (2 d a u c t)
  then show ?case by (cases "col a") (auto intro: "2.IH" [of h] "2.IH" [of "Suc h"])
qed auto

lemma rbh_plugD:
  "rbh col (plug c t) h' \<Longrightarrow> \<exists>h. rbh col t h \<and> cinv col c h \<and> (rootred col t \<longrightarrow> \<not> parred col c)"
proof (induction c t arbitrary: h' rule: plug.induct)
  case (2 d a u c t)
  from "2.IH" [OF "2.prems" [unfolded plug.simps]] obtain h where
    h: "rbh col (mk d t a u) h" "cinv col c h" "rootred col (mk d t a u) \<longrightarrow> \<not> parred col c" by blast
  show ?case
  proof (cases "col a")
    case True
    with h show ?thesis by (intro exI [of _ h]) auto
  next
    case False
    with h show ?thesis by (intro exI [of _ "h - 1"]) auto
  qed
qed auto

lemma red_set_fun [heap_simps]: "red (set_red a c s) = (red s)(a := c)"
  by (auto simp: heap_simps fun_eq_iff)

lemma RbIsRed_rep: "rep s p q t \<Longrightarrow> RbIsRed s p = rootred (red s) t"
  by (cases t) (auto simp: RbIsRed_def)

section \<open>One round of the insertion fix-up\<close>

text \<open>The loop body with the direction of the parent under the grandparent made explicit.\<close>

lemma insert_fixup_body_dir:
  assumes "par s n = Some p" "red s p" "par s p = Some g" "child s d g = Some p"
    "child s (opp d) g \<noteq> Some p" "p \<noteq> n" "g \<noteq> p" "g \<noteq> n"
  shows "insert_fixup_body (Some n, s) =
     (if RbIsRed s (child s (opp d) g) then
        Some (Next (Some g, RbSetRed (Some g) (RbSetBlack (child s (opp d) g) (RbSetBlack (Some p) s))))
      else if Some n = child s (opp d) p then
        let s1 = rot d p s in
        Some (Next (Some p, rot (opp d) g (RbSetRed (Some g) (RbSetBlack (par s1 p) s1))))
      else Some (Next (Some n, rot (opp d) g (RbSetRed (Some g) (RbSetBlack (Some p) s)))))"
  using assms by (cases d) (auto simp: insert_fixup_body_def rot_def Let_def)

text \<open>
  The invariant of the fix-up loop.  The ghost value is the context and the subtree of the
  variable \<^verbatim>\<open>node\<close>; with \<open>B\<close> set, the tree is red-black except for a red parent of a red node.
\<close>

definition fix_inv ::
  "bool \<Rightarrow> addr list \<Rightarrow> 'a Sched_scheme \<Rightarrow> ctx \<times> addr tree \<Rightarrow> ptr \<times> 'a Sched_scheme \<Rightarrow> bool" where
  "fix_inv B xs s0 = (\<lambda>(c, t) (node, s).
     node \<noteq> None \<and> (\<exists>q. repc s c node q \<and> rep s node q t) \<and>
     distinct xs \<and> inorder (plug c t) = xs \<and> same_but_links s0 s \<and>
     (B \<longrightarrow> rootred (red s) t \<and> (\<exists>h. cinv (red s) c h \<and> rbh (red s) t h)))"

lemma fix_invI:
  assumes "repc s c (Some n) q" "rep s (Some n) q t" "distinct xs"
    "inorder (plug c t) = xs" "same_but_links s0 s"
    "B \<Longrightarrow> rootred (red s) t \<and> (\<exists>h. cinv (red s) c h \<and> rbh (red s) t h)"
  shows "fix_inv B xs s0 (c, t) (Some n, s)"
  using assms by (auto simp: fix_inv_def)

lemma fix_invE:
  assumes "fix_inv B xs s0 (c, t) (node, s)"
  obtains n l r q where "node = Some n" "t = Node l n r" "repc s c (Some n) q" "rep s (Some n) q t"
    "dctx c" "distinct (inorder t)" "set_tree t \<inter> cset c = {}"
    "distinct xs" "inorder (plug c t) = xs" "same_but_links s0 s"
    "B \<Longrightarrow> rootred (red s) t \<and> (\<exists>h. cinv (red s) c h \<and> rbh (red s) t h)"
proof -
  from assms obtain n where n: "node = Some n" by (auto simp: fix_inv_def)
  from assms n obtain q where q: "repc s c (Some n) q" "rep s (Some n) q t"
    by (auto simp: fix_inv_def)
  then obtain l r where t: "t = Node l n r" by (cases t) auto
  have "distinct (inorder (plug c t))" using assms by (simp add: fix_inv_def)
  then have d: "dctx c" "distinct (inorder t)" "set_tree t \<inter> cset c = {}"
    by (simp_all add: distinct_plug)
  show thesis
    by (rule that [OF n t q d]) (use assms in \<open>simp_all add: fix_inv_def\<close>)
qed

text \<open>The three cases of the source: recolour, rotate the outer grandchild, rotate the inner one.\<close>

lemma fix_recolour:
  assumes I: "fix_inv B xs s0 ((d', p, sb) # (d, g, u) # k, t) (node, s)"
    and p: "red s p" and u: "rootred (red s) u"
  shows "\<exists>s'. insert_fixup_body (node, s) = Some (Next (Some g, s')) \<and>
    fix_inv B xs s0 (k, mk d (mk d' t p sb) g u) (Some g, s')"
  using I
proof (rule fix_invE)
  fix n l r q
  assume F: "node = Some n" "t = Node l n r" "repc s ((d', p, sb) # (d, g, u) # k) (Some n) q"
    "rep s (Some n) q t" "dctx ((d', p, sb) # (d, g, u) # k)" "distinct (inorder t)"
    "set_tree t \<inter> cset ((d', p, sb) # (d, g, u) # k) = {}" "distinct xs"
    "inorder (plug ((d', p, sb) # (d, g, u) # k) t) = xs" "same_but_links s0 s"
    "B \<Longrightarrow> rootred (red s) t \<and> (\<exists>h. cinv (red s) ((d', p, sb) # (d, g, u) # k) h \<and> rbh (red s) t h)"
  obtain ul a ur where u': "u = mk L ul a ur" using u by (cases u) auto
  have ca: "child s (opp d) g = Some a" using F(3) u' by simp
  let ?s' = "set_red g True (set_red a False (set_red p False s))"
  have "insert_fixup_body (Some n, s) = Some (Next (Some g, ?s'))"
    using F(2-7) p u u' ca
    by (subst insert_fixup_body_dir [where d = d and p = p and g = g])
      (auto simp: RbIsRed_def RbSetRed_def RbSetBlack_def)
  moreover have "fix_inv B xs s0 (k, mk d (mk d' t p sb) g u) (Some g, ?s')"
  proof (rule fix_invI)
    show "repc ?s' k (Some g) (par s g)" "rep ?s' (Some g) (par s g) (mk d (mk d' t p sb) g u)"
      using F(3,4) by (simp_all add: heap_simps)
    show "rootred (red ?s') (mk d (mk d' t p sb) g u) \<and>
      (\<exists>h. cinv (red ?s') k h \<and> rbh (red ?s') (mk d (mk d' t p sb) g u) h)" if B
    proof -
      from F(11) [OF that] obtain h where
        h: "cinv (red s) ((d', p, sb) # (d, g, u) # k) h" "rbh (red s) t h" by blast
      moreover have "g \<notin> set_tree (mk d' t p sb)" "g \<notin> set_tree u" "g \<notin> cset k"
        "a \<notin> set_tree (mk d' t p sb)" "a \<notin> set_tree ul" "a \<notin> set_tree ur" "a \<notin> cset k"
        "p \<notin> set_tree t" "p \<notin> set_tree sb" "p \<notin> set_tree u" "p \<notin> cset k"
        using F(5-7) u' by auto
      ultimately have "cinv (red ?s') k (Suc h) \<and> rbh (red ?s') (mk d (mk d' t p sb) g u) (Suc h)"
        using p u u' by (auto simp: red_set_fun)
      then show ?thesis by (auto simp: red_set_fun)
    qed
  qed (use F in \<open>auto intro!: links_intros\<close>)
  ultimately show ?thesis using F(1) by blast
qed

lemma fix_outer:
  assumes I: "fix_inv B xs s0 ((d, p, sb) # (d, g, u) # k, t) (node, s)"
    and p: "red s p" and u: "\<not> rootred (red s) u"
  shows "\<exists>s'. insert_fixup_body (node, s) = Some (Next (node, s')) \<and>
    fix_inv B xs s0 ((d, p, mk d sb g u) # k, t) (node, s') \<and> \<not> red s' p"
  using I
proof (rule fix_invE)
  fix n l r q
  assume F: "node = Some n" "t = Node l n r" "repc s ((d, p, sb) # (d, g, u) # k) (Some n) q"
    "rep s (Some n) q t" "dctx ((d, p, sb) # (d, g, u) # k)" "distinct (inorder t)"
    "set_tree t \<inter> cset ((d, p, sb) # (d, g, u) # k) = {}" "distinct xs"
    "inorder (plug ((d, p, sb) # (d, g, u) # k) t) = xs" "same_but_links s0 s"
    "B \<Longrightarrow> rootred (red s) t \<and> (\<exists>h. cinv (red s) ((d, p, sb) # (d, g, u) # k) h \<and> rbh (red s) t h)"
  have dis: "g \<notin> set_tree t" "g \<notin> set_tree u" "g \<notin> set_tree sb" "g \<notin> cset k" "p \<noteq> g"
      "p \<notin> set_tree t" "p \<notin> set_tree sb" "p \<notin> set_tree u" "p \<notin> cset k" "n \<noteq> p" "n \<noteq> g"
    using F(2,5-7) by auto
  have ur: "RbIsRed s (child s (opp d) g) = rootred (red s) u"
    using F(3) RbIsRed_rep [of s "child s (opp d) g" "Some g" u] by simp
  have nsib: "child s (opp d) p \<noteq> Some n" "child s (opp d) g \<noteq> Some p"
    using F(2,3,5,7) by (auto dest: rep_Some_mem)
  let ?s1 = "set_red g True (set_red p False s)" and ?s' = "rot (opp d) g (set_red g True (set_red p False s))"
  have body: "insert_fixup_body (Some n, s) = Some (Next (Some n, ?s'))"
    using F(2-4) p u ur nsib dis
    by (subst insert_fixup_body_dir [where d = d and p = p and g = g])
      (auto simp: RbSetRed_def RbSetBlack_def)
  have "repc ?s' k (Some p) (par s g) \<and> rep ?s' (Some p) (par s g) (mk (opp d) (mk (opp d) u g sb) p t)"
    by (rule rot_rep) (use F in \<open>auto simp: heap_simps mk_opp\<close>)
  then have R: "repc ?s' ((d, p, mk d sb g u) # k) (Some n) (Some p)" "rep ?s' (Some n) (Some p) t"
    using F(2) by (auto simp: mk_opp)
  have "fix_inv B xs s0 ((d, p, mk d sb g u) # k, t) (Some n, ?s')"
  proof (rule fix_invI [OF R])
    show "rootred (red ?s') t \<and>
      (\<exists>h. cinv (red ?s') ((d, p, mk d sb g u) # k) h \<and> rbh (red ?s') t h)" if B
    proof -
      from F(11) [OF that] obtain h where
        h: "rootred (red s) t" "cinv (red s) ((d, p, sb) # (d, g, u) # k) h" "rbh (red s) t h" by blast
      then have "cinv (red ?s') ((d, p, mk d sb g u) # k) h \<and> rbh (red ?s') t h \<and> rootred (red ?s') t"
        using p u dis by (auto simp: heap_simps red_set_fun)
      then show ?thesis by blast
    qed
    show "inorder (plug ((d, p, mk d sb g u) # k) t) = xs"
      using F(9) inorder_plug_cong [OF inorder_mk_rot] by simp
  qed (use F in \<open>auto intro!: links_intros\<close>)
  moreover have "\<not> red ?s' p" using dis by (simp add: heap_simps)
  ultimately show ?thesis using F(1) body by blast
qed

lemma fix_inner:
  assumes I: "fix_inv B xs s0 ((opp d, p, sb) # (d, g, u) # k, mk d nl n nr) (node, s)"
    and p: "red s p" and u: "\<not> rootred (red s) u"
  shows "\<exists>s'. insert_fixup_body (node, s) = Some (Next (Some p, s')) \<and>
    fix_inv B xs s0 ((d, n, mk d nr g u) # k, mk d sb p nl) (Some p, s') \<and> \<not> red s' n"
  using I
proof (rule fix_invE)
  fix n' l r q
  let ?c = "(opp d, p, sb) # (d, g, u) # k" and ?t = "mk d nl n nr"
  assume F: "node = Some n'" "?t = Node l n' r" "repc s ?c (Some n') q"
    "rep s (Some n') q ?t" "dctx ?c" "distinct (inorder ?t)"
    "set_tree ?t \<inter> cset ?c = {}" "distinct xs"
    "inorder (plug ?c ?t) = xs" "same_but_links s0 s"
    "B \<Longrightarrow> rootred (red s) ?t \<and> (\<exists>h. cinv (red s) ?c h \<and> rbh (red s) ?t h)"
  have n': "n' = n" using F(4) by simp
  have dis: "g \<notin> set_tree nl" "g \<notin> set_tree nr" "g \<notin> set_tree u" "g \<notin> set_tree sb" "g \<notin> cset k" "p \<noteq> g"
      "n \<notin> set_tree nl" "n \<notin> set_tree nr" "n \<notin> set_tree u" "n \<notin> set_tree sb" "n \<notin> cset k"
      "p \<notin> set_tree nl" "p \<notin> set_tree nr" "p \<notin> set_tree sb" "p \<notin> set_tree u" "p \<notin> cset k" "n \<noteq> p" "n \<noteq> g"
    using F(5-7) by auto
  have ur: "RbIsRed s (child s (opp d) g) = rootred (red s) u"
    using F(3) RbIsRed_rep [of s "child s (opp d) g" "Some g" u] by simp
  have nsib: "child s (opp d) g \<noteq> Some p" using F(3,5) by (auto dest: rep_Some_mem)
  let ?s1 = "rot d p s"
  let ?s2 = "set_red g True (set_red n False ?s1)"
  let ?s' = "rot (opp d) g ?s2"
  have "repc ?s1 ((d, g, u) # k) (Some n) (Some g) \<and>
      rep ?s1 (Some n) (Some g) (mk d (mk d sb p nl) n nr)"
    by (rule rot_rep) (use F(3-7) n' in \<open>auto simp: mk_opp\<close>)
  then have R1: "repc ?s1 ((d, g, u) # k) (Some n) (Some g)"
      "rep ?s1 (Some n) (Some g) (mk d (mk d sb p nl) n nr)" by blast+
  then have "par ?s1 p = Some n" by simp
  then have body: "insert_fixup_body (Some n, s) = Some (Next (Some p, ?s'))"
    using F(3,4) n' p u ur nsib dis
    by (subst insert_fixup_body_dir [where d = d and p = p and g = g])
      (auto simp: RbSetRed_def RbSetBlack_def Let_def)
  have "repc ?s' k (Some n) (par ?s1 g) \<and>
      rep ?s' (Some n) (par ?s1 g) (mk (opp d) (mk (opp d) u g nr) n (mk d sb p nl))"
    by (rule rot_rep) (use R1 F(5-7) in \<open>auto simp: heap_simps mk_opp\<close>)
  then have R: "repc ?s' ((d, n, mk d nr g u) # k) (Some p) (Some n)"
      "rep ?s' (Some p) (Some n) (mk d sb p nl)"
    by (auto simp: mk_opp)
  have "fix_inv B xs s0 ((d, n, mk d nr g u) # k, mk d sb p nl) (Some p, ?s')"
  proof (rule fix_invI [OF R])
    show "rootred (red ?s') (mk d sb p nl) \<and>
      (\<exists>h. cinv (red ?s') ((d, n, mk d nr g u) # k) h \<and> rbh (red ?s') (mk d sb p nl) h)" if B
    proof -
      from F(11) [OF that] obtain h where
        h: "rootred (red s) ?t" "cinv (red s) ?c h" "rbh (red s) ?t h" by blast
      then have "cinv (red ?s') ((d, n, mk d nr g u) # k) h \<and> rbh (red ?s') (mk d sb p nl) h \<and>
          rootred (red ?s') (mk d sb p nl)"
        using p u dis by (simp add: heap_simps red_set_fun)
      then show ?thesis by blast
    qed
    have "inorder (plug k (mk d (mk d sb p nl) n (mk d nr g u))) =
        inorder (plug k (mk d (mk d sb p (mk d nl n nr)) g u))"
      by (rule inorder_plug_cong) (cases d; simp)
    with F(9) show "inorder (plug ((d, n, mk d nr g u) # k) (mk d sb p nl)) = xs"
      by (simp add: mk_opp)
  qed (use F in \<open>auto intro!: links_intros\<close>)
  moreover have "\<not> red ?s' n" using dis by (simp add: heap_simps)
  ultimately show ?thesis using F(1) n' body by blast
qed

section \<open>The whole fix-up\<close>

text \<open>
  What the loop establishes: the same sequence of tasks, still a tree, and, when started with
  at most one red-red edge, no red-red edge at all below the root.
\<close>

definition fix_post :: "bool \<Rightarrow> addr list \<Rightarrow> 'a Sched_scheme \<Rightarrow> 'a Sched_scheme \<Rightarrow> bool" where
  "fix_post B xs s0 s \<longleftrightarrow> same_but_links s0 s \<and>
     (\<exists>t. rb_tree s t \<and> inorder t = xs \<and> (B \<longrightarrow> rbt_ok ((red s)(the (rb_root s) := False)) t))"

lemma rbt_ok_blacken:
  assumes "rb_tree s t" "rbh (red s) t h"
  shows "rbt_ok ((red s)(the (rb_root s) := False)) t"
proof (cases t)
  case Leaf
  then show ?thesis using assms by (auto simp: rbt_ok_def)
next
  case (Node l a r)
  then have a: "rb_root s = Some a" "a \<notin> set_tree l" "a \<notin> set_tree r"
    using assms by (auto simp: rb_tree_def)
  then show ?thesis using Node assms(2)
    by (auto simp: rbt_ok_def intro: exI [of _ "Suc h"] exI [of _ h] split: if_splits)
qed

lemma fix_postI:
  assumes I: "fix_inv B xs s0 (c, t) (node, s)" and fin: "c = [] \<or> \<not> parred (red s) c \<or> length c = 1"
  shows "fix_post B xs s0 s"
  using I
proof (rule fix_invE)
  fix n l r q
  assume F: "node = Some n" "t = Node l n r" "repc s c (Some n) q" "rep s (Some n) q t"
    "dctx c" "distinct (inorder t)" "set_tree t \<inter> cset c = {}"
    "distinct xs" "inorder (plug c t) = xs" "same_but_links s0 s"
    "B \<Longrightarrow> rootred (red s) t \<and> (\<exists>h. cinv (red s) c h \<and> rbh (red s) t h)"
  have tree: "rb_tree s (plug c t)" using F(3-7) by (auto simp: rb_tree_plug)
  have "rbt_ok ((red s)(the (rb_root s) := False)) (plug c t)" if B
  proof -
    from F(11) [OF that] obtain h where
      h: "rootred (red s) t" "cinv (red s) c h" "rbh (red s) t h" by blast
    consider "c = []" | "\<not> parred (red s) c" | d p u where "c = [(d, p, u)]" "red s p"
      using fin by (cases c) (auto, blast)
    then show ?thesis
    proof cases
      case 1
      with h tree show ?thesis by (auto intro: rbt_ok_blacken)
    next
      case 2
      with h plug_rbh have "\<exists>h'. rbh (red s) (plug c t) h'" by blast
      with tree show ?thesis by (auto intro: rbt_ok_blacken)
    next
      case (3 d p u)
      have "rb_root s = Some p" "p \<notin> set_tree t" "p \<notin> set_tree u" using tree 3 by (auto simp: rb_tree_def)
      with 3 h show ?thesis by (auto simp: rbt_ok_def intro: exI [of _ "Suc h"])
    qed
  qed
  with tree F(9,10) show ?thesis by (auto simp: fix_post_def)
qed

lemma fix_round:
  assumes I: "fix_inv B xs s0 (c, t) (node, s)"
  shows "(\<exists>c' t' node' s'. insert_fixup_body (node, s) = Some (Next (node', s')) \<and>
            fix_inv B xs s0 (c', t') (node', s') \<and> length c' < length c) \<or>
         (\<exists>s'. insert_fixup_body (node, s) = Some (Done s') \<and> fix_post B xs s0 s')"
proof (cases c)
  case Nil
  from I Nil obtain n where "node = Some n" "par s n = None" by (auto elim!: fix_invE)
  then have "insert_fixup_body (node, s) = Some (Done s)" by (simp add: insert_fixup_body_def)
  with fix_postI [OF I] Nil show ?thesis by blast
next
  case (Cons f c1)
  obtain d' p sb where f: "f = (d', p, sb)" by (cases f)
  from I Cons f obtain n where n: "node = Some n" "par s n = Some p"
    by (auto elim!: fix_invE)
  show ?thesis
  proof (cases "red s p")
    case False
    with n have "insert_fixup_body (node, s) = Some (Done s)" by (simp add: insert_fixup_body_def)
    with fix_postI [OF I] False Cons f show ?thesis by simp
  next
    case p: True
    show ?thesis
    proof (cases c1)
      case Nil
      with I Cons f n have "par s p = None" by (auto elim!: fix_invE)
      with n p have "insert_fixup_body (node, s) = Some (Done s)" by (simp add: insert_fixup_body_def)
      with fix_postI [OF I] Nil Cons show ?thesis by simp
    next
      case (Cons f2 k)
      obtain d g u where f2: "f2 = (d, g, u)" by (cases f2)
      have c: "c = (d', p, sb) # (d, g, u) # k" using \<open>c = f # c1\<close> Cons f f2 by simp
      show ?thesis
      proof (cases "rootred (red s) u")
        case True
        from fix_recolour [OF I [unfolded c] p True] c show ?thesis by fastforce
      next
        case u: False
        show ?thesis
        proof (cases "d' = d")
          case True
          from fix_outer [OF I [unfolded c True] p u] c True show ?thesis by fastforce
        next
          case False
          then have d': "d' = opp d" by (cases d; cases d') auto
          from I obtain nl nr where t: "t = mk d nl n nr"
            using n by (auto elim!: fix_invE rep_SomeE [of _ _ _ _ d])
          from fix_inner [OF I [unfolded c d' t] p u] c show ?thesis by fastforce
        qed
      qed
    qed
  qed
qed

theorem insert_fixup_loop:
  assumes "fix_inv B xs s0 (c, t) (node, s)"
  shows "\<exists>s'. loop insert_fixup_body (node, s) = Some s' \<and> fix_post B xs s0 s'"
  by (rule loop_total_ghost [where I = "fix_inv B xs s0" and g = "(c, t)" and m = "\<lambda>g. length (fst g)"])
    (use assms fix_round in fastforce)+

end
