(* ===== verification/RbQueue.thy ===== *)
theory RbQueue
  imports RbColour
begin

text \<open>
  The two entry points of \<^verbatim>\<open>rbtree.cc\<close> on the tree they maintain: \<open>RbInsert\<close> and \<open>RbErase\<close>
  as operations on the in-order sequence of tasks.
\<close>

section \<open>Finding the insertion point\<close>

fun tree_ins :: "(addr \<Rightarrow> u64) \<Rightarrow> addr \<Rightarrow> addr tree \<Rightarrow> addr tree" where
  "tree_ins f n Leaf = Node Leaf n Leaf"
| "tree_ins f n (Node l a r) =
     (if f n < f a then Node (tree_ins f n l) a r else Node l a (tree_ins f n r))"

definition ins_after :: "(addr \<Rightarrow> u64) \<Rightarrow> addr \<Rightarrow> addr list \<Rightarrow> addr list" where
  "ins_after f n xs = takeWhile (\<lambda>a. f a \<le> f n) xs @ n # dropWhile (\<lambda>a. f a \<le> f n) xs"

lemma set_tree_ins [simp]: "set_tree (tree_ins f n t) = insert n (set_tree t)"
  by (induction t) auto

lemma distinct_tree_ins:
  "distinct (inorder (tree_ins f n t)) \<longleftrightarrow> n \<notin> set_tree t \<and> distinct (inorder t)"
  by (induction t) auto

lemma takeWhile_app_all:
  "\<forall>x\<in>set xs. P x \<Longrightarrow> takeWhile P (xs @ ys) = xs @ takeWhile P ys"
  "\<forall>x\<in>set xs. P x \<Longrightarrow> dropWhile P (xs @ ys) = dropWhile P ys"
  by (induction xs) auto

lemma takeWhile_app_stop:
  "\<not> P y \<Longrightarrow> takeWhile P (xs @ y # ys) = takeWhile P xs"
  "\<not> P y \<Longrightarrow> dropWhile P (xs @ y # ys) = dropWhile P xs @ y # ys"
  by (induction xs) auto

lemma inorder_tree_ins:
  "sorted (map f (inorder t)) \<Longrightarrow> inorder (tree_ins f n t) = ins_after f n (inorder t)"
proof (induction t)
  case (Node l a r)
  show ?case
  proof (cases "f n < f a")
    case True
    then have "\<not> f a \<le> f n" by simp
    with True Node show ?thesis
      by (simp add: ins_after_def sorted_append takeWhile_app_stop)
  next
    case False
    then have "\<forall>x\<in>set (inorder l @ [a]). f x \<le> f n" using Node.prems by (auto simp: sorted_append)
    from takeWhile_app_all [OF this] False Node show ?thesis
      by (simp add: ins_after_def sorted_append)
  qed
qed (simp add: ins_after_def)

lemma set_ins_after [simp]: "set (ins_after f n xs) = insert n (set xs)"
proof -
  have "set xs = set (takeWhile (\<lambda>a. f a \<le> f n) xs) \<union> set (dropWhile (\<lambda>a. f a \<le> f n) xs)"
    unfolding set_append [symmetric] by simp
  then show ?thesis by (simp add: ins_after_def)
qed

lemma sum_ins_after: "sum_list (map g (ins_after f n xs)) = g n + sum_list (map g xs)"
  for g :: "addr \<Rightarrow> u64"
proof -
  have "sum_list (map g xs) = sum_list (map g (takeWhile (\<lambda>a. f a \<le> f n) xs)) +
      sum_list (map g (dropWhile (\<lambda>a. f a \<le> f n) xs))"
    unfolding sum_list_append [symmetric] map_append [symmetric] by simp
  then show ?thesis by (simp add: ins_after_def)
qed

lemma length_ins_after [simp]: "length (ins_after f n xs) = Suc (length xs)"
proof -
  have "length xs = length (takeWhile (\<lambda>a. f a \<le> f n) xs) + length (dropWhile (\<lambda>a. f a \<le> f n) xs)"
    unfolding length_append [symmetric] by simp
  then show ?thesis by (simp add: ins_after_def)
qed

lemma sorted_ins_after:
  "sorted (map f xs) \<Longrightarrow> sorted (map f (ins_after f n xs))"
proof (induction xs)
  case (Cons x xs)
  show ?case
  proof (cases "f x \<le> f n")
    case True
    have "ins_after f n (x # xs) = x # ins_after f n xs" using True by (simp add: ins_after_def)
    then show ?thesis using Cons True by simp
  next
    case False
    then show ?thesis using Cons by (auto simp: ins_after_def)
  qed
qed (simp add: ins_after_def)

definition search_ctx :: "(addr \<Rightarrow> u64) \<Rightarrow> addr \<Rightarrow> ctx \<Rightarrow> bool" where
  "search_ctx f n c \<longleftrightarrow> (case c of [] \<Rightarrow> True | (d, a, u) # k \<Rightarrow> (d = L \<longleftrightarrow> f n < f a))"

lemma descend_correct:
  assumes "rep s x y t" "repc s c x y" "search_ctx (key s) n c"
  shows "\<exists>y' c'. loop (descend_body s (key s n)) (y, x) = Some y' \<and> repc s c' None y' \<and>
     plug c' Leaf = plug c t \<and> plug c' (Node Leaf n Leaf) = plug c (tree_ins (key s) n t) \<and>
     search_ctx (key s) n c'"
  using assms
proof (induction t arbitrary: x y c)
  case Leaf
  then show ?case by (intro exI [of _ y] exI [of _ c]) (simp add: loop_Done descend_body_def)
next
  case (Node l a r)
  have x: "x = Some a" "par s a = y" using Node.prems by auto
  have nx: "loop (descend_body s (key s n)) (y, x) =
      loop (descend_body s (key s n)) (Some a, if key s n < key s a then lft s a else rgt s a)"
    by (rule loop_Next) (simp add: descend_body_def x)
  show ?case
  proof (cases "key s n < key s a")
    case True
    with Node.IH(1) [of "lft s a" "Some a" "(L, a, r) # c"] Node.prems x nx show ?thesis
      by (auto simp: search_ctx_def)
  next
    case False
    with Node.IH(2) [of "rgt s a" "Some a" "(R, a, l) # c"] Node.prems x nx show ?thesis
      by (auto simp: search_ctx_def)
  qed
qed

text \<open>The walk to the leftmost node ends at the first task of the sequence.\<close>

lemma leftmost_correct:
  assumes "rep s (Some a) q t"
  shows "loop (leftmost_body s) a = Some (hd (inorder t))"
  using assms
proof (induction t arbitrary: a q)
  case (Node l b r)
  show ?case
  proof (cases l)
    case Leaf
    then show ?thesis using Node.prems by (auto intro: loop_Done simp: leftmost_body_def)
  next
    case (Node l' c r')
    then have c: "lft s a = Some c" "rep s (Some c) (Some a) l" using Node.prems by auto
    have "loop (leftmost_body s) a = loop (leftmost_body s) c"
      by (rule loop_Next) (simp add: leftmost_body_def c)
    with Node.IH(1) [OF c(2)] Node show ?thesis by (simp add: hd_append)
  qed
qed simp

section \<open>Insertion\<close>

lemma RbInitNode_frame [heap_simps]:
  "key (RbInitNode p s) = key s" "rb_root (RbInitNode p s) = rb_root s"
  "lft (RbInitNode (Some n) s) n = None" "rgt (RbInitNode (Some n) s) n = None"
  "red (RbInitNode (Some n) s) = (red s)(n := True)"
  by (auto simp: RbInitNode_def heap_simps fun_eq_iff split: option.splits)

lemma RbInitNode_rep: "n \<notin> set_tree t \<Longrightarrow> rep (RbInitNode (Some n) s) p q t = rep s p q t"
  by (simp add: RbInitNode_def)

lemma RbInitNode_same: "same_but_links s (RbInitNode p s)"
  by (auto simp: RbInitNode_def split: option.splits
      intro!: same_but_links_trans' [OF same_but_links_set(1)] same_but_links_trans' [OF same_but_links_set(2)]
        same_but_links_trans' [OF same_but_links_set(3)] same_but_links_trans' [OF same_but_links_set(4)])

text \<open>Linking the fresh red node below \<^verbatim>\<open>y\<close>, as \<open>RbInsert\<close> does before the fix-up.\<close>

definition link_node :: "addr \<Rightarrow> ptr \<Rightarrow> 'a Sched_scheme \<Rightarrow> 'a Sched_scheme" where
  "link_node n y s = (let s1 = set_par n y s in
     case y of None \<Rightarrow> RbSetBlack (Some n) (s1\<lparr>rb_root := Some n\<rparr>)
     | Some b \<Rightarrow> if key s1 n < key s1 b then set_lft b (Some n) s1 else set_rgt b (Some n) s1)"

lemma link_node_same: "same_but_links s (link_node n y s)"
  by (auto simp: link_node_def Let_def split: option.splits
      intro!: same_but_links_trans' [OF same_but_links_set(1)] same_but_links_trans' [OF same_but_links_set(2)]
        same_but_links_trans' [OF RbSet_same(2)] same_but_links_trans' [OF same_but_links_set(5)])

lemma link_node_rep:
  assumes c: "repc s c None y" "search_ctx (key s) n c" "dctx c" "n \<notin> cset c"
    and n: "lft s n = None" "rgt s n = None"
  shows "repc (link_node n y s) c (Some n) y" "rep (link_node n y s) (Some n) y (Node Leaf n Leaf)"
proof -
  show "rep (link_node n y s) (Some n) y (Node Leaf n Leaf)"
    using c n by (cases c rule: ctx_cases) (auto simp: link_node_def Let_def heap_simps RbSetBlack_def search_ctx_def)
  show "repc (link_node n y s) c (Some n) y"
    using c n by (cases c rule: ctx_cases) (auto simp: link_node_def Let_def heap_simps RbSetBlack_def search_ctx_def)
qed

lemma link_node_red:
  "red (link_node n (Some y) s) = red s" "red (link_node n None s) = (red s)(n := False)"
  by (auto simp: link_node_def Let_def heap_simps RbSetBlack_def fun_eq_iff)

lemma link_node_par [heap_simps]: "par (link_node n y s) a = (if a = n then y else par s a)"
  by (auto simp: link_node_def Let_def heap_simps RbSetBlack_def split: option.splits)

text \<open>The fix-up of the source, which is skipped when the parent of the new node is the root.\<close>

definition insert_mid :: "addr \<Rightarrow> 'a Sched_scheme \<Rightarrow> 'a Sched_scheme option" where
  "insert_mid n s2 = (case par s2 n of
      None \<Rightarrow> Some (s2\<lparr>leftmost := Some n\<rparr>)
    | Some p \<Rightarrow> if par s2 p \<noteq> None then RbInsertColorFixup (Some n) s2 else Some s2)"

definition set_leftmost :: "'a Sched_scheme \<Rightarrow> 'a Sched_scheme option" where
  "set_leftmost s3 = (case rb_root s3 of
        None \<Rightarrow> Some s3
      | Some r \<Rightarrow> do {
          m \<leftarrow> loop (leftmost_body s3) r;
          Some (s3\<lparr>leftmost := Some m, min_vruntime := key s3 m\<rparr>) })"

lemma RbInsert_phases:
  "RbInsert (Some n) s0 = do {
     let s = RbInitNode (Some n) s0;
     y \<leftarrow> loop (descend_body s (key s n)) (None, rb_root s);
     s3 \<leftarrow> insert_mid n (link_node n y s);
     set_leftmost s3 }"
  unfolding RbInsert_def link_node_def insert_mid_def set_leftmost_def Let_def by simp

text \<open>A tree result: same other state, a tree with the given sequence, red-black if asked for.\<close>

definition tree_result :: "bool \<Rightarrow> addr list \<Rightarrow> 'a Sched_scheme \<Rightarrow> 'a Sched_scheme \<Rightarrow> bool" where
  "tree_result B xs s0 s \<longleftrightarrow> same_but_links s0 s \<and>
     (\<exists>t. rb_tree s t \<and> inorder t = xs \<and> (B \<longrightarrow> rbt_ok (red s) t))"

lemma fixup_result:
  assumes "fix_inv B xs s0 (c, t) (node, s)"
  shows "\<exists>s'. RbInsertColorFixup node s = Some s' \<and> tree_result B xs s0 s'"
proof -
  from insert_fixup_loop [OF assms] obtain s1 where
    s1: "loop insert_fixup_body (node, s) = Some s1" "fix_post B xs s0 s1" by blast
  show ?thesis
  proof (cases "rb_root s1")
    case None
    with s1 show ?thesis
      by (auto simp: RbInsertColorFixup_def fix_post_def tree_result_def rb_tree_def rbt_ok_def)
  next
    case (Some r)
    with s1 show ?thesis
      by (auto simp: RbInsertColorFixup_def fix_post_def tree_result_def RbSetBlack_def red_set_fun
          intro: same_but_links_trans)
  qed
qed

lemma insert_mid_correct:
  assumes I: "repc s c (Some n) y" "rep s (Some n) y (Node Leaf n Leaf)" "distinct (inorder (plug c (Node Leaf n Leaf)))"
    and B: "B \<Longrightarrow> rbt_ok ((red s)(n := False)) (plug c Leaf) \<and> (red s n \<longleftrightarrow> c \<noteq> [])"
  shows "\<exists>s'. insert_mid n s = Some s' \<and> tree_result B (inorder (plug c (Node Leaf n Leaf))) s s'"
proof -
  let ?t = "Node Leaf n Leaf" and ?xs = "inorder (plug c (Node Leaf n Leaf))"
  have nc: "n \<notin> cset c" using I(3) by (simp add: distinct_plug)
  have tree: "rb_tree s (plug c ?t)" using I by (auto simp: rb_tree_plug distinct_plug)
  have h: "cinv (red s) c 0" "\<not> rootred (red s) (plug c Leaf)" if B
    using B [OF that] rbh_plugD [of "(red s)(n := False)" c Leaf] nc
    by (auto simp: rbt_ok_def set_tree_plug)
  have fi: "fix_inv B ?xs s (c, ?t) (Some n, s)" if "c \<noteq> []"
    by (rule fix_invI [OF I(1,2,3)]) (use h B that in \<open>auto intro: exI [of _ 0]\<close>)
  consider (root) "c = []" | (top) d a u where "c = [(d, a, u)]" | (deep) d a u f k where "c = (d, a, u) # f # k"
    by (cases c; cases "tl c") auto
  then show ?thesis
  proof cases
    case root
    then show ?thesis using I tree B
      by (auto simp: insert_mid_def tree_result_def rbt_ok_def heap_simps intro!: exI [of _ ?t] exI [of _ "Suc 0"])
  next
    case (top d a u)
    then have r: "insert_mid n s = Some s" "rb_root s = Some a" using I by (auto simp: insert_mid_def)
    have "rbt_ok (red s) (plug c ?t)" if B
      using h [OF that] B [OF that] top by (auto simp: rbt_ok_def intro!: exI [of _ "Suc 0"] split: if_splits)
    with tree r show ?thesis by (auto simp: tree_result_def)
  next
    case (deep d a u f k)
    obtain d' g w where f: "f = (d', g, w)" by (cases f)
    have "insert_mid n s = RbInsertColorFixup (Some n) s"
      using I deep f by (auto simp: insert_mid_def)
    with fixup_result [OF fi] deep show ?thesis by simp
  qed
qed

lemma set_leftmost_correct:
  assumes "rb_tree s t" "inorder t = x # xs"
  shows "set_leftmost s = Some (s\<lparr>leftmost := Some x, min_vruntime := key s x\<rparr>)"
proof -
  obtain r where r: "rb_root s = Some r" "rep s (Some r) None t"
    using assms by (cases t) (auto simp: rb_tree_def)
  with leftmost_correct [OF r(2)] assms show ?thesis by (simp add: set_leftmost_def)
qed

lemma tree_result_trans:
  "same_but_links s0 s \<Longrightarrow> tree_result B xs s s' \<Longrightarrow> tree_result B xs s0 s'"
  by (auto simp: tree_result_def intro: same_but_links_trans)

lemma tree_result_leftmost:
  assumes "tree_result B xs s0 s" "xs \<noteq> []"
  shows "\<exists>s'. set_leftmost s = Some s' \<and> tree_result B xs s0 s' \<and> leftmost s' = Some (hd xs) \<and>
     min_vruntime s' = key s' (hd xs)"
proof -
  from assms obtain t where t: "rb_tree s t" "inorder t = xs" "same_but_links s0 s" "B \<longrightarrow> rbt_ok (red s) t"
    by (auto simp: tree_result_def)
  obtain x ys where xs: "xs = x # ys" using assms(2) by (cases xs) auto
  have "same_but_links s0 (s\<lparr>leftmost := Some x, min_vruntime := key s x\<rparr>)"
    using t(3) same_but_links_set(6,7) same_but_links_trans by blast
  with set_leftmost_correct [of s t x ys] t xs show ?thesis
    by (auto simp: tree_result_def heap_simps)
qed

theorem RbInsert_correct:
  assumes t: "rb_tree s t" and n: "n \<notin> set_tree t"
  shows "\<exists>s' t'. RbInsert (Some n) s = Some s' \<and> rb_tree s' t' \<and>
     inorder t' = inorder (tree_ins (key s) n t) \<and> same_but_links s s' \<and>
     leftmost s' = Some (hd (inorder t')) \<and> min_vruntime s' = key s (hd (inorder t')) \<and>
     (rbt_ok (red s) t \<longrightarrow> rbt_ok (red s') t')"
proof -
  let ?s1 = "RbInitNode (Some n) s" and ?B = "rbt_ok (red s) t"
  let ?xs = "inorder (tree_ins (key s) n t)"
  have "rep ?s1 (rb_root ?s1) None t" "repc ?s1 [] (rb_root ?s1) None" "search_ctx (key ?s1) n []"
    using t n by (auto simp: rb_tree_def heap_simps RbInitNode_rep search_ctx_def)
  from descend_correct [OF this] obtain y c where
    d: "loop (descend_body ?s1 (key s n)) (None, rb_root s) = Some y" "repc ?s1 c None y"
       "plug c Leaf = t" "plug c (Node Leaf n Leaf) = tree_ins (key s) n t" "search_ctx (key ?s1) n c"
    by (auto simp: heap_simps)
  let ?s2 = "link_node n y ?s1"
  have dt: "distinct (inorder (tree_ins (key s) n t))" using t n by (simp add: distinct_tree_ins rb_tree_def)
  then have dc: "dctx c" "n \<notin> cset c" using d(4) distinct_plug [of c "Node Leaf n Leaf"] by auto
  have L: "repc ?s2 c (Some n) y" "rep ?s2 (Some n) y (Node Leaf n Leaf)"
    by (rule link_node_rep [OF d(2) d(5) dc]; simp add: heap_simps)+
  have yc: "y = None \<longleftrightarrow> c = []" using d(2) by (cases c) auto
  have "(red ?s2)(n := False) = (red s)(n := False)" "red ?s2 n \<longleftrightarrow> c \<noteq> []"
    using yc by (cases y; auto simp: link_node_red heap_simps)+
  moreover have "rbt_ok ((red s)(n := False)) t = rbt_ok (red s) t" using n by (simp add: rbt_ok_def)
  ultimately have "\<exists>s3. insert_mid n ?s2 = Some s3 \<and> tree_result ?B ?xs ?s2 s3"
    using insert_mid_correct [OF L, of ?B] dt d(3,4) by simp
  then obtain s3 where s3: "insert_mid n ?s2 = Some s3" "tree_result ?B ?xs s s3"
    using tree_result_trans same_but_links_trans [OF RbInitNode_same link_node_same] by blast
  have "?xs \<noteq> []" by (cases t) auto
  from tree_result_leftmost [OF s3(2) this] obtain s' where
    s': "set_leftmost s3 = Some s'" "tree_result ?B ?xs s s'" "leftmost s' = Some (hd ?xs)"
      "min_vruntime s' = key s' (hd ?xs)" by blast
  have "RbInsert (Some n) s = Some s'"
    using d(1) s3(1) s'(1) by (simp add: RbInsert_phases heap_simps Let_def)
  with s' show ?thesis by (auto simp: tree_result_def same_but_linksD)
qed

end
