(* ===== verification/RbDelete.thy ===== *)
theory RbDelete
  imports RbQueue
begin

text \<open>
  \<open>RbErase\<close>.  For every colouring, whatever it returns is a tree of the same tasks in the same
  order without the erased one.  On a red-black tree it always returns, since the colour fix-up
  is then entered with a red node only.
\<close>

section \<open>Rotations anywhere in the tree\<close>

lemma tree_split:
  assumes "a \<in> set_tree t"
  shows "\<exists>c l r. t = plug c (Node l a r)"
proof -
  have "\<exists>c' l r. plug c t = plug c' (Node l a r)" for c
    using assms
  proof (induction t arbitrary: c)
    case (Node l b r)
    consider "a = b" | "a \<in> set_tree l" | "a \<in> set_tree r" using Node.prems by auto
    then show ?case
    proof cases
      case 2
      with Node.IH(1) [of "(L, b, r) # c"] show ?thesis by simp
    next
      case 3
      with Node.IH(2) [of "(R, b, l) # c"] show ?thesis by simp
    qed blast
  qed simp
  from this [of "[]"] show ?thesis by simp
qed

lemma rb_tree_focus:
  assumes "rb_tree s t" "a \<in> set_tree t"
  obtains c l r where "t = plug c (Node l a r)" "repc s c (Some a) (par s a)"
    "rep s (Some a) (par s a) (Node l a r)" "dctx c" "distinct (inorder (Node l a r))"
    "set_tree (Node l a r) \<inter> cset c = {}"
proof -
  from tree_split [OF assms(2)] obtain c l r where "t = plug c (Node l a r)" by blast
  with assms(1) that show thesis by (auto simp: rb_tree_plug)
qed

lemma rot_None: "child s (opp d) x = None \<Longrightarrow> rot d x s = s"
  by (cases d) (auto simp: rot_def RbLeftRotate_def RbRightRotate_def)

lemma rot_any:
  assumes "rb_tree s t" "x \<in> set_tree t"
  shows "\<exists>t'. rb_tree (rot d x s) t' \<and> inorder t' = inorder t"
  using assms
proof (rule rb_tree_focus)
  fix c l r
  assume F: "t = plug c (Node l x r)" "repc s c (Some x) (par s x)"
    "rep s (Some x) (par s x) (Node l x r)" "dctx c" "distinct (inorder (Node l x r))"
    "set_tree (Node l x r) \<inter> cset c = {}"
  obtain a b where ab: "Node l x r = mk d a x b" by (cases d) auto
  show ?thesis
  proof (cases b)
    case Leaf
    with F(3) ab have "child s (opp d) x = None" by simp
    with rot_None assms show ?thesis by metis
  next
    case (Node _ y _)
    then obtain b' e where b: "b = mk d b' y e" by (cases d) auto
    have "repc (rot d x s) c (Some y) (par s x) \<and> rep (rot d x s) (Some y) (par s x) (mk d (mk d a x b') y e)"
      by (rule rot_rep) (use F ab b in auto)
    moreover have "distinct (inorder (mk d (mk d a x b') y e))" "set_tree (mk d (mk d a x b') y e) \<inter> cset c = {}"
      using F ab b by auto
    ultimately have "rb_tree (rot d x s) (plug c (mk d (mk d a x b') y e))"
      using F(4) by (auto simp: rb_tree_plug)
    moreover have "inorder (plug c (mk d (mk d a x b') y e)) = inorder t"
      using inorder_plug_cong [OF inorder_mk_rot] F(1) ab b by metis
    ultimately show ?thesis by blast
  qed
qed

text \<open>The tree with a given sequence, as a predicate on stores: what every step of the fix-up keeps.\<close>

definition holds_seq :: "addr list \<Rightarrow> 'a Sched_scheme \<Rightarrow> 'a Sched_scheme \<Rightarrow> bool" where
  "holds_seq xs s0 s \<longleftrightarrow> same_but_links s0 s \<and> (\<exists>t. rb_tree s t \<and> inorder t = xs)"

lemma holds_seq_rot:
  assumes "holds_seq xs s0 s" "x \<in> set xs"
  shows "holds_seq xs s0 (rot d x s)"
  using assms rot_any [of s _ x d] same_but_links_trans [OF _ rot_same, of s0 s]
  by (fastforce simp: holds_seq_def)

lemma holds_seq_col [simp, intro]:
  "holds_seq xs s0 s \<Longrightarrow> holds_seq xs s0 (set_red a b s)"
  "holds_seq xs s0 s \<Longrightarrow> holds_seq xs s0 (RbSetRed p s)"
  "holds_seq xs s0 s \<Longrightarrow> holds_seq xs s0 (RbSetBlack p s)"
  by (auto simp: holds_seq_def RbSetRed_def RbSetBlack_def split: option.splits
      intro: same_but_links_trans)

lemma holds_seq_ptr:
  assumes "holds_seq xs s0 s" "a \<in> set xs"
  shows "child s d a = Some b \<Longrightarrow> b \<in> set xs" "par s a = Some b \<Longrightarrow> b \<in> set xs"
proof -
  from assms obtain t where t: "rb_tree s t" "inorder t = xs" by (auto simp: holds_seq_def)
  then have "a \<in> set_tree t" using assms by (auto simp flip: set_inorder)
  from rb_tree_focus [OF t(1) this] obtain c l r where
    F: "t = plug c (Node l a r)" "repc s c (Some a) (par s a)" "rep s (Some a) (par s a) (Node l a r)" .
  have mem: "x \<in> set xs \<longleftrightarrow> x \<in> set_tree (Node l a r) \<union> cset c" for x
    using F(1) t(2) set_tree_plug [of c "Node l a r"] set_inorder by metis
  show "b \<in> set xs" if "child s d a = Some b"
    using that F(3) mem [of b] by (cases d) (auto dest: rep_Some_mem)
  show "b \<in> set xs" if "par s a = Some b"
    using that F(2) mem [of b] by (cases c) auto
qed

section \<open>The erase fix-up\<close>

text \<open>The two mirrored halves of the loop body as one, for the side \<open>d\<close> the node is on.\<close>

definition erase_round ::
  "dir \<Rightarrow> ptr \<Rightarrow> addr \<Rightarrow> 'a Sched_scheme \<Rightarrow> (ptr \<times> ptr \<times> 'a Sched_scheme, ptr \<times> 'a Sched_scheme) step option" where
  "erase_round d node p s =
     (case child s (opp d) p of None \<Rightarrow> Some (Done (node, s)) | Some sib0 \<Rightarrow> do {
        let s1 = (if red s sib0
                  then rot d p (RbSetRed (Some p) (RbSetBlack (Some sib0) s)) else s);
        sib \<leftarrow> (if red s sib0 then child s1 (opp d) p else Some sib0);
        if \<not> RbIsRed s1 (child s1 d sib) \<and> \<not> RbIsRed s1 (child s1 (opp d) sib) then
          let s2 = RbSetRed (Some sib) s1 in Some (Next (Some p, par s2 p, s2))
        else do {
          let inner = (\<not> RbIsRed s1 (child s1 (opp d) sib));
          let s2 = (if inner
                    then rot (opp d) sib (RbSetRed (Some sib) (RbSetBlack (child s1 d sib) s1))
                    else s1);
          sib2 \<leftarrow> (if inner then child s2 (opp d) p else Some sib);
          let s3 = rot d p (RbSetRed (Some p) (RbSetBlack (child s2 (opp d) sib2) s2));
          Some (Done (rb_root s3, s3)) } })"

lemma RbIsRed_None: "(p = None \<or> \<not> RbIsRed s p) \<longleftrightarrow> \<not> RbIsRed s p"
  by (auto simp: RbIsRed_def)

lemma rot_simps: "rot L x s = RbLeftRotate (Some x) s" "rot R x s = RbRightRotate (Some x) s"
  by (simp_all add: rot_def)

lemma erase_fixup_body_dir:
  "erase_fixup_body (node, Some p, s) =
     (if node = rb_root s \<or> RbIsRed s node then Some (Done (node, s))
      else erase_round (if node = lft s p then L else R) node p s)"
proof (cases "node = lft s p")
  case True
  show ?thesis
    unfolding erase_fixup_body_def erase_round_def prod.case option.case RbIsRed_None if_P [OF True]
      rot_simps opp.simps child_simps
    by simp
next
  case False
  show ?thesis
    unfolding erase_fixup_body_def erase_round_def prod.case option.case RbIsRed_None if_not_P [OF False]
      rot_simps opp.simps child_simps
    by simp
qed

lemma erase_fixup_body_None: "erase_fixup_body (node, None, s) = Some (Done (node, s))"
  by (simp add: erase_fixup_body_def)

lemma erase_round_keeps:
  assumes I: "holds_seq xs s0 s" "p \<in> set xs"
  shows "erase_round d node p s = Some (Next (n', q', s')) \<Longrightarrow>
      holds_seq xs s0 s' \<and> (\<forall>q. q' = Some q \<longrightarrow> q \<in> set xs)"
    and "erase_round d node p s = Some (Done (n', s')) \<Longrightarrow> holds_seq xs s0 s'"
proof -
  let ?s1 = "\<lambda>sib0. rot d p (RbSetRed (Some p) (RbSetBlack (Some sib0) s))"
  have r: "holds_seq xs s0 (?s1 sib0)" for sib0 using I by (auto intro: holds_seq_rot)
  have m: "sib \<in> set xs" if "child (?s1 sib0) e p = Some sib" for sib0 e sib
    using that holds_seq_ptr(1) [OF r I(2)] by blast
  have m': "sib \<in> set xs" if "child s e p = Some sib" for e sib
    using that holds_seq_ptr(1) [OF I] by blast
  have q: "v \<in> set xs" if "par (RbSetRed (Some sib) s2) p = Some v" "holds_seq xs s0 s2" for sib s2 v
    using that holds_seq_ptr(2) [OF _ I(2)] by blast
  show "erase_round d node p s = Some (Next (n', q', s')) \<Longrightarrow>
      holds_seq xs s0 s' \<and> (\<forall>q. q' = Some q \<longrightarrow> q \<in> set xs)"
    using r q I(1) by (auto simp: erase_round_def Let_def split: option.splits if_splits bind_splits)
  show "erase_round d node p s = Some (Done (n', s')) \<Longrightarrow> holds_seq xs s0 s'"
    using r m m' I by (auto simp: erase_round_def Let_def split: option.splits if_splits bind_splits
        intro!: holds_seq_rot holds_seq_col)
qed

lemma RbEraseColorFixup_keeps:
  assumes I: "holds_seq xs s0 s" "\<And>p. prnt = Some p \<Longrightarrow> p \<in> set xs"
    and R: "RbEraseColorFixup node prnt s = Some s'"
  shows "holds_seq xs s0 s'"
proof -
  let ?I = "\<lambda>(node, prnt, s). holds_seq xs s0 s \<and> (\<forall>p. prnt = Some p \<longrightarrow> p \<in> set xs)"
  from R obtain n1 s1 where L: "loop erase_fixup_body (node, prnt, s) = Some (n1, s1)"
      and s': "s' = (if n1 \<noteq> None then RbSetBlack n1 s1 else s1)"
    by (auto simp: RbEraseColorFixup_def split: bind_splits)
  have "case (n1, s1) of (n1, s1) \<Rightarrow> holds_seq xs s0 s1"
  proof (rule loop_partial [where I = ?I, OF L])
    show "?I (node, prnt, s)" using I by simp
    fix st st' assume "?I st" and B: "erase_fixup_body st = Some (Next st')"
    then obtain a b u p where st: "st = (a, Some p, u)" "holds_seq xs s0 u" "p \<in> set xs"
      by (cases st; cases "fst (snd st)") (auto simp: erase_fixup_body_None)
    with B erase_round_keeps(1) [OF st(2,3)] show "?I st'"
      by (cases st') (auto simp: erase_fixup_body_dir split: if_splits)
  next
    fix st r assume I: "?I st" and B: "erase_fixup_body st = Some (Done r)"
    obtain a b u where st: "st = (a, b, u)" by (cases st)
    show "case r of (n1, s1) \<Rightarrow> holds_seq xs s0 s1"
    proof (cases b)
      case None
      with B I st show ?thesis by (auto simp: erase_fixup_body_None)
    next
      case (Some p)
      with I st have "holds_seq xs s0 u" "p \<in> set xs" by auto
      with B Some st erase_round_keeps(2) show ?thesis
        by (cases r) (auto simp: erase_fixup_body_dir split: if_splits)
    qed
  qed
  with s' show ?thesis by auto
qed

lemma RbEraseColorFixup_red:
  assumes "RbIsRed s node"
  shows "RbEraseColorFixup node prnt s = Some (RbSetBlack node s)"
proof -
  have "loop erase_fixup_body (node, prnt, s) = Some (node, s)"
    by (rule loop_Done) (cases prnt; simp add: erase_fixup_body_None erase_fixup_body_dir assms)
  with assms show ?thesis by (auto simp: RbEraseColorFixup_def RbIsRed_def)
qed

section \<open>Unlinking a node\<close>

lemma RbReplaceNode_rep:
  assumes "repc s c (Some u) q" "par s u = q" "rep s v q' t" "dctx c" "set_tree t \<inter> cset c = {}"
    "u \<notin> cset c" "u \<notin> set_tree t"  "distinct (inorder t)"
  shows "repc (RbReplaceNode u v s) c v q \<and> rep (RbReplaceNode u v s) v q t"
proof -
  have np: "lft s g \<noteq> Some u" if "c = (R, g, w) # k" for w g k
    using that assms by (auto dest: rep_Some_mem)
  show ?thesis using assms np
    by (cases c rule: ctx_cases; cases t) (auto simp: RbReplaceNode_def Let_def heap_simps)
qed

lemma RbReplaceNode_frame [heap_simps]:
  "red (RbReplaceNode u v s) = red s" "key (RbReplaceNode u v s) = key s"
  by (auto simp: RbReplaceNode_def Let_def heap_simps split: option.splits)

lemma RbReplaceNode_child:
  "par s u \<noteq> Some a \<Longrightarrow> lft (RbReplaceNode u v s) a = lft s a"
  "par s u \<noteq> Some a \<Longrightarrow> rgt (RbReplaceNode u v s) a = rgt s a"
  by (auto simp: RbReplaceNode_def Let_def heap_simps split: option.splits)

lemma RbReplaceNode_par [heap_simps]:
  "par (RbReplaceNode u v s) a = (if v = Some a then par s u else par s a)"
  by (auto simp: RbReplaceNode_def Let_def heap_simps split: option.splits)

lemma RbReplaceNode_same: "same_but_links s (RbReplaceNode u v s)"
  by (auto simp: RbReplaceNode_def Let_def split: option.splits
      intro!: same_but_links_trans' [OF same_but_links_set(3)])

lemma set_par_same: "par s a = v \<Longrightarrow> set_par a v s = s"
  by (cases s) (auto simp: set_defs acc_defs fun_eq_iff)

lemma plug_append: "plug (k @ c) t = plug c (plug k t)"
  by (induction k t rule: plug.induct) auto

lemma cset_append [simp]: "cset (k @ c) = cset k \<union> cset c"
  by (induction k) auto

lemma dctx_append: "dctx (k @ c) \<longleftrightarrow> dctx k \<and> dctx c \<and> cset k \<inter> cset c = {}"
  by (induction k) auto

lemma repc_append:
  "(\<exists>p q. repc s (k @ c) p q \<and> rep s p q t) \<longleftrightarrow> (\<exists>p q. repc s c p q \<and> rep s p q (plug k t))"
  by (induction k t rule: plug.induct) auto

lemma left_spine:
  assumes "r \<noteq> Leaf"
  obtains k y ry where "r = plug k (Node Leaf y ry)" "hd (inorder r) = y"
    "inorder r = y # inorder (plug k ry)"
proof -
  have "\<exists>k y ry. r = plug k (Node Leaf y ry) \<and> inorder r = y # inorder (plug k ry)"
    using assms
  proof (induction r)
    case (Node l a r)
    show ?case
    proof (cases l)
      case Leaf
      then show ?thesis by (intro exI [of _ "[]"]) auto
    next
      case (Node l' b r')
      with Node.IH(1) obtain k y ry where "l = plug k (Node Leaf y ry)"
        "inorder l = y # inorder (plug k ry)" by blast
      then show ?thesis
        by (intro exI [of _ "k @ [(L, a, r)]"] exI [of _ y] exI [of _ ry]) (simp add: plug_append)
    qed
  qed simp
  then show thesis using that by force
qed

lemma rep_SetParent:
  assumes "rep s p q t" "distinct (inorder t)"
  shows "rep (RbSetParent p q' s) p q' t"
  using assms by (cases t) (auto simp: RbSetParent_def heap_simps)

lemma rep_SetParent_other:
  "rep s p q t \<Longrightarrow> set_tree t \<inter> set_tree t' = {} \<Longrightarrow> rep (RbSetParent p v s) p' q' t' = rep s p' q' t'"
  by (cases t) (auto simp: RbSetParent_def)

lemma repc_SetParent_other:
  "rep s p q t \<Longrightarrow> set_tree t \<inter> cset c = {} \<Longrightarrow> repc (RbSetParent p v s) c p' q' = repc s c p' q'"
  by (cases t) (auto simp: RbSetParent_def)

lemma SetParent_frame [heap_simps]:
  "lft (RbSetParent p v s) = lft s" "rgt (RbSetParent p v s) = rgt s" "red (RbSetParent p v s) = red s"
  "par (RbSetParent p v s) a = (if p = Some a then v else par s a)"
  by (auto simp: RbSetParent_def heap_simps fun_eq_iff split: option.splits)

text \<open>
  The successor \<open>y\<close> takes the place of the erased node \<open>n\<close>: from the state in which \<open>y\<close> already
  carries the remaining right subtree, the assignments at the end of the two-child case.
\<close>

lemma take_place:
  assumes "repc s c (Some n) q" "par s n = q" "rep s (lft s n) (Some n) l"
    "rep s (Some y) q' (Node Leaf y R')" "n \<notin> cset c" "n \<noteq> y" "n \<notin> set_tree l" "n \<notin> set_tree R'"
    "dctx c" "distinct (inorder (Node l y R'))" "set_tree (Node l y R') \<inter> cset c = {}"
  defines "s5 \<equiv> RbReplaceNode n (Some y) s"
  defines "s7 \<equiv> RbSetParent (lft (set_lft y (lft s5 n) s5) n) (Some y) (set_lft y (lft s5 n) s5)"
  shows "repc s7 c (Some y) q \<and> rep s7 (Some y) q (Node l y R')"
proof -
  have np: "par s n \<noteq> Some n" using assms(1,2,5) by (cases c) auto
  have 5: "repc s5 c (Some y) q \<and> rep s5 (Some y) q (Node Leaf y R')"
    unfolding s5_def by (rule RbReplaceNode_rep) (use assms(1-11) in auto)
  have l5: "lft s5 n = lft s n" using np by (simp add: s5_def RbReplaceNode_child)
  have nl: "par s n \<noteq> Some a" if "a \<in> set_tree l" for a
    using that assms(1,2,11) by (cases c) auto
  let ?s6 = "set_lft y (lft s n) s5"
  have "rep s5 (lft s n) (Some n) l = rep s (lft s n) (Some n) l"
    unfolding s5_def by (rule rep_cong) (use nl assms(10) in \<open>auto simp: RbReplaceNode_child heap_simps\<close>)
  then have l6: "rep ?s6 (lft s n) (Some n) l" using assms(3,10) by simp
  have s7: "s7 = RbSetParent (lft s n) (Some y) ?s6" using l5 assms(6) by (simp add: s7_def heap_simps)
  have "rep s7 (lft s n) (Some y) l" unfolding s7
    by (rule rep_SetParent [OF l6]) (use assms(10) in simp)
  moreover have "repc s7 c (Some y) q" unfolding s7
    using 5 assms(11) by (simp add: repc_SetParent_other [OF l6] Int_Un_distrib2)
  moreover have "lft s n \<noteq> Some y" using l6 assms(10) by (auto dest: rep_Some_mem)
  moreover have "rep s7 (rgt s5 y) (Some y) R'" unfolding s7
    using 5 assms(10) by (simp add: rep_SetParent_other [OF l6])
  ultimately show ?thesis using 5 by (simp add: s7 heap_simps)
qed

text \<open>
  The result of \<open>erase_unlink\<close>: the node is gone from the sequence, and in a red-black tree the
  node that moved up from a black position is red.
\<close>

definition unlinked :: "addr \<Rightarrow> addr tree \<Rightarrow> 'a Sched_scheme \<Rightarrow> ptr \<times> ptr \<times> bool \<times> 'a Sched_scheme \<Rightarrow> bool" where
  "unlinked n t s = (\<lambda>(x, xp, yr, s'). holds_seq (remove1 n (inorder t)) s s' \<and>
     (\<forall>p. xp = Some p \<longrightarrow> p \<in> set (remove1 n (inorder t))) \<and>
     (rbt_ok (red s) t \<longrightarrow> x \<noteq> None \<longrightarrow> \<not> yr \<longrightarrow> RbIsRed s' x))"

lemma rbh_0_red: "rbh col r 0 \<Longrightarrow> r \<noteq> Leaf \<Longrightarrow> rootred col r"
  by (cases r) (auto split: if_splits)

lemma remove1_mid: "n \<notin> set xs \<Longrightarrow> remove1 n (xs @ n # ys) = xs @ ys"
  by (simp add: remove1_append)

lemma inorder_plug_remove:
  assumes "distinct (inorder (plug c (Node l n r)))" "inorder t' = inorder l @ inorder r"
  shows "inorder (plug c t') = remove1 n (inorder (plug c (Node l n r)))"
proof -
  obtain xs ys where eq: "\<And>t. inorder (plug c t) = xs @ inorder t @ ys"
    using inorder_plug_eq [of c] by blast
  with assms show ?thesis using remove1_mid [of n "xs @ inorder l" "inorder r @ ys"] by simp
qed

lemma rbt_ok_sub: "rbt_ok col (plug c t) \<Longrightarrow> \<exists>h. rbh col t h"
  unfolding rbt_ok_def by (blast dest: rbh_plugD)

lemma unlink_one_child:
  assumes t: "rb_tree s t" "t = plug c (Node l n r)" and one: "l = Leaf \<or> r = Leaf"
  defines "x \<equiv> (if l = Leaf then rgt s n else lft s n)"
  shows "unlinked n t s (x, par s n, red s n, RbReplaceNode n x s)"
proof -
  let ?u = "if l = Leaf then r else l" and ?s' = "RbReplaceNode n x s"
  have F: "repc s c (Some n) (par s n)" "rep s (Some n) (par s n) (Node l n r)" "dctx c"
      "distinct (inorder (Node l n r))" "set_tree (Node l n r) \<inter> cset c = {}"
    using t by (auto simp: rb_tree_plug)
  have x: "rep s x (Some n) ?u" using F(2) by (simp add: x_def)
  have R: "repc ?s' c x (par s n) \<and> rep ?s' x (par s n) ?u"
    by (rule RbReplaceNode_rep [OF F(1) refl x F(3)]) (use F in auto)
  have io: "inorder (plug c ?u) = remove1 n (inorder t)"
    using inorder_plug_remove [of c l n r ?u] t one by (auto simp: rb_tree_def)
  moreover have "rb_tree ?s' (plug c ?u)" using R F(3-5) by (auto simp: rb_tree_plug)
  ultimately have "holds_seq (remove1 n (inorder t)) s ?s'"
    by (auto simp: holds_seq_def RbReplaceNode_same)
  moreover have "p \<in> set (remove1 n (inorder t))" if "par s n = Some p" for p
    using that F(1) io [symmetric] by (cases c) (auto simp: set_tree_plug)
  moreover have "RbIsRed ?s' x" if col: "rbt_ok (red s) t" "x \<noteq> None" "\<not> red s n"
  proof -
    from rbt_ok_sub [OF col(1) [unfolded t(2)]] obtain h where h: "rbh (red s) (Node l n r) h" ..
    have "?u \<noteq> Leaf" using col(2) rep_Leaf_iff [OF x] by simp
    then have "rootred (red s) ?u"
      using h one col(3) by (intro rbh_0_red) (auto split: if_splits)
    with RbIsRed_rep [OF conjunct2 [OF R]] show ?thesis by (simp add: heap_simps)
  qed
  ultimately show ?thesis by (simp add: unlinked_def)
qed

lemma detach_rep:
  assumes F: "repc s c (Some n) q" "rep s (Some n) q (Node l n r)" "dctx c"
      "distinct (inorder (Node l n r))" "set_tree (Node l n r) \<inter> cset c = {}"
    and r: "r = plug k (Node Leaf y ry)"
  defines "s4 \<equiv> detach n y s" and "R' \<equiv> plug k ry"
  shows "repc s4 c (Some n) q \<and> par s4 n = q \<and> rep s4 (lft s4 n) (Some n) l \<and>
    (\<exists>q'. rep s4 (Some y) q' (Node Leaf y R'))"
proof -
  let ?c = "k @ (R, n, l) # c"
  have "\<exists>p q. repc s ?c p q \<and> rep s p q (Node Leaf y ry)"
    using F(1,2) r by (subst repc_append) auto
  then have C: "repc s ?c (Some y) (par s y)" "rep s (Some y) (par s y) (Node Leaf y ry)" by auto
  have D: "dctx ?c" "distinct (inorder (Node Leaf y ry))" "set_tree (Node Leaf y ry) \<inter> cset ?c = {}"
    using F(3-5) r by (auto simp: dctx_append distinct_plug set_tree_plug)
  have s1: "RbSetParent (rgt s y) (Some y) s = s"
    using C(2) by (cases ry) (auto simp: RbSetParent_def set_par_same)
  show ?thesis
  proof (cases k)
    case Nil
    then have "s4 = s" using C(1) s1 by (simp add: s4_def detach_def Let_def)
    with F C Nil show ?thesis by (auto simp: R'_def)
  next
    case (Cons f k')
    then have ny: "par s y \<noteq> Some n" "par s y \<noteq> Some y" using C(1) D by (cases f; auto)+
    let ?s2 = "RbReplaceNode y (rgt s y) s"
    have "repc ?s2 ?c (rgt s y) (par s y) \<and> rep ?s2 (rgt s y) (par s y) ry"
      by (rule RbReplaceNode_rep [OF C(1) refl _ D(1)]) (use C(2) D in auto)
    then have "\<exists>p q. repc ?s2 ((R, n, l) # c) p q \<and> rep ?s2 p q R'"
      unfolding R'_def by (subst repc_append [symmetric]) blast
    then have 2: "rep ?s2 (rgt ?s2 n) (Some n) R'" "rep ?s2 (lft ?s2 n) (Some n) l"
        "repc ?s2 c (Some n) (par ?s2 n)" by auto
    have y2: "lft ?s2 y = None" using C(2) ny by (simp add: RbReplaceNode_child)
    have "rgt s y \<noteq> Some n" using C(2) D by (auto dest: rep_Some_mem)
    then have n2: "par ?s2 n = q" using F(2) by (simp add: heap_simps)
    have dis: "y \<notin> set_tree R'" "n \<notin> set_tree R'" "y \<notin> set_tree l" "y \<notin> cset c" "y \<noteq> n"
        "set_tree R' \<inter> set_tree l = {}" "set_tree R' \<inter> cset c = {}" "distinct (inorder R')"
      using D F(3-5) r by (auto simp: R'_def set_tree_plug distinct_plug dctx_append)
    let ?s3 = "set_rgt y (rgt ?s2 n) ?s2"
    have 3: "rep ?s3 (rgt ?s3 n) (Some n) R'" using 2 dis by (simp add: heap_simps)
    have s4: "s4 = RbSetParent (rgt ?s3 n) (Some y) ?s3"
      using s1 ny by (simp add: s4_def detach_def Let_def)
    have "rgt ?s3 n \<noteq> Some n" "rgt ?s3 n \<noteq> Some y" using 3 dis by (auto dest: rep_Some_mem)
    moreover have "rep s4 (rgt ?s3 n) (Some y) R'" unfolding s4 by (rule rep_SetParent [OF 3 dis(8)])
    moreover have "repc s4 c (Some n) q"
      unfolding s4 using 2(3) dis n2 by (simp add: repc_SetParent_other [OF 3])
    moreover have "rep s4 (lft ?s2 n) (Some n) l"
      unfolding s4 using 2(2) dis by (simp add: rep_SetParent_other [OF 3])
    ultimately show ?thesis using n2 y2 dis by (auto simp: s4 heap_simps)
  qed
qed

lemma set_red_twice: "set_red a b (set_red a b' s) = set_red a b s"
  by (simp add: set_defs)

lemma detach_red [heap_simps]: "red (detach n y s) = red s"
  by (auto simp: detach_def Let_def heap_simps fun_eq_iff)

lemma red_links [heap_simps]: "red (set_lft a v s) = red s" "red (set_rgt a v s) = red s"
  by (auto simp: heap_simps)

lemma erase_unlink_two:
  assumes "lft s n \<noteq> None" "rgt s n = Some r" "loop (leftmost_body s) r = Some y" "y \<noteq> n"
  defines "s5 \<equiv> RbReplaceNode n (Some y) (detach n y s)"
  defines "s7 \<equiv> RbSetParent (lft (set_lft y (lft s5 n) s5) n) (Some y) (set_lft y (lft s5 n) s5)"
  shows "erase_unlink n s = Some (rgt s y, Some y, red s y, set_red y (red s n) s7)"
proof -
  have "red (RbSetBlack (Some y) s7) n = red s n"
    using assms(4) by (simp add: RbSetBlack_def s7_def s5_def heap_simps)
  then show ?thesis using assms(1-4)
    unfolding erase_unlink_def
    by (auto simp: Let_def s5_def [symmetric] s7_def [symmetric] RbSetBlack_def set_red_twice)
qed

lemma detach_same: "same_but_links s (detach n y s)"
  by (auto simp: detach_def Let_def intro!: same_but_links_trans' [OF RbSet_same(3)]
      same_but_links_trans' [OF same_but_links_set(2)] same_but_links_trans' [OF RbReplaceNode_same])

lemma unlink_two_children:
  assumes t: "rb_tree s t" "t = plug c (Node l n r)" and two: "l \<noteq> Leaf" "r \<noteq> Leaf"
  shows "\<exists>res. erase_unlink n s = Some res \<and> unlinked n t s res"
proof -
  have F: "repc s c (Some n) (par s n)" "rep s (Some n) (par s n) (Node l n r)" "dctx c"
      "distinct (inorder (Node l n r))" "set_tree (Node l n r) \<inter> cset c = {}"
    using t by (auto simp: rb_tree_plug)
  obtain k y ry where k: "r = plug k (Node Leaf y ry)" "hd (inorder r) = y"
    "inorder r = y # inorder (plug k ry)" by (rule left_spine [OF two(2)])
  let ?R = "plug k ry"
  obtain rp where rp: "rgt s n = Some rp" "rep s (Some rp) (Some n) r"
    using F(2) two(2) by (cases r) auto
  have ln: "lft s n \<noteq> None" using F(2) two(1) by (cases l) auto
  have loop: "loop (leftmost_body s) rp = Some y" using leftmost_correct [OF rp(2)] k(2) by simp
  have yr: "y \<in> set_tree r" using k(3) by (simp flip: set_inorder)
  then have dis: "y \<noteq> n" "n \<notin> set_tree l" "n \<notin> set_tree ?R" "n \<notin> cset c" "y \<notin> set_tree l"
    "set_tree ?R \<subseteq> set_tree r" "distinct (inorder ?R)" "y \<notin> set_tree ?R"
    using F(4,5) k(3) by (auto simp flip: set_inorder)
  let ?s4 = "detach n y s"
  let ?s5 = "RbReplaceNode n (Some y) ?s4"
  let ?s7 = "RbSetParent (lft (set_lft y (lft ?s5 n) ?s5) n) (Some y) (set_lft y (lft ?s5 n) ?s5)"
  let ?s8 = "set_red y (red s n) ?s7" and ?t' = "plug c (Node l y ?R)"
  have E: "erase_unlink n s = Some (rgt s y, Some y, red s y, ?s8)"
    by (rule erase_unlink_two [OF ln rp(1) loop dis(1)])
  from detach_rep [OF F k(1)] obtain q' where
    D: "repc ?s4 c (Some n) (par s n)" "par ?s4 n = par s n" "rep ?s4 (lft ?s4 n) (Some n) l"
      "rep ?s4 (Some y) q' (Node Leaf y ?R)" by blast
  have "repc ?s7 c (Some y) (par s n) \<and> rep ?s7 (Some y) (par s n) (Node l y ?R)"
    by (rule take_place [OF D]) (use dis F(3-5) yr in auto)
  moreover have "distinct (inorder (Node l y ?R))" "set_tree (Node l y ?R) \<inter> cset c = {}"
    using dis F(4,5) yr by auto
  ultimately have "rb_tree ?s7 ?t'" using F(3) unfolding rb_tree_plug by blast
  then have "rb_tree ?s8 ?t'" by simp
  moreover have io: "inorder ?t' = remove1 n (inorder t)"
    using inorder_plug_remove [of c l n r "Node l y ?R"] t k(3) by (simp add: rb_tree_def)
  moreover have "same_but_links s ?s8"
    by (auto intro!: same_but_links_trans' [OF same_but_links_set(4)] same_but_links_trans' [OF RbSet_same(3)]
        same_but_links_trans' [OF same_but_links_set(1)] same_but_links_trans' [OF RbReplaceNode_same] detach_same)
  ultimately have "holds_seq (remove1 n (inorder t)) s ?s8" by (auto simp: holds_seq_def)
  moreover have "y \<in> set (remove1 n (inorder t))" using io [symmetric] by (simp add: set_tree_plug)
  moreover have "RbIsRed ?s8 (rgt s y)" if col: "rbt_ok (red s) t" "rgt s y \<noteq> None" "\<not> red s y"
  proof -
    have t2: "t = plug (k @ (R, n, l) # c) (Node Leaf y ry)" using t k(1) by (simp add: plug_append)
    then obtain yp where yp: "rep s (Some y) yp (Node Leaf y ry)" using t(1) by (auto simp: rb_tree_plug)
    from rbt_ok_sub [OF col(1) [unfolded t2]] obtain h where h: "rbh (red s) (Node Leaf y ry) h" ..
    obtain a b x where x: "ry = Node a x b" using yp col(2) by (cases ry) auto
    have "x \<noteq> y" using t x by (auto simp: t2 rb_tree_plug)
    with h x col(3) yp show ?thesis by (auto simp: RbIsRed_def heap_simps split: if_splits)
  qed
  ultimately show ?thesis using E by (simp add: unlinked_def)
qed

lemma erase_unlink_correct:
  assumes t: "rb_tree s t" "n \<in> set_tree t"
  shows "\<exists>res. erase_unlink n s = Some res \<and> unlinked n t s res"
  using t
proof (rule rb_tree_focus)
  fix c l r
  assume F: "t = plug c (Node l n r)" "rep s (Some n) (par s n) (Node l n r)"
  then have lr: "(lft s n = None) = (l = Leaf)" "(rgt s n = None) = (r = Leaf)"
    by (auto simp: rep_Leaf_iff)
  show ?thesis
  proof (cases "l = Leaf \<or> r = Leaf")
    case True
    with unlink_one_child [OF t(1) F(1)] lr show ?thesis by (auto simp: erase_unlink_def)
  next
    case False
    with unlink_two_children [OF t(1) F(1)] show ?thesis by blast
  qed
qed

section \<open>Erasure\<close>

text \<open>The recomputation of \<^verbatim>\<open>leftmost\<close> and \<^verbatim>\<open>min_vruntime\<close> at the end of \<open>RbErase\<close>.\<close>

definition first_of :: "addr list \<Rightarrow> ptr" where
  "first_of xs = (case xs of [] \<Rightarrow> None | x # _ \<Rightarrow> Some x)"

definition min_key :: "(addr \<Rightarrow> u64) \<Rightarrow> addr list \<Rightarrow> u64" where
  "min_key f xs = (case xs of [] \<Rightarrow> 0 | x # _ \<Rightarrow> f x)"

lemma refresh_correct:
  assumes "holds_seq xs s0 s"
  defines "r \<equiv> (case rb_root s of
       None \<Rightarrow> Some (s\<lparr>leftmost := None\<rparr>)
     | Some r \<Rightarrow> do { m \<leftarrow> loop (leftmost_body s) r; Some (s\<lparr>leftmost := Some m\<rparr>) })"
  shows "r = Some (s\<lparr>leftmost := first_of xs\<rparr>)"
proof -
  from assms(1) obtain t where t: "rb_tree s t" "inorder t = xs" by (auto simp: holds_seq_def)
  show ?thesis
  proof (cases t)
    case Leaf
    with t show ?thesis by (auto simp: r_def rb_tree_def first_of_def)
  next
    case (Node l a b)
    then have "rb_root s = Some a" "rep s (Some a) None t" using t by (auto simp: rb_tree_def)
    moreover have "xs \<noteq> []" using t Node by auto
    ultimately show ?thesis using leftmost_correct [of s a None t] t(2)
      by (cases xs) (auto simp: r_def first_of_def)
  qed
qed

lemma holds_seq_fields:
  "holds_seq xs s0 s \<Longrightarrow> holds_seq xs s0 (s\<lparr>leftmost := l, min_vruntime := m\<rparr>)"
  by (auto simp: holds_seq_def intro: same_but_links_trans' [OF same_but_links_set(6)]
      same_but_links_trans' [OF same_but_links_set(7)])

lemma erase_refresh:
  assumes h: "holds_seq xs s0 s2"
    and e: "erase_unlink n s = Some (x, xp, yr, s1)"
    and f: "(if x \<noteq> None \<and> \<not> yr then RbEraseColorFixup x xp s1 else Some s1) = Some s2"
  shows "RbErase (Some n) s = Some (s2\<lparr>leftmost := first_of xs, min_vruntime := min_key (key s2) xs\<rparr>)"
  unfolding RbErase_def option.case e bind.bind_lunit prod.case f refresh_correct [OF h]
  by (cases xs) (simp_all add: first_of_def min_key_def heap_simps)

definition erased :: "addr list \<Rightarrow> 'a Sched_scheme \<Rightarrow> 'a Sched_scheme \<Rightarrow> bool" where
  "erased xs s s' \<longleftrightarrow> (\<exists>t'. rb_tree s' t' \<and> inorder t' = xs) \<and> same_but_links s s' \<and>
     leftmost s' = first_of xs \<and> min_vruntime s' = min_key (key s) xs"

lemma erasedI:
  assumes "holds_seq xs s s2"
  shows "erased xs s (s2\<lparr>leftmost := first_of xs, min_vruntime := min_key (key s2) xs\<rparr>)"
  using holds_seq_fields [OF assms] assms
  by (auto simp: erased_def holds_seq_def dest: same_but_linksD(6))

text \<open>Whatever \<open>RbErase\<close> returns is the queue without the task, for every colouring.\<close>

theorem RbErase_partial:
  assumes t: "rb_tree s t" "n \<in> set_tree t" and R: "RbErase (Some n) s = Some s'"
  shows "erased (remove1 n (inorder t)) s s'"
proof -
  from erase_unlink_correct [OF t] obtain x xp yr s1 where
    e: "erase_unlink n s = Some (x, xp, yr, s1)" and u: "unlinked n t s (x, xp, yr, s1)" by auto
  from R e obtain s2 where
    f: "(if x \<noteq> None \<and> \<not> yr then RbEraseColorFixup x xp s1 else Some s1) = Some s2"
    by (auto simp: RbErase_def split: bind_splits if_splits)
  have h: "holds_seq (remove1 n (inorder t)) s s2"
    using f u RbEraseColorFixup_keeps [of "remove1 n (inorder t)" s s1 xp x s2]
    by (auto simp: unlinked_def split: if_splits)
  from R erasedI [OF h] show ?thesis by (simp add: erase_refresh [OF h e f])
qed

text \<open>On a red-black tree \<open>RbErase\<close> returns.\<close>

theorem RbErase_total:
  assumes t: "rb_tree s t" "n \<in> set_tree t" and ok: "rbt_ok (red s) t"
  shows "\<exists>s'. RbErase (Some n) s = Some s' \<and> erased (remove1 n (inorder t)) s s'"
proof -
  from erase_unlink_correct [OF t] obtain x xp yr s1 where
    e: "erase_unlink n s = Some (x, xp, yr, s1)" and u: "unlinked n t s (x, xp, yr, s1)" by auto
  let ?s2 = "if x \<noteq> None \<and> \<not> yr then RbSetBlack x s1 else s1"
  have f: "(if x \<noteq> None \<and> \<not> yr then RbEraseColorFixup x xp s1 else Some s1) = Some ?s2"
    using u ok by (auto simp: unlinked_def RbEraseColorFixup_red)
  have h: "holds_seq (remove1 n (inorder t)) s ?s2" using u by (auto simp: unlinked_def)
  from erasedI [OF h] show ?thesis by (simp add: erase_refresh [OF h e f])
qed

end
