(* ===== verification/Cfs.thy ===== *)
theory Cfs
  imports RbDelete
begin

text \<open>
  The completely fair scheduler of \<^verbatim>\<open>src/task/cfs.cc\<close> and the parts of
  \<^verbatim>\<open>include/kernel/task.h\<close> it uses: the weight tables, virtual run time, the run queue
  operations and the choice of the next task.  The spin lock of \<^verbatim>\<open>src/task/lock.cc\<close> comes first,
  since every queue operation brackets its work with it.
\<close>

section \<open>The spin lock\<close>

text \<open>
  \<^verbatim>\<open>xchgl\<close> exchanges the state word with the register that holds the new value.  The loop then
  tests the variable \<^verbatim>\<open>expected\<close>, which is the constant zero and not the value exchanged out.
\<close>

definition xchg :: "u32 \<Rightarrow> u32 \<Rightarrow> u32 \<times> u32" where
  "xchg st new_value = (new_value, st)"

definition lock_body :: "u32 \<Rightarrow> (u32, u32) step option" where
  "lock_body st = (let expected = (0 :: u32); (st', new_value) = xchg st 1
     in if expected = 0 then Some (Done st') else Some (Next st'))"

definition lock :: "u32 \<Rightarrow> u32 option" where
  "lock st = loop lock_body st"

definition unlock :: "u32 \<Rightarrow> u32" where
  "unlock st = 0"

definition try_lock :: "u32 \<Rightarrow> bool \<times> u32" where
  "try_lock st = (let expected = (0 :: u32); (st', new_value) = xchg st 1 in (expected = 0, st'))"

lemma lock_returns [simp]: "lock st = Some 1"
  unfolding lock_def by (rule loop_Done) (simp add: lock_body_def xchg_def Let_def)

definition sched_acquire :: "'a Sched_scheme \<Rightarrow> 'a Sched_scheme option" where
  "sched_acquire s = do { l \<leftarrow> lock (sched_lock s); Some (s\<lparr>sched_lock := l\<rparr>) }"

definition sched_release :: "'a Sched_scheme \<Rightarrow> 'a Sched_scheme" where
  "sched_release s = s\<lparr>sched_lock := unlock (sched_lock s)\<rparr>"

lemma sched_acquire_simp [simp]: "sched_acquire s = Some (s\<lparr>sched_lock := 1\<rparr>)"
  by (simp add: sched_acquire_def)

section \<open>Weights\<close>

definition PRIO_TO_WEIGHT :: "u32 list" where
  "PRIO_TO_WEIGHT = [
    88761, 71755, 56483, 46273, 36291, 29154, 23254, 18705, 14949, 11916,
    9548, 7620, 6070, 4854, 3890, 3121, 2501, 2008, 1607, 1285,
    1024, 820, 655, 526, 423, 335, 272, 215, 172, 137,
    110, 87, 70, 56, 45, 36, 29, 23, 18, 15]"

definition PRIO_TO_INV_WEIGHT :: "u32 list" where
  "PRIO_TO_INV_WEIGHT = [
    82982, 98370, 125693, 155708, 200929, 248041, 317246,
    388135, 478052, 595891, 740742, 922450, 1181682, 1475697,
    1861631, 2317688, 2893871, 3610940, 4522467, 5682162, 7084980,
    8786910, 10938093, 13700946, 17116283, 21558656, 26815000, 33538007,
    42070292, 52958222, 66630628, 84254597, 105380904, 131291284, 164756170,
    207791506, 261200000, 330926701, 419417000, 525518802]"

text \<open>\<^verbatim>\<open>for (i = 0; i < 40; i++) if (PRIO_TO_WEIGHT[i] == weight) return i - 20;\<close>\<close>

fun weight_index :: "u32 list \<Rightarrow> u32 \<Rightarrow> int \<Rightarrow> int" where
  "weight_index [] w i = 0"
| "weight_index (x # xs) w i = (if x = w then i - 20 else weight_index xs w (i + 1))"

definition Weight2Nice :: "u32 \<Rightarrow> int" where
  "Weight2Nice w = weight_index PRIO_TO_WEIGHT w 0"

definition clamp_nice :: "int \<Rightarrow> int" where
  "clamp_nice nice = (let n = (if nice < -20 then -20 else nice) in if n > 19 then 19 else n)"

definition Nice2Weight :: "int \<Rightarrow> u32" where
  "Nice2Weight nice = PRIO_TO_WEIGHT ! nat (clamp_nice nice + 20)"

definition Nice2InvWeight :: "int \<Rightarrow> u32" where
  "Nice2InvWeight nice = PRIO_TO_INV_WEIGHT ! nat (clamp_nice nice + 20)"

lemma clamp_nice_range: "nat (clamp_nice n + 20) < 40" "clamp_nice n \<in> {-20..19}"
  by (auto simp: clamp_nice_def Let_def)

lemma weight_index_nth:
  "distinct ws \<Longrightarrow> i < length ws \<Longrightarrow> weight_index ws (ws ! i) j = j + int i - 20"
  by (induction ws arbitrary: i j) (auto simp: nth_Cons split: nat.splits)

lemma PRIO_TO_WEIGHT_props:
  "length PRIO_TO_WEIGHT = 40" "sorted_wrt (>) PRIO_TO_WEIGHT" "0 \<notin> set PRIO_TO_WEIGHT"
  "length PRIO_TO_INV_WEIGHT = 40" "sorted_wrt (<) PRIO_TO_INV_WEIGHT"
  by (code_simp)+

lemma PRIO_TO_WEIGHT_distinct: "distinct PRIO_TO_WEIGHT"
  by code_simp

lemma Nice2Weight_pos: "0 < Nice2Weight n"
  using nth_mem [of "nat (clamp_nice n + 20)" PRIO_TO_WEIGHT] clamp_nice_range PRIO_TO_WEIGHT_props
  by (metis Nice2Weight_def word_gt_0)

section \<open>Virtual run time\<close>

definition upd_pcb :: "addr \<Rightarrow> (Pcb \<Rightarrow> Pcb) \<Rightarrow> 'a Sched_scheme \<Rightarrow> 'a Sched_scheme" where
  "upd_pcb a f s = s\<lparr>pcbs := (pcbs s)(a := f (pcbs s a))\<rparr>"

text \<open>The division traps when the weight, cut to 32 bits, is zero.\<close>

definition CalcVruntimeDelta :: "u64 \<Rightarrow> u32 \<Rightarrow> u64 option" where
  "CalcVruntimeDelta delta w = (if w = 0 then None else Some ((delta * 1024) div ucast w))"

definition UpdateVruntime :: "addr \<Rightarrow> u64 \<Rightarrow> 'a Sched_scheme \<Rightarrow> 'a Sched_scheme option" where
  "UpdateVruntime n delta s = do {
     let w = (if weight (se (pcbs s n)) \<noteq> 0 then weight (se (pcbs s n)) else 1024);
     vruntime_delta \<leftarrow> CalcVruntimeDelta delta (ucast w);
     let s1 = upd_se n (\<lambda>e. e\<lparr>vruntime := vruntime e + vruntime_delta\<rparr>) s;
     let s2 = upd_se n (\<lambda>e. e\<lparr>sum_exec_runtime := sum_exec_runtime e + delta\<rparr>) s1;
     Some (if key s2 n < min_vruntime s2 then s2\<lparr>min_vruntime := key s2 n\<rparr> else s2) }"

definition NormalizeVruntime :: "addr \<Rightarrow> 'a Sched_scheme \<Rightarrow> 'a Sched_scheme" where
  "NormalizeVruntime n s =
     (if key s n < min_vruntime s then upd_se n (\<lambda>e. e\<lparr>vruntime := min_vruntime s\<rparr>) s else s)"

section \<open>Queue operations\<close>

definition FirstTask :: "'a Sched_scheme \<Rightarrow> ptr" where
  "FirstTask s = leftmost s"

text \<open>The part of \<open>Enqueue\<close> under its state test.\<close>

definition enqueue_ready :: "addr \<Rightarrow> 'a Sched_scheme \<Rightarrow> 'a Sched_scheme option" where
  "enqueue_ready n s = do {
     let s1 = (if rb_root s \<noteq> None then NormalizeVruntime n s else s);
     let s2 = (if weight (se (pcbs s1 n)) = 0 then upd_se n (\<lambda>e. e\<lparr>weight := 1024\<rparr>) s1 else s1);
     s3 \<leftarrow> RbInsert (Some n) s2;
     let s4 = s3\<lparr>nr_running := nr_running s3 + 1\<rparr>;
     let s5 = s4\<lparr>total_weight := total_weight s4 + weight (se (pcbs s4 n))\<rparr>;
     Some (if sched_current s5 = None then s5\<lparr>sched_current := Some n\<rparr> else s5) }"

definition Enqueue :: "ptr \<Rightarrow> 'a Sched_scheme \<Rightarrow> 'a Sched_scheme option" where
  "Enqueue pcb s = (case pcb of None \<Rightarrow> Some s | Some n \<Rightarrow> do {
     s1 \<leftarrow> sched_acquire s;
     s2 \<leftarrow> (if stat (pcbs s1 n) = Running \<or> stat (pcbs s1 n) = Ready then enqueue_ready n s1 else Some s1);
     Some (sched_release s2) })"

definition Dequeue :: "ptr \<Rightarrow> 'a Sched_scheme \<Rightarrow> 'a Sched_scheme option" where
  "Dequeue pcb s = (case pcb of None \<Rightarrow> Some s | Some n \<Rightarrow> do {
     s1 \<leftarrow> sched_acquire s;
     s2 \<leftarrow> RbErase (Some n) s1;
     let s3 = (if stat (pcbs s2 n) = Running \<or> stat (pcbs s2 n) = Ready \<or> stat (pcbs s2 n) = Blocked
               then s2\<lparr>nr_running := nr_running s2 - 1,
                       total_weight := total_weight s2 - weight (se (pcbs s2 n))\<rparr>
               else s2);
     let s4 = (if sched_current s3 = Some n then s3\<lparr>sched_current := FirstTask s3\<rparr> else s3);
     Some (sched_release s4) })"

text \<open>The loop of \<open>PickNextTask\<close> that drops dead tasks from the front of the queue.\<close>

definition pick_body ::
  "ptr \<times> 'a Sched_scheme \<Rightarrow> (ptr \<times> 'a Sched_scheme, ptr \<times> 'a Sched_scheme) step option" where
  "pick_body = (\<lambda>(nxt, s).
     case nxt of None \<Rightarrow> Some (Done (None, s)) | Some n \<Rightarrow>
     if stat (pcbs s n) \<noteq> Dead then Some (Done (nxt, s)) else do {
       s1 \<leftarrow> Dequeue (Some n) s;
       let s2 = s1\<lparr>nr_running := nr_running s1 - 1\<rparr>;
       if 0 < nr_running s2 then Some (Next (FirstTask s2, s2)) else Some (Done (None, s2)) })"

definition PickNextTask :: "'a Sched_scheme \<Rightarrow> (ptr \<times> 'a Sched_scheme) option" where
  "PickNextTask s = do {
     s1 \<leftarrow> sched_acquire s;
     (nxt, s2) \<leftarrow> (if 0 < nr_running s1 then loop pick_body (FirstTask s1, s1) else Some (None, s1));
     Some (nxt, sched_release (s2\<lparr>sched_current := nxt\<rparr>)) }"

text \<open>\<open>UpdateClock\<close> returns without releasing the lock when no task is current.\<close>

definition UpdateClock :: "u64 \<Rightarrow> 'a Sched_scheme \<Rightarrow> 'a Sched_scheme option" where
  "UpdateClock delta s = do {
     s1 \<leftarrow> sched_acquire s;
     let s2 = s1\<lparr>clock := clock s1 + delta\<rparr>;
     (case sched_current s2 of
        None \<Rightarrow> Some s2
      | Some n \<Rightarrow> do { s3 \<leftarrow> UpdateVruntime n delta s2; Some (sched_release s3) }) }"

definition UpdateVruntimeCurrent :: "u64 \<Rightarrow> 'a Sched_scheme \<Rightarrow> 'a Sched_scheme option" where
  "UpdateVruntimeCurrent delta s = (case sched_current s of
     None \<Rightarrow> Some s
   | Some n \<Rightarrow> do {
       s1 \<leftarrow> sched_acquire s;
       s2 \<leftarrow> UpdateVruntime n delta s1;
       Some (sched_release s2) })"

definition TIMER_PERIOD :: u32 where "TIMER_PERIOD = 1000 div 100"

definition NeedsSchedule :: "'a Sched_scheme \<Rightarrow> (bool \<times> 'a Sched_scheme) option" where
  "NeedsSchedule s =
     (if total_weight s = 0 \<or> nr_running s = 0 then Some (False, s) else do {
        c \<leftarrow> sched_current s;
        let need_time = ucast (nr_running s * TIMER_PERIOD) * weight (se (pcbs s c)) div total_weight s;
        if time_used (pcbs s c) \<ge> need_time
        then Some (True, upd_pcb c (\<lambda>p. p\<lparr>time_used := 0\<rparr>) s)
        else Some (False, s) })"

section \<open>The run queue as an interface\<close>

text \<open>
  What the scheduler relies on: a structure that holds a sequence of tasks, an insertion that
  keeps the sequence ordered by priority value, a removal, and the first task of the sequence.
  The removal may fail to return; what it returns is right.
\<close>

locale run_queue =
  fixes holds :: "'s \<Rightarrow> addr list \<Rightarrow> bool"
    and prio :: "'s \<Rightarrow> addr \<Rightarrow> u64"
    and ins :: "addr \<Rightarrow> 's \<Rightarrow> 's option"
    and del :: "addr \<Rightarrow> 's \<Rightarrow> 's option"
    and front :: "'s \<Rightarrow> ptr"
  assumes ins_law: "holds s xs \<Longrightarrow> n \<notin> set xs \<Longrightarrow> sorted (map (prio s) xs) \<Longrightarrow>
      \<exists>s'. ins n s = Some s' \<and> holds s' (ins_after (prio s) n xs) \<and> prio s' = prio s"
    and del_law: "holds s xs \<Longrightarrow> n \<in> set xs \<Longrightarrow> del n s = Some s' \<Longrightarrow>
      holds s' (remove1 n xs) \<and> prio s' = prio s"
    and front_law: "holds s xs \<Longrightarrow> front s = first_of xs"
begin

lemma front_min:
  assumes "holds s xs" "sorted (map (prio s) xs)" "front s = Some a"
  shows "a \<in> set xs \<and> (\<forall>b\<in>set xs. prio s a \<le> prio s b)"
  using assms front_law [OF assms(1)] by (cases xs) (auto simp: first_of_def)

lemma front_None: "holds s xs \<Longrightarrow> front s = None \<longleftrightarrow> xs = []"
  by (auto simp: front_law first_of_def split: list.splits)

text \<open>
  Taking a task out and putting it back restores the order even when its own priority value
  had changed while it was queued, as happens to the running task.
\<close>

lemma requeue:
  assumes h: "holds s xs" "distinct xs" "n \<in> set xs" "sorted (map (prio s) (remove1 n xs))"
    and d: "del n s = Some s1"
  shows "\<exists>s2 ys. ins n s1 = Some s2 \<and> holds s2 ys \<and> sorted (map (prio s) ys) \<and>
     set ys = set xs \<and> prio s2 = prio s \<and> front s2 = first_of ys"
proof -
  from del_law [OF h(1,3) d] have 1: "holds s1 (remove1 n xs)" "prio s1 = prio s" by auto
  with h ins_law [of s1 "remove1 n xs" n] obtain s2 where
    2: "ins n s1 = Some s2" "holds s2 (ins_after (prio s) n (remove1 n xs))" "prio s2 = prio s"
    by auto
  moreover have "set (ins_after (prio s) n (remove1 n xs)) = set xs"
    using h(2,3) by (auto simp: set_ins_after)
  ultimately show ?thesis using sorted_ins_after [OF h(4)] front_law by blast
qed

end

text \<open>The tree of the store together with its cached first task.\<close>

definition rq :: "'a Sched_scheme \<Rightarrow> addr list \<Rightarrow> bool" where
  "rq s xs \<longleftrightarrow> (\<exists>t. rb_tree s t \<and> inorder t = xs) \<and> leftmost s = first_of xs"

lemma rq_distinct: "rq s xs \<Longrightarrow> distinct xs"
  by (auto simp: rq_def rb_tree_def)

lemma first_of_hd: "xs \<noteq> [] \<Longrightarrow> first_of xs = Some (hd xs)"
  by (cases xs) (auto simp: first_of_def)

lemma RbInsert_rq:
  assumes "rq s xs" "n \<notin> set xs" "sorted (map (key s) xs)"
  shows "\<exists>s'. RbInsert (Some n) s = Some s' \<and> rq s' (ins_after (key s) n xs) \<and>
     same_but_links s s' \<and> min_vruntime s' = key s (hd (ins_after (key s) n xs))"
proof -
  from assms obtain t where t: "rb_tree s t" "inorder t = xs" by (auto simp: rq_def)
  with assms have "n \<notin> set_tree t" by (auto simp flip: set_inorder)
  from RbInsert_correct [OF t(1) this] t assms(3) show ?thesis
    by (fastforce simp: rq_def inorder_tree_ins ins_after_def first_of_hd)
qed

lemma RbErase_rq:
  assumes "rq s xs" "n \<in> set xs" "RbErase (Some n) s = Some s'"
  shows "rq s' (remove1 n xs) \<and> same_but_links s s' \<and> min_vruntime s' = min_key (key s) (remove1 n xs)"
proof -
  from assms obtain t where t: "rb_tree s t" "inorder t = xs" by (auto simp: rq_def)
  with assms have "n \<in> set_tree t" by (auto simp flip: set_inorder)
  from RbErase_partial [OF t(1) this assms(3)] t(2) show ?thesis
    by (auto simp: rq_def erased_def)
qed

interpretation cfs: run_queue rq key "\<lambda>n. RbInsert (Some n)" "\<lambda>n. RbErase (Some n)" FirstTask
proof
  show "\<exists>s'. RbInsert (Some n) s = Some s' \<and> rq s' (ins_after (key s) n xs) \<and> key s' = key s"
    if "rq s xs" "n \<notin> set xs" "sorted (map (key s) xs)" for s :: "'a Sched_scheme" and xs n
    using RbInsert_rq [OF that] by (auto dest: same_but_linksD(6))
  show "rq s' (remove1 n xs) \<and> key s' = key s"
    if "rq s xs" "n \<in> set xs" "RbErase (Some n) s = Some s'" for s s' :: "'a Sched_scheme" and xs n
    using RbErase_rq [OF that] by (auto dest: same_but_linksD(6))
qed (simp add: rq_def FirstTask_def)

end
