(* ===== verification/Fairness.thy ===== *)
theory Fairness
  imports Cfs
begin

text \<open>
  Correctness of the queue operations of the scheduler: the accounting invariant of the run
  queue, its preservation by \<open>Enqueue\<close> and \<open>Dequeue\<close>, and the choice of \<open>PickNextTask\<close>.
\<close>

section \<open>Frame lemmas\<close>

lemma acc_misc_upd [heap_simps]:
  "lft (s\<lparr>nr_running := x\<rparr>) = lft s" "lft (s\<lparr>total_weight := y\<rparr>) = lft s"
  "lft (s\<lparr>sched_current := z\<rparr>) = lft s" "lft (s\<lparr>clock := y\<rparr>) = lft s" "lft (s\<lparr>sched_lock := x\<rparr>) = lft s"
  "rgt (s\<lparr>nr_running := x\<rparr>) = rgt s" "rgt (s\<lparr>total_weight := y\<rparr>) = rgt s"
  "rgt (s\<lparr>sched_current := z\<rparr>) = rgt s" "rgt (s\<lparr>clock := y\<rparr>) = rgt s" "rgt (s\<lparr>sched_lock := x\<rparr>) = rgt s"
  "par (s\<lparr>nr_running := x\<rparr>) = par s" "par (s\<lparr>total_weight := y\<rparr>) = par s"
  "par (s\<lparr>sched_current := z\<rparr>) = par s" "par (s\<lparr>clock := y\<rparr>) = par s" "par (s\<lparr>sched_lock := x\<rparr>) = par s"
  "red (s\<lparr>nr_running := x\<rparr>) = red s" "red (s\<lparr>total_weight := y\<rparr>) = red s"
  "red (s\<lparr>sched_current := z\<rparr>) = red s" "red (s\<lparr>clock := y\<rparr>) = red s" "red (s\<lparr>sched_lock := x\<rparr>) = red s"
  "key (s\<lparr>nr_running := x\<rparr>) = key s" "key (s\<lparr>total_weight := y\<rparr>) = key s"
  "key (s\<lparr>sched_current := z\<rparr>) = key s" "key (s\<lparr>clock := y\<rparr>) = key s" "key (s\<lparr>sched_lock := x\<rparr>) = key s"
  by (simp_all add: acc_defs fun_eq_iff)

lemma rb_tree_cong:
  assumes "lft s' = lft s" "rgt s' = rgt s" "par s' = par s" "rb_root s' = rb_root s"
  shows "rb_tree s' t = rb_tree s t"
  using rep_cong [of t s' s "rb_root s" None] assms by (simp add: rb_tree_def)

text \<open>Updates of an entity that leave the links and the colour alone.\<close>

lemma upd_se_links:
  assumes "\<And>e. rb_left (f e) = rb_left e \<and> rb_right (f e) = rb_right e \<and>
      rb_parent (f e) = rb_parent e \<and> rb_is_red (f e) = rb_is_red e"
  shows "lft (upd_se a f s) = lft s" "rgt (upd_se a f s) = rgt s" "par (upd_se a f s) = par s"
    "red (upd_se a f s) = red s" "rb_root (upd_se a f s) = rb_root s"
  using assms by (auto simp: acc_defs upd_se_def fun_eq_iff)

definition same_tree :: "'a Sched_scheme \<Rightarrow> 'a Sched_scheme \<Rightarrow> bool" where
  "same_tree s s' \<longleftrightarrow> lft s' = lft s \<and> rgt s' = rgt s \<and> par s' = par s \<and> red s' = red s \<and>
     rb_root s' = rb_root s \<and> leftmost s' = leftmost s"

lemma same_tree_refl [simp]: "same_tree s s"
  by (simp add: same_tree_def)

lemma same_treeD:
  assumes "same_tree s s'"
  shows "rb_tree s' t = rb_tree s t" "leftmost s' = leftmost s" "red s' = red s" "rb_root s' = rb_root s"
  using assms rb_tree_cong [of s' s t] by (simp_all add: same_tree_def)

lemma rb_tree_unique: "rb_tree s t \<Longrightarrow> rb_tree s t' \<Longrightarrow> t = t'"
  by (auto simp: rb_tree_def intro: rep_unique)

lemma same_tree_rq: "same_tree s s' \<Longrightarrow> rq s' xs = rq s xs"
  by (simp add: rq_def same_treeD)

definition balanced :: "'a Sched_scheme \<Rightarrow> bool" where
  "balanced s \<longleftrightarrow> (\<exists>t. rb_tree s t \<and> rbt_ok (red s) t)"

lemma same_tree_balanced: "same_tree s s' \<Longrightarrow> balanced s' = balanced s"
  by (simp add: balanced_def same_treeD)

definition wt :: "'a Sched_scheme \<Rightarrow> addr \<Rightarrow> u64" where
  "wt s a = weight (se (pcbs s a))"

section \<open>The accounting invariant\<close>

definition rq_acc :: "'a Sched_scheme \<Rightarrow> addr list \<Rightarrow> bool" where
  "rq_acc s xs \<longleftrightarrow> rq s xs \<and> nr_running s = of_nat (length xs) \<and>
     total_weight s = sum_list (map (wt s) xs)"

definition rq_ok :: "'a Sched_scheme \<Rightarrow> addr list \<Rightarrow> bool" where
  "rq_ok s xs \<longleftrightarrow> rq_acc s xs \<and> sorted (map (key s) xs)"

lemma same_but_links_wt: "same_but_links s s' \<Longrightarrow> wt s' = wt s"
  by (auto simp: wt_def same_but_linksD)

lemma RbInsert_balanced:
  assumes "rq s xs" "n \<notin> set xs" "balanced s" "RbInsert (Some n) s = Some s'"
  shows "balanced s'"
proof -
  from assms obtain t where t: "rb_tree s t" "rbt_ok (red s) t" by (auto simp: balanced_def)
  moreover from assms(1) t have "inorder t = xs" by (auto simp: rq_def dest: rb_tree_unique)
  ultimately show ?thesis using assms RbInsert_correct [OF t(1), of n]
    by (auto simp: balanced_def simp flip: set_inorder)
qed

lemma RbErase_returns:
  assumes "rq s xs" "n \<in> set xs" "balanced s"
  shows "\<exists>s'. RbErase (Some n) s = Some s'"
proof -
  from assms obtain t where t: "rb_tree s t" "rbt_ok (red s) t" by (auto simp: balanced_def)
  moreover from assms(1) t have "inorder t = xs" by (auto simp: rq_def dest: rb_tree_unique)
  ultimately show ?thesis using assms RbErase_total [OF t(1), of n]
    by (auto simp flip: set_inorder)
qed

section \<open>Enqueue\<close>

text \<open>The entity of the new task just before the insertion: normalised, with a weight.\<close>

definition prepared :: "addr \<Rightarrow> 'a Sched_scheme \<Rightarrow> 'a Sched_scheme" where
  "prepared n s = (let s1 = (if rb_root s \<noteq> None then NormalizeVruntime n s else s)
     in if weight (se (pcbs s1 n)) = 0 then upd_se n (\<lambda>e. e\<lparr>weight := 1024\<rparr>) s1 else s1)"

lemma prepared_frame:
  "same_tree s (prepared n s)"
  "nr_running (prepared n s) = nr_running s" "total_weight (prepared n s) = total_weight s"
  "sched_current (prepared n s) = sched_current s" "sched_lock (prepared n s) = sched_lock s"
  "min_vruntime (prepared n s) = min_vruntime s"
  "key (prepared n s) = (key s)(n := if rb_root s = None then key s n else max (key s n) (min_vruntime s))"
  "wt (prepared n s) = (wt s)(n := if wt s n = 0 then 1024 else wt s n)"
  by (auto simp: prepared_def NormalizeVruntime_def same_tree_def upd_se_links Let_def key_def wt_def
      upd_se_def acc_defs fun_eq_iff max_def)

lemma map_upd_other: "n \<notin> set xs \<Longrightarrow> map (f(n := y)) xs = map f xs"
  by auto

lemma enqueue_ready_correct:
  assumes ok: "rq_ok s xs" and n: "n \<notin> set xs"
  defines "k \<equiv> (key s)(n := if xs = [] then key s n else max (key s n) (min_vruntime s))"
  shows "\<exists>s'. enqueue_ready n s = Some s' \<and> rq_ok s' (ins_after k n xs) \<and> key s' = k \<and>
     sched_lock s' = sched_lock s \<and> min_vruntime s' = k (hd (ins_after k n xs)) \<and>
     sched_current s' = (if sched_current s = None then Some n else sched_current s) \<and>
     (balanced s \<longrightarrow> balanced s')"
proof -
  let ?p = "prepared n s"
  have root: "rb_root s = None \<longleftrightarrow> xs = []"
    using ok by (auto simp: rq_ok_def rq_acc_def rq_def rb_tree_def dest: rep_Leaf_iff)
  have st: "same_tree s ?p" by (rule prepared_frame)
  have k: "key ?p = k" by (simp add: prepared_frame k_def root)
  have rqp: "rq ?p xs" using ok same_tree_rq [OF st] by (simp add: rq_ok_def rq_acc_def)
  have so: "sorted (map (key ?p) xs)"
    unfolding k k_def map_upd_other [OF n] using ok by (simp add: rq_ok_def)
  from RbInsert_rq [OF rqp n so] obtain s3 where
    s3: "RbInsert (Some n) ?p = Some s3" "rq s3 (ins_after k n xs)" "same_but_links ?p s3"
      "min_vruntime s3 = k (hd (ins_after k n xs))" unfolding k by blast
  note D = same_but_linksD [OF s3(3)] same_but_links_wt [OF s3(3)]
  let ?s4 = "s3\<lparr>nr_running := nr_running s3 + 1, total_weight := total_weight s3 + wt s3 n\<rparr>"
  let ?s' = "if sched_current ?s4 = None then ?s4\<lparr>sched_current := Some n\<rparr> else ?s4"
  have e: "enqueue_ready n s = Some ?s'"
    using s3(1) by (simp add: enqueue_ready_def prepared_def Let_def wt_def)
  have t: "same_tree s3 ?s'" by (simp add: same_tree_def heap_simps)
  have ks: "key ?s' = k" "wt ?s' = wt ?p" using D k by (auto simp: heap_simps wt_def fun_eq_iff)
  have "total_weight s3 + wt s3 n = sum_list (map (wt ?p) (ins_after k n xs))"
    unfolding sum_ins_after prepared_frame(8) map_upd_other [OF n]
    using ok D by (simp add: rq_ok_def rq_acc_def prepared_frame)
  moreover have "nr_running s3 + 1 = of_nat (length (ins_after k n xs))"
    using ok D by (simp add: rq_ok_def rq_acc_def prepared_frame)
  ultimately have "rq_acc ?s' (ins_after k n xs)"
    using s3(2) same_tree_rq [OF t] ks(2) by (simp add: rq_acc_def)
  moreover have "sorted (map k (ins_after k n xs))" using so k by (simp add: sorted_ins_after)
  moreover have "balanced ?s'" if "balanced s"
    using RbInsert_balanced [OF rqp n _ s3(1)] that same_tree_balanced [OF st] same_tree_balanced [OF t] by simp
  moreover have "sched_lock ?s' = sched_lock s" "min_vruntime ?s' = min_vruntime s3"
      "sched_current ?s' = (if sched_current s = None then Some n else sched_current s)"
    using D by (auto simp: prepared_frame)
  ultimately show ?thesis using e ks s3(4) unfolding rq_ok_def by metis
qed

text \<open>Taking and releasing the lock touches nothing else.\<close>

lemma lock_frame:
  "same_tree s (s\<lparr>sched_lock := l\<rparr>)" "same_tree s (sched_release s)"
  "key (sched_release s) = key s" "wt (s\<lparr>sched_lock := l\<rparr>) = wt s" "wt (sched_release s) = wt s"
  "nr_running (sched_release s) = nr_running s" "total_weight (sched_release s) = total_weight s"
  "min_vruntime (sched_release s) = min_vruntime s" "sched_current (sched_release s) = sched_current s"
  "pcbs (sched_release s) = pcbs s" "sched_lock (sched_release s) = 0"
  by (auto simp: same_tree_def sched_release_def unlock_def heap_simps wt_def fun_eq_iff)

lemma rq_ok_lock:
  "rq_acc (s\<lparr>sched_lock := l\<rparr>) xs = rq_acc s xs" "rq_acc (sched_release s) xs = rq_acc s xs"
  "rq_ok (s\<lparr>sched_lock := l\<rparr>) xs = rq_ok s xs" "rq_ok (sched_release s) xs = rq_ok s xs"
  "balanced (s\<lparr>sched_lock := l\<rparr>) = balanced s" "balanced (sched_release s) = balanced s"
  by (simp_all add: rq_ok_def rq_acc_def same_tree_rq [OF lock_frame(1)] same_tree_rq [OF lock_frame(2)]
      same_tree_balanced [OF lock_frame(1)] same_tree_balanced [OF lock_frame(2)] lock_frame heap_simps)

theorem Enqueue_correct:
  assumes ok: "rq_ok s xs" and n: "n \<notin> set xs" and st: "stat (pcbs s n) = Running \<or> stat (pcbs s n) = Ready"
  defines "k \<equiv> (key s)(n := if xs = [] then key s n else max (key s n) (min_vruntime s))"
  shows "\<exists>s'. Enqueue (Some n) s = Some s' \<and> rq_ok s' (ins_after k n xs) \<and> key s' = k \<and>
     sched_lock s' = 0 \<and> min_vruntime s' = k (hd (ins_after k n xs)) \<and>
     sched_current s' = (if sched_current s = None then Some n else sched_current s) \<and>
     (balanced s \<longrightarrow> balanced s')"
proof -
  let ?s1 = "s\<lparr>sched_lock := 1\<rparr>"
  have k1: "(key ?s1)(n := if xs = [] then key ?s1 n else max (key ?s1 n) (min_vruntime ?s1)) = k"
    by (simp add: k_def heap_simps)
  have "\<exists>s2. enqueue_ready n ?s1 = Some s2 \<and> rq_ok s2 (ins_after k n xs) \<and> key s2 = k \<and>
      sched_lock s2 = sched_lock ?s1 \<and> min_vruntime s2 = k (hd (ins_after k n xs)) \<and>
      sched_current s2 = (if sched_current ?s1 = None then Some n else sched_current ?s1) \<and>
      (balanced ?s1 \<longrightarrow> balanced s2)"
    unfolding k1 [symmetric] by (rule enqueue_ready_correct) (use ok n in \<open>simp_all add: rq_ok_lock\<close>)
  then obtain s2 where
    s2: "enqueue_ready n ?s1 = Some s2" "rq_ok s2 (ins_after k n xs)" "key s2 = k"
      "min_vruntime s2 = k (hd (ins_after k n xs))"
      "sched_current s2 = (if sched_current ?s1 = None then Some n else sched_current ?s1)"
      "balanced ?s1 \<longrightarrow> balanced s2"
    by blast
  have "Enqueue (Some n) s = Some (sched_release s2)" using st s2(1) by (simp add: Enqueue_def)
  with s2 show ?thesis by (simp add: rq_ok_lock lock_frame)
qed

lemma Enqueue_not_ready:
  assumes "stat (pcbs s n) \<noteq> Running" "stat (pcbs s n) \<noteq> Ready"
  shows "Enqueue (Some n) s = Some (s\<lparr>sched_lock := 0\<rparr>)"
  using assms by (simp add: Enqueue_def sched_release_def unlock_def)

section \<open>Dequeue\<close>

theorem Dequeue_correct:
  assumes acc: "rq_acc s xs" and n: "n \<in> set xs"
    and st: "stat (pcbs s n) = Running \<or> stat (pcbs s n) = Ready \<or> stat (pcbs s n) = Blocked"
    and R: "Dequeue (Some n) s = Some s'"
  shows "rq_acc s' (remove1 n xs) \<and> key s' = key s \<and> sched_lock s' = 0 \<and>
    min_vruntime s' = min_key (key s) (remove1 n xs) \<and> (\<forall>a. stat (pcbs s' a) = stat (pcbs s a)) \<and>
    sched_current s' = (if sched_current s = Some n then first_of (remove1 n xs) else sched_current s)"
proof -
  let ?s1 = "s\<lparr>sched_lock := 1\<rparr>"
  from R obtain s2 where s2: "RbErase (Some n) ?s1 = Some s2"
    by (auto simp: Dequeue_def split: bind_splits)
  have "rq ?s1 xs" using acc same_tree_rq [OF lock_frame(1)] by (auto simp: rq_acc_def)
  from RbErase_rq [OF this n s2] have E: "rq s2 (remove1 n xs)" "same_but_links ?s1 s2"
    "min_vruntime s2 = min_key (key s) (remove1 n xs)" by (auto simp: heap_simps)
  note D = same_but_linksD [OF E(2)] same_but_links_wt [OF E(2)]
  let ?s3 = "s2\<lparr>nr_running := nr_running s2 - 1, total_weight := total_weight s2 - wt s2 n\<rparr>"
  let ?s4 = "if sched_current ?s3 = Some n then ?s3\<lparr>sched_current := FirstTask ?s3\<rparr> else ?s3"
  have "stat (pcbs s2 n) = Running \<or> stat (pcbs s2 n) = Ready \<or> stat (pcbs s2 n) = Blocked"
    using st D by simp
  then have "Dequeue (Some n) s = Some (sched_release ?s4)"
    using s2 by (simp add: Dequeue_def wt_def Let_def)
  with R have s': "s' = sched_release ?s4" by simp
  have t: "same_tree s2 ?s4" by (simp add: same_tree_def heap_simps)
  have len: "(of_nat (length xs) :: u32) - 1 = of_nat (length (remove1 n xs))"
  proof -
    have "length xs = Suc (length (remove1 n xs))"
      using n length_pos_if_in_set [OF n] by (simp add: length_remove1)
    then show ?thesis by simp
  qed
  have sum: "sum_list (map (wt s) xs) = wt s n + sum_list (map (wt s) (remove1 n xs))"
    by (rule sum_list_map_remove1 [OF n])
  have wt4: "wt ?s4 = wt s" using D by (auto simp: wt_def fun_eq_iff)
  have "nr_running ?s4 = of_nat (length (remove1 n xs))" "total_weight ?s4 = sum_list (map (wt s) (remove1 n xs))"
    using acc len sum D by (simp_all add: rq_acc_def lock_frame)
  with E(1) have "rq_acc ?s4 (remove1 n xs)" unfolding rq_acc_def same_tree_rq [OF t] wt4 by blast
  moreover have "key ?s4 = key s" "min_vruntime ?s4 = min_vruntime s2"
      "\<forall>a. stat (pcbs ?s4 a) = stat (pcbs s a)" using D by (simp_all add: heap_simps)
  moreover have "sched_current ?s4 = (if sched_current s = Some n then first_of (remove1 n xs) else sched_current s)"
    using D E(1) by (simp add: FirstTask_def rq_def)
  ultimately show ?thesis unfolding s' rq_ok_lock lock_frame using E(3) by simp
qed

lemma Dequeue_returns:
  assumes "rq s xs" "n \<in> set xs" "balanced s"
  shows "\<exists>s'. Dequeue (Some n) s = Some s'"
  using RbErase_returns [of "s\<lparr>sched_lock := 1\<rparr>" xs n] assms
  by (auto simp: Dequeue_def Let_def rq_ok_lock same_tree_rq [OF lock_frame(1)])

text \<open>A dead task leaves the tree, but not the counters.\<close>

lemma Dequeue_dead:
  assumes "rq s xs" "n \<in> set xs" "stat (pcbs s n) = Dead" "Dequeue (Some n) s = Some s'"
  shows "rq s' (remove1 n xs) \<and> nr_running s' = nr_running s \<and> total_weight s' = total_weight s \<and>
    key s' = key s \<and> (\<forall>a. stat (pcbs s' a) = stat (pcbs s a))"
proof -
  let ?s1 = "s\<lparr>sched_lock := 1\<rparr>"
  from assms(4) obtain s2 where s2: "RbErase (Some n) ?s1 = Some s2"
    by (auto simp: Dequeue_def split: bind_splits)
  have "rq ?s1 xs" using assms(1) same_tree_rq [OF lock_frame(1)] by blast
  from RbErase_rq [OF this assms(2) s2] have E: "rq s2 (remove1 n xs)" "same_but_links ?s1 s2" by auto
  note D = same_but_linksD [OF E(2)]
  let ?s4 = "if sched_current s2 = Some n then s2\<lparr>sched_current := FirstTask s2\<rparr> else s2"
  have "stat (pcbs s2 n) = Dead" using D assms(3) by simp
  then have "Dequeue (Some n) s = Some (sched_release ?s4)" using s2 by (simp add: Dequeue_def Let_def)
  with assms(4) have s': "s' = sched_release ?s4" by simp
  have t: "same_tree s2 (sched_release ?s4)" by (simp add: same_tree_def heap_simps sched_release_def)
  show ?thesis unfolding s' same_tree_rq [OF t] using E(1) D by (simp add: lock_frame heap_simps)
qed

section \<open>The choice of the next task\<close>

lemma pick_alive:
  assumes "rq s xs" "xs \<noteq> [] \<longleftrightarrow> 0 < nr_running s" "\<And>a. first_of xs = Some a \<Longrightarrow> stat (pcbs s a) \<noteq> Dead"
  shows "PickNextTask s = Some (first_of xs, s\<lparr>sched_current := first_of xs, sched_lock := 0\<rparr>)"
proof -
  have f: "leftmost s = first_of xs" using assms(1) by (simp add: rq_def)
  let ?s1 = "s\<lparr>sched_lock := 1\<rparr>"
  have "loop pick_body (first_of xs, ?s1) = Some (first_of xs, ?s1)"
    by (rule loop_Done) (use assms(3) in \<open>auto simp: pick_body_def split: option.splits\<close>)
  with f assms(2) show ?thesis
    by (cases "xs = []") (auto simp: PickNextTask_def FirstTask_def sched_release_def unlock_def first_of_def)
qed

definition is_dead :: "'a Sched_scheme \<Rightarrow> addr \<Rightarrow> bool" where
  "is_dead s a \<longleftrightarrow> stat (pcbs s a) = Dead"

text \<open>The invariant of the loop that drops dead tasks; \<open>ys\<close> is what is left of the queue.\<close>

definition pick_inv :: "'a Sched_scheme \<Rightarrow> addr list \<Rightarrow> ptr \<times> 'a Sched_scheme \<Rightarrow> bool" where
  "pick_inv s0 xs = (\<lambda>(nxt, s). \<exists>ys. rq s ys \<and> nxt = first_of ys \<and>
     dropWhile (is_dead s0) ys = dropWhile (is_dead s0) xs \<and> key s = key s0 \<and>
     nr_running s = of_nat (length ys) \<and> length ys < 2 ^ 32 \<and> (\<forall>a. stat (pcbs s a) = stat (pcbs s0 a)))"

lemma first_of_cases: "(first_of ys = None \<and> ys = []) \<or> (\<exists>n zs. first_of ys = Some n \<and> ys = n # zs)"
  by (cases ys) (auto simp: first_of_def)

lemma of_nat_pos: "length zs < 2 ^ 32 \<Longrightarrow> (0 < (of_nat (length zs) :: u32)) = (zs \<noteq> [])"
  by (auto simp: word_gt_0 word_of_nat_eq_0_iff dest: nat_dvd_not_less)

lemma pick_dead_step:
  assumes "rq s (n # zs)" "nr_running s = of_nat (Suc (length zs))" "stat (pcbs s n) = Dead"
    "Dequeue (Some n) s = Some s1"
  shows "rq (s1\<lparr>nr_running := nr_running s1 - 1\<rparr>) zs \<and> nr_running s1 - 1 = of_nat (length zs) \<and>
     key s1 = key s \<and> (\<forall>a. stat (pcbs s1 a) = stat (pcbs s a))"
proof -
  have t: "same_tree s1 (s1\<lparr>nr_running := nr_running s1 - 1\<rparr>)" by (simp add: same_tree_def heap_simps)
  from Dequeue_dead [OF assms(1) _ assms(3,4)] assms(2) show ?thesis
    unfolding same_tree_rq [OF t] by simp
qed

lemma pick_loop:
  assumes L: "loop pick_body (nxt0, s0') = Some (nxt, s')" and I: "pick_inv s0 xs (nxt0, s0')"
  shows "nxt = first_of (dropWhile (is_dead s0) xs) \<and> rq s' (dropWhile (is_dead s0) xs) \<and>
    key s' = key s0 \<and> nr_running s' = of_nat (length (dropWhile (is_dead s0) xs))"
proof -
  let ?Q = "\<lambda>(nxt, s'). nxt = first_of (dropWhile (is_dead s0) xs) \<and>
    rq s' (dropWhile (is_dead s0) xs) \<and> key s' = key s0 \<and>
    nr_running s' = of_nat (length (dropWhile (is_dead s0) xs))"
  have step: "case r of Next st \<Rightarrow> pick_inv s0 xs st | Done res \<Rightarrow> ?Q res"
    if I: "pick_inv s0 xs (m, s)" and B: "pick_body (m, s) = Some r" for m s r
  proof -
    from I obtain ys where ys: "rq s ys" "m = first_of ys" "key s = key s0"
        "dropWhile (is_dead s0) ys = dropWhile (is_dead s0) xs" "nr_running s = of_nat (length ys)"
        "length ys < 2 ^ 32" "\<forall>a. stat (pcbs s a) = stat (pcbs s0 a)"
      by (auto simp: pick_inv_def)
    consider "ys = []" | n zs where "ys = n # zs" "stat (pcbs s n) \<noteq> Dead"
      | n zs where "ys = n # zs" "stat (pcbs s n) = Dead" by (cases ys) auto
    then show ?thesis
    proof cases
      case 1
      with B ys show ?thesis by (auto simp: pick_body_def first_of_def)
    next
      case (2 n zs)
      then have "dropWhile (is_dead s0) xs = ys" using ys by (auto simp: is_dead_def simp flip: ys(4))
      with 2 B ys show ?thesis by (auto simp: pick_body_def first_of_def)
    next
      case (3 n zs)
      with B ys(2) obtain s1 where s1: "Dequeue (Some n) s = Some s1"
        by (auto simp: pick_body_def first_of_def split: bind_splits)
      from pick_dead_step [OF _ _ 3(2) s1, of zs] ys 3
      have P: "rq (s1\<lparr>nr_running := nr_running s1 - 1\<rparr>) zs" "nr_running s1 - 1 = of_nat (length zs)"
        "key s1 = key s" "\<forall>a. stat (pcbs s1 a) = stat (pcbs s0 a)" by auto
      have dz: "dropWhile (is_dead s0) zs = dropWhile (is_dead s0) xs"
        using ys 3 by (simp add: is_dead_def flip: ys(4))
      have lz: "length zs < 2 ^ 32" using ys(6) 3 by simp
      have f: "leftmost s1 = first_of zs" using P(1) by (simp add: rq_def)
      show ?thesis
      proof (cases "zs = []")
        case True
        with B 3 ys(2) s1 P dz ys(3) show ?thesis
          by (auto simp: pick_body_def first_of_def Let_def heap_simps)
      next
        case False
        with B 3 ys(2) s1 P(2) of_nat_pos [OF lz] have
          "r = Next (FirstTask (s1\<lparr>nr_running := nr_running s1 - 1\<rparr>), s1\<lparr>nr_running := nr_running s1 - 1\<rparr>)"
          by (simp add: pick_body_def first_of_def Let_def)
        moreover have "pick_inv s0 xs (FirstTask (s1\<lparr>nr_running := nr_running s1 - 1\<rparr>), s1\<lparr>nr_running := nr_running s1 - 1\<rparr>)"
          unfolding pick_inv_def prod.case
          by (rule exI [of _ zs]) (use P dz lz ys(3) f in \<open>simp add: FirstTask_def heap_simps\<close>)
        ultimately show ?thesis by simp
      qed
    qed
  qed
  have "?Q (nxt, s')"
    by (rule loop_partial [where I = "pick_inv s0 xs", OF L I]) (use step in \<open>fastforce+\<close>)
  then show ?thesis by simp
qed

theorem PickNextTask_partial:
  assumes "rq s xs" "nr_running s = of_nat (length xs)" "length xs < 2 ^ 32"
    and R: "PickNextTask s = Some (nxt, s')"
  shows "nxt = first_of (dropWhile (is_dead s) xs) \<and> rq s' (dropWhile (is_dead s) xs) \<and>
    key s' = key s \<and> sched_current s' = nxt \<and> sched_lock s' = 0"
proof -
  let ?s1 = "s\<lparr>sched_lock := 1\<rparr>"
  have r1: "rq ?s1 xs" using assms(1) same_tree_rq [OF lock_frame(1)] by blast
  have I: "pick_inv s xs (FirstTask ?s1, ?s1)"
    unfolding pick_inv_def prod.case
    by (rule exI [of _ xs]) (use assms r1 in \<open>simp add: FirstTask_def rq_def heap_simps\<close>)
  have Q: "nxt = first_of (dropWhile (is_dead s) xs) \<and> rq s2 (dropWhile (is_dead s) xs) \<and> key s2 = key s"
    if "(if 0 < nr_running s then loop pick_body (FirstTask ?s1, ?s1) else Some (None, ?s1)) = Some (nxt, s2)" for s2
    using that pick_loop [OF _ I] of_nat_pos [OF assms(3)] assms(2) r1
    by (cases "xs = []") (auto simp: first_of_def heap_simps)
  from R obtain s2 where
    s2: "(if 0 < nr_running s then loop pick_body (FirstTask ?s1, ?s1) else Some (None, ?s1)) = Some (nxt, s2)"
      "s' = sched_release (s2\<lparr>sched_current := nxt\<rparr>)"
    by (auto simp: PickNextTask_def split: bind_splits)
  have t: "same_tree s2 s'" by (simp add: s2(2) same_tree_def sched_release_def heap_simps)
  from Q [OF s2(1)] show ?thesis
    using same_tree_rq [OF t] by (auto simp: s2(2) lock_frame heap_simps)
qed

end
