(* ===== verification/Switch.thy ===== *)
theory Switch
  imports Fairness
begin

text \<open>
  Context switching: \<^verbatim>\<open>Schedule\<close> and \<^verbatim>\<open>__switch_to\<close> of \<^verbatim>\<open>src/task/sched.cc\<close>, the macro
  \<^verbatim>\<open>SwitchContext\<close> and \<^verbatim>\<open>SwitchTable\<close> of \<^verbatim>\<open>include/kernel/task.h\<close>, the timer interrupt of
  \<^verbatim>\<open>src/task/timer.cc\<close> and the semaphore of \<^verbatim>\<open>src/task/sem.cc\<close>.  The scheduler state is
  extended with the running task, the thread control blocks and the processor registers that a
  switch touches.
\<close>

unbundle bit_operations_syntax

section \<open>The processor\<close>

record Cpu = Sched +
  current_proc :: ptr
  tcbs :: "addr \<Rightarrow> Tcb"
  cpu_rsp :: u64
  cpu_rip :: u64
  cpu_fs :: u16
  cpu_gs :: u16
  cr3 :: u64
  tss_rsp0 :: u64
  msr_175 :: u64
  int_on :: bool
  pit_ticks :: u64

definition IDENTITY_BASE :: u64 where "IDENTITY_BASE = 0xFFFFF00000000000"

definition Vir2Phy :: "u64 \<Rightarrow> u64" where "Vir2Phy virt = virt - IDENTITY_BASE"
definition Phy2Vir :: "u64 \<Rightarrow> u64" where "Phy2Vir phy = phy + IDENTITY_BASE"

definition SwitchTable :: "addr \<Rightarrow> 'a Cpu_scheme \<Rightarrow> 'a Cpu_scheme" where
  "SwitchTable n s = s\<lparr>cr3 := Vir2Phy (pml4 (mm (pcbs s n)))\<rparr>"

text \<open>The tail of the switch, entered by a jump; it returns to the address the macro pushed.\<close>

definition switch_to :: "addr \<Rightarrow> addr \<Rightarrow> 'a Cpu_scheme \<Rightarrow> 'a Cpu_scheme option" where
  "switch_to prev nxt s = do {
     tn \<leftarrow> thread (pcbs s nxt);
     let s1 = s\<lparr>tss_rsp0 := rsp0 (tcbs s tn)\<rparr>;
     tp \<leftarrow> thread (pcbs s prev);
     let s2 = s1\<lparr>tcbs := (tcbs s1)(tp := (tcbs s1 tp)\<lparr>fs := cpu_fs s1\<rparr>)\<rparr>;
     let s3 = s2\<lparr>tcbs := (tcbs s2)(tp := (tcbs s2 tp)\<lparr>gs := cpu_gs s2\<rparr>)\<rparr>;
     let s4 = s3\<lparr>cpu_fs := fs (tcbs s3 tn)\<rparr>;
     let s5 = s4\<lparr>cpu_gs := gs (tcbs s4 tn)\<rparr>;
     let s6 = s5\<lparr>int_on := True\<rparr>;
     Some (s6\<lparr>msr_175 := rsp0 (tcbs s6 tn)\<rparr>) }"

text \<open>
  \<^verbatim>\<open>SwitchContext\<close>: two registers are pushed, the stack pointer is saved and replaced, the address
  of the local label is saved, and the jump to \<^verbatim>\<open>__switch_to\<close> returns to the saved address of the
  next thread.  \<open>resume\<close> is the address of the label \<^verbatim>\<open>1:\<close> in the code.
\<close>

definition SwitchContext :: "u64 \<Rightarrow> addr \<Rightarrow> addr \<Rightarrow> 'a Cpu_scheme \<Rightarrow> 'a Cpu_scheme option" where
  "SwitchContext resume prev nxt s = do {
     tp \<leftarrow> thread (pcbs s prev);
     tn \<leftarrow> thread (pcbs s nxt);
     let s1 = s\<lparr>cpu_rsp := cpu_rsp s - 16\<rparr>;
     let s2 = s1\<lparr>tcbs := (tcbs s1)(tp := (tcbs s1 tp)\<lparr>rsp := cpu_rsp s1\<rparr>)\<rparr>;
     let s3 = s2\<lparr>cpu_rsp := rsp (tcbs s2 tn)\<rparr>;
     let s4 = s3\<lparr>tcbs := (tcbs s3)(tp := (tcbs s3 tp)\<lparr>rip := resume\<rparr>)\<rparr>;
     s5 \<leftarrow> switch_to prev nxt s4;
     Some (s5\<lparr>cpu_rip := rip (tcbs s4 tn)\<rparr>) }"

section \<open>Schedule\<close>

datatype sched_outcome = Panicked | Stayed | Switched

text \<open>How a blocking call ends: with a value, or suspended in the middle with the processor given away.\<close>

datatype 'r call = Returns 'r | Suspends sched_outcome

abbreviation (input) is_kernel :: "'a Sched_scheme \<Rightarrow> addr \<Rightarrow> bool" where
  "is_kernel s a \<equiv> flags (pcbs s a) AND THREAD_KERNEL \<noteq> 0"

text \<open>The update of the run queue for the task that is leaving the processor.\<close>

definition requeue_prev :: "addr \<Rightarrow> 'a Sched_scheme \<Rightarrow> 'a Sched_scheme option" where
  "requeue_prev p s =
     (if stat (pcbs s p) = Dead then Dequeue (Some p) s
      else if stat (pcbs s p) \<noteq> Blocked then do {
        let s1 = upd_pcb p (\<lambda>b. b\<lparr>stat := Ready\<rparr>) s;
        s2 \<leftarrow> Dequeue (Some p) s1;
        Enqueue (Some p) s2 }
      else Dequeue (Some p) s)"

text \<open>The page table switch between two live tasks.\<close>

definition switch_tables :: "addr \<Rightarrow> addr \<Rightarrow> 'a Cpu_scheme \<Rightarrow> 'a Cpu_scheme" where
  "switch_tables p n s =
     (if \<not> is_kernel s p \<or> \<not> is_kernel s n then
        if \<not> is_kernel s n \<and> pml4 (mm (pcbs s n)) \<noteq> 0 then SwitchTable n s
        else if \<not> is_kernel s p \<and> is_kernel s n then SwitchTable n s
        else s
      else s)"

definition Schedule :: "u64 \<Rightarrow> 'a Cpu_scheme \<Rightarrow> (sched_outcome \<times> 'a Cpu_scheme) option" where
  "Schedule resume s = do {
     p \<leftarrow> current_proc s;
     s1 \<leftarrow> requeue_prev p s;
     (nxt, s2) \<leftarrow> PickNextTask s1;
     s3 \<leftarrow> sched_acquire s2;
     (case nxt of None \<Rightarrow> Some (Panicked, s3) | Some n \<Rightarrow>
       if stat (pcbs s3 p) = Dead then do {
         let s4 = sched_release s3;
         let s5 = (if pml4 (mm (pcbs s4 p)) \<noteq> 0 \<and> is_kernel s4 n then SwitchTable n s4 else s4);
         s6 \<leftarrow> SwitchContext resume p n (s5\<lparr>current_proc := Some n\<rparr>);
         Some (Switched, s6) }
       else if p = n then Some (Stayed, sched_release s3)
       else do {
         let s4 = sched_release (s3\<lparr>current_proc := Some n\<rparr>);
         s5 \<leftarrow> SwitchContext resume p n (switch_tables p n s4);
         Some (Switched, s5) }) }"

section \<open>The timer interrupt\<close>

definition pit_handler_c :: "u64 \<Rightarrow> 'a Cpu_scheme \<Rightarrow> 'a Cpu_scheme option" where
  "pit_handler_c resume s0 = do {
     let s = s0\<lparr>pit_ticks := pit_ticks s0 + 1\<rparr>;
     s1 \<leftarrow> (case current_proc s of None \<Rightarrow> Some s
            | Some c \<Rightarrow> UpdateClock (ucast TIMER_PERIOD)
                (upd_pcb c (\<lambda>p. p\<lparr>time_used := time_used p + ucast TIMER_PERIOD\<rparr>) s));
     (need, s2) \<leftarrow> NeedsSchedule s1;
     if need then do { (out, s3) \<leftarrow> Schedule resume s2; Some s3 } else Some s2 }"

section \<open>Semaphores\<close>

record Sem =
  sem_value :: "32 word"
  wait_queue :: ptr
  sem_lock :: u32

definition Sem_new :: "32 word \<Rightarrow> Sem" where
  "Sem_new v = \<lparr>sem_value = v, wait_queue = None, sem_lock = 0\<rparr>"

text \<open>
  \<open>wait\<close>: with no unit left the task is blocked, dequeued, and the processor is given away.
  The outcome \<open>None\<close> in the result says that the call returned without a switch.
\<close>

definition Sem_wait :: "u64 \<Rightarrow> Sem \<Rightarrow> 'a Cpu_scheme \<Rightarrow>
    (sched_outcome option \<times> Sem \<times> 'a Cpu_scheme) option" where
  "Sem_wait resume m s = do {
     l \<leftarrow> lock (sem_lock m);
     let m1 = m\<lparr>sem_lock := l\<rparr>;
     if 0 <s sem_value m1 then
       Some (None, m1\<lparr>sem_value := sem_value m1 - 1, sem_lock := unlock l\<rparr>, s)
     else do {
       c \<leftarrow> current_proc s;
       s1 \<leftarrow> Dequeue (Some c) (upd_pcb c (\<lambda>p. p\<lparr>stat := Blocked\<rparr>) s);
       (out, s2) \<leftarrow> Schedule resume s1;
       Some (Some out, m1\<lparr>sem_lock := unlock l\<rparr>, s2) } }"

definition Sem_signal :: "Sem \<Rightarrow> Sem option" where
  "Sem_signal m = do { l \<leftarrow> lock (sem_lock m); Some (m\<lparr>sem_lock := unlock l\<rparr>) }"

definition Sem_get_value :: "Sem \<Rightarrow> 32 word" where
  "Sem_get_value m = sem_value m"

section \<open>What the scheduler leaves alone\<close>

text \<open>
  \<open>frame s s'\<close>: control blocks agree up to their scheduling entity, and the part of the state
  beyond the scheduler is the same.
\<close>

definition frame :: "'a Sched_scheme \<Rightarrow> 'a Sched_scheme \<Rightarrow> bool" where
  "frame s s' \<longleftrightarrow> (\<forall>a. (pcbs s' a)\<lparr>se := se (pcbs s a)\<rparr> = pcbs s a) \<and> Sched.more s' = Sched.more s"

lemma frame_refl [simp]: "frame s s"
  by (simp add: frame_def)

lemma Pcb_se_eq: "p\<lparr>se := se q\<rparr> = q \<Longrightarrow> r\<lparr>se := se p\<rparr> = p \<Longrightarrow> r\<lparr>se := se q\<rparr> = (q :: Pcb)"
  by (cases p; cases q; cases r; simp)

lemma frame_trans [trans]: "frame s s' \<Longrightarrow> frame s' s'' \<Longrightarrow> frame s s''"
  unfolding frame_def using Pcb_se_eq by metis

lemma frameD:
  assumes "frame s s'"
  shows "stat (pcbs s' a) = stat (pcbs s a)" "flags (pcbs s' a) = flags (pcbs s a)"
    "thread (pcbs s' a) = thread (pcbs s a)" "mm (pcbs s' a) = mm (pcbs s a)"
    "pid (pcbs s' a) = pid (pcbs s a)" "msg (pcbs s' a) = msg (pcbs s a)"
proof -
  have "(pcbs s' a)\<lparr>se := se (pcbs s a)\<rparr> = pcbs s a" using assms by (simp add: frame_def)
  then show "stat (pcbs s' a) = stat (pcbs s a)" "flags (pcbs s' a) = flags (pcbs s a)"
    "thread (pcbs s' a) = thread (pcbs s a)" "mm (pcbs s' a) = mm (pcbs s a)"
    "pid (pcbs s' a) = pid (pcbs s a)" "msg (pcbs s' a) = msg (pcbs s a)"
    by (cases "pcbs s' a"; cases "pcbs s a"; simp)+
qed

lemma frame_cpu:
  fixes s s' :: "'a Cpu_scheme"
  assumes "frame s s'"
  shows "current_proc s' = current_proc s" "tcbs s' = tcbs s" "cpu_rsp s' = cpu_rsp s"
    "cpu_fs s' = cpu_fs s" "cpu_gs s' = cpu_gs s" "cr3 s' = cr3 s"
  using assms by (cases s; cases s'; simp add: frame_def)+

lemma frame_links: "same_but_links s s' \<Longrightarrow> frame s s'"
proof -
  assume l: "same_but_links s s'"
  have "(pcbs s' a)\<lparr>se := se (pcbs s a)\<rparr> = pcbs s a" for a
    using same_but_links_pcb [OF l, of a]
    by (cases "pcbs s a"; cases "pcbs s' a") (simp add: clear_links_def)
  moreover have "Sched.more s' = Sched.more s" using l by (cases s; cases s') (simp add: same_but_links_def)
  ultimately show ?thesis by (simp add: frame_def)
qed

lemma frame_upd [simp]:
  "frame s (s\<lparr>nr_running := x\<rparr>) \<longleftrightarrow> True" "frame s (s\<lparr>total_weight := y\<rparr>) \<longleftrightarrow> True"
  "frame s (s\<lparr>sched_current := z\<rparr>) \<longleftrightarrow> True" "frame s (s\<lparr>sched_lock := x\<rparr>) \<longleftrightarrow> True"
  "frame s (s\<lparr>min_vruntime := y\<rparr>) \<longleftrightarrow> True" "frame s (upd_se n f s) \<longleftrightarrow> True" "frame s (sched_release s) \<longleftrightarrow> True"
  by (auto simp: frame_def upd_se_def sched_release_def)

lemma frame_trans': "frame s' s'' \<Longrightarrow> frame s s' \<Longrightarrow> frame s s''"
  by (rule frame_trans)

text \<open>\<open>same_sched\<close>: the scheduler part of the state is untouched.\<close>

definition same_sched :: "'a Sched_scheme \<Rightarrow> 'a Sched_scheme \<Rightarrow> bool" where
  "same_sched s s' \<longleftrightarrow> pcbs s' = pcbs s \<and> rb_root s' = rb_root s \<and> leftmost s' = leftmost s \<and>
     min_vruntime s' = min_vruntime s \<and> nr_running s' = nr_running s \<and>
     total_weight s' = total_weight s \<and> sched_current s' = sched_current s \<and>
     clock s' = clock s \<and> sched_lock s' = sched_lock s"

lemma same_sched_acc:
  assumes "same_sched s s'"
  shows "same_tree s s'" "key s' = key s" "wt s' = wt s"
  using assms by (auto simp: same_sched_def same_tree_def acc_defs wt_def fun_eq_iff)

lemma same_sched_ok:
  assumes "same_sched s s'"
  shows "rq_acc s' xs = rq_acc s xs" "rq_ok s' xs = rq_ok s xs"
  using assms same_sched_acc [OF assms] same_tree_rq [of s s' xs]
  by (simp_all add: rq_ok_def rq_acc_def same_sched_def)

lemma SwitchContext_returns:
  assumes "thread (pcbs s p) = Some tp" "thread (pcbs s n) = Some tn" "tp \<noteq> tn"
  shows "\<exists>s'. SwitchContext resume p n s = Some s' \<and> same_sched s s' \<and>
     current_proc s' = current_proc s \<and> cr3 s' = cr3 s \<and>
     cpu_rsp s' = rsp (tcbs s tn) \<and> cpu_rip s' = rip (tcbs s tn) \<and>
     cpu_fs s' = fs (tcbs s tn) \<and> cpu_gs s' = gs (tcbs s tn) \<and>
     tss_rsp0 s' = rsp0 (tcbs s tn) \<and> msr_175 s' = rsp0 (tcbs s tn) \<and>
     tcbs s' = (tcbs s)(tp := (tcbs s tp)\<lparr>rsp := cpu_rsp s - 16, rip := resume,
       fs := cpu_fs s, gs := cpu_gs s\<rparr>)"
  using assms by (simp add: SwitchContext_def switch_to_def Let_def same_sched_def)

lemma Dequeue_frame:
  assumes "rq s xs" "n \<in> set xs" "Dequeue (Some n) s = Some s'"
  shows "frame s s'"
proof -
  let ?s1 = "s\<lparr>sched_lock := 1\<rparr>"
  from assms(3) obtain s2 where s2: "RbErase (Some n) ?s1 = Some s2"
    by (auto simp: Dequeue_def split: bind_splits)
  have "rq ?s1 xs" using assms(1) same_tree_rq [OF lock_frame(1)] by blast
  from RbErase_rq [OF this assms(2) s2] have "frame ?s1 s2" by (simp add: frame_links)
  with frame_trans [of s ?s1 s2] have f: "frame s s2" by simp
  show ?thesis using assms(3) s2 f
    by (auto simp: Dequeue_def Let_def intro!: frame_trans' [OF frame_upd(7) [THEN iffD2]]
        frame_trans' [OF frame_upd(3) [THEN iffD2]] frame_trans' [OF frame_upd(2) [THEN iffD2]]
        frame_trans' [OF frame_upd(1) [THEN iffD2]])
qed

lemma frame_prepared: "frame s (prepared n s)"
proof -
  let ?s1 = "if rb_root s \<noteq> None then NormalizeVruntime n s else s"
  have "frame s ?s1" by (simp add: NormalizeVruntime_def)
  then show ?thesis using frame_trans [of s ?s1] by (simp add: prepared_def Let_def)
qed

lemma Enqueue_frame:
  assumes ok: "rq_ok s xs" and n: "n \<notin> set xs" and R: "Enqueue (Some n) s = Some s'"
  shows "frame s s'"
proof (cases "stat (pcbs s n) = Running \<or> stat (pcbs s n) = Ready")
  case False
  with R show ?thesis by (auto simp: Enqueue_not_ready)
next
  case True
  let ?s1 = "s\<lparr>sched_lock := 1\<rparr>"
  let ?p = "prepared n ?s1"
  have f1: "frame s ?p" using frame_trans [of s ?s1 ?p] by (simp add: frame_prepared)
  from R True obtain s2 where s2: "enqueue_ready n ?s1 = Some s2" "s' = sched_release s2"
    by (auto simp: Enqueue_def split: bind_splits)
  then obtain s3 where s3: "RbInsert (Some n) ?p = Some s3"
    by (auto simp: enqueue_ready_def prepared_def Let_def split: bind_splits)
  have rqp: "rq ?p xs"
    unfolding same_tree_rq [OF prepared_frame(1)] same_tree_rq [OF lock_frame(1)]
    using ok by (simp add: rq_ok_def rq_acc_def)
  have "sorted (map (key ?p) xs)"
    unfolding prepared_frame map_upd_other [OF n] using ok by (simp add: rq_ok_def heap_simps)
  from RbInsert_rq [OF rqp n this] s3 have "frame ?p s3" by (auto intro: frame_links)
  with f1 frame_trans have f3: "frame s s3" by blast
  have e: "enqueue_ready n ?s1 = Some (let s5 = s3\<lparr>nr_running := nr_running s3 + 1,
      total_weight := total_weight s3 + wt s3 n\<rparr>
    in if sched_current s5 = None then s5\<lparr>sched_current := Some n\<rparr> else s5)"
    using s3 by (simp add: enqueue_ready_def prepared_def Let_def wt_def)
  show ?thesis using e s2 f3
    by (auto simp: Let_def intro!: frame_trans' [OF frame_upd(7) [THEN iffD2]]
        frame_trans' [OF frame_upd(3) [THEN iffD2]] frame_trans' [OF frame_upd(2) [THEN iffD2]]
        frame_trans' [OF frame_upd(1) [THEN iffD2]])
qed

section \<open>Correctness of Schedule\<close>

text \<open>
  The states in which the kernel enters \<open>Schedule\<close>: the running task \<open>p\<close> is queued, the other
  tasks are in order, the tree is red-black, and every queued task is alive and has its own thread block.
\<close>

definition sched_state :: "'a Cpu_scheme \<Rightarrow> addr \<Rightarrow> addr list \<Rightarrow> bool" where
  "sched_state s p xs \<longleftrightarrow> current_proc s = Some p \<and> rq_acc s xs \<and> p \<in> set xs \<and>
     sorted (map (key s) (remove1 p xs)) \<and> balanced s \<and> length xs < 2 ^ 32 \<and>
     (\<forall>a\<in>set xs. stat (pcbs s a) \<noteq> Dead \<and> thread (pcbs s a) \<noteq> None) \<and>
     inj_on (\<lambda>a. thread (pcbs s a)) (set xs)"

lemma upd_pcb_same_tree:
  assumes "\<And>b. se (f b) = se b"
  shows "same_tree s (upd_pcb p f s)" "key (upd_pcb p f s) = key s" "wt (upd_pcb p f s) = wt s"
    "nr_running (upd_pcb p f s) = nr_running s" "total_weight (upd_pcb p f s) = total_weight s"
    "min_vruntime (upd_pcb p f s) = min_vruntime s" "sched_current (upd_pcb p f s) = sched_current s"
  using assms by (auto simp: same_tree_def acc_defs wt_def upd_pcb_def fun_eq_iff)

lemma upd_pcb_rq_acc:
  assumes "\<And>b. se (f b) = se b"
  shows "rq_acc (upd_pcb p f s) xs = rq_acc s xs" "balanced (upd_pcb p f s) = balanced s"
  using upd_pcb_same_tree [where f = f and s = s and p = p, OF assms] same_tree_rq [of s "upd_pcb p f s" xs]
    same_tree_balanced [of s "upd_pcb p f s"]
  by (simp_all add: rq_acc_def)

text \<open>A runnable task that is taken out and put back: the queue is in order again.\<close>

lemma requeue_prev_runnable:
  assumes st: "sched_state s p xs" and p: "stat (pcbs s p) \<noteq> Dead" "stat (pcbs s p) \<noteq> Blocked"
  shows "\<exists>s1 ys. requeue_prev p s = Some s1 \<and> rq_ok s1 ys \<and> set ys = set xs \<and> length ys = length xs \<and>
     frame (upd_pcb p (\<lambda>b. b\<lparr>stat := Ready\<rparr>) s) s1"
proof -
  let ?s0 = "upd_pcb p (\<lambda>b. b\<lparr>stat := Ready\<rparr>) s"
  have acc: "rq_acc ?s0 xs" "balanced ?s0"
    using st by (simp_all add: sched_state_def upd_pcb_rq_acc)
  have rdy: "stat (pcbs ?s0 p) = Ready" by (simp add: upd_pcb_def)
  have pm: "p \<in> set xs" and dx: "distinct xs"
    using st by (auto simp: sched_state_def rq_acc_def dest: rq_distinct)
  have rq0: "rq ?s0 xs" using acc by (simp add: rq_acc_def)
  from Dequeue_returns [OF rq0 pm acc(2)] obtain s1 where s1: "Dequeue (Some p) ?s0 = Some s1" by blast
  from Dequeue_correct [OF acc(1) pm _ s1] rdy have
    D: "rq_acc s1 (remove1 p xs)" "key s1 = key ?s0" "stat (pcbs s1 p) = Ready" by auto
  have "key ?s0 = key s" by (simp add: upd_pcb_same_tree)
  then have ok1: "rq_ok s1 (remove1 p xs)" using D st by (simp add: rq_ok_def sched_state_def)
  have np: "p \<notin> set (remove1 p xs)" using dx by simp
  from Enqueue_correct [OF ok1 np] D(3) obtain s2 k where
    s2: "Enqueue (Some p) s1 = Some s2" "rq_ok s2 (ins_after k p (remove1 p xs))" by auto
  have "requeue_prev p s = Some s2" using p s1 s2(1) by (simp add: requeue_prev_def)
  moreover have "set (ins_after k p (remove1 p xs)) = set xs" "length (ins_after k p (remove1 p xs)) = length xs"
    using dx pm length_pos_if_in_set [OF pm] by (auto simp: length_remove1)
  moreover have "frame ?s0 s2"
    using Dequeue_frame [OF rq0 pm s1] Enqueue_frame [OF ok1 np s2(1)] frame_trans by blast
  ultimately show ?thesis using s2(2) by blast
qed

lemma rq_ok_min:
  assumes "rq_ok s ys" "ys \<noteq> []"
  shows "hd ys \<in> set ys \<and> (\<forall>b\<in>set ys. key s (hd ys) \<le> key s b)"
  using assms by (cases ys) (auto simp: rq_ok_def)

lemma sched_release_same: "same_sched (s\<lparr>sched_lock := 0\<rparr>) (sched_release s)"
  by (simp add: same_sched_def sched_release_def unlock_def)

lemma same_sched_trans [trans]: "same_sched s s' \<Longrightarrow> same_sched s' s'' \<Longrightarrow> same_sched s s''"
  by (simp add: same_sched_def)

lemma switch_tables_same:
  "same_sched s (switch_tables p n s)" "tcbs (switch_tables p n s) = tcbs s"
  "current_proc (switch_tables p n s) = current_proc s"
  by (auto simp: switch_tables_def SwitchTable_def same_sched_def)

text \<open>The rest of \<open>Schedule\<close> once the queue is in order, for a task that is not dead.\<close>

lemma Schedule_rest:
  assumes p: "current_proc s = Some p" and R: "requeue_prev p s = Some s1" and ok: "rq_ok s1 ys"
    and ne: "ys \<noteq> []" "length ys < 2 ^ 32" and cp: "current_proc s1 = current_proc s"
    and alive: "\<forall>a\<in>set ys. stat (pcbs s1 a) \<noteq> Dead" "stat (pcbs s1 p) \<noteq> Dead"
    and thr: "\<forall>a\<in>insert p (set ys). thread (pcbs s1 a) \<noteq> None"
      "inj_on (\<lambda>a. thread (pcbs s1 a)) (insert p (set ys))"
  shows "\<exists>out s'. Schedule resume s = Some (out, s') \<and> rq_ok s' ys \<and> key s' = key s1 \<and>
     current_proc s' = Some (hd ys) \<and> sched_current s' = Some (hd ys) \<and> sched_lock s' = 0 \<and>
     out = (if hd ys = p then Stayed else Switched) \<and>
     (hd ys \<noteq> p \<longrightarrow> cpu_rsp s' = rsp (tcbs s1 (the (thread (pcbs s1 (hd ys))))))"
proof -
  let ?n = "hd ys"
  have n: "first_of ys = Some ?n" "?n \<in> set ys" using ne by (simp_all add: first_of_hd)
  have nr: "ys \<noteq> [] \<longleftrightarrow> 0 < nr_running s1"
    using ok of_nat_pos [OF ne(2)] by (simp add: rq_ok_def rq_acc_def)
  let ?s2 = "s1\<lparr>sched_current := Some ?n, sched_lock := 0\<rparr>"
  have pk: "PickNextTask s1 = Some (Some ?n, ?s2)"
    using pick_alive [OF _ nr] ok n alive(1) by (simp add: rq_ok_def rq_acc_def)
  have t2: "same_tree s1 ?s2" "key ?s2 = key s1" "wt ?s2 = wt s1"
    by (auto simp: same_tree_def heap_simps wt_def fun_eq_iff)
  have ok2: "rq_ok ?s2 ys" using ok t2 same_tree_rq [OF t2(1)] by (simp add: rq_ok_def rq_acc_def)
  show ?thesis
  proof (cases "?n = p")
    case True
    have "Schedule resume s = Some (Stayed, sched_release (?s2\<lparr>sched_lock := 1\<rparr>))"
      using p R pk alive(2) True by (simp add: Schedule_def)
    moreover have "same_sched ?s2 (sched_release (?s2\<lparr>sched_lock := 1\<rparr>))"
        "current_proc (sched_release (?s2\<lparr>sched_lock := 1\<rparr>)) = current_proc s1"
      by (simp_all add: same_sched_def sched_release_def unlock_def)
    ultimately obtain s5 where s5: "Schedule resume s = Some (Stayed, s5)" and ss: "same_sched ?s2 s5"
      and c: "current_proc s5 = Some ?n" using p cp True by auto
    show ?thesis
      using same_sched_ok(2) [OF ss] same_sched_acc [OF ss] ok2 t2(2) s5 ss True c
      by (simp add: same_sched_def)
  next
    case False
    let ?s4 = "switch_tables p ?n (sched_release (?s2\<lparr>sched_lock := 1, current_proc := Some ?n\<rparr>))"
    have "same_sched ?s2 (sched_release (?s2\<lparr>sched_lock := 1, current_proc := Some ?n\<rparr>))"
      by (simp add: same_sched_def sched_release_def unlock_def)
    then have "same_sched ?s2 ?s4" by (rule same_sched_trans [OF _ switch_tables_same(1)])
    moreover have "current_proc ?s4 = Some ?n" "tcbs ?s4 = tcbs s1"
      by (simp_all add: switch_tables_same sched_release_def)
    ultimately have s4: "same_sched ?s2 ?s4" "current_proc ?s4 = Some ?n" "tcbs ?s4 = tcbs s1" .
    then have pc: "pcbs ?s4 = pcbs s1" by (simp add: same_sched_def)
    obtain tp tn where th: "thread (pcbs s1 p) = Some tp" "thread (pcbs s1 ?n) = Some tn"
      using thr(1) n(2) by auto
    have "tp \<noteq> tn" using thr(2) th False n(2) by (auto simp: inj_on_def)
    with th pc SwitchContext_returns [of ?s4 p tp ?n tn resume] obtain s5 where
      s5: "SwitchContext resume p ?n ?s4 = Some s5" "same_sched ?s4 s5" "current_proc s5 = Some ?n"
        "cpu_rsp s5 = rsp (tcbs s1 tn)" using s4 by auto
    have "Schedule resume s = Some (Switched, s5)"
      using p R pk alive(2) False s5(1) by (auto simp: Schedule_def)
    moreover from s4(1) s5(2) have ss: "same_sched ?s2 s5" by (rule same_sched_trans)
    ultimately show ?thesis
      using same_sched_ok(2) [OF ss] same_sched_acc [OF ss] ok2 t2(2) False s5 th
      by (simp add: same_sched_def)
  qed
qed

theorem Schedule_fair:
  assumes st: "sched_state s p xs" and run: "stat (pcbs s p) \<noteq> Blocked"
  shows "\<exists>out s' n ys. Schedule resume s = Some (out, s') \<and> out = (if n = p then Stayed else Switched) \<and>
     current_proc s' = Some n \<and> sched_current s' = Some n \<and> sched_lock s' = 0 \<and>
     rq_ok s' ys \<and> set ys = set xs \<and> n \<in> set xs \<and> (\<forall>b\<in>set xs. key s' n \<le> key s' b)"
proof -
  let ?s0 = "upd_pcb p (\<lambda>b. b\<lparr>stat := Ready\<rparr>) s"
  have pd: "stat (pcbs s p) \<noteq> Dead" and pm: "p \<in> set xs" using st by (auto simp: sched_state_def)
  from requeue_prev_runnable [OF st pd run] obtain s1 ys where
    s1: "requeue_prev p s = Some s1" "rq_ok s1 ys" "set ys = set xs" "length ys = length xs" "frame ?s0 s1"
    by blast
  have st1: "stat (pcbs s1 a) = (if a = p then Ready else stat (pcbs s a))"
    "thread (pcbs s1 a) = thread (pcbs s a)" for a
    using frameD [OF s1(5), of a] by (simp_all add: upd_pcb_def)
  have cp: "current_proc s1 = current_proc s" using frame_cpu [OF s1(5)] by (simp add: upd_pcb_def)
  have ne: "ys \<noteq> []" "length ys < 2 ^ 32" using pm s1(3,4) st by (auto simp: sched_state_def)
  have ins: "insert p (set ys) = set xs" using pm s1(3) by auto
  have "\<exists>out s'. Schedule resume s = Some (out, s') \<and> rq_ok s' ys \<and> key s' = key s1 \<and>
     current_proc s' = Some (hd ys) \<and> sched_current s' = Some (hd ys) \<and> sched_lock s' = 0 \<and>
     out = (if hd ys = p then Stayed else Switched) \<and>
     (hd ys \<noteq> p \<longrightarrow> cpu_rsp s' = rsp (tcbs s1 (the (thread (pcbs s1 (hd ys))))))"
    by (rule Schedule_rest [OF _ s1(1,2) ne cp])
      (use st s1(3) ins in \<open>auto simp: sched_state_def st1\<close>)
  with rq_ok_min [OF s1(2) ne(1)] s1(3) show ?thesis by (metis (no_types, lifting))
qed

text \<open>A task that blocked leaves the queue; with nobody left the kernel panics.\<close>

theorem Schedule_blocked:
  assumes st: "sched_state s p xs" and blk: "stat (pcbs s p) = Blocked"
  shows "\<exists>out s'. Schedule resume s = Some (out, s') \<and>
     (if xs = [p] then out = Panicked
      else out = Switched \<and> current_proc s' = first_of (remove1 p xs) \<and> rq_ok s' (remove1 p xs) \<and>
        sched_lock s' = 0)"
proof -
  let ?ys = "remove1 p xs"
  have acc: "rq_acc s xs" "balanced s" and pm: "p \<in> set xs" and dx: "distinct xs" and cp: "current_proc s = Some p"
    using st by (auto simp: sched_state_def rq_acc_def dest: rq_distinct)
  have rq0: "rq s xs" using acc by (simp add: rq_acc_def)
  from Dequeue_returns [OF rq0 pm acc(2)] obtain s1 where s1: "Dequeue (Some p) s = Some s1" by blast
  from Dequeue_correct [OF acc(1) pm _ s1] blk st have ok: "rq_ok s1 ?ys"
    by (auto simp: rq_ok_def sched_state_def)
  have R: "requeue_prev p s = Some s1" using blk s1 by (simp add: requeue_prev_def)
  have f: "frame s s1" by (rule Dequeue_frame [OF rq0 pm s1])
  show ?thesis
  proof (cases "?ys = []")
    case True
    then have "xs = [p]" using pm by (cases xs) (auto split: if_splits)
    moreover from True ok have "nr_running s1 = 0" by (simp add: rq_ok_def rq_acc_def)
    ultimately show ?thesis using cp R by (simp add: Schedule_def PickNextTask_def)
  next
    case False
    have ins: "insert p (set ?ys) = set xs" using pm dx by auto
    have np: "hd ?ys \<noteq> p" using False dx hd_in_set [OF False] by auto
    have len: "length ?ys < 2 ^ 32" using st by (auto simp: sched_state_def length_remove1)
    have "\<exists>out s'. Schedule resume s = Some (out, s') \<and> rq_ok s' ?ys \<and> key s' = key s1 \<and>
       current_proc s' = Some (hd ?ys) \<and> sched_current s' = Some (hd ?ys) \<and> sched_lock s' = 0 \<and>
       out = (if hd ?ys = p then Stayed else Switched) \<and>
       (hd ?ys \<noteq> p \<longrightarrow> cpu_rsp s' = rsp (tcbs s1 (the (thread (pcbs s1 (hd ?ys))))))"
      by (rule Schedule_rest [OF cp R ok False len frame_cpu(1) [OF f]])
        (use st ins blk in \<open>auto simp: sched_state_def frameD [OF f] dest: notin_set_remove1\<close>)
    moreover have "xs \<noteq> [p]" using False by auto
    ultimately show ?thesis using np False by (auto simp: first_of_hd)
  qed
qed

end
