(* ===== verification/SchedProps.thy ===== *)
theory SchedProps
  imports Switch
begin

text \<open>
  The properties of the scheduler, each with a witness on a concrete run queue, and the concrete
  runs that show where the code leaves its own invariants.
\<close>

section \<open>Sample states\<close>

text \<open>Task \<open>a\<close> has virtual run time \<open>a\<close>, nice value 0, and its thread block at address \<open>a\<close>.\<close>

definition task0 :: "addr \<Rightarrow> Pcb" where
  "task0 a = \<lparr>pid = a, stat = Ready, flags = 8, parent = None, thread = Some a,
     mm = \<lparr>pml4 = 0, text_start = 0, text_end = 0, data_start = 0, data_end = 0,
       rodata_start = 0, rodata_end = 0, bss_start = 0, bss_end = 0, heap_start = 0, heap_end = 0,
       stack_base = 0\<rparr>,
     argv = 0, msg = None, tty = 0, time_used = 0, exit_code = 0, files = [],
     se = \<lparr>vruntime = a, sum_exec_runtime = 0, weight = 1024, se_min_vruntime = 0,
       rb_left = None, rb_right = None, rb_parent = None, rb_is_red = False\<rparr>\<rparr>"

definition cpu0 :: Cpu where
  "cpu0 = \<lparr>pcbs = task0, rb_root = None, leftmost = None, min_vruntime = 0, nr_running = 0,
     total_weight = 0, sched_current = None, clock = 0, sched_lock = 0, current_proc = Some 1,
     tcbs = (\<lambda>a. \<lparr>rsp0 = 0, rip = 0, rsp = 100 * a, fs = 0, gs = 0, cr2 = 0, trap_nr = 0, error_code = 0\<rparr>),
     cpu_rsp = 0, cpu_rip = 0, cpu_fs = 0, cpu_gs = 0, cr3 = 0, tss_rsp0 = 0, msr_175 = 0,
     int_on = False, pit_ticks = 0\<rparr>"


fun enqueue_all :: "addr list \<Rightarrow> 'a Sched_scheme \<Rightarrow> 'a Sched_scheme option" where
  "enqueue_all [] s = Some s"
| "enqueue_all (n # ns) s = Enqueue (Some n) s \<bind> enqueue_all ns"

definition q3 :: Cpu where "q3 = the (enqueue_all [1, 2, 3] cpu0)"
definition t3 :: "addr tree" where "t3 = Node (Node Leaf 1 Leaf) 2 (Node Leaf 3 Leaf)"

lemma q3_tree: "rb_tree q3 t3" "rbt_ok (red q3) t3" "sorted (map (key q3) (inorder t3))" "inorder t3 = [1, 2, 3]"
proof -
  have "rbh (red q3) t3 1 \<and> \<not> rootred (red q3) t3" by code_simp
  then show "rbt_ok (red q3) t3" by (auto simp: rbt_ok_def)
  show "rb_tree q3 t3" by code_simp
  show "sorted (map (key q3) (inorder t3))" by code_simp
  show "inorder t3 = [1, 2, 3]" by code_simp
qed

section \<open>The tree\<close>

text \<open>
  C1.  \<open>RbInsert\<close> on an ordered red-black tree always returns; the task is placed after every task
  of smaller or equal virtual run time, the result is again an ordered red-black tree, and
  \<^verbatim>\<open>leftmost\<close> and \<^verbatim>\<open>min_vruntime\<close> describe its first task.
\<close>

theorem RbInsert_ordered:
  assumes "rb_tree s t" "n \<notin> set_tree t" "sorted (map (key s) (inorder t))" "rbt_ok (red s) t"
  shows "\<exists>s' t'. RbInsert (Some n) s = Some s' \<and> rb_tree s' t' \<and> rbt_ok (red s') t' \<and>
     inorder t' = ins_after (key s) n (inorder t) \<and> sorted (map (key s') (inorder t')) \<and>
     leftmost s' = Some (hd (inorder t')) \<and> min_vruntime s' = key s' (hd (inorder t')) \<and>
     same_but_links s s'"
proof -
  from RbInsert_correct [OF assms(1,2)] obtain s' t' where
    r: "RbInsert (Some n) s = Some s'" "rb_tree s' t'" "inorder t' = inorder (tree_ins (key s) n t)"
      "same_but_links s s'" "leftmost s' = Some (hd (inorder t'))"
      "min_vruntime s' = key s (hd (inorder t'))" "rbt_ok (red s') t'"
    using assms(4) by blast
  have "inorder t' = ins_after (key s) n (inorder t)" using r(3) assms(3) by (simp add: inorder_tree_ins)
  moreover have "key s' = key s" using r(4) by (rule same_but_linksD)
  ultimately show ?thesis using r sorted_ins_after [OF assms(3), of n] by auto
qed

theorem RbInsert_ordered_witness:
  "\<exists>s' t'. RbInsert (Some 4) q3 = Some s' \<and> rb_tree s' t' \<and> rbt_ok (red s') t' \<and>
     inorder t' = [1, 2, 3, 4] \<and> leftmost s' = Some 1"
proof -
  have "4 \<notin> set_tree t3" by code_simp
  from RbInsert_ordered [OF q3_tree(1) this q3_tree(3,2)] obtain s' t' where
    r: "RbInsert (Some 4) q3 = Some s'" "rb_tree s' t'" "rbt_ok (red s') t'"
      "inorder t' = ins_after (key q3) 4 (inorder t3)" "leftmost s' = Some (hd (inorder t'))" by blast
  moreover have "ins_after (key q3) 4 (inorder t3) = [1, 2, 3, 4]" by code_simp
  ultimately show ?thesis by auto
qed

text \<open>
  C2.  \<open>RbErase\<close> of a queued task on a red-black tree always returns, the remaining tasks keep
  their order, and \<^verbatim>\<open>leftmost\<close> and \<^verbatim>\<open>min_vruntime\<close> describe the remaining queue.
\<close>

theorem RbErase_returns_rest:
  assumes "rb_tree s t" "n \<in> set_tree t" "rbt_ok (red s) t"
  shows "\<exists>s'. RbErase (Some n) s = Some s' \<and> erased (remove1 n (inorder t)) s s'"
  using assms by (rule RbErase_total)

theorem RbErase_returns_rest_witness:
  "\<exists>s'. RbErase (Some 2) q3 = Some s' \<and> erased [1, 3] q3 s'"
proof -
  have "2 \<in> set_tree t3" by code_simp
  from RbErase_returns_rest [OF q3_tree(1) this q3_tree(2)] show ?thesis by (simp add: q3_tree(4))
qed

text \<open>
  C3.  For every colouring, also one that is no longer red-black: whatever \<open>RbErase\<close> returns is
  the tree of the remaining tasks in their order.
\<close>

theorem RbErase_any_colouring:
  assumes "rb_tree s t" "n \<in> set_tree t" "RbErase (Some n) s = Some s'"
  shows "\<exists>t'. rb_tree s' t' \<and> inorder t' = remove1 n (inorder t) \<and>
    leftmost s' = first_of (inorder t') \<and> min_vruntime s' = min_key (key s) (inorder t') \<and>
    same_but_links s s'"
  using RbErase_partial [OF assms] by (auto simp: erased_def)

theorem RbErase_any_colouring_witness:
  "\<exists>t'. rb_tree (the (RbErase (Some 2) (set_red 2 True q3))) t' \<and> inorder t' = [1, 3]"
proof -
  have m: "2 \<in> set_tree t3" by code_simp
  have t: "rb_tree (set_red 2 True q3) t3" by (simp add: q3_tree(1))
  have "RbErase (Some 2) (set_red 2 True q3) \<noteq> None" by code_simp
  then obtain s' where s': "RbErase (Some 2) (set_red 2 True q3) = Some s'" by blast
  from RbErase_any_colouring [OF t m s'] s' show ?thesis by (auto simp: q3_tree(4))
qed




section \<open>The scheduler\<close>

lemma q3_ok: "rq_ok q3 [1, 2, 3]"
proof -
  have "leftmost q3 = first_of [1, 2, 3] \<and> nr_running q3 = 3 \<and> total_weight q3 = 3072 \<and>
      map (wt q3) [1, 2, 3] = [1024, 1024, 1024]" by code_simp
  with q3_tree show ?thesis by (auto simp: rq_ok_def rq_acc_def rq_def)
qed

lemma q3_balanced: "balanced q3"
  using q3_tree by (auto simp: balanced_def)

lemma q3_state: "sched_state q3 1 [1, 2, 3]"
proof -
  have c: "current_proc q3 = Some 1 \<and>
      list_all (\<lambda>a. stat (pcbs q3 a) = Ready \<and> thread (pcbs q3 a) = Some a) [1, 2, 3]" by code_simp
  then have "inj_on (\<lambda>a. thread (pcbs q3 a)) (set [1, 2, 3])" by (auto simp: inj_on_def)
  with c q3_ok q3_balanced show ?thesis by (auto simp: sched_state_def rq_ok_def)
qed

text \<open>
  C5.  \<open>Schedule\<close> entered by a runnable task always returns, and the processor goes to a task of
  minimal virtual run time among all queued tasks, the caller included; the queue is in order
  afterwards with exactly the same tasks, the counters agree with it, and the lock is free.
\<close>

theorem Schedule_picks_minimum:
  assumes "sched_state s p xs" "stat (pcbs s p) \<noteq> Blocked"
  shows "\<exists>out s' n ys. Schedule resume s = Some (out, s') \<and> out = (if n = p then Stayed else Switched) \<and>
     current_proc s' = Some n \<and> sched_current s' = Some n \<and> sched_lock s' = 0 \<and>
     rq_ok s' ys \<and> set ys = set xs \<and> n \<in> set xs \<and> (\<forall>b\<in>set xs. key s' n \<le> key s' b)"
  using assms by (rule Schedule_fair)

theorem Schedule_picks_minimum_witness:
  "\<exists>out s' n. Schedule 0 (upd_se 1 (\<lambda>e. e\<lparr>vruntime := 10\<rparr>) q3) = Some (out, s') \<and>
     n \<in> set [1, 2, 3] \<and> (\<forall>b\<in>set [1, 2, 3]. key s' n \<le> key s' b)"
proof -
  let ?s = "upd_se 1 (\<lambda>e. e\<lparr>vruntime := 10\<rparr>) q3"
  have "same_tree q3 ?s" by (simp add: same_tree_def upd_se_links) (simp add: upd_se_def)
  then have "rq_acc ?s [1, 2, 3]" "balanced ?s"
    using q3_ok q3_balanced same_tree_rq [of q3 ?s] same_tree_balanced [of q3 ?s]
    by (auto simp: rq_ok_def rq_acc_def wt_def upd_se_def)
  moreover have "current_proc ?s = Some 1 \<and> sorted (map (key ?s) (remove1 1 [1, 2, 3])) \<and>
      list_all (\<lambda>a. stat (pcbs ?s a) = Ready \<and> thread (pcbs ?s a) = Some a) [1, 2, 3]" by code_simp
  moreover from this have "inj_on (\<lambda>a. thread (pcbs ?s a)) (set [1, 2, 3])" by (auto simp: inj_on_def)
  ultimately have "sched_state ?s 1 [1, 2, 3]" "stat (pcbs ?s 1) \<noteq> Blocked" by (auto simp: sched_state_def)
  from Schedule_picks_minimum [OF this] show ?thesis by blast
qed

text \<open>
  C6.  \<open>Schedule\<close> entered by a task that has blocked: the task is out of the queue, the processor
  goes to the first of the others, and if there is no other task the kernel panics.
\<close>

theorem Schedule_drops_blocked:
  assumes "sched_state s p xs" "stat (pcbs s p) = Blocked"
  shows "\<exists>out s'. Schedule resume s = Some (out, s') \<and>
     (if xs = [p] then out = Panicked
      else out = Switched \<and> current_proc s' = first_of (remove1 p xs) \<and> rq_ok s' (remove1 p xs) \<and>
        sched_lock s' = 0)"
  using assms by (rule Schedule_blocked)

theorem Schedule_drops_blocked_witness:
  "\<exists>s'. Schedule 0 (upd_pcb 1 (\<lambda>b. b\<lparr>stat := Blocked\<rparr>) q3) = Some (Switched, s') \<and>
     current_proc s' = Some 2 \<and> rq_ok s' [2, 3]"
proof -
  let ?s = "upd_pcb 1 (\<lambda>b. b\<lparr>stat := Blocked\<rparr>) q3"
  have "rq_acc ?s [1, 2, 3]" "balanced ?s"
    using q3_ok q3_balanced by (simp_all add: upd_pcb_rq_acc rq_ok_def)
  moreover have c: "current_proc ?s = Some 1 \<and> sorted (map (key ?s) (remove1 1 [1, 2, 3])) \<and>
      list_all (\<lambda>a. stat (pcbs ?s a) \<noteq> Dead \<and> thread (pcbs ?s a) = Some a) [1, 2, 3] \<and>
      stat (pcbs ?s 1) = Blocked" by code_simp
  moreover from c have "inj_on (\<lambda>a. thread (pcbs ?s a)) (set [1, 2, 3])" by (auto simp: inj_on_def)
  ultimately have "sched_state ?s 1 [1, 2, 3]" by (auto simp: sched_state_def)
  from Schedule_drops_blocked [OF this] c show ?thesis by (auto simp: first_of_def)
qed

text \<open>
  C7.  \<open>Enqueue\<close> of a runnable task: it returns, the task is queued behind all tasks of no larger
  virtual run time after its own has been lifted to the minimum of a non-empty queue, and count,
  total weight, first task, minimum and order of the queue are right again.
\<close>

theorem Enqueue_places_task:
  assumes "rq_ok s xs" "n \<notin> set xs" "stat (pcbs s n) = Running \<or> stat (pcbs s n) = Ready"
  shows "\<exists>s' k. Enqueue (Some n) s = Some s' \<and>
     k = (key s)(n := if xs = [] then key s n else max (key s n) (min_vruntime s)) \<and> key s' = k \<and>
     rq_ok s' (ins_after k n xs) \<and> min_vruntime s' = k (hd (ins_after k n xs)) \<and>
     sched_lock s' = 0 \<and> (balanced s \<longrightarrow> balanced s')"
  using Enqueue_correct [OF assms] by blast

theorem Enqueue_places_task_witness:
  "\<exists>s'. Enqueue (Some 9) q3 = Some s' \<and> rq_ok s' [1, 2, 3, 9] \<and> balanced s'"
proof -
  have "9 \<notin> set [1, 2, 3 :: addr]" "stat (pcbs q3 9) = Running \<or> stat (pcbs q3 9) = Ready" by code_simp+
  from Enqueue_places_task [OF q3_ok this] obtain s' k where
    s': "Enqueue (Some 9) q3 = Some s'" "rq_ok s' (ins_after k 9 [1, 2, 3])" "balanced q3 \<longrightarrow> balanced s'"
      "k = (key q3)(9 := max (key q3 9) (min_vruntime q3))" by auto
  moreover have "ins_after ((key q3)(9 := max (key q3 9) (min_vruntime q3))) 9 [1, 2, 3] = [1, 2, 3, 9]"
    by code_simp
  ultimately show ?thesis using q3_balanced by auto
qed

text \<open>
  C8.  \<open>Dequeue\<close> of a queued task in a counted state: whenever it returns, exactly that task is
  gone, and count, total weight, first task and minimum describe the remaining queue.
\<close>

theorem Dequeue_removes_task:
  assumes "rq_acc s xs" "n \<in> set xs"
    "stat (pcbs s n) = Running \<or> stat (pcbs s n) = Ready \<or> stat (pcbs s n) = Blocked"
    "Dequeue (Some n) s = Some s'"
  shows "rq_acc s' (remove1 n xs) \<and> key s' = key s \<and> sched_lock s' = 0 \<and>
    min_vruntime s' = min_key (key s) (remove1 n xs) \<and>
    sched_current s' = (if sched_current s = Some n then first_of (remove1 n xs) else sched_current s)"
  using Dequeue_correct [OF assms] by blast

theorem Dequeue_removes_task_witness:
  "\<exists>s'. Dequeue (Some 1) q3 = Some s' \<and> rq_acc s' [2, 3] \<and> sched_current s' = Some 2"
proof -
  have "Dequeue (Some 1) q3 \<noteq> None" by code_simp
  then obtain s' where s': "Dequeue (Some 1) q3 = Some s'" by blast
  have c: "stat (pcbs q3 1) = Ready \<and> sched_current q3 = Some 1" by code_simp
  have "rq_acc q3 [1, 2, 3]" using q3_ok by (simp add: rq_ok_def)
  from Dequeue_removes_task [OF this _ _ s'] c s' show ?thesis by (auto simp: first_of_def)
qed

text \<open>
  C9.  \<open>PickNextTask\<close> drops the dead tasks at the front of the queue and returns the first live
  one, which becomes the current task; the other tasks stay queued in their order.
\<close>

theorem PickNextTask_skips_dead:
  assumes "rq s xs" "nr_running s = of_nat (length xs)" "length xs < 2 ^ 32"
    "PickNextTask s = Some (nxt, s')"
  shows "nxt = first_of (dropWhile (is_dead s) xs) \<and> rq s' (dropWhile (is_dead s) xs) \<and>
    key s' = key s \<and> sched_current s' = nxt \<and> sched_lock s' = 0"
  using assms by (rule PickNextTask_partial)

theorem PickNextTask_skips_dead_witness:
  "\<exists>s'. PickNextTask (upd_pcb 1 (\<lambda>b. b\<lparr>stat := Dead\<rparr>) q3) = Some (Some 2, s') \<and> rq s' [2, 3]"
proof -
  let ?s = "upd_pcb 1 (\<lambda>b. b\<lparr>stat := Dead\<rparr>) q3"
  have "rq_acc ?s [1, 2, 3]" using q3_ok by (simp add: upd_pcb_rq_acc rq_ok_def)
  then have r: "rq ?s [1, 2, 3]" "nr_running ?s = of_nat (length [1, 2, 3 :: addr])"
    "length [1, 2, 3 :: addr] < 2 ^ 32" by (simp_all add: rq_acc_def)
  have "PickNextTask ?s \<noteq> None" by code_simp
  then obtain nxt s' where s': "PickNextTask ?s = Some (nxt, s')" by auto
  have "dropWhile (is_dead ?s) [1, 2, 3] = [2, 3]" by code_simp
  with PickNextTask_skips_dead [OF r s'] s' show ?thesis by (auto simp: first_of_def)
qed

text \<open>
  C10.  The running task stays in the tree while its virtual run time grows, so the tree can be
  out of order when another task is enqueued.  Here task 1 runs and is charged 100 units, task 50
  is woken, and \<open>Schedule\<close> then gives the processor to task 50 although the queued task 2 has a
  smaller virtual run time: \<open>Enqueue\<close> keeps the order only if the tree was in order.
\<close>

definition charged_run :: "Cpu \<Rightarrow> (sched_outcome \<times> Cpu) option" where
  "charged_run s = do {
     s1 \<leftarrow> enqueue_all [1, 2] s;
     s2 \<leftarrow> UpdateClock 100 s1;
     s3 \<leftarrow> Enqueue (Some 50) s2;
     Schedule 0 s3 }"

theorem Enqueue_after_charge_misorders:
  "\<exists>out s' t. charged_run cpu0 = Some (out, s') \<and> current_proc s' = Some 50 \<and>
     rb_tree s' t \<and> 2 \<in> set_tree t \<and> key s' 2 < key s' 50"
proof -
  let ?r = "the (charged_run cpu0)" and ?t = "Node (Node Leaf 50 Leaf) 2 (Node Leaf 1 Leaf) :: addr tree"
  have r: "charged_run cpu0 \<noteq> None" by code_simp
  have t: "rb_tree (snd ?r) ?t" by code_simp
  have "current_proc (snd ?r) = Some 50 \<and> key (snd ?r) 2 < key (snd ?r) 50" by code_simp
  with r t show ?thesis by (intro exI [of _ "fst ?r"] exI [of _ "snd ?r"] exI [of _ ?t]) auto
qed

section \<open>Weights and virtual run time\<close>

text \<open>
  Nice values and weights: converting a nice value to a weight and back gives the nice value
  clamped to the range from -20 to 19, and a larger nice value never has a larger weight.
\<close>

lemma weight_mono:
  "i \<le> j \<Longrightarrow> j < 40 \<Longrightarrow> PRIO_TO_WEIGHT ! j \<le> PRIO_TO_WEIGHT ! i"
  using sorted_wrt_nth_less [OF PRIO_TO_WEIGHT_props(2), of i j] PRIO_TO_WEIGHT_props(1)
  by (cases "i = j") auto

theorem nice_weight_roundtrip:
  "Weight2Nice (Nice2Weight n) = max (-20) (min 19 n) \<and> (m \<le> n \<longrightarrow> Nice2Weight n \<le> Nice2Weight m)"
proof
  have c: "clamp_nice k = max (-20) (min 19 k)" for k by (simp add: clamp_nice_def Let_def)
  have "Weight2Nice (Nice2Weight n) = int (nat (clamp_nice n + 20)) - 20"
    unfolding Weight2Nice_def Nice2Weight_def
    using weight_index_nth [OF PRIO_TO_WEIGHT_distinct, of "nat (clamp_nice n + 20)" 0] clamp_nice_range
    by (simp add: PRIO_TO_WEIGHT_props)
  then show "Weight2Nice (Nice2Weight n) = max (-20) (min 19 n)" using c by simp
  have "m \<le> n \<Longrightarrow> nat (clamp_nice m + 20) \<le> nat (clamp_nice n + 20)" by (simp add: c)
  then show "m \<le> n \<longrightarrow> Nice2Weight n \<le> Nice2Weight m"
    unfolding Nice2Weight_def using weight_mono clamp_nice_range by blast
qed

theorem nice_weight_roundtrip_witness: "Weight2Nice (Nice2Weight (-30)) = -20 \<and> Nice2Weight 5 \<le> Nice2Weight (-5)"
  using nice_weight_roundtrip [of "-30" 0] nice_weight_roundtrip [of 5 "-5"] by simp

text \<open>
  C12.  The virtual run time a task is charged: below \<open>2^54\<close> time units nothing overflows, the
  charge is the elapsed time times 1024 divided by the weight, and a heavier task is charged no
  more than a lighter one.
\<close>

lemma unat_ucast_up: "unat (ucast (w :: u32) :: u64) = unat w"
proof -
  have "unat w < 2 ^ 64" using unsigned_less [of w, where ?'a = nat] by simp
  then show ?thesis by (simp add: unsigned_ucast_eq take_bit_nat_eq_self)
qed

lemma CalcVruntimeDelta_unat:
  assumes "0 < w" "unat d < 2 ^ 54"
  shows "\<exists>v. CalcVruntimeDelta d w = Some v \<and> unat v = unat d * 1024 div unat w"
proof -
  have "unat d * 1024 < 2 ^ 64" using assms(2) by simp
  then have "unat (d * 1024) = unat d * 1024" by (simp add: unat_word_ariths)
  then show ?thesis using assms(1) by (auto simp: CalcVruntimeDelta_def unat_div unat_ucast_up)
qed

theorem CalcVruntimeDelta_fair:
  assumes "0 < w" "w \<le> w'" "unat d < 2 ^ 54"
  shows "\<exists>v v'. CalcVruntimeDelta d w = Some v \<and> CalcVruntimeDelta d w' = Some v' \<and>
     v' \<le> v \<and> unat v = unat d * 1024 div unat w"
proof -
  from assms have "0 < w'" by simp
  from CalcVruntimeDelta_unat [OF assms(1,3)] CalcVruntimeDelta_unat [OF this assms(3)]
  obtain v v' where v: "CalcVruntimeDelta d w = Some v" "unat v = unat d * 1024 div unat w"
    "CalcVruntimeDelta d w' = Some v'" "unat v' = unat d * 1024 div unat w'" by blast
  have "unat w \<le> unat w'" "0 < unat w" using assms by (auto simp: word_le_nat_alt word_less_nat_alt)
  then have "unat v' \<le> unat v" unfolding v by (rule div_le_mono2 [rotated])
  with v show ?thesis by (auto simp: word_le_nat_alt)
qed

theorem CalcVruntimeDelta_fair_witness:
  "\<exists>v v'. CalcVruntimeDelta 10 15 = Some v \<and> CalcVruntimeDelta 10 1024 = Some v' \<and> v' \<le> v"
  using CalcVruntimeDelta_fair [of 15 1024 10] by auto

section \<open>Switching, locks and semaphores\<close>

text \<open>
  Switching from one task to another and back restores the stack pointer as it was after
  the two pushes, the segment registers, and resumes at the label after the switch.
\<close>

theorem SwitchContext_roundtrip:
  assumes "thread (pcbs s p) = Some tp" "thread (pcbs s n) = Some tn" "tp \<noteq> tn"
  shows "\<exists>s1 s2. SwitchContext resume p n s = Some s1 \<and> SwitchContext resume n p s1 = Some s2 \<and>
     cpu_rsp s2 = cpu_rsp s - 16 \<and> cpu_rip s2 = resume \<and> cpu_fs s2 = cpu_fs s \<and> cpu_gs s2 = cpu_gs s \<and>
     tss_rsp0 s2 = rsp0 (tcbs s tp) \<and> same_sched s s2"
proof -
  from SwitchContext_returns [OF assms] obtain s1 where
    s1: "SwitchContext resume p n s = Some s1" "same_sched s s1"
      "tcbs s1 = (tcbs s)(tp := (tcbs s tp)\<lparr>rsp := cpu_rsp s - 16, rip := resume, fs := cpu_fs s, gs := cpu_gs s\<rparr>)"
    by blast
  then have "pcbs s1 = pcbs s" by (simp add: same_sched_def)
  with SwitchContext_returns [of s1 n tn p tp resume] assms obtain s2 where
    s2: "SwitchContext resume n p s1 = Some s2" "same_sched s1 s2" "cpu_rsp s2 = rsp (tcbs s1 tp)"
      "cpu_rip s2 = rip (tcbs s1 tp)" "cpu_fs s2 = fs (tcbs s1 tp)" "cpu_gs s2 = gs (tcbs s1 tp)"
      "tss_rsp0 s2 = rsp0 (tcbs s1 tp)" by auto
  with s1 same_sched_trans [OF s1(2) s2(2)] show ?thesis by simp
qed

theorem SwitchContext_roundtrip_witness:
  "\<exists>s1 s2. SwitchContext 7 1 2 (cpu0\<lparr>cpu_rsp := 500, cpu_fs := 3\<rparr>) = Some s1 \<and>
     SwitchContext 7 2 1 s1 = Some s2 \<and> cpu_rsp s2 = 484 \<and> cpu_rip s2 = 7 \<and> cpu_fs s2 = 3"
proof -
  let ?s = "cpu0\<lparr>cpu_rsp := 500, cpu_fs := 3\<rparr>"
  have "thread (pcbs ?s 1) = Some 1" "thread (pcbs ?s 2) = Some 2" "(1 :: addr) \<noteq> 2"
    by (simp_all add: cpu0_def task0_def)
  from SwitchContext_roundtrip [OF this, of 7] show ?thesis by auto
qed

text \<open>
  The spin lock does not exclude anyone: \<open>lock\<close> and \<open>try_lock\<close> succeed at once whatever the
  state of the lock, also when it is held.
\<close>

theorem spin_lock_never_waits: "lock st = Some 1 \<and> try_lock st = (True, 1)"
  by (simp add: try_lock_def xchg_def)

text \<open>
  \<open>signal\<close> neither adds a unit to the semaphore nor touches any task, so a semaphore whose
  value has reached zero blocks every later \<open>wait\<close>; \<open>wait\<close> on a positive value takes one unit and returns.
\<close>

theorem Sem_units:
  "Sem_signal m = Some (m\<lparr>sem_lock := 0\<rparr>) \<and>
   (0 <s sem_value m \<longrightarrow> Sem_wait resume m s = Some (None, m\<lparr>sem_value := sem_value m - 1, sem_lock := 0\<rparr>, s)) \<and>
   (\<not> 0 <s sem_value m \<longrightarrow> Sem_wait resume m s \<noteq> Some (None, m', s'))"
  by (auto simp: Sem_signal_def Sem_wait_def unlock_def Let_def split: bind_splits)

theorem Sem_units_witness:
  "Sem_wait 0 (Sem_new 1) cpu0 = Some (None, Sem_new 0, cpu0) \<and> Sem_wait 0 (Sem_new 0) cpu0 \<noteq> Some (None, Sem_new 0, cpu0)"
proof -
  have "0 <s sem_value (Sem_new 1)" "\<not> 0 <s sem_value (Sem_new 0)" by code_simp+
  with Sem_units [of "Sem_new 1" 0 cpu0 m' s'] Sem_units [of "Sem_new 0" 0 cpu0 "Sem_new 0" cpu0]
  show ?thesis by (simp add: Sem_new_def)
qed

end
