(* ===== verification/Ring.thy ===== *)
theory Ring
  imports Prelude
begin

text \<open>
  Bounded first-in first-out buffers.  The pipe and the keyboard queue both keep a circular
  array with a read position, a write position and a fill count; this theory has the array
  lemmas both need and the interface of a bounded queue with what its clients rely on.
\<close>

section \<open>Circular arrays\<close>

definition ring :: "nat \<Rightarrow> 'e list \<Rightarrow> nat \<Rightarrow> nat \<Rightarrow> 'e list" where
  "ring N buf h c = map (\<lambda>i. buf ! ((h + i) mod N)) [0..<c]"

lemma length_ring [simp]: "length (ring N buf h c) = c"
  by (simp add: ring_def)

lemma ring_0 [simp]: "ring N buf h 0 = []"
  by (simp add: ring_def)

lemma mod_add_inj:
  fixes h i c N :: nat
  assumes "i < c" "c < N"
  shows "(h + i) mod N \<noteq> (h + c) mod N"
proof
  assume "(h + i) mod N = (h + c) mod N"
  then have "N dvd (h + c) - (h + i)"
    using assms mod_eq_dvd_iff_nat [of "h + i" "h + c" N] by simp
  then show False using assms nat_dvd_not_less [of "c - i" N] by simp
qed

lemma ring_push:
  assumes "c < N" "length buf = N" "0 < N"
  shows "ring N (buf[(h + c) mod N := e]) h (Suc c) = ring N buf h c @ [e]"
proof -
  have "buf[(h + c) mod N := e] ! ((h + i) mod N) = buf ! ((h + i) mod N)" if "i < c" for i
    using mod_add_inj [OF that assms(1), of h] by (simp add: nth_list_update)
  then show ?thesis using assms by (simp add: ring_def)
qed

lemma ring_pop:
  assumes "0 < c" "h < N"
  shows "ring N buf h c = buf ! h # ring N buf ((h + 1) mod N) (c - 1)"
proof -
  have "[0..<c] = 0 # map Suc [0..<c - 1]" using assms(1) by (simp add: map_Suc_upt upt_conv_Cons)
  then show ?thesis using assms(2) by (simp add: ring_def mod_add_left_eq comp_def)
qed

section \<open>The interface\<close>

fun pop_many :: "('s \<Rightarrow> ('e \<times> 's) option) \<Rightarrow> nat \<Rightarrow> 's \<Rightarrow> 'e list \<times> 's" where
  "pop_many pop 0 s = ([], s)"
| "pop_many pop (Suc n) s = (case pop s of
     None \<Rightarrow> ([], s)
   | Some (e, s') \<Rightarrow> (let (es, s'') = pop_many pop n s' in (e # es, s'')))"

locale fifo =
  fixes ok :: "'s \<Rightarrow> bool"
    and contents :: "'s \<Rightarrow> 'e list"
    and cap :: nat
    and push :: "'e \<Rightarrow> 's \<Rightarrow> 's"
    and pop :: "'s \<Rightarrow> ('e \<times> 's) option"
  assumes push_law: "ok s \<Longrightarrow> length (contents s) < cap \<Longrightarrow>
      ok (push e s) \<and> contents (push e s) = contents s @ [e]"
    and pop_empty: "ok s \<Longrightarrow> contents s = [] \<Longrightarrow> pop s = None"
    and pop_law: "ok s \<Longrightarrow> contents s = e # es \<Longrightarrow> \<exists>s'. pop s = Some (e, s') \<and> ok s' \<and> contents s' = es"
begin

lemma push_all:
  "ok s \<Longrightarrow> length (contents s) + length es \<le> cap \<Longrightarrow>
    ok (fold push es s) \<and> contents (fold push es s) = contents s @ es"
proof (induction es arbitrary: s)
  case (Cons e es)
  with push_law [of s e] Cons.IH [of "push e s"] show ?case by simp
qed simp

lemma pop_all:
  "ok s \<Longrightarrow> \<exists>s'. pop_many pop n s = (take n (contents s), s') \<and> ok s' \<and> contents s' = drop n (contents s)"
proof (induction n arbitrary: s)
  case (Suc n)
  show ?case
  proof (cases "contents s")
    case Nil
    with Suc.prems pop_empty show ?thesis by simp
  next
    case (Cons e es)
    with pop_law [OF Suc.prems] obtain s' where "pop s = Some (e, s')" "ok s'" "contents s' = es" by blast
    with Suc.IH [of s'] Cons show ?thesis by auto
  qed
qed simp

text \<open>What goes in comes out, in order: the round trip of a bounded queue.\<close>

lemma push_pop:
  assumes "ok s" "contents s = []" "length es \<le> cap"
  shows "fst (pop_many pop (length es) (fold push es s)) = es"
  using push_all [of s es] pop_all [of "fold push es s" "length es"] assms by auto

end

end
