(* ===== verification/Pipe.thy ===== *)
theory Pipe
  imports Ring Switch
begin

text \<open>
  The pipes of \<^verbatim>\<open>src/task/pipe.cc\<close>: a table of 64 circular buffers of 4096 bytes, each with two
  semaphores.  A call either returns a value or gives the processor away inside \<open>wait\<close>.
\<close>

section \<open>Data\<close>

record Pipe =
  p_buffer :: "byte list"
  read_pos :: u64
  write_pos :: u64
  buffer_size :: u64
  p_lock :: u32
  readable :: Sem
  writable :: Sem
  reader :: ptr
  writer :: ptr
  is_closed :: bool

record Pipes =
  pipe_table :: "Pipe list"
  pipe_count :: int

section \<open>Operations\<close>

definition PipeCreate :: "Pipes \<Rightarrow> (int \<times> (int \<times> int) option \<times> Pipes) option" where
  "PipeCreate P =
     (if pipe_count P \<ge> 64 then Some (-1, None, P)
      else let pid = pipe_count P; i = nat pid in
        if i < length (pipe_table P) then
          Some (0, Some (pid * 2, pid * 2 + 1),
            P\<lparr>pipe_count := pid + 1,
              pipe_table := (pipe_table P)[i := (pipe_table P ! i)\<lparr>read_pos := 0, write_pos := 0,
                buffer_size := 0, reader := None, writer := None, is_closed := False,
                readable := Sem_new 0, writable := Sem_new 4096\<rparr>]\<rparr>)
        else None)"

text \<open>
  The wait loop at the head of \<open>PipeRead\<close> and \<open>PipeWrite\<close>.  The lock is dropped around the wait
  and taken again; \<open>blocked\<close> is the loop condition, \<open>sem\<close> and \<open>set_sem\<close> select the semaphore.
\<close>

definition wait_body ::
  "(Pipe \<Rightarrow> bool) \<Rightarrow> (Pipe \<Rightarrow> Sem) \<Rightarrow> (Sem \<Rightarrow> Pipe \<Rightarrow> Pipe) \<Rightarrow> u64 \<Rightarrow> Pipe \<times> 'a Cpu_scheme \<Rightarrow>
   (Pipe \<times> 'a Cpu_scheme, unit call \<times> Pipe \<times> 'a Cpu_scheme) step option" where
  "wait_body blocked sem set_sem resume = (\<lambda>(p, s).
     if blocked p \<and> \<not> is_closed p then do {
       let p1 = p\<lparr>p_lock := unlock (p_lock p)\<rparr>;
       (out, m, s1) \<leftarrow> Sem_wait resume (sem p1) s;
       let p2 = set_sem m p1;
       (if out = None \<or> out = Some Stayed then do {
          l \<leftarrow> lock (p_lock p2);
          Some (Next (p2\<lparr>p_lock := l\<rparr>, s1)) }
        else Some (Done (Suspends (the out), p2, s1))) }
     else Some (Done (Returns (), p, s)))"

text \<open>The copy loops, one byte per round.\<close>

fun read_bytes :: "nat \<Rightarrow> Pipe \<Rightarrow> byte list \<times> Pipe" where
  "read_bytes 0 p = ([], p)"
| "read_bytes (Suc n) p = (let b = p_buffer p ! unat (read_pos p);
     (bs, p') = read_bytes n (p\<lparr>read_pos := (read_pos p + 1) mod 4096\<rparr>) in (b # bs, p'))"

fun write_bytes :: "byte list \<Rightarrow> Pipe \<Rightarrow> Pipe" where
  "write_bytes [] p = p"
| "write_bytes (b # bs) p = write_bytes bs
     (p\<lparr>p_buffer := (p_buffer p)[unat (write_pos p) := b], write_pos := (write_pos p + 1) mod 4096\<rparr>)"

definition read_ready :: "u64 \<Rightarrow> Pipe \<Rightarrow> (int \<times> byte list \<times> Pipe) option" where
  "read_ready sz p =
     (if buffer_size p = 0 then Some (0, [], p\<lparr>p_lock := unlock (p_lock p)\<rparr>)
      else do {
        let read_size = (if sz < buffer_size p then sz else buffer_size p);
        let (bs, p1) = read_bytes (unat read_size) p;
        let p2 = p1\<lparr>buffer_size := buffer_size p1 - read_size\<rparr>;
        let p3 = p2\<lparr>p_lock := unlock (p_lock p2)\<rparr>;
        w \<leftarrow> Sem_signal (writable p3);
        Some (uint read_size, bs, p3\<lparr>writable := w\<rparr>) })"

definition write_ready :: "byte list \<Rightarrow> u64 \<Rightarrow> Pipe \<Rightarrow> (int \<times> Pipe) option" where
  "write_ready buf sz p =
     (if is_closed p then Some (-1, p\<lparr>p_lock := unlock (p_lock p)\<rparr>)
      else do {
        let write_size = (if sz < 4096 - buffer_size p then sz else 4096 - buffer_size p);
        if length buf < unat write_size then None else do {
          let p1 = write_bytes (take (unat write_size) buf) p;
          let p2 = p1\<lparr>buffer_size := buffer_size p1 + write_size\<rparr>;
          let p3 = p2\<lparr>p_lock := unlock (p_lock p2)\<rparr>;
          r \<leftarrow> Sem_signal (readable p3);
          Some (uint write_size, p3\<lparr>readable := r\<rparr>) } })"

definition valid_fd :: "int \<Rightarrow> Pipes \<Rightarrow> bool" where
  "valid_fd fd P \<longleftrightarrow> \<not> (fd < 0 \<or> fd \<ge> 128) \<and> \<not> (fd div 2 \<ge> pipe_count P)"

definition PipeRead :: "u64 \<Rightarrow> int \<Rightarrow> u64 \<Rightarrow> Pipes \<Rightarrow> 'a Cpu_scheme \<Rightarrow>
    ((int \<times> byte list) call \<times> Pipes \<times> 'a Cpu_scheme) option" where
  "PipeRead resume fd sz P s =
     (if \<not> valid_fd fd P then Some (Returns (-1, []), P, s) else do {
        let i = nat (fd div 2);
        let p = pipe_table P ! i;
        l \<leftarrow> lock (p_lock p);
        (w, p1, s1) \<leftarrow> loop (wait_body (\<lambda>p. buffer_size p = 0) readable (\<lambda>m p. p\<lparr>readable := m\<rparr>) resume)
           (p\<lparr>p_lock := l\<rparr>, s);
        (case w of
           Suspends out \<Rightarrow> Some (Suspends out, P\<lparr>pipe_table := (pipe_table P)[i := p1]\<rparr>, s1)
         | Returns u \<Rightarrow> do {
             (r, bs, p2) \<leftarrow> read_ready sz p1;
             Some (Returns (r, bs), P\<lparr>pipe_table := (pipe_table P)[i := p2]\<rparr>, s1) }) })"

definition PipeWrite :: "u64 \<Rightarrow> int \<Rightarrow> byte list \<Rightarrow> u64 \<Rightarrow> Pipes \<Rightarrow> 'a Cpu_scheme \<Rightarrow>
    (int call \<times> Pipes \<times> 'a Cpu_scheme) option" where
  "PipeWrite resume fd buf sz P s =
     (if \<not> valid_fd fd P then Some (Returns (-1), P, s) else do {
        let i = nat (fd div 2);
        let p = pipe_table P ! i;
        l \<leftarrow> lock (p_lock p);
        (w, p1, s1) \<leftarrow> loop (wait_body (\<lambda>p. buffer_size p = 4096) writable (\<lambda>m p. p\<lparr>writable := m\<rparr>) resume)
           (p\<lparr>p_lock := l\<rparr>, s);
        (case w of
           Suspends out \<Rightarrow> Some (Suspends out, P\<lparr>pipe_table := (pipe_table P)[i := p1]\<rparr>, s1)
         | Returns u \<Rightarrow> do {
             (r, p2) \<leftarrow> write_ready buf sz p1;
             Some (Returns r, P\<lparr>pipe_table := (pipe_table P)[i := p2]\<rparr>, s1) }) })"

definition PipeClose :: "int \<Rightarrow> Pipes \<Rightarrow> Pipes option" where
  "PipeClose fd P =
     (if \<not> valid_fd fd P then Some P else do {
        let i = nat (fd div 2);
        let p = pipe_table P ! i;
        l \<leftarrow> lock (p_lock p);
        let p1 = p\<lparr>p_lock := l, is_closed := True\<rparr>;
        let p2 = p1\<lparr>p_lock := unlock (p_lock p1)\<rparr>;
        r \<leftarrow> Sem_signal (readable p2);
        let p3 = p2\<lparr>readable := r\<rparr>;
        w \<leftarrow> Sem_signal (writable p3);
        Some (P\<lparr>pipe_table := (pipe_table P)[i := p3\<lparr>writable := w\<rparr>]\<rparr>) })"

section \<open>The buffer as a queue\<close>

definition pipe_ok :: "Pipe \<Rightarrow> bool" where
  "pipe_ok p \<longleftrightarrow> length (p_buffer p) = 4096 \<and> unat (read_pos p) < 4096 \<and> unat (buffer_size p) \<le> 4096 \<and>
     unat (write_pos p) = (unat (read_pos p) + unat (buffer_size p)) mod 4096"

definition pipe_contents :: "Pipe \<Rightarrow> byte list" where
  "pipe_contents p = ring 4096 (p_buffer p) (unat (read_pos p)) (unat (buffer_size p))"

lemma length_pipe_contents [simp]: "length (pipe_contents p) = unat (buffer_size p)"
  by (simp add: pipe_contents_def)

text \<open>One byte in and one byte out, with the fill count moved at once.\<close>

definition put_byte :: "byte \<Rightarrow> Pipe \<Rightarrow> Pipe" where
  "put_byte b p = (write_bytes [b] p)\<lparr>buffer_size := buffer_size p + 1\<rparr>"

definition get_byte :: "Pipe \<Rightarrow> (byte \<times> Pipe) option" where
  "get_byte p = (if buffer_size p = 0 then None
     else Some (p_buffer p ! unat (read_pos p),
       p\<lparr>read_pos := (read_pos p + 1) mod 4096, buffer_size := buffer_size p - 1\<rparr>))"

lemma unat_step_mod:
  fixes x :: u64
  assumes "unat x < 4096"
  shows "unat ((x + 1) mod 4096) = (unat x + 1) mod 4096"
  using assms by (simp add: unat_mod unat_word_ariths)

lemma unat_inc: "unat x < 2 ^ 64 - 1 \<Longrightarrow> unat (x + 1 :: u64) = unat x + 1"
  by (simp add: unat_word_ariths)

lemma unat_dec: "x \<noteq> 0 \<Longrightarrow> unat (x - 1 :: u64) = unat x - 1"
  by (metis Suc_eq_plus1 diff_add_inverse2 unat_eq_zero unat_minus_one)

lemma put_byte_law:
  assumes "pipe_ok p" "length (pipe_contents p) < 4096"
  shows "pipe_ok (put_byte b p) \<and> pipe_contents (put_byte b p) = pipe_contents p @ [b]"
proof -
  let ?h = "unat (read_pos p)" and ?c = "unat (buffer_size p)"
  from assms have h: "length (p_buffer p) = 4096" "?h < 4096" "?c < 4096" "unat (write_pos p) = (?h + ?c) mod 4096"
    by (simp_all add: pipe_ok_def)
  have s: "unat (buffer_size p + 1) = Suc ?c" using h(3) unat_inc [of "buffer_size p"] by simp
  have w: "unat ((write_pos p + 1) mod 4096) = (?h + Suc ?c) mod 4096"
    using unat_step_mod [of "write_pos p"] h(4) by (simp add: mod_Suc_eq)
  show ?thesis
    using ring_push [of ?c 4096 "p_buffer p" ?h b] h s w
    by (simp add: pipe_ok_def pipe_contents_def put_byte_def)
qed

lemma get_byte_law:
  assumes "pipe_ok p" "pipe_contents p = b # bs"
  shows "\<exists>p'. get_byte p = Some (b, p') \<and> pipe_ok p' \<and> pipe_contents p' = bs"
proof -
  let ?h = "unat (read_pos p)" and ?c = "unat (buffer_size p)"
  have c: "0 < ?c" using arg_cong [OF assms(2), of length] by simp
  then have nz: "buffer_size p \<noteq> 0" by auto
  from assms(1) have h: "length (p_buffer p) = 4096" "?h < 4096" "?c \<le> 4096" "unat (write_pos p) = (?h + ?c) mod 4096"
    by (simp_all add: pipe_ok_def)
  have "((?h + 1) mod 4096 + (?c - 1)) mod 4096 = (?h + 1 + (?c - 1)) mod 4096" by (rule mod_add_left_eq)
  also have "?h + 1 + (?c - 1) = ?h + ?c" using c by simp
  finally have "((?h + 1) mod 4096 + (?c - 1)) mod 4096 = (?h + ?c) mod 4096" .
  moreover have "(?h + 1) mod 4096 < 4096" by simp
  ultimately show ?thesis
    using ring_pop [OF c h(2), of "p_buffer p"] h nz assms(2) unat_dec [OF nz] unat_step_mod [OF h(2)]
    by (simp add: get_byte_def pipe_ok_def pipe_contents_def)
qed

interpretation pipe: fifo pipe_ok pipe_contents 4096 put_byte get_byte
proof
  show "get_byte p = None" if "pipe_ok p" "pipe_contents p = []" for p
    using arg_cong [OF that(2), of length] by (simp add: get_byte_def unat_eq_zero)
qed (use put_byte_law get_byte_law in blast)+

text \<open>The copy loops move the fill count once at the end; the result is the same.\<close>

lemma write_bytes_size: "buffer_size (write_bytes bs p) = buffer_size p"
  by (induction bs arbitrary: p) simp_all

lemma write_bytes_commute:
  "write_bytes bs (p\<lparr>buffer_size := x\<rparr>) = (write_bytes bs p)\<lparr>buffer_size := x\<rparr>"
proof (induction bs arbitrary: p)
  case (Cons b bs)
  let ?q = "p\<lparr>p_buffer := (p_buffer p)[unat (write_pos p) := b], write_pos := (write_pos p + 1) mod 4096\<rparr>"
  have "write_bytes (b # bs) (p\<lparr>buffer_size := x\<rparr>) = write_bytes bs (?q\<lparr>buffer_size := x\<rparr>)"
    by (cases p) simp
  with Cons.IH [of ?q] show ?case by simp
qed simp

lemma write_bytes_fold:
  "(write_bytes bs p)\<lparr>buffer_size := buffer_size p + of_nat (length bs)\<rparr> = fold put_byte bs p"
proof (induction bs arbitrary: p)
  case (Cons b bs)
  have "fold put_byte (b # bs) p =
      (write_bytes bs (put_byte b p))\<lparr>buffer_size := buffer_size (put_byte b p) + of_nat (length bs)\<rparr>"
    using Cons.IH [of "put_byte b p"] by simp
  also have "write_bytes bs (put_byte b p) = (write_bytes (b # bs) p)\<lparr>buffer_size := buffer_size p + 1\<rparr>"
    by (simp add: put_byte_def write_bytes_commute)
  also have "buffer_size (put_byte b p) = buffer_size p + 1" by (simp add: put_byte_def)
  finally show ?case by (simp add: add.assoc)
qed simp

lemma read_bytes_commute:
  "read_bytes n (p\<lparr>buffer_size := x\<rparr>) = (fst (read_bytes n p), (snd (read_bytes n p))\<lparr>buffer_size := x\<rparr>)"
proof (induction n arbitrary: p)
  case (Suc n)
  let ?q = "p\<lparr>read_pos := (read_pos p + 1) mod 4096\<rparr>"
  from Suc.IH [of ?q] show ?case by (cases p) (simp add: Let_def split_beta)
qed simp

lemma read_bytes_size: "buffer_size (snd (read_bytes n p)) = buffer_size p"
  by (induction n arbitrary: p) (simp_all add: Let_def split_beta)

lemma read_bytes_pop:
  "n \<le> unat (buffer_size p) \<Longrightarrow>
   pop_many get_byte n p = (fst (read_bytes n p), (snd (read_bytes n p))\<lparr>buffer_size := buffer_size p - of_nat n\<rparr>)"
proof (induction n arbitrary: p)
  case (Suc n)
  let ?q = "p\<lparr>read_pos := (read_pos p + 1) mod 4096\<rparr>"
  have nz: "buffer_size p \<noteq> 0" using Suc.prems by auto
  have "n \<le> unat (buffer_size p - 1)" using Suc.prems unat_dec [OF nz] by simp
  then have "pop_many get_byte n (?q\<lparr>buffer_size := buffer_size p - 1\<rparr>) =
      (fst (read_bytes n ?q), (snd (read_bytes n ?q))\<lparr>buffer_size := buffer_size p - 1 - of_nat n\<rparr>)"
    using Suc.IH [of "?q\<lparr>buffer_size := buffer_size p - 1\<rparr>"] by (simp add: read_bytes_commute)
  moreover have "buffer_size p - 1 - of_nat n = buffer_size p - of_nat (Suc n)" by simp
  moreover have "get_byte p = Some (p_buffer p ! unat (read_pos p), ?q\<lparr>buffer_size := buffer_size p - 1\<rparr>)"
    using nz by (simp add: get_byte_def)
  ultimately show ?case by (simp add: Let_def split_beta)
qed simp

section \<open>Reading and writing\<close>

text \<open>A pipe that is not empty: the data read are the oldest bytes, and they are gone afterwards.\<close>

lemma read_ready_correct:
  fixes sz :: u64
  assumes ok: "pipe_ok p" and ne: "buffer_size p \<noteq> 0"
  defines "n \<equiv> unat (min sz (buffer_size p))"
  shows "\<exists>p'. read_ready sz p = Some (int n, take n (pipe_contents p), p') \<and> pipe_ok p' \<and>
     pipe_contents p' = drop n (pipe_contents p) \<and> is_closed p' = is_closed p \<and> p_lock p' = 0"
proof -
  let ?r = "if sz < buffer_size p then sz else buffer_size p"
  have r: "?r = min sz (buffer_size p)" by auto
  have n: "n = unat ?r" "n \<le> unat (buffer_size p)" using min.cobounded2 [of sz "buffer_size p"]
    by (auto simp: n_def r word_le_nat_alt [symmetric])
  from pipe.pop_all [OF ok, of n] obtain p1 where
    p1: "pop_many get_byte n p = (take n (pipe_contents p), p1)" "pipe_ok p1"
      "pipe_contents p1 = drop n (pipe_contents p)" by blast
  with read_bytes_pop [OF n(2)] have
    b: "fst (read_bytes n p) = take n (pipe_contents p)"
      "p1 = (snd (read_bytes n p))\<lparr>buffer_size := buffer_size p - ?r\<rparr>" using n(1) by (auto simp: r)
  have cl: "is_closed (snd (read_bytes k q)) = is_closed q" for k q
    by (induction k arbitrary: q) (simp_all add: Let_def split_beta)
  let ?p' = "p1\<lparr>p_lock := 0, writable := (writable p1)\<lparr>sem_lock := 0\<rparr>\<rparr>"
  have "read_ready sz p = Some (int n, take n (pipe_contents p), ?p')"
    using ne b n(1) by (simp add: read_ready_def Let_def split_beta read_bytes_size unlock_def Sem_signal_def)
  moreover have "pipe_ok ?p' = pipe_ok p1" "pipe_contents ?p' = pipe_contents p1"
    by (simp_all add: pipe_ok_def pipe_contents_def)
  ultimately show ?thesis using p1 b cl by simp
qed

lemma write_ready_correct:
  assumes ok: "pipe_ok p" and op: "\<not> is_closed p" and len: "unat sz \<le> length buf"
  defines "n \<equiv> unat (min sz (4096 - buffer_size p))"
  shows "\<exists>p'. write_ready buf sz p = Some (int n, p') \<and> pipe_ok p' \<and>
     pipe_contents p' = pipe_contents p @ take n buf \<and> \<not> is_closed p' \<and> p_lock p' = 0"
proof -
  let ?r = "if sz < 4096 - buffer_size p then sz else 4096 - buffer_size p"
  have r: "?r = min sz (4096 - buffer_size p)" by auto
  have le: "buffer_size p \<le> 4096" using ok by (simp add: pipe_ok_def word_le_nat_alt)
  have n: "n = unat ?r" "n \<le> unat sz" "n \<le> 4096 - unat (buffer_size p)"
    using unat_sub [OF le] by (auto simp: n_def r word_le_nat_alt min_def split: if_splits)
  let ?bs = "take n buf"
  have lb: "length ?bs = n" using n(2) len by simp
  have f: "fold put_byte ?bs p = (write_bytes ?bs p)\<lparr>buffer_size := buffer_size p + ?r\<rparr>"
    using write_bytes_fold [where bs = ?bs and p = p] lb n(1) by simp
  have P: "pipe_ok (fold put_byte ?bs p)" "pipe_contents (fold put_byte ?bs p) = pipe_contents p @ ?bs"
    using pipe.push_all [OF ok, of ?bs] n(3) lb ok by (auto simp: pipe_ok_def)
  have cl: "is_closed (write_bytes bs q) = is_closed q" for bs q by (induction bs arbitrary: q) simp_all
  let ?p1 = "fold put_byte ?bs p"
  let ?p' = "?p1\<lparr>p_lock := 0, readable := (readable ?p1)\<lparr>sem_lock := 0\<rparr>\<rparr>"
  have "write_ready buf sz p = Some (int n, ?p')"
    using op n len unfolding f by (simp add: write_ready_def Let_def write_bytes_size unlock_def Sem_signal_def)
  moreover have "pipe_ok ?p' = pipe_ok ?p1" "pipe_contents ?p' = pipe_contents ?p1"
    by (simp_all add: pipe_ok_def pipe_contents_def)
  ultimately show ?thesis using P op cl f by simp
qed

section \<open>The pipe table\<close>

definition pipes_ok :: "Pipes \<Rightarrow> bool" where
  "pipes_ok P \<longleftrightarrow> length (pipe_table P) = 64 \<and> 0 \<le> pipe_count P \<and> pipe_count P \<le> 64 \<and>
     (\<forall>i < nat (pipe_count P). pipe_ok (pipe_table P ! i))"

definition pipe_of :: "int \<Rightarrow> Pipes \<Rightarrow> Pipe" where
  "pipe_of fd P = pipe_table P ! nat (fd div 2)"

definition set_pipe :: "int \<Rightarrow> Pipe \<Rightarrow> Pipes \<Rightarrow> Pipes" where
  "set_pipe fd p P = P\<lparr>pipe_table := (pipe_table P)[nat (fd div 2) := p]\<rparr>"

lemma valid_fd_index:
  assumes "pipes_ok P" "valid_fd fd P"
  shows "nat (fd div 2) < nat (pipe_count P)" "nat (fd div 2) < length (pipe_table P)" "pipe_ok (pipe_of fd P)"
  using assms by (auto simp: pipes_ok_def valid_fd_def pipe_of_def)

lemma set_pipe_ok:
  assumes "pipes_ok P" "valid_fd fd P" "pipe_ok p" "0 \<le> fd'"
  shows "pipes_ok (set_pipe fd p P)" "valid_fd fd' (set_pipe fd p P) = valid_fd fd' P"
    "pipe_of fd' (set_pipe fd p P) = (if fd' div 2 = fd div 2 then p else pipe_of fd' P)"
  using assms valid_fd_index [OF assms(1,2)]
  by (auto simp: pipes_ok_def set_pipe_def valid_fd_def pipe_of_def nth_list_update nat_eq_iff)

lemma wait_not_blocked:
  assumes "\<not> (blocked p \<and> \<not> is_closed p)"
  shows "loop (wait_body blocked sem set_sem resume) (p, s) = Some (Returns (), p, s)"
  by (rule loop_Done) (use assms in \<open>auto simp: wait_body_def\<close>)

lemma pipe_lock_frame:
  "pipe_ok (p\<lparr>p_lock := l\<rparr>) = pipe_ok p" "pipe_contents (p\<lparr>p_lock := l\<rparr>) = pipe_contents p"
  by (simp_all add: pipe_ok_def pipe_contents_def)

lemma PipeRead_correct:
  fixes sz :: u64
  assumes ok: "pipes_ok P" "valid_fd fd P" and ne: "pipe_contents (pipe_of fd P) \<noteq> []"
  defines "c \<equiv> pipe_contents (pipe_of fd P)"
  defines "n \<equiv> min (unat sz) (length c)"
  shows "\<exists>p'. PipeRead resume fd sz P s = Some (Returns (int n, take n c), set_pipe fd p' P, s) \<and>
     pipe_ok p' \<and> pipe_contents p' = drop n c \<and> is_closed p' = is_closed (pipe_of fd P)"
proof -
  let ?p = "(pipe_of fd P)\<lparr>p_lock := 1\<rparr>"
  have nz: "buffer_size ?p \<noteq> 0" using ne by (auto simp flip: length_greater_0_conv)
  have "unat (min sz (buffer_size ?p)) = n"
    by (auto simp: n_def c_def min_def word_le_nat_alt)
  with read_ready_correct [of ?p sz] nz valid_fd_index(3) [OF ok] obtain p' where
    p': "read_ready sz ?p = Some (int n, take n c, p')" "pipe_ok p'" "pipe_contents p' = drop n c"
      "is_closed p' = is_closed (pipe_of fd P)"
    by (auto simp: pipe_lock_frame c_def)
  have w: "loop (wait_body (\<lambda>p. buffer_size p = 0) readable (\<lambda>m p. p\<lparr>readable := m\<rparr>) resume) (?p, s) =
      Some (Returns (), ?p, s)" by (rule wait_not_blocked) (use nz in simp)
  have "PipeRead resume fd sz P s = Some (Returns (int n, take n c), set_pipe fd p' P, s)"
    using ok(2) w p'(1) by (simp add: PipeRead_def pipe_of_def set_pipe_def Let_def)
  with p' show ?thesis by blast
qed

lemma PipeWrite_correct:
  assumes ok: "pipes_ok P" "valid_fd fd P" and op: "\<not> is_closed (pipe_of fd P)"
    and room: "length (pipe_contents (pipe_of fd P)) < 4096" and len: "unat sz \<le> length buf"
  defines "c \<equiv> pipe_contents (pipe_of fd P)"
  defines "n \<equiv> min (unat sz) (4096 - length c)"
  shows "\<exists>p'. PipeWrite resume fd buf sz P s = Some (Returns (int n), set_pipe fd p' P, s) \<and>
     pipe_ok p' \<and> pipe_contents p' = c @ take n buf \<and> \<not> is_closed p'"
proof -
  let ?p = "(pipe_of fd P)\<lparr>p_lock := 1\<rparr>"
  have lt: "unat (buffer_size ?p) < 4096" using room by simp
  then have nf: "buffer_size ?p \<noteq> 4096" by auto
  have le: "buffer_size ?p \<le> 4096" using lt by (simp add: word_le_nat_alt)
  have "unat (min sz (4096 - buffer_size ?p)) = n"
    using unat_sub [OF le] by (auto simp: n_def c_def min_def word_le_nat_alt)
  with write_ready_correct [of ?p sz buf] op len valid_fd_index(3) [OF ok] obtain p' where
    p': "write_ready buf sz ?p = Some (int n, p')" "pipe_ok p'" "pipe_contents p' = c @ take n buf" "\<not> is_closed p'"
    by (auto simp: pipe_lock_frame c_def)
  have w: "loop (wait_body (\<lambda>p. buffer_size p = 4096) writable (\<lambda>m p. p\<lparr>writable := m\<rparr>) resume) (?p, s) =
      Some (Returns (), ?p, s)" by (rule wait_not_blocked) (use nf in simp)
  have "PipeWrite resume fd buf sz P s = Some (Returns (int n), set_pipe fd p' P, s)"
    using ok(2) w p'(1) by (simp add: PipeWrite_def pipe_of_def set_pipe_def Let_def)
  with p' show ?thesis by blast
qed

lemma PipeCreate_correct:
  assumes "pipes_ok P" "\<forall>p\<in>set (pipe_table P). length (p_buffer p) = 4096" "pipe_count P < 64"
  shows "\<exists>P'. PipeCreate P = Some (0, Some (pipe_count P * 2, pipe_count P * 2 + 1), P') \<and> pipes_ok P' \<and>
     pipe_contents (pipe_of (pipe_count P * 2) P') = [] \<and> valid_fd (pipe_count P * 2) P' \<and>
     valid_fd (pipe_count P * 2 + 1) P' \<and> pipe_of (pipe_count P * 2 + 1) P' = pipe_of (pipe_count P * 2) P'"
proof -
  let ?i = "nat (pipe_count P)"
  let ?p = "(pipe_table P ! ?i)\<lparr>read_pos := 0, write_pos := 0,
                buffer_size := 0, reader := None, writer := None, is_closed := False,
                readable := Sem_new 0, writable := Sem_new 4096\<rparr>"
  let ?P = "P\<lparr>pipe_count := pipe_count P + 1, pipe_table := (pipe_table P)[?i := ?p]\<rparr>"
  have i: "?i < length (pipe_table P)" "0 \<le> pipe_count P" using assms by (auto simp: pipes_ok_def)
  then have p: "pipe_ok ?p" using assms(2) by (simp add: pipe_ok_def)
  have "pipes_ok ?P"
    unfolding pipes_ok_def using assms(1,3) p i
    by (auto simp: pipes_ok_def nth_list_update less_Suc_eq nat_add_distrib)
  then show ?thesis using assms(3) i
    by (auto simp: PipeCreate_def Let_def pipe_of_def pipe_contents_def valid_fd_def)
qed

end
