(* ===== verification/Ipc.thy ===== *)
theory Ipc
  imports Switch
begin

text \<open>
  Message passing of \<^verbatim>\<open>src/task/ipc.cc\<close>: 256 queues indexed by process id, with rendezvous
  between a sender and a receiver.  Message buffers live in a store, since control blocks keep
  pointers to them while a task is blocked.
\<close>

section \<open>Data\<close>

record Message =
  sender :: ptr
  dst_pid :: u64
  msg_type :: u64
  msg_size :: u64
  payload :: "byte list"

record MessageQueue =
  messages :: "Message list"
  q_head :: u64
  q_tail :: u64
  q_lock :: u32
  waiting_sender :: ptr
  waiting_receiver :: ptr
  has_message :: bool

record Ipc = Cpu +
  msgs :: "addr \<Rightarrow> Message"
  msg_queues :: "MessageQueue list"

definition set_msg :: "addr \<Rightarrow> Message \<Rightarrow> 'a Ipc_scheme \<Rightarrow> 'a Ipc_scheme" where
  "set_msg a m s = s\<lparr>msgs := (msgs s)(a := m)\<rparr>"

definition set_queue :: "nat \<Rightarrow> MessageQueue \<Rightarrow> 'a Ipc_scheme \<Rightarrow> 'a Ipc_scheme" where
  "set_queue i q s = s\<lparr>msg_queues := (msg_queues s)[i := q]\<rparr>"

section \<open>Operations\<close>

text \<open>
  The end of a call that blocked: it returns 1 when \<open>Schedule\<close> comes straight back, otherwise
  the task is suspended and returns 1 when it is switched to again.
\<close>

definition block_here :: "u64 \<Rightarrow> 'a Cpu_scheme \<Rightarrow> (int call \<times> 'a Cpu_scheme) option" where
  "block_here resume s = do {
     (out, s1) \<leftarrow> Schedule resume s;
     Some (if out = Stayed then Returns 1 else Suspends out, s1) }"

definition Send :: "u64 \<Rightarrow> addr \<Rightarrow> 'a Ipc_scheme \<Rightarrow> (int call \<times> 'a Ipc_scheme) option" where
  "Send resume m s0 = do {
     let s = set_msg m ((msgs s0 m)\<lparr>sender := current_proc s0\<rparr>) s0;
     if dst_pid (msgs s m) < 0 \<or> dst_pid (msgs s m) \<ge> 256 then Some (Returns (-1), s) else do {
       let i = unat (dst_pid (msgs s m));
       let q = msg_queues s ! i;
       l \<leftarrow> lock (q_lock q);
       let q1 = q\<lparr>q_lock := l\<rparr>;
       (case waiting_receiver q1 of
          Some r \<Rightarrow> do {
            b \<leftarrow> msg (pcbs s r);
            let s1 = set_msg b (msgs s m) s;
            let q2 = q1\<lparr>waiting_receiver := None, q_lock := unlock l\<rparr>;
            let s2 = set_queue i q2 s1;
            let s3 = upd_pcb r (\<lambda>p. p\<lparr>stat := Ready\<rparr>) s2;
            s4 \<leftarrow> Enqueue (Some r) s3;
            Some (Returns 1, s4) }
        | None \<Rightarrow> do {
            c \<leftarrow> current_proc s;
            let s1 = upd_pcb c (\<lambda>p. p\<lparr>msg := Some m\<rparr>) s;
            let q2 = q1\<lparr>waiting_sender := Some c\<rparr>;
            let s2 = upd_pcb c (\<lambda>p. p\<lparr>stat := Blocked\<rparr>) s1;
            let q3 = q2\<lparr>q_lock := unlock l\<rparr>;
            block_here resume (set_queue i q3 s2) }) } }"

definition Receive :: "u64 \<Rightarrow> addr \<Rightarrow> 'a Ipc_scheme \<Rightarrow> (int call \<times> 'a Ipc_scheme) option" where
  "Receive resume m s = do {
     c \<leftarrow> current_proc s;
     let i = unat (pid (pcbs s c));
     if i \<ge> length (msg_queues s) then None else do {
       let q = msg_queues s ! i;
       l \<leftarrow> lock (q_lock q);
       let q1 = q\<lparr>q_lock := l\<rparr>;
       if q_head q1 \<noteq> q_tail q1 then
         (if unat (q_head q1) \<ge> length (messages q1) then None else
          let x = messages q1 ! unat (q_head q1);
              s1 = set_msg m x s;
              q2 = q1\<lparr>q_head := (q_head q1 + 1) mod 16\<rparr>;
              q3 = (if q_head q2 = q_tail q2 then q2\<lparr>has_message := False\<rparr> else q2)
          in Some (Returns 1, set_queue i (q3\<lparr>q_lock := unlock l\<rparr>) s1))
       else (case waiting_sender q1 of
          Some a \<Rightarrow> do {
            b \<leftarrow> msg (pcbs s a);
            let s1 = set_msg m ((msgs s b)\<lparr>sender := Some a\<rparr>) s;
            let q2 = q1\<lparr>waiting_sender := None, q_lock := unlock l\<rparr>;
            let s2 = upd_pcb a (\<lambda>p. p\<lparr>stat := Ready\<rparr>) (set_queue i q2 s1);
            s3 \<leftarrow> Enqueue (Some a) s2;
            Some (Returns 1, s3) }
        | None \<Rightarrow> do {
            let s1 = upd_pcb c (\<lambda>p. p\<lparr>stat := Blocked\<rparr>) (upd_pcb c (\<lambda>p. p\<lparr>msg := Some m\<rparr>) s);
            let q2 = q1\<lparr>waiting_receiver := Some c, q_lock := unlock l\<rparr>;
            block_here resume (set_queue i q2 s1) }) } }"

section \<open>Rendezvous\<close>

lemma frame_ipc:
  fixes s s' :: "'a Ipc_scheme"
  assumes "frame s s'"
  shows "msgs s' = msgs s" "msg_queues s' = msg_queues s"
  using assms by (cases s; cases s'; simp add: frame_def)+

text \<open>Waking a task that is not queued, after changes that do not touch the queue.\<close>

lemma wake_correct:
  fixes s :: "'a Cpu_scheme"
  assumes ok: "rq_ok s xs" and n: "a \<notin> set xs" and t: "same_sched s s1"
  shows "\<exists>s' ys. Enqueue (Some a) (upd_pcb a (\<lambda>p. p\<lparr>stat := Ready\<rparr>) s1) = Some s' \<and>
    rq_ok s' ys \<and> set ys = insert a (set xs) \<and> frame (upd_pcb a (\<lambda>p. p\<lparr>stat := Ready\<rparr>) s1) s'"
proof -
  let ?s2 = "upd_pcb a (\<lambda>p. p\<lparr>stat := Ready\<rparr>) s1"
  have "key ?s2 = key s" using same_sched_acc(2) [OF t] by (simp add: upd_pcb_same_tree)
  then have ok2: "rq_ok ?s2 xs"
    using ok same_sched_ok(1) [OF t] by (simp add: rq_ok_def upd_pcb_rq_acc)
  have st: "stat (pcbs ?s2 a) = Running \<or> stat (pcbs ?s2 a) = Ready" by (simp add: upd_pcb_def)
  from Enqueue_correct [OF ok2 n st] obtain s' k where
    s': "Enqueue (Some a) ?s2 = Some s'" "rq_ok s' (ins_after k a xs)" by blast
  with Enqueue_frame [OF ok2 n s'(1)] show ?thesis by (metis set_ins_after)
qed

lemma same_sched_ipc: "same_sched s (set_msg a m s)" "same_sched s (set_queue i q s)"
  by (simp_all add: same_sched_def set_msg_def set_queue_def)

lemma Send_to_waiting:
  fixes s :: "'a Ipc_scheme"
  assumes ok: "rq_ok s xs" and d: "dst_pid (msgs s m) < 256" and len: "length (msg_queues s) = 256"
    and r: "waiting_receiver (msg_queues s ! unat (dst_pid (msgs s m))) = Some r" "msg (pcbs s r) = Some b"
      "r \<notin> set xs"
  shows "\<exists>s' ys. Send resume m s = Some (Returns 1, s') \<and>
     msgs s' b = (msgs s m)\<lparr>sender := current_proc s\<rparr> \<and>
     waiting_receiver (msg_queues s' ! unat (dst_pid (msgs s m))) = None \<and>
     stat (pcbs s' r) = Ready \<and> rq_ok s' ys \<and> set ys = insert r (set xs)"
proof -
  let ?x = "(msgs s m)\<lparr>sender := current_proc s\<rparr>" and ?i = "unat (dst_pid (msgs s m))"
  let ?q = "(msg_queues s ! ?i)\<lparr>waiting_receiver := None, q_lock := 0\<rparr>"
  let ?s2 = "set_queue ?i ?q (set_msg b ?x (set_msg m ?x s))"
  have "same_sched s ?s2" by (simp add: same_sched_def set_queue_def set_msg_def)
  from wake_correct [OF ok r(3) this] obtain s' ys where
    s': "Enqueue (Some r) (upd_pcb r (\<lambda>p. p\<lparr>stat := Ready\<rparr>) ?s2) = Some s'" "rq_ok s' ys"
      "set ys = insert r (set xs)" "frame (upd_pcb r (\<lambda>p. p\<lparr>stat := Ready\<rparr>) ?s2) s'" by blast
  have i: "?i < 256" using d by (simp add: word_less_nat_alt)
  have "Send resume m s = Some (Returns 1, s')"
    using d r s'(1) by (simp add: Send_def set_msg_def set_queue_def Let_def unlock_def not_le)
  moreover have "stat (pcbs s' r) = Ready" using frameD(1) [OF s'(4), of r] by (simp add: upd_pcb_def)
  moreover have "msgs s' b = ?x" "msg_queues s' ! ?i = ?q"
    using frame_ipc [OF s'(4)] i len by (simp_all add: upd_pcb_def set_queue_def set_msg_def)
  ultimately show ?thesis using s'(2,3) by auto
qed

lemma Receive_from_waiting:
  fixes s :: "'a Ipc_scheme"
  assumes ok: "rq_ok s xs" and c: "current_proc s = Some c" "unat (pid (pcbs s c)) < length (msg_queues s)"
    and q: "q_head (msg_queues s ! unat (pid (pcbs s c))) = q_tail (msg_queues s ! unat (pid (pcbs s c)))"
      "waiting_sender (msg_queues s ! unat (pid (pcbs s c))) = Some a"
    and b: "msg (pcbs s a) = Some b" "a \<notin> set xs"
  shows "\<exists>s' ys. Receive resume m s = Some (Returns 1, s') \<and>
     msgs s' m = (msgs s b)\<lparr>sender := Some a\<rparr> \<and>
     waiting_sender (msg_queues s' ! unat (pid (pcbs s c))) = None \<and>
     stat (pcbs s' a) = Ready \<and> rq_ok s' ys \<and> set ys = insert a (set xs)"
proof -
  let ?x = "(msgs s b)\<lparr>sender := Some a\<rparr>" and ?i = "unat (pid (pcbs s c))"
  let ?q = "(msg_queues s ! ?i)\<lparr>waiting_sender := None, q_lock := 0\<rparr>"
  let ?s2 = "set_queue ?i ?q (set_msg m ?x s)"
  have "same_sched s ?s2" by (simp add: same_sched_def set_queue_def set_msg_def)
  from wake_correct [OF ok b(2) this] obtain s' ys where
    s': "Enqueue (Some a) (upd_pcb a (\<lambda>p. p\<lparr>stat := Ready\<rparr>) ?s2) = Some s'" "rq_ok s' ys"
      "set ys = insert a (set xs)" "frame (upd_pcb a (\<lambda>p. p\<lparr>stat := Ready\<rparr>) ?s2) s'" by blast
  have "Receive resume m s = Some (Returns 1, s')"
    using c q b s'(1) by (simp add: Receive_def Let_def unlock_def not_le)
  moreover have "stat (pcbs s' a) = Ready" using frameD(1) [OF s'(4), of a] by (simp add: upd_pcb_def)
  moreover have "msgs s' m = ?x" "msg_queues s' ! ?i = ?q"
    using frame_ipc [OF s'(4)] c by (simp_all add: upd_pcb_def set_queue_def set_msg_def)
  ultimately show ?thesis using s'(2,3) by auto
qed

end
