(* ===== verification/Keyboard.thy ===== *)
theory Keyboard
  imports Ring Cfs
begin

text \<open>
  The keyboard driver of \<^verbatim>\<open>src/drivers/tty/keyboard.cc\<close> and \<^verbatim>\<open>include/kernel/keyboard.h\<close>: the
  decoding of scan codes with the modifier keys, and the circular input queue.  Characters are
  bytes.  A call of the terminal-switch callback is recorded in the field \<open>switch_calls\<close>.
\<close>

unbundle bit_operations_syntax

section \<open>Key maps\<close>

definition ch :: "char \<Rightarrow> byte" where "ch c = of_char c"

definition keymap_normal :: "byte list" where
  "keymap_normal = [0, 0] @ map ch ''1234567890-='' @ [8, 9] @ map ch ''qwertyuiop[]'' @ [10, 0] @
     map ch ''asdfghjkl;'' @ [39, 96, 0, 92] @ map ch ''zxcvbnm,./'' @ [0, ch CHR ''*'', 0, 32] @
     replicate 13 0 @ map ch ''789-456+1230.'' @ [0, 0, 0, 0]"

definition keymap_shift :: "byte list" where
  "keymap_shift = [0, 0] @ map ch ''!@#$%^&*()_+'' @ [8, 9] @ map ch ''QWERTYUIOP{}'' @ [10, 0] @
     map ch ''ASDFGHJKL:'' @ [34, 126, 0, 124] @ map ch ''ZXCVBNM<>?'' @ [0, ch CHR ''*'', 0, 32] @
     replicate 13 0 @ map ch ''789-456+1230.'' @ [0, 0, 0, 0]"

section \<open>State\<close>

record Kbd =
  shift_pressed :: bool
  ctrl_pressed :: bool
  alt_pressed :: bool
  caps_lock :: bool
  tty_switch_callback :: bool
  switch_calls :: "int list"
  k_buffer :: "byte list"
  k_head :: u64
  k_tail :: u64
  k_count :: u64
  kbd_lock :: u32

definition KBD_BUFFER_SIZE :: u64 where "KBD_BUFFER_SIZE = 128"
definition NUM_TTYS :: u8 where "NUM_TTYS = 6"

definition InputQueue_Init :: "Kbd \<Rightarrow> Kbd" where
  "InputQueue_Init k = k\<lparr>k_head := 0, k_tail := 0, k_count := 0, k_buffer := replicate 128 0\<rparr>"

definition SetTTYSwitchCallback :: "bool \<Rightarrow> Kbd \<Rightarrow> Kbd" where
  "SetTTYSwitchCallback b k = k\<lparr>tty_switch_callback := b\<rparr>"

section \<open>The input queue\<close>

definition Insert :: "byte \<Rightarrow> Kbd \<Rightarrow> Kbd" where
  "Insert c k = (if k_count k < KBD_BUFFER_SIZE - 1
     then k\<lparr>k_buffer := (k_buffer k)[unat (k_tail k) := c],
            k_tail := (k_tail k + 1) mod KBD_BUFFER_SIZE, k_count := k_count k + 1\<rparr>
     else k)"

text \<open>\<open>Peek\<close> takes the character out of the queue.\<close>

definition Peek :: "Kbd \<Rightarrow> (byte option \<times> Kbd) option" where
  "Peek k = do {
     l \<leftarrow> lock (kbd_lock k);
     let k1 = k\<lparr>kbd_lock := l\<rparr>;
     if k_count k1 = 0 then Some (None, k1\<lparr>kbd_lock := unlock l\<rparr>)
     else Some (Some (k_buffer k1 ! unat (k_head k1)),
       k1\<lparr>k_head := (k_head k1 + 1) mod KBD_BUFFER_SIZE, k_count := k_count k1 - 1,
          kbd_lock := unlock l\<rparr>) }"

definition HasData :: "Kbd \<Rightarrow> bool" where
  "HasData k \<longleftrightarrow> 0 < k_count k"

fun ReadBuffer_loop :: "nat \<Rightarrow> Kbd \<Rightarrow> byte list \<times> Kbd" where
  "ReadBuffer_loop 0 k = ([], k)"
| "ReadBuffer_loop (Suc n) k = (if 0 < k_count k
     then let b = k_buffer k ! unat (k_head k);
              (bs, k') = ReadBuffer_loop n (k\<lparr>k_head := (k_head k + 1) mod KBD_BUFFER_SIZE, k_count := k_count k - 1\<rparr>)
          in (b # bs, k')
     else ([], k))"

definition ReadBuffer :: "u64 \<Rightarrow> Kbd \<Rightarrow> byte list \<times> Kbd" where
  "ReadBuffer sz k = ReadBuffer_loop (unat sz) k"

section \<open>Scan codes\<close>

definition is_lower :: "byte \<Rightarrow> bool" where
  "is_lower c \<longleftrightarrow> 97 \<le> c \<and> c \<le> 122"

definition ctrl_map :: "byte \<Rightarrow> byte" where
  "ctrl_map c = (if is_lower c then c - 97 + 1
     else if c = 91 then 0x1B
     else if c = 92 then 0x1C
     else if c = 93 then 0x1D
     else if c = 47 then 0x1F
     else if c = 51 then 0x1B
     else c)"

definition ProcessScancode :: "byte \<Rightarrow> Kbd \<Rightarrow> Kbd" where
  "ProcessScancode sc k =
     (let release = (sc AND 0x80 \<noteq> 0); code = sc AND 0x7F in
      if unat code \<ge> length keymap_normal then k
      else if code = 0x2A \<or> code = 0x36 then k\<lparr>shift_pressed := \<not> release\<rparr>
      else if code = 0x1D then k\<lparr>ctrl_pressed := \<not> release\<rparr>
      else if code = 0x38 then k\<lparr>alt_pressed := \<not> release\<rparr>
      else if code = 0x3A then (if \<not> release then k\<lparr>caps_lock := \<not> caps_lock k\<rparr> else k)
      else if release then k
      else if tty_switch_callback k \<and> alt_pressed k \<and> ctrl_pressed k \<and> code \<ge> 0x3B \<and> code \<le> 0x3B + NUM_TTYS
      then k\<lparr>switch_calls := switch_calls k @ [uint code - 0x3B + 1]\<rparr>
      else
        let c = (if shift_pressed k then keymap_shift else keymap_normal) ! unat code in
        if c = 0 then k else
        let c1 = (if is_lower c \<and> (caps_lock k \<or> shift_pressed k) then c - 97 + 65 else c);
            c2 = (if ctrl_pressed k then ctrl_map c1 else c1)
        in Insert c2 k)"

text \<open>The table is read without a bound other than \<^verbatim>\<open>0x7F\<close>: beyond its end there is no defined result.\<close>

definition ScancodeToChar :: "byte \<Rightarrow> bool \<Rightarrow> Kbd \<Rightarrow> byte option" where
  "ScancodeToChar scancode shift k =
     (if scancode > 0x7F then Some 0
      else let keymap = (if shift then keymap_shift else keymap_normal) in
        if unat scancode \<ge> length keymap then None
        else let c = keymap ! unat scancode in
          if c = 0 then Some 0
          else Some (if is_lower c \<and> (caps_lock k \<or> shift) then c - 97 + 65 else c))"

text \<open>The interrupt handler with the scan code read from port \<^verbatim>\<open>0x60\<close>.\<close>

definition kbd_handler_c :: "byte \<Rightarrow> Kbd \<Rightarrow> Kbd" where
  "kbd_handler_c sc k = ProcessScancode sc k"

section \<open>The queue as a bounded first-in first-out buffer\<close>

definition kbd_ok :: "Kbd \<Rightarrow> bool" where
  "kbd_ok k \<longleftrightarrow> length (k_buffer k) = 128 \<and> unat (k_head k) < 128 \<and> unat (k_count k) \<le> 127 \<and>
     unat (k_tail k) = (unat (k_head k) + unat (k_count k)) mod 128"

definition kbd_contents :: "Kbd \<Rightarrow> byte list" where
  "kbd_contents k = ring 128 (k_buffer k) (unat (k_head k)) (unat (k_count k))"

definition take_char :: "Kbd \<Rightarrow> (byte \<times> Kbd) option" where
  "take_char k = (case Peek k of Some (Some c, k') \<Rightarrow> Some (c, k') | _ \<Rightarrow> None)"

lemma keymap_length: "length keymap_normal = 88" "length keymap_shift = 88"
  by (simp_all add: keymap_normal_def keymap_shift_def)

lemma length_kbd_contents [simp]: "length (kbd_contents k) = unat (k_count k)"
  by (simp add: kbd_contents_def)

lemma unat_step_128:
  fixes x :: u64
  assumes "unat x < 128"
  shows "unat ((x + 1) mod 128) = (unat x + 1) mod 128"
  using assms by (simp add: unat_mod unat_word_ariths)

lemma Insert_law:
  assumes "kbd_ok k" "length (kbd_contents k) < 127"
  shows "kbd_ok (Insert c k) \<and> kbd_contents (Insert c k) = kbd_contents k @ [c]"
proof -
  let ?h = "unat (k_head k)" and ?c = "unat (k_count k)"
  from assms have h: "length (k_buffer k) = 128" "?h < 128" "?c < 127" "unat (k_tail k) = (?h + ?c) mod 128"
    by (simp_all add: kbd_ok_def)
  have g: "k_count k < KBD_BUFFER_SIZE - 1" using h(3) by (simp add: KBD_BUFFER_SIZE_def word_less_nat_alt)
  have s: "unat (k_count k + 1) = Suc ?c" using h(3) by (simp add: unat_word_ariths)
  have w: "unat ((k_tail k + 1) mod 128) = (?h + Suc ?c) mod 128"
    using unat_step_128 [of "k_tail k"] h(4) by (simp add: mod_Suc_eq)
  show ?thesis
    using ring_push [of ?c 128 "k_buffer k" ?h c] h s w g
    by (simp add: kbd_ok_def kbd_contents_def Insert_def KBD_BUFFER_SIZE_def)
qed

lemma Insert_full: "kbd_ok k \<Longrightarrow> length (kbd_contents k) = 127 \<Longrightarrow> Insert c k = k"
  by (simp add: Insert_def KBD_BUFFER_SIZE_def word_less_nat_alt)

lemma take_char_law:
  assumes "kbd_ok k" "kbd_contents k = c # cs"
  shows "\<exists>k'. take_char k = Some (c, k') \<and> kbd_ok k' \<and> kbd_contents k' = cs"
proof -
  let ?h = "unat (k_head k)" and ?c = "unat (k_count k)"
  have c: "0 < ?c" using arg_cong [OF assms(2), of length] by simp
  then have nz: "k_count k \<noteq> 0" by auto
  from assms(1) have h: "length (k_buffer k) = 128" "?h < 128" "?c \<le> 127" "unat (k_tail k) = (?h + ?c) mod 128"
    by (simp_all add: kbd_ok_def)
  have d: "unat (k_count k - 1) = ?c - 1" using nz unat_minus_one [of "k_count k"] by simp
  have "((?h + 1) mod 128 + (?c - 1)) mod 128 = (?h + 1 + (?c - 1)) mod 128" by (rule mod_add_left_eq)
  also have "?h + 1 + (?c - 1) = ?h + ?c" using c by simp
  finally have "((?h + 1) mod 128 + (?c - 1)) mod 128 = (?h + ?c) mod 128" .
  moreover have "(?h + 1) mod 128 < 128" by simp
  ultimately show ?thesis
    using ring_pop [OF c h(2), of "k_buffer k"] h nz assms(2) d unat_step_128 [OF h(2)]
    by (simp add: take_char_def Peek_def kbd_ok_def kbd_contents_def KBD_BUFFER_SIZE_def)
qed

interpretation kbd: fifo kbd_ok kbd_contents 127 Insert take_char
proof
  show "take_char k = None" if "kbd_ok k" "kbd_contents k = []" for k
    using arg_cong [OF that(2), of length] by (simp add: take_char_def Peek_def unat_eq_zero)
qed (use Insert_law take_char_law in blast)+

text \<open>\<open>ReadBuffer\<close> takes the oldest characters out, at most as many as asked for.\<close>

lemma ReadBuffer_loop_correct:
  "kbd_ok k \<Longrightarrow> \<exists>k'. ReadBuffer_loop n k = (take n (kbd_contents k), k') \<and> kbd_ok k' \<and>
     kbd_contents k' = drop n (kbd_contents k)"
proof (induction n arbitrary: k)
  case (Suc n)
  show ?case
  proof (cases "kbd_contents k")
    case Nil
    then have "k_count k = 0" using length_kbd_contents [of k] by (simp add: unat_eq_zero)
    with Suc.prems Nil show ?thesis by simp
  next
    case (Cons c cs)
    let ?k1 = "k\<lparr>k_head := (k_head k + 1) mod KBD_BUFFER_SIZE, k_count := k_count k - 1\<rparr>"
    have pos: "0 < k_count k" using length_kbd_contents [of k] Cons by (auto simp: word_gt_0)
    from take_char_law [OF Suc.prems Cons] obtain k' where
      k': "take_char k = Some (c, k')" "kbd_ok k'" "kbd_contents k' = cs" by blast
    then have b: "k_buffer k ! unat (k_head k) = c" "k' = ?k1\<lparr>kbd_lock := 0\<rparr>"
      using pos by (auto simp: take_char_def Peek_def unlock_def word_gt_0)
    then have "kbd_ok ?k1" "kbd_contents ?k1 = cs" using k' by (simp_all add: kbd_ok_def kbd_contents_def)
    with Suc.IH [of ?k1] pos b Cons show ?thesis by auto
  qed
qed simp

lemma ProcessScancode_ok: "kbd_ok k \<Longrightarrow> kbd_ok (ProcessScancode sc k)"
proof -
  assume k: "kbd_ok k"
  have I: "kbd_ok (Insert c k)" for c
    using Insert_law [OF k, of c] Insert_full [OF k, of c] k
    by (cases "length (kbd_contents k) < 127") (auto simp: kbd_ok_def)
  have S: "kbd_ok (k\<lparr>shift_pressed := b\<rparr>)" "kbd_ok (k\<lparr>ctrl_pressed := b\<rparr>)" "kbd_ok (k\<lparr>alt_pressed := b\<rparr>)"
    "kbd_ok (k\<lparr>caps_lock := b\<rparr>)" "kbd_ok (k\<lparr>switch_calls := l\<rparr>)" for b l using k by (simp_all add: kbd_ok_def)
  have cases: "kbd_ok a \<Longrightarrow> kbd_ok b \<Longrightarrow> kbd_ok (if c then a else b)" for a b c by simp
  show ?thesis unfolding ProcessScancode_def Let_def by (intro cases k I S)
qed

end
