(* ===== verification/Bitmap.thy ===== *)
theory Bitmap
  imports Prelude
begin

text \<open>
  Allocation bitmaps: an array of bytes in which bit \<open>i mod 8\<close> of byte \<open>i div 8\<close> stands for
  object \<open>i\<close>.  The page frame allocators and the block and inode allocators of the file system
  all use this layout.
\<close>

unbundle bit_operations_syntax

definition bit_mask :: "nat \<Rightarrow> byte" where
  "bit_mask i = push_bit (i mod 8) 1"

definition bm_test :: "byte list \<Rightarrow> nat \<Rightarrow> bool" where
  "bm_test bm i \<longleftrightarrow> (bm ! (i div 8)) AND bit_mask i \<noteq> 0"

definition bm_set :: "nat \<Rightarrow> byte list \<Rightarrow> byte list" where
  "bm_set i bm = bm[i div 8 := (bm ! (i div 8)) OR bit_mask i]"

definition bm_clear :: "nat \<Rightarrow> byte list \<Rightarrow> byte list" where
  "bm_clear i bm = bm[i div 8 := (bm ! (i div 8)) AND NOT (bit_mask i)]"

lemma bm_test_bit: "bm_test bm i = bit (bm ! (i div 8)) (i mod 8)"
  by (simp add: bm_test_def bit_mask_def bit_iff_and_push_bit_not_eq_0)

lemma length_bm [simp]: "length (bm_set i bm) = length bm" "length (bm_clear i bm) = length bm"
  by (simp_all add: bm_set_def bm_clear_def)

lemma div_mod_eq: "i div 8 = j div 8 \<Longrightarrow> i mod 8 = j mod 8 \<Longrightarrow> i = (j :: nat)"
  by (metis div_mult_mod_eq)

lemma bit_mask_bit: "k < 8 \<Longrightarrow> bit (bit_mask i) k = (k = i mod 8)"
  by (auto simp: bit_mask_def bit_exp_iff)

lemma bm_test_set:
  assumes "i < 8 * length bm"
  shows "bm_test (bm_set i bm) j = (j = i \<or> bm_test bm j)"
proof -
  have i: "i div 8 < length bm" using assms by simp
  show ?thesis
  proof (cases "j div 8 = i div 8")
    case True
    have "(j mod 8 = i mod 8) = (j = i)" using True div_mod_eq by blast
    then show ?thesis unfolding bm_test_bit bm_set_def True nth_list_update_eq [OF i] bit_or_iff
      using bit_mask_bit [of "j mod 8" i] by auto
  next
    case False
    then have "j \<noteq> i" by blast
    with False show ?thesis by (simp add: bm_test_bit bm_set_def)
  qed
qed

lemma bm_test_clear:
  assumes "i < 8 * length bm"
  shows "bm_test (bm_clear i bm) j = (j \<noteq> i \<and> bm_test bm j)"
proof -
  have i: "i div 8 < length bm" using assms by simp
  show ?thesis
  proof (cases "j div 8 = i div 8")
    case True
    have "(j mod 8 = i mod 8) = (j = i)" using True div_mod_eq by blast
    then show ?thesis unfolding bm_test_bit bm_clear_def True nth_list_update_eq [OF i] bit_and_iff bit_not_iff
      using bit_mask_bit [of "j mod 8" i] by auto
  next
    case False
    then have "j \<noteq> i" by blast
    with False show ?thesis by (simp add: bm_test_bit bm_clear_def)
  qed
qed

text \<open>The objects below \<open>n\<close> that the bitmap marks.\<close>

definition marked :: "byte list \<Rightarrow> nat \<Rightarrow> nat set" where
  "marked bm n = {i. i < n \<and> bm_test bm i}"

lemma finite_marked [simp]: "finite (marked bm n)"
  by (simp add: marked_def)

lemma card_marked_le: "card (marked bm n) \<le> n"
  using card_mono [of "{..<n}" "marked bm n"] by (auto simp: marked_def)

lemma marked_set:
  "i < n \<Longrightarrow> n \<le> 8 * length bm \<Longrightarrow> marked (bm_set i bm) n = insert i (marked bm n)"
  by (auto simp: marked_def bm_test_set)

lemma marked_clear:
  "i < n \<Longrightarrow> n \<le> 8 * length bm \<Longrightarrow> marked (bm_clear i bm) n = marked bm n - {i}"
  by (auto simp: marked_def bm_test_clear)

text \<open>Setting and clearing a run of bits.\<close>

lemma fold_bm_set:
  assumes "a + k \<le> 8 * length bm"
  shows "length (fold (\<lambda>j. bm_set (a + j)) [0..<k] bm) = length bm"
    "bm_test (fold (\<lambda>j. bm_set (a + j)) [0..<k] bm) i = ((a \<le> i \<and> i < a + k) \<or> bm_test bm i)"
proof -
  have "length (fold (\<lambda>j. bm_set (a + j)) [0..<k] bm) = length bm \<and>
     (\<forall>i. bm_test (fold (\<lambda>j. bm_set (a + j)) [0..<k] bm) i = ((a \<le> i \<and> i < a + k) \<or> bm_test bm i))"
    using assms
  proof (induction k)
    case (Suc k)
    let ?f = "fold (\<lambda>j. bm_set (a + j)) [0..<k] bm"
    have IH: "length ?f = length bm" "\<forall>i. bm_test ?f i = ((a \<le> i \<and> i < a + k) \<or> bm_test bm i)"
      using Suc by simp_all
    have "bm_test (bm_set (a + k) ?f) i = (i = a + k \<or> bm_test ?f i)" for i
      using Suc.prems IH(1) by (intro bm_test_set) simp
    then have "bm_test (bm_set (a + k) ?f) i = ((a \<le> i \<and> i < a + Suc k) \<or> bm_test bm i)" for i
      using IH(2) by (metis add_Suc_right le_add1 less_Suc_eq)
    moreover have "fold (\<lambda>j. bm_set (a + j)) [0..<Suc k] bm = bm_set (a + k) ?f" by simp
    ultimately show ?case using IH(1) by simp
  qed auto
  then show "length (fold (\<lambda>j. bm_set (a + j)) [0..<k] bm) = length bm"
    "bm_test (fold (\<lambda>j. bm_set (a + j)) [0..<k] bm) i = ((a \<le> i \<and> i < a + k) \<or> bm_test bm i)"
    by blast+
qed

lemma fold_bm_clear:
  assumes "a + k \<le> 8 * length bm"
  shows "length (fold (\<lambda>j. bm_clear (a + j)) [0..<k] bm) = length bm"
    "bm_test (fold (\<lambda>j. bm_clear (a + j)) [0..<k] bm) i = (\<not> (a \<le> i \<and> i < a + k) \<and> bm_test bm i)"
proof -
  have "length (fold (\<lambda>j. bm_clear (a + j)) [0..<k] bm) = length bm \<and>
     (\<forall>i. bm_test (fold (\<lambda>j. bm_clear (a + j)) [0..<k] bm) i = (\<not> (a \<le> i \<and> i < a + k) \<and> bm_test bm i))"
    using assms
  proof (induction k)
    case (Suc k)
    let ?f = "fold (\<lambda>j. bm_clear (a + j)) [0..<k] bm"
    have IH: "length ?f = length bm" "\<forall>i. bm_test ?f i = (\<not> (a \<le> i \<and> i < a + k) \<and> bm_test bm i)"
      using Suc by simp_all
    have "bm_test (bm_clear (a + k) ?f) i = (i \<noteq> a + k \<and> bm_test ?f i)" for i
      using Suc.prems IH(1) by (intro bm_test_clear) simp
    then have "bm_test (bm_clear (a + k) ?f) i = (\<not> (a \<le> i \<and> i < a + Suc k) \<and> bm_test bm i)" for i
      using IH(2) by (metis add_Suc_right le_add1 less_Suc_eq)
    moreover have "fold (\<lambda>j. bm_clear (a + j)) [0..<Suc k] bm = bm_clear (a + k) ?f" by simp
    ultimately show ?case using IH(1) by simp
  qed auto
  then show "length (fold (\<lambda>j. bm_clear (a + j)) [0..<k] bm) = length bm"
    "bm_test (fold (\<lambda>j. bm_clear (a + j)) [0..<k] bm) i = (\<not> (a \<le> i \<and> i < a + k) \<and> bm_test bm i)"
    by blast+
qed

end
