(* ===== verification/Frames.thy ===== *)
theory Frames
  imports Bitmap Switch
begin

text \<open>
  The page frame allocators: \<^verbatim>\<open>frameInit\<close> and \<^verbatim>\<open>Alloc\<close> of \<^verbatim>\<open>src/kernel/boot/mm.cc\<close>, which run
  before paging, and \<^verbatim>\<open>AllocPages\<close>, \<^verbatim>\<open>FreePages\<close>, \<^verbatim>\<open>Alloc\<close> and \<^verbatim>\<open>Free\<close> of
  \<^verbatim>\<open>src/mm/page.cc\<close>.  Both work on one \<^verbatim>\<open>FrameMem\<close> object.
\<close>

section \<open>Data\<close>

record Page =
  page_flag :: u64
  vaddr :: u64
  page_count :: u32

record FrameMem =
  total_pages :: u64
  free_pages :: u64
  bitmap_size :: u64
  bitmap :: "byte list"
  pages :: "Page list"
  start_addr :: u64
  start_usable :: u64

definition PAGE_SIZE :: u64 where "PAGE_SIZE = 0x1000"
definition PAGE_FREE :: u64 where "PAGE_FREE = 0"
definition PAGE_USED :: u64 where "PAGE_USED = 1"
definition sizeof_Page :: u64 where "sizeof_Page = 24"

section \<open>The kernel allocator\<close>

text \<open>
  \<open>page_test\<close> and \<open>page_mark\<close> are the bit operations of the two inner loops, with the byte and
  the mask computed from the page index.
\<close>

definition page_test :: "FrameMem \<Rightarrow> u64 \<Rightarrow> bool" where
  "page_test f idx \<longleftrightarrow> bm_test (bitmap f) (unat idx)"

definition page_mark :: "u64 \<Rightarrow> FrameMem \<Rightarrow> FrameMem" where
  "page_mark idx f = f\<lparr>bitmap := bm_set (unat idx) (bitmap f),
     pages := (pages f)[unat idx := (pages f ! unat idx)\<lparr>page_flag := PAGE_USED, page_count := 1\<rparr>]\<rparr>"

definition page_unmark :: "u64 \<Rightarrow> FrameMem \<Rightarrow> FrameMem" where
  "page_unmark idx f = f\<lparr>bitmap := bm_clear (unat idx) (bitmap f),
     pages := (pages f)[unat idx := (pages f ! unat idx)\<lparr>page_flag := PAGE_FREE, page_count := 0\<rparr>]\<rparr>"

text \<open>One candidate start: the first used page of the window, if any, is where the search goes on.\<close>

definition alloc_body :: "u64 \<Rightarrow> FrameMem \<Rightarrow> u64 \<Rightarrow> (u64, u64 option) step option" where
  "alloc_body n f start =
     (if start + n \<le> total_pages f then
        case find (\<lambda>j. page_test f (start + of_nat j)) [0..<unat n] of
          Some j \<Rightarrow> Some (Next (start + of_nat j + 1))
        | None \<Rightarrow> Some (Done (Some start))
      else Some (Done None))"

definition AllocPages :: "u64 \<Rightarrow> FrameMem \<Rightarrow> (u64 option \<times> FrameMem) option" where
  "AllocPages n0 f = do {
     let n = (if n0 = 0 then 1 else n0);
     if free_pages f < n then Some (None, f) else do {
       r \<leftarrow> loop (alloc_body n f) 0;
       (case r of None \<Rightarrow> Some (None, f)
        | Some start \<Rightarrow>
            let f1 = fold (\<lambda>j. page_mark (start + of_nat j)) [0..<unat n] f;
                f2 = f1\<lparr>free_pages := free_pages f1 - n\<rparr>
            in Some (Some (Phy2Vir (start_usable f2 + start * PAGE_SIZE)), f2)) } }"

definition FreePages :: "u64 \<Rightarrow> u64 \<Rightarrow> FrameMem \<Rightarrow> FrameMem" where
  "FreePages a n f =
     (if a = 0 \<or> n = 0 then f
      else if a < start_usable f then f
      else let idx = (a - start_usable f) div PAGE_SIZE in
        if idx \<ge> total_pages f then f
        else let k = min (unat n) (unat (total_pages f) - unat idx);
                 f1 = fold (\<lambda>i. page_unmark (idx + of_nat i)) [0..<k] f
             in f1\<lparr>free_pages := free_pages f1 + n\<rparr>)"

text \<open>
  \<open>Alloc\<close> stores the number of pages in the first word of the block; \<open>Free\<close> looks for it in the
  page that holds the word before the block.  \<open>mem\<close> is the memory of 64-bit words.
\<close>

definition Alloc :: "u64 \<Rightarrow> FrameMem \<times> (u64 \<Rightarrow> u64) \<Rightarrow> (u64 option \<times> FrameMem \<times> (u64 \<Rightarrow> u64)) option" where
  "Alloc sz0 = (\<lambda>(f, mem). do {
     let sz = (if sz0 = 0 then 1 else sz0);
     let total = sz + 8;
     let npages = (total + PAGE_SIZE - 1) div PAGE_SIZE;
     (base, f1) \<leftarrow> AllocPages npages f;
     Some (case base of None \<Rightarrow> (None, f1, mem) | Some b \<Rightarrow> (Some b, f1, mem(b := npages))) })"

definition PAGE_MASK :: u64 where "PAGE_MASK = NOT (PAGE_SIZE - 1)"

definition Free :: "u64 \<Rightarrow> FrameMem \<times> (u64 \<Rightarrow> u64) \<Rightarrow> FrameMem \<times> (u64 \<Rightarrow> u64)" where
  "Free a = (\<lambda>(f, mem).
     if a = 0 then (f, mem)
     else let header = a - 8; base = header AND PAGE_MASK; npages = mem base
          in (FreePages a npages f, mem))"

section \<open>The boot allocator\<close>

definition init_page :: "u64 \<Rightarrow> nat \<Rightarrow> Page" where
  "init_page usable i = \<lparr>page_flag = PAGE_FREE, vaddr = usable + of_nat i * PAGE_SIZE, page_count = 0\<rparr>"

text \<open>\<open>None\<close> is the endless loop after the message that there is not enough memory.\<close>

definition frameInit :: "u64 \<Rightarrow> u64 \<Rightarrow> FrameMem option" where
  "frameInit start_a end_a =
     (let region_size = end_a - start_a;
          max_pages = region_size div PAGE_SIZE;
          bsize = (max_pages + 7) div 8;
          pages_array_size = max_pages * sizeof_Page;
          reserve_bytes = bsize + pages_array_size;
          reserve_pages = (reserve_bytes + PAGE_SIZE - 1) div PAGE_SIZE
      in if reserve_pages \<ge> max_pages then None
         else let usable_pages = max_pages - reserve_pages;
                  usable = start_a + reserve_pages * PAGE_SIZE
              in Some \<lparr>total_pages = usable_pages, free_pages = usable_pages, bitmap_size = bsize,
                   bitmap = replicate (unat bsize) 0, pages = map (init_page usable) [0..<unat usable_pages],
                   start_addr = start_a, start_usable = usable\<rparr>)"

text \<open>
  The search of the boot allocator: bytes in order, skipping full ones, and in a byte the bits in
  order until the end of the managed pages.
\<close>

definition boot_find :: "FrameMem \<Rightarrow> nat option" where
  "boot_find f = find (\<lambda>idx. idx < unat (total_pages f) \<and> bitmap f ! (idx div 8) \<noteq> 0xFF \<and> \<not> bm_test (bitmap f) idx)
     [0..<8 * unat (bitmap_size f)]"

definition boot_Alloc :: "FrameMem \<Rightarrow> (u64 \<times> FrameMem) option" where
  "boot_Alloc f =
     (if free_pages f = 0 then None
      else do {
        i \<leftarrow> boot_find f;
        let idx = of_nat i;
        let f1 = page_mark idx f;
        let f2 = f1\<lparr>free_pages := free_pages f1 - 1\<rparr>;
        Some (start_usable f2 + idx * PAGE_SIZE, f2) })"

section \<open>The allocator invariant\<close>

definition used :: "FrameMem \<Rightarrow> nat set" where
  "used f = marked (bitmap f) (unat (total_pages f))"

definition frame_ok :: "FrameMem \<Rightarrow> bool" where
  "frame_ok f \<longleftrightarrow> unat (total_pages f) \<le> 8 * length (bitmap f) \<and> length (bitmap f) = unat (bitmap_size f) \<and>
     unat (total_pages f) \<le> length (pages f) \<and> unat (free_pages f) = unat (total_pages f) - card (used f) \<and>
     unat (total_pages f) < 2 ^ 51"

lemma used_le: "card (used f) \<le> unat (total_pages f)"
  by (simp add: used_def card_marked_le)

definition run_free :: "FrameMem \<Rightarrow> nat \<Rightarrow> nat \<Rightarrow> bool" where
  "run_free f a n \<longleftrightarrow> a + n \<le> unat (total_pages f) \<and> (\<forall>i. a \<le> i \<and> i < a + n \<longrightarrow> i \<notin> used f)"

lemma find_upt:
  "find P [0..<n] = Some j \<longleftrightarrow> j < n \<and> P j \<and> (\<forall>i<j. \<not> P i)"
  "find P [0..<n] = None \<longleftrightarrow> (\<forall>i<n. \<not> P i)"
  by (auto simp: find_Some_iff find_None_iff)

lemma unat_add_of_nat:
  fixes x :: u64
  assumes "unat x + j < 2 ^ 64"
  shows "unat (x + of_nat j) = unat x + j"
proof -
  have "unat (of_nat j :: u64) = j" using assms by (simp add: unat_of_nat)
  then show ?thesis using assms by (simp add: unat_word_ariths)
qed

text \<open>The search is complete: it returns the first run of free pages, and fails only if there is none.\<close>

definition search_post :: "FrameMem \<Rightarrow> nat \<Rightarrow> u64 option \<Rightarrow> bool" where
  "search_post f n r \<longleftrightarrow> (case r of
     None \<Rightarrow> \<forall>a. \<not> run_free f a n
   | Some start \<Rightarrow> run_free f (unat start) n \<and> (\<forall>a < unat start. \<not> run_free f a n))"

lemma alloc_search:
  assumes ok: "frame_ok f" and n: "1 \<le> unat n" "unat n \<le> unat (total_pages f)"
  shows "\<exists>r. loop (alloc_body n f) 0 = Some r \<and> search_post f (unat n) r"
proof (rule loop_total [where m = "\<lambda>st. unat (total_pages f) - unat st" and
      I = "\<lambda>st. unat st \<le> unat (total_pages f) \<and> (\<forall>a < unat st. \<not> run_free f a (unat n))"])
  let ?T = "unat (total_pages f)" and ?n = "unat n"
  show "unat (0 :: u64) \<le> ?T \<and> (\<forall>a < unat (0 :: u64). \<not> run_free f a ?n)" by simp
  fix st :: u64 assume I: "unat st \<le> ?T \<and> (\<forall>a < unat st. \<not> run_free f a ?n)"
  have T: "?T < 2 ^ 51" using ok by (simp add: frame_ok_def)
  have sn: "unat (st + n) = unat st + ?n" using I n T by (simp add: unat_word_ariths)
  show "(\<exists>st'. alloc_body n f st = Some (Next st') \<and>
          (unat st' \<le> ?T \<and> (\<forall>a < unat st'. \<not> run_free f a ?n)) \<and> ?T - unat st' < ?T - unat st) \<or>
        (\<exists>r. alloc_body n f st = Some (Done r) \<and> search_post f ?n r)"
  proof (cases "unat st + ?n \<le> ?T")
    case False
    then have "alloc_body n f st = Some (Done None)" using sn by (simp add: alloc_body_def word_le_nat_alt)
    moreover have "\<not> run_free f a ?n" for a
      using I False by (cases "a < unat st") (auto simp: run_free_def)
    ultimately show ?thesis by (simp add: search_post_def)
  next
    case fits: True
    have idx: "unat (st + of_nat j) = unat st + j" if "j < ?n" for j
      using that fits T by (intro unat_add_of_nat) simp
    have ut: "page_test f (st + of_nat j) \<longleftrightarrow> unat st + j \<in> used f" if "j < ?n" for j
      using that fits idx [OF that] by (auto simp: page_test_def used_def marked_def)
    show ?thesis
    proof (cases "find (\<lambda>j. page_test f (st + of_nat j)) [0..<?n]")
      case None
      then have "run_free f (unat st) ?n"
        using fits ut by (auto simp: find_upt run_free_def) (metis add_less_cancel_left le_add_diff_inverse)
      with None fits sn I show ?thesis by (simp add: alloc_body_def word_le_nat_alt search_post_def)
    next
      case (Some j)
      then have j: "j < ?n" "unat st + j \<in> used f" using ut by (auto simp: find_upt)
      have st': "unat (st + of_nat j + 1) = unat st + j + 1"
        using idx [OF j(1)] fits j(1) T by (simp add: unat_word_ariths)
      have "\<not> run_free f a ?n" if "a < unat st + j + 1" for a
      proof (cases "a < unat st")
        case False
        then have "a \<le> unat st + j" "unat st + j < a + ?n" using that j(1) by auto
        then show ?thesis using j(2) by (auto simp: run_free_def)
      qed (use I in blast)
      moreover have "alloc_body n f st = Some (Next (st + of_nat j + 1))"
        using Some fits sn by (simp add: alloc_body_def word_le_nat_alt)
      ultimately show ?thesis using st' fits j(1) by (intro disjI1 exI [of _ "st + of_nat j + 1"]) auto
    qed
  qed
qed

text \<open>What marking and unmarking a run of pages changes.\<close>

definition same_frame :: "FrameMem \<Rightarrow> FrameMem \<Rightarrow> bool" where
  "same_frame f g \<longleftrightarrow> total_pages g = total_pages f \<and> free_pages g = free_pages f \<and>
     bitmap_size g = bitmap_size f \<and> start_addr g = start_addr f \<and> start_usable g = start_usable f \<and>
     length (pages g) = length (pages f)"

lemma page_mark_fields:
  "same_frame f (page_mark i f)" "bitmap (page_mark i f) = bm_set (unat i) (bitmap f)"
  "same_frame f (page_unmark i f)" "bitmap (page_unmark i f) = bm_clear (unat i) (bitmap f)"
  by (simp_all add: same_frame_def page_mark_def page_unmark_def)

lemma same_frame_trans: "same_frame f g \<Longrightarrow> same_frame g h \<Longrightarrow> same_frame f h"
  by (simp add: same_frame_def)

lemma fold_page_mark:
  assumes "unat st + k < 2 ^ 64"
  shows "same_frame f (fold (\<lambda>j. page_mark (st + of_nat j)) [0..<k] f) \<and>
    bitmap (fold (\<lambda>j. page_mark (st + of_nat j)) [0..<k] f) = fold (\<lambda>j. bm_set (unat st + j)) [0..<k] (bitmap f)"
  using assms
proof (induction k)
  case (Suc k)
  let ?g = "fold (\<lambda>j. page_mark (st + of_nat j)) [0..<k] f"
  have g: "same_frame f ?g" "bitmap ?g = fold (\<lambda>j. bm_set (unat st + j)) [0..<k] (bitmap f)" using Suc by auto
  have "unat (st + of_nat k) = unat st + k" using Suc.prems by (intro unat_add_of_nat) simp
  moreover have "fold (\<lambda>j. page_mark (st + of_nat j)) [0..<Suc k] f = page_mark (st + of_nat k) ?g" by simp
  ultimately show ?case using g same_frame_trans page_mark_fields(1,2) by simp
qed (simp add: same_frame_def)

lemma fold_page_unmark:
  assumes "unat st + k < 2 ^ 64"
  shows "same_frame f (fold (\<lambda>j. page_unmark (st + of_nat j)) [0..<k] f) \<and>
    bitmap (fold (\<lambda>j. page_unmark (st + of_nat j)) [0..<k] f) = fold (\<lambda>j. bm_clear (unat st + j)) [0..<k] (bitmap f)"
  using assms
proof (induction k)
  case (Suc k)
  let ?g = "fold (\<lambda>j. page_unmark (st + of_nat j)) [0..<k] f"
  have g: "same_frame f ?g" "bitmap ?g = fold (\<lambda>j. bm_clear (unat st + j)) [0..<k] (bitmap f)" using Suc by auto
  have "unat (st + of_nat k) = unat st + k" using Suc.prems by (intro unat_add_of_nat) simp
  moreover have "fold (\<lambda>j. page_unmark (st + of_nat j)) [0..<Suc k] f = page_unmark (st + of_nat k) ?g" by simp
  ultimately show ?case using g same_frame_trans page_mark_fields(3,4) by simp
qed (simp add: same_frame_def)

lemma used_mark_run:
  assumes "a + k \<le> unat (total_pages f)" "unat (total_pages f) \<le> 8 * length (bitmap f)"
    "total_pages g = total_pages f" "bitmap g = fold (\<lambda>j. bm_set (a + j)) [0..<k] (bitmap f)"
  shows "used g = used f \<union> {a..<a + k}"
proof (rule set_eqI)
  fix i
  have "a + k \<le> 8 * length (bitmap f)" using assms(1,2) by simp
  from fold_bm_set(2) [OF this, of i] show "i \<in> used g \<longleftrightarrow> i \<in> used f \<union> {a..<a + k}"
    using assms(1) unfolding used_def marked_def assms(3,4) by auto
qed

lemma used_clear_run:
  assumes "a + k \<le> unat (total_pages f)" "unat (total_pages f) \<le> 8 * length (bitmap f)"
    "total_pages g = total_pages f" "bitmap g = fold (\<lambda>j. bm_clear (a + j)) [0..<k] (bitmap f)"
  shows "used g = used f - {a..<a + k}"
proof (rule set_eqI)
  fix i
  have "a + k \<le> 8 * length (bitmap f)" using assms(1,2) by simp
  from fold_bm_clear(2) [OF this, of i] show "i \<in> used g \<longleftrightarrow> i \<in> used f - {a..<a + k}"
    using assms(1) unfolding used_def marked_def assms(3,4) by auto
qed

section \<open>Correctness\<close>

lemma card_used_run:
  assumes "run_free f a k"
  shows "card (used f \<union> {a..<a + k}) = card (used f) + k"
proof -
  have "used f \<inter> {a..<a + k} = {}" using assms by (auto simp: run_free_def)
  then show ?thesis by (simp add: card_Un_disjoint used_def)
qed

theorem AllocPages_correct:
  assumes ok: "frame_ok f" and n: "n \<noteq> 0" "n \<le> total_pages f"
  shows "\<exists>r f'. AllocPages n f = Some (r, f') \<and> frame_ok f' \<and>
     (case r of
        None \<Rightarrow> f' = f \<and> (\<forall>a. \<not> run_free f a (unat n))
      | Some v \<Rightarrow> \<exists>a. run_free f a (unat n) \<and> (\<forall>b<a. \<not> run_free f b (unat n)) \<and>
          used f' = used f \<union> {a..<a + unat n} \<and> v = Phy2Vir (start_usable f + of_nat a * PAGE_SIZE) \<and>
          start_usable f' = start_usable f \<and> total_pages f' = total_pages f)"
proof -
  let ?T = "unat (total_pages f)" and ?n = "unat n"
  have n1: "1 \<le> ?n" "?n \<le> ?T" using n by (simp_all add: word_le_nat_alt unat_eq_zero Suc_le_eq unat_gt_0)
  have T: "?T < 2 ^ 51" using ok by (simp add: frame_ok_def)
  show ?thesis
  proof (cases "free_pages f < n")
    case True
    then have lt: "?T - card (used f) < ?n" using ok by (simp add: frame_ok_def word_less_nat_alt)
    have "\<not> run_free f a ?n" for a
    proof
      assume r: "run_free f a ?n"
      have "used f \<union> {a..<a + ?n} \<subseteq> {..<?T}" using r by (auto simp: run_free_def used_def marked_def)
      then have "card (used f \<union> {a..<a + ?n}) \<le> ?T" using card_mono [of "{..<?T}"] by fastforce
      with card_used_run [OF r] lt show False by simp
    qed
    with True ok n(1) show ?thesis by (auto simp: AllocPages_def)
  next
    case False
    from alloc_search [OF ok n1] obtain r where
      r: "loop (alloc_body n f) 0 = Some r" "search_post f ?n r" by blast
    show ?thesis
    proof (cases r)
      case None
      with r False n(1) ok show ?thesis by (auto simp: AllocPages_def search_post_def)
    next
      case (Some st)
      let ?f1 = "fold (\<lambda>j. page_mark (st + of_nat j)) [0..<?n] f"
      let ?f2 = "?f1\<lparr>free_pages := free_pages ?f1 - n\<rparr>"
      have rf: "run_free f (unat st) ?n" "\<forall>b < unat st. \<not> run_free f b ?n"
        using r Some by (auto simp: search_post_def)
      then have le: "unat st + ?n \<le> ?T" by (simp add: run_free_def)
      with T fold_page_mark [of st ?n f] have
        m: "same_frame f ?f1" "bitmap ?f1 = fold (\<lambda>j. bm_set (unat st + j)) [0..<?n] (bitmap f)" by auto
      have u: "used ?f1 = used f \<union> {unat st..<unat st + ?n}"
        by (rule used_mark_run [OF le]) (use ok m in \<open>auto simp: frame_ok_def same_frame_def\<close>)
      have "unat (free_pages f - n) = unat (free_pages f) - ?n" using False by (simp add: unat_sub)
      moreover have "length (bitmap ?f1) = length (bitmap f)"
        using fold_bm_set(1) [of "unat st" ?n "bitmap f"] m(2) le ok by (simp add: frame_ok_def)
      ultimately have "frame_ok ?f2"
        using ok m(1) u card_used_run [OF rf(1)] by (simp add: frame_ok_def same_frame_def used_def)
      moreover have "AllocPages n f = Some (Some (Phy2Vir (start_usable f + of_nat (unat st) * PAGE_SIZE)), ?f2)"
        using r(1) Some False n(1) m(1) by (simp add: AllocPages_def same_frame_def Let_def)
      moreover have "used ?f2 = used ?f1" "start_usable ?f2 = start_usable f" "total_pages ?f2 = total_pages f"
        using m(1) by (simp_all add: used_def same_frame_def)
      ultimately show ?thesis using u rf
        by (intro exI [of _ "Some (Phy2Vir (start_usable f + of_nat (unat st) * PAGE_SIZE))"] exI [of _ ?f2])
          (auto intro!: exI [of _ "unat st"])
    qed
  qed
qed

text \<open>\<open>FreePages\<close> on a physical address: exactly the given pages become free.\<close>

lemma free_index:
  assumes "unat (start_usable f) + unat (total_pages f) * 4096 < 2 ^ 64" "i < unat (total_pages f)"
  shows "(start_usable f + of_nat i * PAGE_SIZE - start_usable f) div PAGE_SIZE = of_nat i"
    "\<not> start_usable f + of_nat i * PAGE_SIZE < start_usable f"
proof -
  have i: "i * 4096 < 2 ^ 64" using assms by simp
  then have "unat (of_nat i * 4096 :: u64) = i * 4096" by (simp add: unat_word_ariths unat_of_nat)
  then show "(start_usable f + of_nat i * PAGE_SIZE - start_usable f) div PAGE_SIZE = of_nat i"
    using i by (intro unsigned_word_eqI [where ?'a = nat]) (simp add: PAGE_SIZE_def unat_div unat_of_nat)
  have "unat (start_usable f + of_nat i * 4096) = unat (start_usable f) + i * 4096"
    using assms \<open>unat (of_nat i * 4096 :: u64) = i * 4096\<close> by (simp add: unat_word_ariths)
  then show "\<not> start_usable f + of_nat i * PAGE_SIZE < start_usable f"
    by (simp add: PAGE_SIZE_def word_less_nat_alt)
qed

theorem FreePages_correct:
  assumes ok: "frame_ok f" and b: "unat (start_usable f) + unat (total_pages f) * 4096 < 2 ^ 64" "start_usable f \<noteq> 0"
    and n: "n \<noteq> 0" "i + unat n \<le> unat (total_pages f)" "{i..<i + unat n} \<subseteq> used f"
  shows "frame_ok (FreePages (start_usable f + of_nat i * PAGE_SIZE) n f) \<and>
    used (FreePages (start_usable f + of_nat i * PAGE_SIZE) n f) = used f - {i..<i + unat n}"
proof -
  let ?T = "unat (total_pages f)" and ?a = "start_usable f + of_nat i * PAGE_SIZE" and ?n = "unat n"
  have n0: "0 < ?n" using n(1) by (simp add: unat_gt_0)
  then have i: "i < ?T" using n(2) by simp
  have T: "?T < 2 ^ 51" using ok by (simp add: frame_ok_def)
  have ui: "unat (of_nat i :: u64) = i" using i T by (simp add: unat_of_nat)
  let ?f1 = "fold (\<lambda>j. page_unmark (of_nat i + of_nat j)) [0..<?n] f"
  have a0: "?a \<noteq> 0"
    using free_index(2) [OF b(1) i] b(2) by (metis word_gt_0)
  have "min ?n (?T - i) = ?n" using n(2) by simp
  then have F: "FreePages ?a n f = ?f1\<lparr>free_pages := free_pages ?f1 + n\<rparr>"
    using free_index [OF b(1) i] a0 n(1) i ui by (simp add: FreePages_def Let_def word_le_nat_alt)
  from fold_page_unmark [of "of_nat i" ?n f] n(2) T ui have
    m: "same_frame f ?f1" "bitmap ?f1 = fold (\<lambda>j. bm_clear (i + j)) [0..<?n] (bitmap f)" by auto
  have u: "used ?f1 = used f - {i..<i + ?n}"
    by (rule used_clear_run [OF n(2)]) (use ok m in \<open>auto simp: frame_ok_def same_frame_def\<close>)
  have card: "card (used f - {i..<i + ?n}) = card (used f) - ?n"
    using n(3) by (simp add: card_Diff_subset)
  have cn: "?n \<le> card (used f)" using card_mono [OF _ n(3)] by (simp add: used_def)
  have "unat (free_pages f) \<le> ?T" using ok by (simp add: frame_ok_def)
  then have "unat (free_pages f) + ?n < 2 ^ 64" using n(2) T by simp
  then have "unat (free_pages f + n) = unat (free_pages f) + ?n" by (simp add: unat_word_ariths)
  moreover have "length (bitmap ?f1) = length (bitmap f)"
    using fold_bm_clear(1) [of i ?n "bitmap f"] m(2) n(2) ok by (simp add: frame_ok_def)
  moreover have "used (?f1\<lparr>free_pages := free_pages ?f1 + n\<rparr>) = used ?f1" by (simp add: used_def)
  ultimately show ?thesis unfolding F
    using ok m(1) u card cn used_le [of f] by (simp add: frame_ok_def same_frame_def)
qed

text \<open>On the virtual address that \<open>AllocPages\<close> returned, \<open>FreePages\<close> does nothing.\<close>

theorem FreePages_virtual:
  assumes ok: "frame_ok f" and b: "unat (start_usable f) + unat (total_pages f) * 4096 < 2 ^ 44"
    and i: "i < unat (total_pages f)"
  shows "FreePages (Phy2Vir (start_usable f + of_nat i * PAGE_SIZE)) n f = f"
proof -
  let ?su = "unat (start_usable f)"
  have "unat (of_nat i * 4096 :: u64) = i * 4096" using i b by (simp add: unat_word_ariths unat_of_nat)
  then have x: "unat (start_usable f + of_nat i * PAGE_SIZE) = ?su + i * 4096"
    using i b by (simp add: PAGE_SIZE_def unat_word_ariths)
  let ?v = "Phy2Vir (start_usable f + of_nat i * PAGE_SIZE)"
  have v: "unat ?v = ?su + i * 4096 + 0xFFFFF00000000000"
    using x i b by (simp add: Phy2Vir_def IDENTITY_BASE_def unat_word_ariths)
  have "unat (?v - start_usable f) = i * 4096 + 0xFFFFF00000000000"
    using v unat_sub [of "start_usable f" ?v] by (simp add: word_le_nat_alt)
  then have "unat ((?v - start_usable f) div PAGE_SIZE) = i + 0xFFFFF00000000"
    by (simp add: PAGE_SIZE_def unat_div)
  then have "total_pages f \<le> (?v - start_usable f) div PAGE_SIZE"
    using ok by (simp add: word_le_nat_alt frame_ok_def)
  then show ?thesis by (simp add: FreePages_def Let_def)
qed

section \<open>The boot allocator\<close>

lemma byte_FF_used: "bm ! (i div 8) = 0xFF \<Longrightarrow> bm_test bm i"
proof -
  have "(0xFF :: byte) = - 1" by simp
  then have "bit (0xFF :: byte) k" if "k < 8" for k using that by (simp only: bit_minus_1_iff) simp
  then show "bm ! (i div 8) = 0xFF \<Longrightarrow> bm_test bm i" by (simp add: bm_test_bit)
qed

theorem boot_Alloc_correct:
  assumes ok: "frame_ok f" and fr: "free_pages f \<noteq> 0"
  shows "\<exists>i f'. boot_Alloc f = Some (start_usable f + of_nat i * PAGE_SIZE, f') \<and> frame_ok f' \<and>
     i < unat (total_pages f) \<and> i \<notin> used f \<and> (\<forall>j<i. j \<in> used f) \<and> used f' = insert i (used f) \<and>
     start_usable f' = start_usable f \<and> total_pages f' = total_pages f"
proof -
  let ?T = "unat (total_pages f)"
  let ?P = "\<lambda>idx. idx < ?T \<and> bitmap f ! (idx div 8) \<noteq> 0xFF \<and> \<not> bm_test (bitmap f) idx"
  have P: "?P idx \<longleftrightarrow> idx < ?T \<and> idx \<notin> used f" for idx
    using byte_FF_used by (auto simp: used_def marked_def)
  have T: "?T \<le> 8 * unat (bitmap_size f)" "?T < 2 ^ 51" using ok by (simp_all add: frame_ok_def)
  have "card (used f) < ?T" using ok fr by (auto simp: frame_ok_def unat_gt_0 simp flip: unat_gt_0)
  then have "\<exists>i<?T. i \<notin> used f"
    using card_mono [of "used f" "{..<?T}"] by (fastforce simp: used_def)
  then have "boot_find f \<noteq> None"
    unfolding boot_find_def P find_upt(2) using T by (meson less_le_trans)
  then obtain i where i: "boot_find f = Some i" by blast
  then have i': "i < ?T" "i \<notin> used f" "\<forall>j<i. j \<in> used f"
    unfolding boot_find_def P find_upt(1) by auto
  let ?f1 = "page_mark (of_nat i) f"
  let ?f2 = "?f1\<lparr>free_pages := free_pages ?f1 - 1\<rparr>"
  have ui: "unat (of_nat i :: u64) = i" using i' T by (simp add: unat_of_nat)
  have m: "same_frame f ?f1" "bitmap ?f1 = bm_set i (bitmap f)" using page_mark_fields ui by auto
  have u: "used ?f2 = insert i (used f)"
    using marked_set [OF i'(1)] ok m by (simp add: used_def same_frame_def frame_ok_def)
  have "unat (free_pages f - 1) = unat (free_pages f) - 1"
    using fr unat_minus_one [of "free_pages f"] by simp
  then have "frame_ok ?f2"
    using ok m u i'(2) unfolding frame_ok_def same_frame_def by (simp add: used_def)
  moreover have "boot_Alloc f = Some (start_usable f + of_nat i * PAGE_SIZE, ?f2)"
    using fr i m(1) by (simp add: boot_Alloc_def same_frame_def Let_def)
  ultimately show ?thesis using i' u m(1) by (intro exI [of _ i] exI [of _ ?f2]) (simp add: same_frame_def)
qed

text \<open>The fresh allocator: every page is free, and the managed pages lie inside the region.\<close>

lemma unat_pages: "unat (x :: u64) * 4096 < 2 ^ 64 \<Longrightarrow> unat (x * PAGE_SIZE) = unat x * 4096"
  by (simp add: PAGE_SIZE_def unat_word_ariths)

lemma unat_plus: "unat (x :: u64) + unat y < 2 ^ 64 \<Longrightarrow> unat (x + y) = unat x + unat y"
  by (simp add: unat_word_ariths)

lemma bm_test_zero: "i div 8 < k \<Longrightarrow> \<not> bm_test (replicate k 0) i"
  by (simp add: bm_test_bit)

theorem frameInit_ok:
  assumes I: "frameInit start_a end_a = Some f" and r: "start_a \<le> end_a" "unat (end_a - start_a) < 2 ^ 60"
  shows "frame_ok f \<and> used f = {} \<and> unat (start_usable f) + unat (total_pages f) * 4096 \<le> unat end_a"
proof -
  define m where "m = unat (end_a - start_a) div 4096"
  define b where "b = (m + 7) div 8"
  define rp where "rp = (b + m * 24 + 4095) div 4096"
  have m: "m < 2 ^ 48" "m * 4096 \<le> unat (end_a - start_a)" using r(2) by (simp_all add: m_def)
  have b8: "m \<le> 8 * b" by (simp add: b_def)
  have bs: "b \<le> m + 7" by (simp add: b_def)
  let ?mp = "(end_a - start_a) div PAGE_SIZE"
  let ?bs = "(?mp + 7) div 8"
  let ?rp = "(?bs + ?mp * sizeof_Page + PAGE_SIZE - 1) div PAGE_SIZE"
  have u1: "unat ?mp = m" by (simp add: m_def PAGE_SIZE_def unat_div)
  have u2: "unat ?bs = b" using u1 m(1) by (simp add: b_def unat_div unat_word_ariths)
  have u2': "unat (?mp * sizeof_Page) = m * 24" using u1 m(1) by (simp add: sizeof_Page_def unat_word_ariths)
  have "unat (?bs + ?mp * sizeof_Page) = b + m * 24"
    using u2 u2' bs m(1) by (simp add: unat_word_ariths)
  then have "unat (?bs + ?mp * sizeof_Page + 4095) = b + m * 24 + 4095"
    using bs m(1) by (simp add: unat_word_ariths)
  moreover have "x + PAGE_SIZE - 1 = x + 4095" "unat PAGE_SIZE = 4096" for x by (simp_all add: PAGE_SIZE_def)
  ultimately have u3: "unat ?rp = rp" by (simp only: unat_div rp_def)
  have lt: "rp < m" using I u1 u3 by (simp add: frameInit_def Let_def word_le_nat_alt split: if_splits)
  then have u4: "unat (?mp - ?rp) = m - rp" using u1 u3 unat_sub [of ?rp ?mp] by (simp add: word_le_nat_alt)
  have f: "f = \<lparr>total_pages = ?mp - ?rp, free_pages = ?mp - ?rp, bitmap_size = ?bs,
      bitmap = replicate (unat ?bs) 0, pages = map (init_page (start_a + ?rp * PAGE_SIZE)) [0..<unat (?mp - ?rp)],
      start_addr = start_a, start_usable = start_a + ?rp * PAGE_SIZE\<rparr>"
    using I by (simp add: frameInit_def Let_def split: if_splits)
  have e: "unat start_a + unat (end_a - start_a) = unat end_a"
    using r(1) by (simp add: unat_sub word_le_nat_alt)
  have em: "unat start_a + m * 4096 \<le> unat end_a" using e m(2) by linarith
  have rm: "rp * 4096 + (m - rp) * 4096 = m * 4096" using lt by (metis add_mult_distrib le_add_diff_inverse less_imp_le)
  have lt64: "unat end_a < 2 ^ 64" using unsigned_less [of end_a, where ?'a = nat] by simp
  have ur: "unat (?rp * PAGE_SIZE) = rp * 4096"
    using unat_pages [of ?rp] u3 lt m(1) by simp
  have us: "unat (start_usable f) = unat start_a + rp * 4096"
  proof -
    have "unat start_a + rp * 4096 < 2 ^ 64" using em rm lt64 by linarith
    then show ?thesis using unat_plus [of start_a "?rp * PAGE_SIZE"] ur by (simp add: f)
  qed
  have "i \<notin> used f" for i
    using u2 u4 b8 bm_test_zero [of i b] by (auto simp: f used_def marked_def)
  then have "used f = {}" by blast
  moreover have tp: "unat (total_pages f) = m - rp" using u4 by (simp add: f)
  moreover have "frame_ok f"
  proof -
    have "length (bitmap f) = b" "unat (bitmap_size f) = b" "free_pages f = total_pages f"
        "length (pages f) = m - rp" using u2 u4 by (simp_all add: f)
    moreover have "m - rp \<le> 8 * b" "m - rp < 2 ^ 51" using b8 m(1) by simp_all
    ultimately show ?thesis using tp \<open>used f = {}\<close> by (simp add: frame_ok_def)
  qed
  ultimately show ?thesis using us rm em by linarith
qed

section \<open>Allocation when nothing is released\<close>

text \<open>
  As nothing is ever released, the pages in use are a prefix of all pages, and an allocation
  succeeds as long as enough pages are left.
\<close>

lemma AllocPages_prefix:
  assumes ok: "frame_ok f" and u: "used f = {..<k}" and n: "n \<noteq> 0" "n \<le> free_pages f"
  shows "\<exists>f'. AllocPages n f = Some (Some (Phy2Vir (start_usable f + of_nat k * PAGE_SIZE)), f') \<and> frame_ok f' \<and>
    used f' = {..<k + unat n} \<and> start_usable f' = start_usable f \<and> total_pages f' = total_pages f \<and>
    k < unat (total_pages f) \<and> unat (free_pages f') = unat (free_pages f) - unat n"
proof -
  let ?T = "unat (total_pages f)" and ?n = "unat n"
  have k: "k \<le> ?T" "unat (free_pages f) = ?T - k" using ok u used_le [of f] by (auto simp: frame_ok_def)
  have nT: "?n \<le> ?T - k" "0 < ?n" using n k(2) by (simp_all add: word_le_nat_alt unat_gt_0)
  then have "n \<le> total_pages f" by (simp add: word_le_nat_alt)
  from AllocPages_correct [OF ok n(1) this] obtain r f' where
    r: "AllocPages n f = Some (r, f')" "frame_ok f'" and c:
     "case r of
        None \<Rightarrow> f' = f \<and> (\<forall>a. \<not> run_free f a ?n)
      | Some v \<Rightarrow> \<exists>a. run_free f a ?n \<and> (\<forall>b<a. \<not> run_free f b ?n) \<and>
          used f' = used f \<union> {a..<a + ?n} \<and> v = Phy2Vir (start_usable f + of_nat a * PAGE_SIZE) \<and>
          start_usable f' = start_usable f \<and> total_pages f' = total_pages f" by blast
  have free: "run_free f k ?n" using nT k by (auto simp: run_free_def u)
  then obtain v where v: "r = Some v" using c by (cases r) auto
  then obtain a where a: "run_free f a ?n" "\<forall>b<a. \<not> run_free f b ?n"
      "used f' = used f \<union> {a..<a + ?n}" "v = Phy2Vir (start_usable f + of_nat a * PAGE_SIZE)"
      "start_usable f' = start_usable f" "total_pages f' = total_pages f" using c by auto
  have "a \<notin> used f" using a(1) nT(2) by (simp add: run_free_def)
  then have "k \<le> a" by (simp add: u)
  with a(2) free have ak: "a = k" using linorder_less_linear [of a k] by auto
  have u': "used f' = {..<k + ?n}" unfolding a(3) u ak by (rule ivl_disj_un_one(2)) simp
  then have "unat (free_pages f') = ?T - (k + ?n)" using r(2) a(6) by (simp add: frame_ok_def)
  then have fr: "unat (free_pages f') = unat (free_pages f) - ?n" using k(2) by simp
  have "k < ?T" using nT by simp
  then show ?thesis using r v a(4-6) ak u' fr by simp
qed

lemma AllocPages_0: "AllocPages 0 f = AllocPages 1 f"
  by (simp add: AllocPages_def)

end
