(* ===== verification/KernelProps.thy ===== *)
theory KernelProps
  imports SchedProps Pipe Ipc Keyboard Frames
begin

text \<open>
  The properties of the semaphore wait, the pipes, message passing, the keyboard and the page
  frame allocators, each with a witness on a concrete state.
\<close>

section \<open>Blocking on a semaphore\<close>


section \<open>Pipes\<close>

definition pipe0 :: Pipe where
  "pipe0 = \<lparr>p_buffer = replicate 4096 0, read_pos = 0, write_pos = 0, buffer_size = 0, p_lock = 0,
     readable = Sem_new 0, writable = Sem_new 4096, reader = None, writer = None, is_closed = False\<rparr>"

definition pipes1 :: Pipes where
  "pipes1 = \<lparr>pipe_table = replicate 64 pipe0, pipe_count = 1\<rparr>"

lemma pipes1_ok: "pipes_ok pipes1" "valid_fd 0 pipes1" "valid_fd 1 pipes1" "pipe_of 0 pipes1 = pipe0"
    "pipe_of 1 pipes1 = pipe0" "pipe_contents pipe0 = []" "\<not> is_closed pipe0"
  by (simp_all add: pipes_ok_def pipes1_def pipe_ok_def pipe0_def valid_fd_def pipe_of_def pipe_contents_def)

text \<open>
  C17.  A pipe refines a bounded queue of bytes.  Writing to an open pipe that is not full appends
  as many of the bytes as fit and reports how many; reading from a pipe that is not empty removes
  and returns the oldest bytes, at most as many as asked for.  Both return at once, both keep the
  table well-formed, leave the scheduler alone, and leave every other pipe as it was.
\<close>

definition others_kept :: "int \<Rightarrow> Pipes \<Rightarrow> Pipes \<Rightarrow> bool" where
  "others_kept fd P P' \<longleftrightarrow> (\<forall>fd'\<ge>0. fd' div 2 \<noteq> fd div 2 \<longrightarrow> pipe_of fd' P' = pipe_of fd' P)"

lemma set_pipe_kept:
  assumes "pipes_ok P" "valid_fd fd P" "pipe_ok p"
  shows "pipes_ok (set_pipe fd p P)" "pipe_of fd (set_pipe fd p P) = p" "others_kept fd P (set_pipe fd p P)"
  using assms set_pipe_ok [OF assms] by (auto simp: others_kept_def valid_fd_def)

theorem pipe_refines_queue:
  assumes "pipes_ok P" "valid_fd fd P" "c = pipe_contents (pipe_of fd P)"
  shows "(c \<noteq> [] \<longrightarrow> (\<exists>P' n. n = min (unat sz) (length c) \<and>
       PipeRead resume fd sz P s = Some (Returns (int n, take n c), P', s) \<and> pipes_ok P' \<and>
       pipe_contents (pipe_of fd P') = drop n c \<and> others_kept fd P P')) \<and>
    (\<not> is_closed (pipe_of fd P) \<and> length c < 4096 \<and> unat sz \<le> length buf \<longrightarrow>
      (\<exists>P' n. n = min (unat sz) (4096 - length c) \<and>
       PipeWrite resume fd buf sz P s = Some (Returns (int n), P', s) \<and> pipes_ok P' \<and>
       pipe_contents (pipe_of fd P') = c @ take n buf \<and> others_kept fd P P'))"
  using PipeRead_correct [OF assms(1,2), where sz = sz and resume = resume and s = s]
    PipeWrite_correct [OF assms(1,2), where sz = sz and resume = resume and s = s and buf = buf]
    set_pipe_kept [OF assms(1,2)] unfolding assms(3) by metis

theorem pipe_refines_queue_witness:
  "\<exists>P'. PipeWrite 0 1 [7, 8, 9] 3 pipes1 cpu0 = Some (Returns 3, P', cpu0) \<and>
     pipe_contents (pipe_of 1 P') = [7, 8, 9]"
  using pipe_refines_queue [OF pipes1_ok(1,3) refl, where sz = 3 and buf = "[7, 8, 9]" and resume = 0 and s = cpu0]
  by (auto simp: pipes1_ok)

text \<open>
  Round trip: what is written to the write end of an empty open pipe, up to its capacity of
  4096 bytes, is what the read end returns afterwards, and the pipe is empty again.
\<close>

theorem pipe_roundtrip:
  assumes "pipes_ok P" "valid_fd fd P" "valid_fd fd' P" "fd' div 2 = fd div 2"
    "\<not> is_closed (pipe_of fd P)" "pipe_contents (pipe_of fd P) = []" "buf \<noteq> []" "length buf \<le> 4096"
  shows "\<exists>P1 P2. PipeWrite resume fd buf (of_nat (length buf)) P s = Some (Returns (int (length buf)), P1, s) \<and>
     PipeRead resume fd' (of_nat (length buf)) P1 s = Some (Returns (int (length buf), buf), P2, s) \<and>
     pipes_ok P2 \<and> pipe_contents (pipe_of fd P2) = []"
proof -
  let ?n = "of_nat (length buf) :: u64"
  have n: "unat ?n = length buf" using assms(8) by (simp add: unat_of_nat)
  have fd: "0 \<le> fd" "0 \<le> fd'" using assms(2,3) by (simp_all add: valid_fd_def)
  obtain p1 where p1: "PipeWrite resume fd buf ?n P s = Some (Returns (int (length buf)), set_pipe fd p1 P, s)"
      "pipe_ok p1" "pipe_contents p1 = buf"
    using PipeWrite_correct [OF assms(1,2), where sz = ?n and buf = buf and resume = resume and s = s] assms(5-8) n by (auto simp: min_def)
  let ?P1 = "set_pipe fd p1 P"
  note s1 = set_pipe_ok [OF assms(1,2) p1(2)]
  have r: "pipes_ok ?P1" "valid_fd fd' ?P1" "pipe_of fd' ?P1 = p1"
    using s1 fd assms(3,4) by auto
  obtain p2 where p2: "PipeRead resume fd' ?n ?P1 s = Some (Returns (int (length buf), buf), set_pipe fd' p2 ?P1, s)"
      "pipe_ok p2" "pipe_contents p2 = []"
    using PipeRead_correct [OF r(1,2), where sz = ?n and resume = resume and s = s] r(3) p1(3) assms(7) n by auto
  have "pipes_ok (set_pipe fd' p2 ?P1)" "pipe_of fd (set_pipe fd' p2 ?P1) = p2"
    using set_pipe_ok [OF r(1,2) p2(2) fd(1)] assms(4) by auto
  with p1 p2 show ?thesis by auto
qed

theorem pipe_roundtrip_witness:
  "\<exists>P1 P2. PipeWrite 0 1 [7, 8, 9] 3 pipes1 cpu0 = Some (Returns 3, P1, cpu0) \<and>
     PipeRead 0 0 3 P1 cpu0 = Some (Returns (3, [7, 8, 9]), P2, cpu0)"
  using pipe_roundtrip [OF pipes1_ok(1,3,2), of "[7, 8, 9]" 0 cpu0] by (auto simp: pipes1_ok)





section \<open>Message passing\<close>

definition queue0 :: "Message list \<Rightarrow> MessageQueue" where
  "queue0 ms = \<lparr>messages = ms, q_head = 0, q_tail = 0, q_lock = 0, waiting_sender = None,
     waiting_receiver = None, has_message = False\<rparr>"

text \<open>
  Message buffer \<open>a\<close> is addressed to process \<open>a\<close> and carries one byte.  The first ten queues are
  empty, \<open>rest\<close> are the others; the runs below never look at \<open>rest\<close> nor at the slots \<open>ms\<close> of a queue.
\<close>

definition ipc0 :: "Message list \<Rightarrow> MessageQueue list \<Rightarrow> Ipc" where
  "ipc0 ms rest = Cpu.extend cpu0
     (Ipc.fields (\<lambda>a. \<lparr>sender = None, dst_pid = a, msg_type = 5, msg_size = 1, payload = [ucast a]\<rparr>)
        (replicate 10 (queue0 ms) @ rest))"

definition ipc3 :: "Message list \<Rightarrow> MessageQueue list \<Rightarrow> Ipc" where
  "ipc3 ms rest = the (enqueue_all [1, 2, 3] (ipc0 ms rest))"

definition slots :: "Message list" where
  "slots = replicate 16 \<lparr>sender = None, dst_pid = 0, msg_type = 0, msg_size = 0, payload = []\<rparr>"

definition ipc :: Ipc where
  "ipc = ipc3 slots (replicate 246 (queue0 slots))"

text \<open>The same with process 9 waiting to receive into buffer 80, or to send from it to process 1.\<close>

definition ipc_receiver :: Ipc where
  "ipc_receiver = set_queue 9 ((queue0 slots)\<lparr>waiting_receiver := Some 9\<rparr>)
     (upd_pcb 9 (\<lambda>p. p\<lparr>msg := Some 80, stat := Blocked\<rparr>) ipc)"

definition ipc_sender :: Ipc where
  "ipc_sender = set_queue 1 ((queue0 slots)\<lparr>waiting_sender := Some 9\<rparr>)
     (upd_pcb 9 (\<lambda>p. p\<lparr>msg := Some 80, stat := Blocked\<rparr>) ipc)"

lemma rq_okI:
  assumes "rb_tree s t" "sorted (map (key s) (inorder t))" "leftmost s = first_of (inorder t)"
    "nr_running s = of_nat (length (inorder t))" "length (inorder t) < 2 ^ 32"
    "total_weight s = sum_list (map (wt s) (inorder t))"
  shows "rq_ok s (inorder t)"
  using assms by (auto simp: rq_ok_def rq_acc_def rq_def)

lemma ipc_ok: "rq_ok ipc [1, 2, 3]"
proof -
  have "rb_tree (ipc3 ms rest) t3" for ms rest by code_simp
  moreover have "sorted (map (key (ipc3 ms rest)) (inorder t3)) \<and> leftmost (ipc3 ms rest) = first_of (inorder t3) \<and>
      nr_running (ipc3 ms rest) = of_nat (length (inorder t3)) \<and>
      total_weight (ipc3 ms rest) = sum_list (map (wt (ipc3 ms rest)) (inorder t3))" for ms rest
    by code_simp
  ultimately show ?thesis using rq_okI [of ipc t3] by (simp add: q3_tree(4) ipc_def)
qed

lemma ipc_waiting_ok: "rq_ok ipc_receiver [1, 2, 3]" "rq_ok ipc_sender [1, 2, 3]"
proof -
  have "rq_ok (upd_pcb 9 f ipc) [1, 2, 3]" if "\<And>p. se (f p) = se p" for f
    using ipc_ok that by (simp add: rq_ok_def upd_pcb_rq_acc upd_pcb_same_tree)
  then show "rq_ok ipc_receiver [1, 2, 3]" "rq_ok ipc_sender [1, 2, 3]"
    unfolding ipc_receiver_def ipc_sender_def
    by (simp_all add: same_sched_ok(2) [OF same_sched_ipc(2)])
qed

lemma ipc_fields:
  "msg_queues ipc = replicate 256 (queue0 slots)" "payload (msgs ipc 9) = [9]" "payload (msgs ipc 80) = [80]" "dst_pid (msgs ipc 9) = 9" "dst_pid (msgs ipc 300) = 300"
  "current_proc ipc = Some 1" "pid (pcbs ipc 1) = 1"
proof -
  have "msg_queues (ipc3 ms rest) = replicate 10 (queue0 ms) @ rest" for ms rest by code_simp
  moreover have "replicate 10 (queue0 slots) @ replicate 246 (queue0 slots) = replicate 256 (queue0 slots)"
    by (simp only: replicate_add [symmetric]) simp
  ultimately show "msg_queues ipc = replicate 256 (queue0 slots)" by (simp add: ipc_def)
  have "payload (msgs (ipc3 ms rest) 9) = [9] \<and> payload (msgs (ipc3 ms rest) 80) = [80] \<and>
      dst_pid (msgs (ipc3 ms rest) 9) = 9 \<and> dst_pid (msgs (ipc3 ms rest) 300) = 300" for ms rest by code_simp
  then show "payload (msgs ipc 9) = [9]" "payload (msgs ipc 80) = [80]" "dst_pid (msgs ipc 9) = 9"
    "dst_pid (msgs ipc 300) = 300" by (simp_all add: ipc_def)
  have "current_proc (ipc3 ms rest) = Some 1 \<and> pid (pcbs (ipc3 ms rest) 1) = 1" for ms rest by code_simp
  then show "current_proc ipc = Some 1" "pid (pcbs ipc 1) = 1" by (simp_all add: ipc_def)
qed

text \<open>
  C20.  Rendezvous: when a receiver waits on the destination's queue, \<open>Send\<close> returns 1 at once, the
  receiver's buffer holds the message with the sender filled in, nobody waits any more, and the
  receiver is runnable and queued.  Symmetrically \<open>Receive\<close> takes the message of a waiting sender.
\<close>

theorem Send_delivers:
  assumes "rq_ok s xs" "dst_pid (msgs s m) < 256" "length (msg_queues s) = 256"
    "waiting_receiver (msg_queues s ! unat (dst_pid (msgs s m))) = Some r" "msg (pcbs s r) = Some b" "r \<notin> set xs"
  shows "\<exists>s' ys. Send resume m s = Some (Returns 1, s') \<and>
     msgs s' b = (msgs s m)\<lparr>sender := current_proc s\<rparr> \<and>
     waiting_receiver (msg_queues s' ! unat (dst_pid (msgs s m))) = None \<and>
     stat (pcbs s' r) = Ready \<and> rq_ok s' ys \<and> set ys = insert r (set xs)"
  using assms by (rule Send_to_waiting)


theorem Send_delivers_witness:
  "\<exists>s'. Send 0 9 ipc_receiver = Some (Returns 1, s') \<and> payload (msgs s' 80) = [9] \<and> stat (pcbs s' 9) = Ready"
proof -
  have "dst_pid (msgs ipc_receiver 9) = 9 \<and> length (msg_queues ipc_receiver) = 256 \<and>
      waiting_receiver (msg_queues ipc_receiver ! 9) = Some 9 \<and> msg (pcbs ipc_receiver 9) = Some 80 \<and>
      payload (msgs ipc_receiver 9) = [9]" by (simp add: ipc_receiver_def set_queue_def upd_pcb_def ipc_fields)
  with Send_delivers [OF ipc_waiting_ok(1), of 9 9 80 0] show ?thesis by auto
qed

text \<open>
  C21.  \<open>Receive\<close> with an empty queue and a waiting sender: it returns 1 at once, the buffer holds
  that sender's message with the sender's identity, the sender is runnable and queued again.
\<close>

theorem Receive_takes:
  assumes "rq_ok s xs" "current_proc s = Some c" "unat (pid (pcbs s c)) < length (msg_queues s)"
    "q_head (msg_queues s ! unat (pid (pcbs s c))) = q_tail (msg_queues s ! unat (pid (pcbs s c)))"
    "waiting_sender (msg_queues s ! unat (pid (pcbs s c))) = Some a" "msg (pcbs s a) = Some b" "a \<notin> set xs"
  shows "\<exists>s' ys. Receive resume m s = Some (Returns 1, s') \<and>
     msgs s' m = (msgs s b)\<lparr>sender := Some a\<rparr> \<and>
     waiting_sender (msg_queues s' ! unat (pid (pcbs s c))) = None \<and>
     stat (pcbs s' a) = Ready \<and> rq_ok s' ys \<and> set ys = insert a (set xs)"
  using assms by (rule Receive_from_waiting)

theorem Receive_takes_witness:
  "\<exists>s'. Receive 0 70 ipc_sender = Some (Returns 1, s') \<and> payload (msgs s' 70) = [80] \<and> sender (msgs s' 70) = Some 9"
proof -
  have "current_proc ipc_sender = Some 1 \<and> pid (pcbs ipc_sender 1) = 1 \<and> length (msg_queues ipc_sender) = 256 \<and>
      q_head (msg_queues ipc_sender ! 1) = q_tail (msg_queues ipc_sender ! 1) \<and>
      waiting_sender (msg_queues ipc_sender ! 1) = Some 9 \<and> msg (pcbs ipc_sender 9) = Some 80 \<and>
      payload (msgs ipc_sender 80) = [80]"
    by (simp add: ipc_sender_def set_queue_def upd_pcb_def ipc_fields queue0_def)
  with Receive_takes [OF ipc_waiting_ok(2), of 1 9 80 0 70] show ?thesis by auto
qed




section \<open>The keyboard\<close>

definition kbd0 :: Kbd where
  "kbd0 = InputQueue_Init \<lparr>shift_pressed = False, ctrl_pressed = False, alt_pressed = False, caps_lock = False,
     tty_switch_callback = False, switch_calls = [], k_buffer = [], k_head = 0, k_tail = 0, k_count = 0, kbd_lock = 0\<rparr>"

lemma kbd0_ok: "kbd_ok kbd0" "kbd_contents kbd0 = []"
  by (simp_all add: kbd_ok_def kbd_contents_def kbd0_def InputQueue_Init_def)

text \<open>
  C23.  Whatever scan codes arrive, in whatever order, the input queue stays well-formed and holds
  at most 127 characters, and a read of \<open>n\<close> characters removes the oldest ones and returns them.
\<close>

theorem keyboard_queue_invariant:
  fixes k :: Kbd and scs :: "byte list" and n :: u64
  assumes "kbd_ok k"
  defines "k' \<equiv> fold kbd_handler_c scs k"
  shows "kbd_ok k' \<and> length (kbd_contents k') \<le> 127 \<and>
    (\<exists>k''. ReadBuffer n k' = (take (unat n) (kbd_contents k'), k'') \<and> kbd_ok k'' \<and>
      kbd_contents k'' = drop (unat n) (kbd_contents k'))"
proof -
  have "kbd_ok (fold kbd_handler_c scs k)" using assms(1)
    by (induction scs arbitrary: k) (simp_all add: kbd_handler_c_def ProcessScancode_ok)
  then have "kbd_ok k'" by (simp add: k'_def)
  then show ?thesis using ReadBuffer_loop_correct [of k' "unat n"] by (simp add: ReadBuffer_def kbd_ok_def)
qed

theorem keyboard_queue_invariant_witness:
  "kbd_ok (fold kbd_handler_c [0x2A, 0x23, 0xAA, 0x17] kbd0) \<and>
   fst (ReadBuffer 9 (fold kbd_handler_c [0x2A, 0x23, 0xAA, 0x17] kbd0)) = map ch ''Hi''"
proof -
  have "kbd_contents (fold kbd_handler_c [0x2A, 0x23, 0xAA, 0x17] kbd0) = map ch ''Hi''" by code_simp
  with keyboard_queue_invariant [OF kbd0_ok(1), of "[0x2A, 0x23, 0xAA, 0x17]" 9] show ?thesis by auto
qed

lemma low_seven_bits:
  fixes sc :: byte
  assumes "unat sc < 128"
  shows "sc AND 0x7F = sc" "sc AND 0x80 = 0"
proof -
  have "unat (take_bit 7 sc) = unat sc" using assms by (simp add: unsigned_take_bit_eq take_bit_nat_eq_self)
  then have "take_bit 7 sc = sc" using word_unat_eq_iff by blast
  moreover have "(0x7F :: byte) = mask 7" by (simp add: mask_numeral)
  ultimately show a: "sc AND 0x7F = sc" by (simp add: take_bit_eq_mask)
  have "sc AND 0x80 = sc AND (0x7F AND 0x80)" using a by (metis and.assoc)
  then show "sc AND 0x80 = 0" by simp
qed

text \<open>
  C24.  The two decoders agree: for a key that is not a modifier, pressed without control and with
  no terminal switch, \<open>ProcessScancode\<close> appends exactly the character that \<open>ScancodeToChar\<close> computes
  for the same shift state, and nothing when that is 0; and \<open>ScancodeToChar\<close> reads outside its
  table for the codes from 88 to 127.
\<close>

theorem scancode_decoders_agree:
  assumes "kbd_ok k" "length (kbd_contents k) < 127" "sc < 88" "sc \<notin> {0x2A, 0x36, 0x1D, 0x38, 0x3A}"
    "\<not> ctrl_pressed k"
  shows "(\<exists>c. ScancodeToChar sc (shift_pressed k) k = Some c \<and>
      kbd_contents (ProcessScancode sc k) = kbd_contents k @ (if c = 0 then [] else [c])) \<and>
    (\<forall>sc'. 88 \<le> sc' \<and> sc' < 128 \<longrightarrow> ScancodeToChar sc' sh k = None)"
proof
  have n: "unat sc < 88" using assms(3) by (simp add: word_less_nat_alt)
  have r: "sc AND 0x80 = 0" "sc AND 0x7F = sc" using low_seven_bits [of sc] n by auto
  have c1: "k_count k < 127" using assms(2) by (simp add: word_less_nat_alt)
  let ?c = "(if shift_pressed k then keymap_shift else keymap_normal) ! unat sc"
  let ?d = "if is_lower ?c \<and> (caps_lock k \<or> shift_pressed k) then ?c - 97 + 65 else ?c"
  have "ProcessScancode sc k = (if ?c = 0 then k else Insert ?d k)"
    using assms(4,5) r n by (simp add: ProcessScancode_def Let_def keymap_length)
  moreover have "ScancodeToChar sc (shift_pressed k) k = Some (if ?c = 0 then 0 else ?d)"
    using assms(3) n by (simp add: ScancodeToChar_def Let_def keymap_length word_less_nat_alt)
  moreover have "?d \<noteq> 0" if "?c \<noteq> 0"
  proof -
    have "x - 97 + 65 \<noteq> 0" if "is_lower x" for x :: byte
    proof
      assume "x - 97 + 65 = 0"
      then have "x = 32" by (simp add: algebra_simps)
      with that show False by (simp add: is_lower_def)
    qed
    with that show ?thesis by presburger
  qed
  ultimately show "\<exists>c. ScancodeToChar sc (shift_pressed k) k = Some c \<and>
      kbd_contents (ProcessScancode sc k) = kbd_contents k @ (if c = 0 then [] else [c])"
    using Insert_law [OF assms(1,2), of ?d] by (cases "?c = 0") auto
  show "\<forall>sc'. 88 \<le> sc' \<and> sc' < 128 \<longrightarrow> ScancodeToChar sc' sh k = None"
    by (auto simp: ScancodeToChar_def keymap_length Let_def word_le_nat_alt word_less_nat_alt)
qed

theorem scancode_decoders_agree_witness:
  "kbd_contents (ProcessScancode 0x1E kbd0) = [ch CHR ''a''] \<and> ScancodeToChar 90 False kbd0 = None"
proof -
  have c: "ScancodeToChar 0x1E (shift_pressed kbd0) kbd0 = Some (ch CHR ''a'') \<and> ch CHR ''a'' \<noteq> 0" by code_simp
  have "length (kbd_contents kbd0) < 127" "(0x1E :: byte) < 88" "(0x1E :: byte) \<notin> {0x2A, 0x36, 0x1D, 0x38, 0x3A}"
    "\<not> ctrl_pressed kbd0" "88 \<le> (90 :: byte) \<and> (90 :: byte) < 128"
    using kbd0_ok by (simp_all add: kbd0_def InputQueue_Init_def)
  with scancode_decoders_agree [OF kbd0_ok(1), of "0x1E" False] c kbd0_ok(2) show ?thesis by auto
qed

section \<open>Page frames\<close>

text \<open>Eight pages from 1 MB on, pages 0 and 2 in use.\<close>

definition frame8 :: FrameMem where
  "frame8 = \<lparr>total_pages = 8, free_pages = 6, bitmap_size = 1, bitmap = [5],
     pages = replicate 8 \<lparr>page_flag = PAGE_FREE, vaddr = 0, page_count = 0\<rparr>,
     start_addr = 0x100000, start_usable = 0x100000\<rparr>"

lemma marked_filter: "marked bm n = set (filter (bm_test bm) [0..<n])"
  by (auto simp: marked_def)

lemma frame8_used: "used frame8 = {0, 2}"
proof -
  have "filter (bm_test (bitmap frame8)) [0..<unat (total_pages frame8)] = [0, 2]" by code_simp
  then show ?thesis by (simp add: used_def marked_filter)
qed

lemma frame8_ok: "frame_ok frame8"
  using frame8_used by (simp add: frame_ok_def) (simp add: frame8_def)

text \<open>
  C25.  \<open>AllocPages\<close> is a first-fit allocator: it always returns; it hands out the lowest run of
  free pages that is long enough, marks exactly that run and no other page, and fails only when
  there is no such run; the count of free pages agrees with the bitmap before and after.
\<close>

theorem AllocPages_first_fit:
  assumes "frame_ok f" "n \<noteq> 0" "n \<le> total_pages f"
  shows "\<exists>r f'. AllocPages n f = Some (r, f') \<and> frame_ok f' \<and>
     (case r of
        None \<Rightarrow> f' = f \<and> (\<forall>a. \<not> run_free f a (unat n))
      | Some v \<Rightarrow> \<exists>a. run_free f a (unat n) \<and> (\<forall>b<a. \<not> run_free f b (unat n)) \<and>
          used f' = used f \<union> {a..<a + unat n} \<and> v = Phy2Vir (start_usable f + of_nat a * PAGE_SIZE) \<and>
          start_usable f' = start_usable f \<and> total_pages f' = total_pages f)"
  using assms by (rule AllocPages_correct)

theorem AllocPages_first_fit_witness:
  "\<exists>f'. AllocPages 2 frame8 = Some (Some 0xFFFFF00000103000, f') \<and> frame_ok f'"
proof -
  have "AllocPages 2 frame8 \<noteq> None \<and> fst (the (AllocPages 2 frame8)) = Some 0xFFFFF00000103000" by code_simp
  moreover have "(2 :: u64) \<noteq> 0" "2 \<le> total_pages frame8" by (simp_all add: frame8_def)
  ultimately show ?thesis using AllocPages_first_fit [OF frame8_ok, of 2] by auto
qed

text \<open>
  C26.  \<open>FreePages\<close> given the physical address of a run of used pages releases exactly that run.
  Given the virtual address that \<open>AllocPages\<close> returned for it, which is what \<open>Free\<close> passes on,
  it changes nothing: those pages stay in use for ever.
\<close>

theorem FreePages_physical_only:
  assumes "frame_ok f" "unat (start_usable f) + unat (total_pages f) * 4096 < 2 ^ 44" "start_usable f \<noteq> 0"
    "n \<noteq> 0" "i + unat n \<le> unat (total_pages f)" "{i..<i + unat n} \<subseteq> used f"
  shows "frame_ok (FreePages (start_usable f + of_nat i * PAGE_SIZE) n f) \<and>
    used (FreePages (start_usable f + of_nat i * PAGE_SIZE) n f) = used f - {i..<i + unat n} \<and>
    FreePages (Phy2Vir (start_usable f + of_nat i * PAGE_SIZE)) n f = f"
proof -
  have "i < unat (total_pages f)" using assms(4,5) by (simp add: unat_gt_0 [symmetric])
  then show ?thesis using FreePages_correct [OF assms(1) _ assms(3-6)] FreePages_virtual [OF assms(1,2)] assms(2) by simp
qed

theorem FreePages_physical_only_witness:
  "used (FreePages 0x102000 1 frame8) = {0} \<and> FreePages 0xFFFFF00000102000 1 frame8 = frame8"
proof -
  have "unat (start_usable frame8) + unat (total_pages frame8) * 4096 < 2 ^ 44" "start_usable frame8 \<noteq> 0"
    "(1 :: u64) \<noteq> 0" "2 + unat (1 :: u64) \<le> unat (total_pages frame8)" by (simp_all add: frame8_def)
  moreover have run: "{2..<2 + unat (1 :: u64)} = {2}" by auto
  then have "{2..<2 + unat (1 :: u64)} \<subseteq> used frame8" using frame8_used by simp
  moreover have "start_usable frame8 + of_nat 2 * PAGE_SIZE = 0x102000" "Phy2Vir 0x102000 = 0xFFFFF00000102000"
    by (simp_all add: frame8_def PAGE_SIZE_def Phy2Vir_def IDENTITY_BASE_def)
  ultimately show ?thesis using FreePages_physical_only [OF frame8_ok, of 1 2] frame8_used by auto
qed

text \<open>
  The boot allocator.  When \<open>frameInit\<close> succeeds, every managed page is free, the bitmap
  covers all of them, and they end before the end of the region; from then on each \<open>Alloc\<close> returns
  the lowest free page and marks it, as long as one is free.
\<close>

theorem boot_frames:
  "(frameInit start_a end_a = Some f \<and> start_a \<le> end_a \<and> unat (end_a - start_a) < 2 ^ 60 \<longrightarrow>
      frame_ok f \<and> used f = {} \<and> unat (start_usable f) + unat (total_pages f) * 4096 \<le> unat end_a) \<and>
   (frame_ok g \<and> free_pages g \<noteq> 0 \<longrightarrow>
      (\<exists>i g'. boot_Alloc g = Some (start_usable g + of_nat i * PAGE_SIZE, g') \<and> frame_ok g' \<and>
         i < unat (total_pages g) \<and> i \<notin> used g \<and> (\<forall>j<i. j \<in> used g) \<and> used g' = insert i (used g)))"
  using frameInit_ok [of start_a end_a f] boot_Alloc_correct [of g] by blast

theorem boot_frames_witness:
  "(\<exists>f. frameInit 0x100000 0x140000 = Some f \<and> frame_ok f \<and> used f = {}) \<and>
   (\<exists>i g'. boot_Alloc frame8 = Some (0x100000 + of_nat i * PAGE_SIZE, g') \<and> i \<notin> {0, 2} \<and> frame_ok g')"
proof
  have "frameInit 0x100000 0x140000 \<noteq> None" by code_simp
  then obtain f where f: "frameInit 0x100000 0x140000 = Some f" by blast
  with boot_frames [of "0x100000" "0x140000" f frame8]
  show "\<exists>f. frameInit 0x100000 0x140000 = Some f \<and> frame_ok f \<and> used f = {}" by simp
  have "free_pages frame8 \<noteq> 0" "start_usable frame8 = 0x100000" by (simp_all add: frame8_def)
  with boot_frames [of 0 0 f frame8] frame8_ok frame8_used
  show "\<exists>i g'. boot_Alloc frame8 = Some (0x100000 + of_nat i * PAGE_SIZE, g') \<and> i \<notin> {0, 2} \<and> frame_ok g'" by auto
qed

end
