(* ===== verification/Bytes.thy ===== *)
theory Bytes
  imports Prelude
begin

text \<open>
  Little-endian byte images of the packed structures on disk and in buffers: reading and writing
  fields at an offset, copying with \<^verbatim>\<open>memcpy\<close>, and how the two interact.
\<close>

unbundle bit_operations_syntax

section \<open>Fields\<close>

definition le16 :: "u16 \<Rightarrow> byte list" where
  "le16 x = [ucast x, ucast (drop_bit 8 x)]"

definition le32 :: "u32 \<Rightarrow> byte list" where
  "le32 x = [ucast x, ucast (drop_bit 8 x), ucast (drop_bit 16 x), ucast (drop_bit 24 x)]"

definition get16 :: "byte list \<Rightarrow> nat \<Rightarrow> u16" where
  "get16 bs i = ucast (bs ! i) OR push_bit 8 (ucast (bs ! (i + 1)))"

definition get32 :: "byte list \<Rightarrow> nat \<Rightarrow> u32" where
  "get32 bs i = ucast (bs ! i) OR push_bit 8 (ucast (bs ! (i + 1))) OR
     push_bit 16 (ucast (bs ! (i + 2))) OR push_bit 24 (ucast (bs ! (i + 3)))"

definition get32s :: "byte list \<Rightarrow> nat \<Rightarrow> nat \<Rightarrow> u32 list" where
  "get32s bs i n = map (\<lambda>k. get32 bs (i + 4 * k)) [0..<n]"

definition slice :: "byte list \<Rightarrow> nat \<Rightarrow> nat \<Rightarrow> byte list" where
  "slice bs i n = take n (drop i bs)"

text \<open>\<open>memcpy (dst + i) src n\<close> on a buffer, with \<open>n\<close> the length of the source image.\<close>

definition splice :: "nat \<Rightarrow> byte list \<Rightarrow> byte list \<Rightarrow> byte list" where
  "splice i src dst = take i dst @ src @ drop (i + length src) dst"

lemma length_le [simp]: "length (le16 x) = 2" "length (le32 y) = 4"
  by (simp_all add: le16_def le32_def)

lemma get16_le16 [simp]: "get16 (le16 x @ ys) 0 = x"
  by (auto simp: get16_def le16_def bit_simps intro!: bit_word_eqI)

lemma get32_split:
  fixes x :: u32
  shows "ucast (ucast x :: byte) OR push_bit 8 (ucast (ucast (drop_bit 8 x) :: byte)) OR
    push_bit 16 (ucast (ucast (drop_bit 16 x) :: byte)) OR push_bit 24 (ucast (ucast (drop_bit 24 x) :: byte)) = x" (is "?l = x")
proof (rule bit_word_eqI)
  fix n assume "n < LENGTH(32)"
  then have "n < 8 \<or> 8 \<le> n \<and> n < 16 \<or> 16 \<le> n \<and> n < 24 \<or> 24 \<le> n \<and> n < 32" by auto
  then show "bit ?l n = bit x n"
    by (elim disjE conjE) (auto simp: bit_simps)
qed

lemma get32_le32 [simp]: "get32 (le32 x @ ys) 0 = x"
  using get32_split [of x] by (simp add: get32_def le32_def)

lemma get_skip [simp]:
  "length xs \<le> i \<Longrightarrow> get16 (xs @ ys) i = get16 ys (i - length xs)"
  "length xs \<le> i \<Longrightarrow> get32 (xs @ ys) i = get32 ys (i - length xs)"
  by (simp_all add: get16_def get32_def nth_append Suc_diff_le add.commute)

lemma get_drop:
  "i + j + 2 \<le> length bs \<Longrightarrow> get16 (drop j bs) i = get16 bs (j + i)"
  "i + j + 4 \<le> length bs \<Longrightarrow> get32 (drop j bs) i = get32 bs (j + i)"
  by (simp_all add: get16_def get32_def add.assoc)

lemma get_take:
  "i + 2 \<le> n \<Longrightarrow> get16 (take n bs) i = get16 bs i"
  "i + 4 \<le> n \<Longrightarrow> get32 (take n bs) i = get32 bs i"
  by (simp_all add: get16_def get32_def)

lemma get32s_skip [simp]:
  "length xs \<le> i \<Longrightarrow> get32s (xs @ ys) i n = get32s ys (i - length xs) n"
  by (simp add: get32s_def)

lemma length_concat_le32 [simp]: "length (concat (map le32 xs)) = 4 * length xs"
  by (induction xs) simp_all

lemma get32_table: "k < length xs \<Longrightarrow> get32 (concat (map le32 xs) @ ys) (4 * k) = xs ! k"
proof (induction xs arbitrary: k)
  case (Cons x xs)
  then show ?case by (cases k) simp_all
qed simp

lemma get32s_table [simp]: "length xs = n \<Longrightarrow> get32s (concat (map le32 xs) @ ys) 0 n = xs"
  by (auto simp: get32s_def get32_table intro!: nth_equalityI)

lemma slice_skip [simp]:
  "length xs \<le> i \<Longrightarrow> slice (xs @ ys) i n = slice ys (i - length xs) n"
  by (simp add: slice_def)

lemma slice_here [simp]: "length xs = n \<Longrightarrow> slice (xs @ ys) 0 n = xs"
  by (simp add: slice_def)

lemma length_slice [simp]: "i + n \<le> length bs \<Longrightarrow> length (slice bs i n) = n"
  by (simp add: slice_def)

section \<open>Copying\<close>

lemma length_splice [simp]: "i + length src \<le> length dst \<Longrightarrow> length (splice i src dst) = length dst"
  by (simp add: splice_def)

lemma slice_splice_same [simp]:
  "length src = n \<Longrightarrow> i + n \<le> length dst \<Longrightarrow> slice (splice i src dst) i n = src"
  by (simp add: slice_def splice_def)

lemma splice_nth:
  assumes "i + length src \<le> length dst" "k < length dst"
  shows "splice i src dst ! k = (if i \<le> k \<and> k < i + length src then src ! (k - i) else dst ! k)"
  using assms by (auto simp: splice_def nth_append)

lemma slice_nth: "i + n \<le> length bs \<Longrightarrow> k < n \<Longrightarrow> slice bs i n ! k = bs ! (i + k)"
  by (simp add: slice_def)

lemma slice_splice_other:
  assumes "i + length src \<le> length dst" "j + n \<le> length dst" "j + n \<le> i \<or> i + length src \<le> j"
  shows "slice (splice i src dst) j n = slice dst j n"
  by (rule nth_equalityI) (use assms in \<open>auto simp: slice_nth splice_nth\<close>)

lemma get_splice:
  assumes "i + length src \<le> length dst"
  shows "j + 2 \<le> length dst \<Longrightarrow> j + 2 \<le> i \<or> i + length src \<le> j \<Longrightarrow> get16 (splice i src dst) j = get16 dst j"
    and "j + 4 \<le> length dst \<Longrightarrow> j + 4 \<le> i \<or> i + length src \<le> j \<Longrightarrow> get32 (splice i src dst) j = get32 dst j"
  using assms by (auto simp: get16_def get32_def splice_nth)

lemma get_splice_same:
  "i + 2 \<le> length dst \<Longrightarrow> get16 (splice i (le16 x) dst) i = x"
  "i + 4 \<le> length dst \<Longrightarrow> get32 (splice i (le32 y) dst) i = y"
  by (simp_all add: splice_def min_def)

end
