(* ===== verification/VfsTypes.thy ===== *)
theory VfsTypes
  imports Bytes
begin

text \<open>
  The objects of \<^verbatim>\<open>include/kernel/vfs.h\<close> that the virtual file system and a file system exchange: the
  open file and the directory entry.  The \<^verbatim>\<open>private_data\<close> of a file belongs to its file system,
  which keeps it by the address of the file.
\<close>

record File =
  file_flags :: u32
  file_position :: u64
  file_mount :: ptr

text \<open>The result of \<open>Readdir\<close>; \<open>d_name\<close> holds the bytes before the zero that is appended.\<close>

record DirEntry =
  d_name :: "byte list"
  d_inode :: u32
  d_type :: u32

text \<open>\<^verbatim>\<open>sizeof\<close> of the classes of the header on the 64-bit target.\<close>

definition sizeof_FileSystem :: u64 where "sizeof_FileSystem = 104"
definition sizeof_MountFs :: u64 where "sizeof_MountFs = 184"
definition sizeof_File :: u64 where "sizeof_File = 32"
definition sizeof_DirEntry :: u64 where "sizeof_DirEntry = 272"

end
