(* ===== verification/Vfs.thy ===== *)
theory Vfs
  imports VfsTypes Ipc
begin

text \<open>
  The virtual file system: \<^verbatim>\<open>src/fs/vfs.cc\<close> and \<^verbatim>\<open>include/kernel/vfs.h\<close>.  File systems and mounts are
  tables of function pointers; a null pointer in a table is \<open>None\<close>.  What the functions work on, the
  private data of mounts and files and the disk below, is the component \<open>lower\<close> of the state.
  A pointer to an object that has been deleted has no content, and following it has no result.
\<close>

unbundle bit_operations_syntax

section \<open>Objects\<close>

text \<open>
  The function pointers of a mount that the virtual file system calls.  They get the address of the
  mount, or the address and content of a file.  A read returns the bytes it put into the buffer;
  a close returns what is left of the file.
\<close>

record 'w FsOps =
  op_umount :: "(addr \<Rightarrow> 'w \<Rightarrow> (int \<times> 'w) option) option"
  op_open :: "(addr \<Rightarrow> byte list \<Rightarrow> u32 \<Rightarrow> 'w \<Rightarrow> ((addr \<times> File) option \<times> 'w) option) option"
  op_close :: "(addr \<Rightarrow> File \<Rightarrow> 'w \<Rightarrow> (int \<times> File option \<times> 'w) option) option"
  op_read :: "(addr \<Rightarrow> File \<Rightarrow> u64 \<Rightarrow> u64 \<Rightarrow> 'w \<Rightarrow> ((int \<times> byte list) \<times> 'w) option) option"
  op_write :: "(addr \<Rightarrow> File \<Rightarrow> byte list \<Rightarrow> u64 \<Rightarrow> u64 \<Rightarrow> 'w \<Rightarrow> (int \<times> 'w) option) option"
  op_readdir :: "(addr \<Rightarrow> byte list \<Rightarrow> u32 \<Rightarrow> 'w \<Rightarrow> ((addr \<times> DirEntry) option \<times> 'w) option) option"

record 'w MountFs =
  mnt_path :: "byte list"
  mnt_ops :: "'w FsOps"

record 'w FileSystem =
  fs_name :: "byte list"
  fs_mount :: "(byte list \<Rightarrow> byte list \<Rightarrow> u32 \<Rightarrow> 'w \<Rightarrow> ((addr \<times> 'w MountFs) option \<times> 'w) option) option"

text \<open>
  The two linked lists, in the order of their \<^verbatim>\<open>next\<close> pointers, and the mounts and files by address.
\<close>

record 'w Vfs =
  registered_filesystems :: "'w FileSystem list"
  mount_points :: "addr list"
  mount_at :: "addr \<Rightarrow> 'w MountFs option"
  file_at :: "addr \<Rightarrow> File option"
  lower :: 'w

section \<open>Registered file systems\<close>

text \<open>
  The loop of \<open>RegisterFileSystem\<close>: its condition is the head of the list, which it never changes,
  so a list without a file system of that name is followed beyond its end.
\<close>

definition register_body :: "'w FileSystem list \<Rightarrow> 'w FileSystem \<Rightarrow> 'w FileSystem list \<Rightarrow>
    ('w FileSystem list, bool) step option" where
  "register_body regs f current =
     (if regs = [] then Some (Done True)
      else case current of
        [] \<Rightarrow> None
      | g # rest \<Rightarrow> Some (if fs_name g = fs_name f then Done False else Next rest))"

definition RegisterFileSystem :: "'w FileSystem option \<Rightarrow> ('w, 'a) Vfs_scheme \<Rightarrow> (int \<times> ('w, 'a) Vfs_scheme) option" where
  "RegisterFileSystem f s =
     (case f of
        None \<Rightarrow> Some (-1, s)
      | Some f \<Rightarrow>
          if fs_name f = [] then Some (-1, s)
          else do {
            new \<leftarrow> loop (register_body (registered_filesystems s) f) (registered_filesystems s);
            Some (if new then (0, s\<lparr>registered_filesystems := f # registered_filesystems s\<rparr>) else (-2, s)) })"

definition GetFileSystem :: "byte list option \<Rightarrow> ('w, 'a) Vfs_scheme \<Rightarrow> 'w FileSystem option" where
  "GetFileSystem name s =
     (case name of None \<Rightarrow> None | Some n \<Rightarrow> List.find (\<lambda>f. fs_name f = n) (registered_filesystems s))"

section \<open>Mount points\<close>

text \<open>Is there a mount with this path among the mounts of a list?\<close>

fun mounted :: "(addr \<Rightarrow> 'w MountFs option) \<Rightarrow> byte list \<Rightarrow> addr list \<Rightarrow> bool option" where
  "mounted at path [] = Some False"
| "mounted at path (a # as) = do {
     m \<leftarrow> at a;
     if mnt_path m = path then Some True else mounted at path as }"

definition vfs_Mount :: "byte list option \<Rightarrow> byte list option \<Rightarrow> byte list option \<Rightarrow> u32 \<Rightarrow> ('w, 'a) Vfs_scheme \<Rightarrow>
    (int \<times> ('w, 'a) Vfs_scheme) option" where
  "vfs_Mount device path fs_type flgs s =
     (case (device, path, fs_type) of
        (Some device, Some path, Some fs_type) \<Rightarrow>
          (case GetFileSystem (Some fs_type) s of
             None \<Rightarrow> Some (-2, s)
           | Some f \<Rightarrow>
               (case fs_mount f of
                  None \<Rightarrow> Some (-2, s)
                | Some mount_fn \<Rightarrow> do {
                    already \<leftarrow> mounted (mount_at s) path (mount_points s);
                    if already then Some (-3, s) else do {
                      (m, w) \<leftarrow> mount_fn device path flgs (lower s);
                      let s1 = s\<lparr>lower := w\<rparr>;
                      Some (case m of
                        None \<Rightarrow> (-4, s1)
                      | Some (a, mnt) \<Rightarrow> (0, s1\<lparr>mount_at := (mount_at s1)(a := Some mnt),
                          mount_points := a # mount_points s1\<rparr>)) } }))
      | _ \<Rightarrow> Some (-1, s))"

text \<open>The first mount with the path, and the list without it.\<close>

fun unlink_mount :: "(addr \<Rightarrow> 'w MountFs option) \<Rightarrow> byte list \<Rightarrow> addr list \<Rightarrow> (addr option \<times> addr list) option" where
  "unlink_mount at path [] = Some (None, [])"
| "unlink_mount at path (a # as) = do {
     m \<leftarrow> at a;
     if mnt_path m = path then Some (Some a, as)
     else do { (r, as') \<leftarrow> unlink_mount at path as; Some (r, a # as') } }"

text \<open>\<open>del\<close> is the operator \<^verbatim>\<open>delete\<close>, which gives the memory of the mount back.\<close>

definition vfs_Umount :: "(addr \<Rightarrow> 'w \<Rightarrow> 'w) \<Rightarrow> byte list option \<Rightarrow> ('w, 'a) Vfs_scheme \<Rightarrow> (int \<times> ('w, 'a) Vfs_scheme) option" where
  "vfs_Umount del path s =
     (case path of None \<Rightarrow> Some (-1, s) | Some path \<Rightarrow> do {
        (r, mps) \<leftarrow> unlink_mount (mount_at s) path (mount_points s);
        (case r of None \<Rightarrow> Some (-2, s) | Some a \<Rightarrow> do {
           m \<leftarrow> mount_at s a;
           w \<leftarrow> (case op_umount (mnt_ops m) of
                   None \<Rightarrow> Some (lower s)
                 | Some umount \<Rightarrow> map_option snd (umount a (lower s)));
           Some (0, s\<lparr>mount_points := mps, mount_at := (mount_at s)(a := None), lower := del a w\<rparr>) }) })"

text \<open>The search for the longest mount path that the path starts with.\<close>

fun find_mount :: "(addr \<Rightarrow> 'w MountFs option) \<Rightarrow> byte list \<Rightarrow> nat \<Rightarrow> addr option \<Rightarrow> addr list \<Rightarrow> addr option option" where
  "find_mount at path best_len best [] = Some best"
| "find_mount at path best_len best (a # as) = do {
     m \<leftarrow> at a;
     let mount_len = length (mnt_path m);
     if take mount_len path = mnt_path m \<and> mount_len > best_len
     then find_mount at path mount_len (Some a) as
     else find_mount at path best_len best as }"

definition FindMountPoint :: "byte list option \<Rightarrow> ('w, 'a) Vfs_scheme \<Rightarrow> addr option option" where
  "FindMountPoint path s =
     (case path of
        None \<Rightarrow> Some None
      | Some p \<Rightarrow> if p = [] \<or> hd p \<noteq> 47 then Some None else find_mount (mount_at s) p 0 None (mount_points s))"

text \<open>
  The part of a path below a mount, in a buffer of 256 bytes as both callers give it: a longer rest is
  cut.  A path shorter than the mount path is read beyond its end.
\<close>

definition ExtractRelativePath :: "byte list \<Rightarrow> byte list \<Rightarrow> byte list option" where
  "ExtractRelativePath mount_path full_path =
     (if mount_path = [47] \<and> length full_path = 1 then Some [47]
      else if length mount_path > length full_path then None
      else let rel = drop (length mount_path) full_path;
               rel1 = (if rel \<noteq> [] \<and> hd rel = 47 then tl rel else rel)
           in Some (if rel1 = [] then [47] else take 255 rel1))"

section \<open>Files\<close>

definition vfs_Open :: "byte list option \<Rightarrow> u32 \<Rightarrow> ('w, 'a) Vfs_scheme \<Rightarrow> (addr option \<times> ('w, 'a) Vfs_scheme) option" where
  "vfs_Open path flgs s =
     (case path of None \<Rightarrow> Some (None, s) | Some p \<Rightarrow> do {
        r \<leftarrow> FindMountPoint path s;
        (case r of None \<Rightarrow> Some (None, s) | Some mount \<Rightarrow> do {
           m \<leftarrow> mount_at s mount;
           rel_path \<leftarrow> ExtractRelativePath (mnt_path m) p;
           (case op_open (mnt_ops m) of
              None \<Rightarrow> Some (None, s)
            | Some open_fn \<Rightarrow> do {
                (fl, w) \<leftarrow> open_fn mount rel_path flgs (lower s);
                let s1 = s\<lparr>lower := w\<rparr>;
                Some (case fl of
                  None \<Rightarrow> (None, s1)
                | Some (a, f) \<Rightarrow> (Some a, s1\<lparr>file_at := (file_at s1)(a := Some (f\<lparr>file_mount := Some mount\<rparr>))\<rparr>)) }) }) })"

text \<open>The mount of an open file; \<open>None\<close> inside is a null pointer.\<close>

definition mount_of :: "('w, 'a) Vfs_scheme \<Rightarrow> File \<Rightarrow> 'w MountFs option option" where
  "mount_of s f = (case file_mount f of None \<Rightarrow> Some None | Some a \<Rightarrow> map_option Some (mount_at s a))"

definition vfs_Close :: "ptr \<Rightarrow> ('w, 'a) Vfs_scheme \<Rightarrow> (int \<times> ('w, 'a) Vfs_scheme) option" where
  "vfs_Close fl s =
     (case fl of None \<Rightarrow> Some (-1, s) | Some a \<Rightarrow> do {
        f \<leftarrow> file_at s a;
        mount \<leftarrow> mount_of s f;
        (case Option.bind mount (\<lambda>m. op_close (mnt_ops m)) of
           None \<Rightarrow> Some (-2, s)
         | Some close_fn \<Rightarrow> do {
             (ret, f', w) \<leftarrow> close_fn a f (lower s);
             Some (ret, s\<lparr>file_at := (file_at s)(a := f'), lower := w\<rparr>) }) })"

text \<open>
  Reading and writing.  \<open>buf\<close> is the address of the buffer; \<open>vfs_Read\<close> also returns the bytes it
  stored from there on, and \<open>vfs_Write\<close> gets the bytes that are there.
\<close>

definition advance :: "addr \<Rightarrow> File \<Rightarrow> int \<Rightarrow> ('w, 'a) Vfs_scheme \<Rightarrow> ('w, 'a) Vfs_scheme" where
  "advance a f ret s =
     (if ret > 0 then s\<lparr>file_at := (file_at s)(a := Some (f\<lparr>file_position := file_position f + of_int ret\<rparr>))\<rparr> else s)"

definition vfs_Read :: "ptr \<Rightarrow> ptr \<Rightarrow> u64 \<Rightarrow> ('w, 'a) Vfs_scheme \<Rightarrow> ((int \<times> byte list) \<times> ('w, 'a) Vfs_scheme) option" where
  "vfs_Read fl buf n s =
     (case (fl, buf) of
        (Some a, Some _) \<Rightarrow>
          if n = 0 then Some ((-1, []), s) else do {
            f \<leftarrow> file_at s a;
            mount \<leftarrow> mount_of s f;
            (case Option.bind mount (\<lambda>m. op_read (mnt_ops m)) of
               None \<Rightarrow> Some ((-2, []), s)
             | Some read_fn \<Rightarrow> do {
                 ((ret, bs), w) \<leftarrow> read_fn a f n (file_position f) (lower s);
                 Some ((ret, bs), advance a f ret (s\<lparr>lower := w\<rparr>)) }) }
      | _ \<Rightarrow> Some ((-1, []), s))"

definition vfs_Write :: "ptr \<Rightarrow> ptr \<Rightarrow> byte list \<Rightarrow> u64 \<Rightarrow> ('w, 'a) Vfs_scheme \<Rightarrow> (int \<times> ('w, 'a) Vfs_scheme) option" where
  "vfs_Write fl buf bytes n s =
     (case (fl, buf) of
        (Some a, Some _) \<Rightarrow>
          if n = 0 then Some (-1, s) else do {
            f \<leftarrow> file_at s a;
            mount \<leftarrow> mount_of s f;
            (case Option.bind mount (\<lambda>m. op_write (mnt_ops m)) of
               None \<Rightarrow> Some (-2, s)
             | Some write_fn \<Rightarrow> do {
                 (ret, w) \<leftarrow> write_fn a f bytes n (file_position f) (lower s);
                 Some (ret, advance a f ret (s\<lparr>lower := w\<rparr>)) }) }
      | _ \<Rightarrow> Some (-1, s))"

text \<open>The new position as \<^verbatim>\<open>int64_t\<close>; \<open>None\<close> for an unknown \<open>whence\<close>.\<close>

definition seek_to :: "u64 \<Rightarrow> u64 \<Rightarrow> int \<Rightarrow> u64 option" where
  "seek_to position offset whence =
     (if whence = 0 then Some offset
      else if whence = 1 then Some (position + offset)
      else if whence = 2 then Some (-1)
      else None)"

definition vfs_Seek :: "ptr \<Rightarrow> u64 \<Rightarrow> int \<Rightarrow> ('w, 'a) Vfs_scheme \<Rightarrow> (int \<times> ('w, 'a) Vfs_scheme) option" where
  "vfs_Seek fl offset whence s =
     (case fl of None \<Rightarrow> Some (-1, s) | Some a \<Rightarrow> do {
        f \<leftarrow> file_at s a;
        Some (case seek_to (file_position f) offset whence of
          None \<Rightarrow> (-3, s)
        | Some new_pos \<Rightarrow>
            if sint new_pos < 0 then (-4, s)
            else (sint new_pos, s\<lparr>file_at := (file_at s)(a := Some (f\<lparr>file_position := new_pos\<rparr>))\<rparr>)) })"

definition vfs_Readdir :: "byte list option \<Rightarrow> u32 \<Rightarrow> ('w, 'a) Vfs_scheme \<Rightarrow>
    ((addr \<times> DirEntry) option \<times> ('w, 'a) Vfs_scheme) option" where
  "vfs_Readdir path index s =
     (case path of None \<Rightarrow> Some (None, s) | Some p \<Rightarrow> do {
        r \<leftarrow> FindMountPoint path s;
        (case r of None \<Rightarrow> Some (None, s) | Some mount \<Rightarrow> do {
           m \<leftarrow> mount_at s mount;
           rel_path \<leftarrow> ExtractRelativePath (mnt_path m) p;
           (case op_readdir (mnt_ops m) of
              None \<Rightarrow> Some (None, s)
            | Some readdir_fn \<Rightarrow> do {
                (e, w) \<leftarrow> readdir_fn mount rel_path index (lower s);
                Some (e, s\<lparr>lower := w\<rparr>) }) }) })"

section \<open>Descriptor tables\<close>

definition MAX_FD :: nat where "MAX_FD = 64"

text \<open>The constructor: descriptors 0 and 1 are taken and have no file.\<close>

definition FileDescriptorTable_Init :: "FileDescriptor list" where
  "FileDescriptorTable_Init =
     (let fds = replicate MAX_FD \<lparr>fd_used = False, fd_file = None, fd_flags = 0\<rparr>
      in fds[0 := (fds ! 0)\<lparr>fd_used := True, fd_file := None\<rparr>, 1 := (fds ! 1)\<lparr>fd_used := True, fd_file := None\<rparr>])"

text \<open>The check that every operation starts with.\<close>

definition fd_open :: "int \<Rightarrow> FileDescriptor list \<Rightarrow> bool" where
  "fd_open fd fds \<longleftrightarrow> \<not> (fd < 0 \<or> fd \<ge> int MAX_FD \<or> \<not> fd_used (fds ! nat fd))"

definition fdt_Alloc :: "ptr \<Rightarrow> u32 \<Rightarrow> FileDescriptor list \<Rightarrow> int \<times> FileDescriptor list" where
  "fdt_Alloc fl flgs fds =
     (case List.find (\<lambda>i. \<not> fd_used (fds ! i)) [5..<MAX_FD] of
        None \<Rightarrow> (-1, fds)
      | Some i \<Rightarrow> (int i, fds[i := \<lparr>fd_used = True, fd_file = fl, fd_flags = flgs\<rparr>]))"

definition fdt_Get :: "int \<Rightarrow> FileDescriptor list \<Rightarrow> ptr" where
  "fdt_Get fd fds = (if fd_open fd fds then fd_file (fds ! nat fd) else None)"

definition fdt_SetFlags :: "int \<Rightarrow> u32 \<Rightarrow> FileDescriptor list \<Rightarrow> int \<times> FileDescriptor list" where
  "fdt_SetFlags fd flgs fds =
     (if fd_open fd fds then (0, fds[nat fd := (fds ! nat fd)\<lparr>fd_flags := flgs\<rparr>]) else (-1, fds))"

definition fdt_Free :: "int \<Rightarrow> FileDescriptor list \<Rightarrow> ('w, 'a) Vfs_scheme \<Rightarrow>
    (int \<times> FileDescriptor list \<times> ('w, 'a) Vfs_scheme) option" where
  "fdt_Free fd fds s =
     (if \<not> fd_open fd fds then Some (-1, fds, s) else do {
        (_, s1) \<leftarrow> (case fd_file (fds ! nat fd) of None \<Rightarrow> Some (0, s) | Some a \<Rightarrow> vfs_Close (Some a) s);
        Some (0, fds[nat fd := \<lparr>fd_used = False, fd_file = None, fd_flags = 0\<rparr>], s1) })"

text \<open>
  The state with the descriptor tables (the member \<^verbatim>\<open>files\<close> of the control block at an address) and
  the memory that the pointers in requests point to.
\<close>

record 'w VfsTask = "'w Vfs" +
  fd_tables :: "addr \<Rightarrow> FileDescriptor list"
  umem :: "u64 \<Rightarrow> byte"

definition set_fds :: "addr \<Rightarrow> FileDescriptor list \<Rightarrow> ('w, 'a) VfsTask_scheme \<Rightarrow> ('w, 'a) VfsTask_scheme" where
  "set_fds p fds s = s\<lparr>fd_tables := (fd_tables s)(p := fds)\<rparr>"

text \<open>The functions on the table of the current process \<open>p\<close>.\<close>

definition FdAlloc :: "addr \<Rightarrow> ptr \<Rightarrow> u32 \<Rightarrow> ('w, 'a) VfsTask_scheme \<Rightarrow> int \<times> ('w, 'a) VfsTask_scheme" where
  "FdAlloc p fl flgs s = (let (fd, fds) = fdt_Alloc fl flgs (fd_tables s p) in (fd, set_fds p fds s))"

definition FdFree :: "addr \<Rightarrow> int \<Rightarrow> ('w, 'a) VfsTask_scheme \<Rightarrow> (int \<times> ('w, 'a) VfsTask_scheme) option" where
  "FdFree p fd s = do {
     (ret, fds, s1) \<leftarrow> fdt_Free fd (fd_tables s p) s;
     Some (ret, set_fds p fds s1) }"

definition FdGet :: "addr \<Rightarrow> int \<Rightarrow> ('w, 'a) VfsTask_scheme \<Rightarrow> ptr" where
  "FdGet p fd s = fdt_Get fd (fd_tables s p)"

definition FdDup :: "addr \<Rightarrow> int \<Rightarrow> ('w, 'a) VfsTask_scheme \<Rightarrow> int \<times> ('w, 'a) VfsTask_scheme" where
  "FdDup p oldfd s =
     (case FdGet p oldfd s of
        None \<Rightarrow> (-1, s)
      | Some a \<Rightarrow> FdAlloc p (Some a) (fd_flags (fd_tables s p ! nat oldfd)) s)"

definition FdDup2 :: "addr \<Rightarrow> int \<Rightarrow> int \<Rightarrow> ('w, 'a) VfsTask_scheme \<Rightarrow> int \<times> ('w, 'a) VfsTask_scheme" where
  "FdDup2 p oldfd newfd s =
     (if \<not> fd_open oldfd (fd_tables s p) then (-1, s)
      else if newfd < 0 \<or> newfd \<ge> int MAX_FD then (-1, s)
      else if oldfd = newfd then (newfd, s)
      else (newfd, set_fds p ((fd_tables s p)[nat newfd := fd_tables s p ! nat oldfd]) s))"

section \<open>The service\<close>

definition SYS_FS_OPEN :: u64 where "SYS_FS_OPEN = 0x20"
definition SYS_FS_READ :: u64 where "SYS_FS_READ = 0x21"
definition SYS_FS_WRITE :: u64 where "SYS_FS_WRITE = 0x22"
definition SYS_FS_CLOSE :: u64 where "SYS_FS_CLOSE = 0x23"
definition SYS_FS_LSEEK :: u64 where "SYS_FS_LSEEK = 0x24"
definition SYS_FS_DUP :: u64 where "SYS_FS_DUP = 0x25"
definition SYS_FS_DUP2 :: u64 where "SYS_FS_DUP2 = 0x26"
definition SYS_FS_OPENDIR :: u64 where "SYS_FS_OPENDIR = 0x27"
definition SYS_FS_READDIR :: u64 where "SYS_FS_READDIR = 0x28"
definition SYS_FS_CLOSEDIR :: u64 where "SYS_FS_CLOSEDIR = 0x29"

lemmas SYS_FS_defs = SYS_FS_OPEN_def SYS_FS_READ_def SYS_FS_WRITE_def SYS_FS_CLOSE_def SYS_FS_LSEEK_def
  SYS_FS_DUP_def SYS_FS_DUP2_def SYS_FS_OPENDIR_def SYS_FS_READDIR_def SYS_FS_CLOSEDIR_def

definition get64 :: "byte list \<Rightarrow> nat \<Rightarrow> u64" where
  "get64 bs i = ucast (get32 bs i) OR push_bit 32 (ucast (get32 bs (i + 4)))"

definition le64 :: "u64 \<Rightarrow> byte list" where
  "le64 x = le32 (ucast x) @ le32 (ucast (drop_bit 32 x))"

text \<open>
  The union in a message: 32 numbers, or a string of 240 bytes and a number.  A string that is not
  closed within the message is read beyond it.
\<close>

definition msg_num :: "Message \<Rightarrow> nat \<Rightarrow> u64" where
  "msg_num m i = get64 (payload m) (8 * i)"

definition msg_arg :: "Message \<Rightarrow> u64" where
  "msg_arg m = get64 (payload m) 240"

definition msg_str :: "Message \<Rightarrow> byte list option" where
  "msg_str m = (if 0 \<in> set (payload m) then Some (takeWhile (\<lambda>c. c \<noteq> 0) (payload m)) else None)"

definition set_num0 :: "u64 \<Rightarrow> Message \<Rightarrow> Message" where
  "set_num0 x m = m\<lparr>payload := splice 0 (le64 x) (payload m)\<rparr>"

definition as_int :: "u64 \<Rightarrow> int" where
  "as_int x = sint (ucast x :: u32)"

text \<open>A pointer that arrives as a number.\<close>

definition as_ptr :: "u64 \<Rightarrow> ptr" where
  "as_ptr x = (if x = 0 then None else Some x)"

definition ptr_num :: "ptr \<Rightarrow> u64" where
  "ptr_num p = (case p of None \<Rightarrow> 0 | Some a \<Rightarrow> a)"

definition mem_bytes :: "(u64 \<Rightarrow> byte) \<Rightarrow> u64 \<Rightarrow> u64 \<Rightarrow> byte list" where
  "mem_bytes mem a n = map (\<lambda>i. mem (a + of_nat i)) [0..<unat n]"

definition mem_store :: "u64 \<Rightarrow> byte list \<Rightarrow> (u64 \<Rightarrow> byte) \<Rightarrow> u64 \<Rightarrow> byte" where
  "mem_store a bs mem x = (if unat (x - a) < length bs then bs ! unat (x - a) else mem x)"

text \<open>
  One request: the value stored into \<^verbatim>\<open>num[0]\<close>, or \<open>None\<close> when the branch stores nothing.  \<open>c\<close> is the
  sender, \<open>self\<close> the task of the service.
\<close>

definition serve_open :: "addr \<Rightarrow> Message \<Rightarrow> ('w, 'a) VfsTask_scheme \<Rightarrow> (u64 \<times> ('w, 'a) VfsTask_scheme) option" where
  "serve_open c m s = do {
     path \<leftarrow> msg_str m;
     (fl, s1) \<leftarrow> vfs_Open (Some path) (ucast (msg_arg m)) s;
     (case fl of None \<Rightarrow> Some (-1, s1) | Some a \<Rightarrow> do {
        let (fd, s2) = FdAlloc c (Some a) (ucast (msg_arg m)) s1;
        (_, s3) \<leftarrow> (if fd < 0 then vfs_Close (Some a) s2 else Some (0, s2));
        Some (of_int fd, s3) }) }"

definition serve_read :: "addr \<Rightarrow> Message \<Rightarrow> ('w, 'a) VfsTask_scheme \<Rightarrow> (u64 \<times> ('w, 'a) VfsTask_scheme) option" where
  "serve_read c m s =
     (case FdGet c (as_int (msg_num m 0)) s of None \<Rightarrow> Some (-1, s) | Some a \<Rightarrow> do {
        ((ret, bs), s1) \<leftarrow> vfs_Read (Some a) (as_ptr (msg_num m 1)) (msg_num m 2) s;
        Some (of_int ret, s1\<lparr>umem := mem_store (msg_num m 1) bs (umem s1)\<rparr>) })"

definition serve_write :: "addr \<Rightarrow> Message \<Rightarrow> ('w, 'a) VfsTask_scheme \<Rightarrow> (u64 \<times> ('w, 'a) VfsTask_scheme) option" where
  "serve_write c m s =
     (case FdGet c (as_int (msg_num m 0)) s of None \<Rightarrow> Some (-1, s) | Some a \<Rightarrow> do {
        (ret, s1) \<leftarrow> vfs_Write (Some a) (as_ptr (msg_num m 1)) (mem_bytes (umem s) (msg_num m 1) (msg_num m 2)) (msg_num m 2) s;
        Some (of_int ret, s1) })"

definition serve_lseek :: "addr \<Rightarrow> Message \<Rightarrow> ('w, 'a) VfsTask_scheme \<Rightarrow> (u64 \<times> ('w, 'a) VfsTask_scheme) option" where
  "serve_lseek c m s =
     (case FdGet c (as_int (msg_num m 0)) s of None \<Rightarrow> Some (-1, s) | Some a \<Rightarrow> do {
        (ret, s1) \<leftarrow> vfs_Seek (Some a) (msg_num m 1) (as_int (msg_num m 2)) s;
        Some (of_int ret, s1) })"

definition serve_readdir :: "Message \<Rightarrow> ('w, 'a) VfsTask_scheme \<Rightarrow> (u64 \<times> ('w, 'a) VfsTask_scheme) option" where
  "serve_readdir m s = do {
     path \<leftarrow> msg_str m;
     (e, s1) \<leftarrow> vfs_Readdir (Some path) (ucast (msg_arg m)) s;
     Some (ptr_num (map_option fst e), s1) }"

definition serve_request :: "addr \<Rightarrow> addr \<Rightarrow> Message \<Rightarrow> ('w, 'a) VfsTask_scheme \<Rightarrow>
    (u64 option \<times> ('w, 'a) VfsTask_scheme) option" where
  "serve_request self c m s =
     (if msg_type m = SYS_FS_OPEN then map_option (apfst Some) (serve_open c m s)
      else if msg_type m = SYS_FS_READ then map_option (apfst Some) (serve_read c m s)
      else if msg_type m = SYS_FS_WRITE then map_option (apfst Some) (serve_write c m s)
      else if msg_type m = SYS_FS_CLOSE then
        map_option (apfst (Some \<circ> of_int)) (FdFree c (as_int (msg_num m 0)) s)
      else if msg_type m = SYS_FS_LSEEK then map_option (apfst Some) (serve_lseek c m s)
      else if msg_type m = SYS_FS_DUP then Some (apfst (Some \<circ> of_int) (FdDup c (as_int (msg_num m 0)) s))
      else if msg_type m = SYS_FS_DUP2 then
        Some (apfst (Some \<circ> of_int) (FdDup2 self (as_int (msg_num m 0)) (as_int (msg_num m 1)) s))
      else if msg_type m = SYS_FS_READDIR then map_option (apfst Some) (serve_readdir m s)
      else Some (None, s))"

text \<open>
  What the service does with a message between \<open>Receive\<close> and \<open>Send\<close>: the reply, addressed to the
  sender, or \<open>None\<close> for a type it does not know.  \<open>pids\<close> gives the process id of a control block.
\<close>

definition known_request :: "u64 \<Rightarrow> bool" where
  "known_request t \<longleftrightarrow> SYS_FS_OPEN \<le> t \<and> t \<le> SYS_FS_CLOSEDIR"

definition serve :: "(addr \<Rightarrow> u64) \<Rightarrow> addr \<Rightarrow> Message \<Rightarrow> ('w, 'a) VfsTask_scheme \<Rightarrow>
    (Message option \<times> ('w, 'a) VfsTask_scheme) option" where
  "serve pids self m s =
     (if \<not> known_request (msg_type m) then Some (None, s) else do {
        c \<leftarrow> sender m;
        (num0, s1) \<leftarrow> serve_request self c m s;
        let m1 = (case num0 of None \<Rightarrow> m | Some x \<Rightarrow> set_num0 x m);
        Some (Some (m1\<lparr>dst_pid := pids c, sender := Some self\<rparr>), s1) })"

text \<open>
  The start of the service, with the reply of the block service to the question for \<^verbatim>\<open>hda\<close>: the
  root is mounted from \<^verbatim>\<open>hda1\<close>.  \<open>reg\<close> is \<^verbatim>\<open>RegisterFileSystems\<close>.
\<close>

definition Service_start :: "(('w, 'a) Vfs_scheme \<Rightarrow> ('w, 'a) Vfs_scheme option) \<Rightarrow> u64 \<Rightarrow> ('w, 'a) Vfs_scheme \<Rightarrow>
    (int \<times> ('w, 'a) Vfs_scheme) option" where
  "Service_start reg device s = do {
     s0 \<leftarrow> reg s;
     if device = 0 then Some (-1, s0) else
     (case GetFileSystem (Some [101, 120, 116, 50]) s0 of
        None \<Rightarrow> Some (-2, s0)
      | Some f \<Rightarrow> do {
          mount_fn \<leftarrow> fs_mount f;
          (m, w) \<leftarrow> mount_fn [104, 100, 97, 49] [47] 0 (lower s0);
          let s1 = s0\<lparr>lower := w\<rparr>;
          Some (case m of
            None \<Rightarrow> (-3, s1)
          | Some (a, mnt) \<Rightarrow> (0, s1\<lparr>mount_at := (mount_at s1)(a := Some mnt), mount_points := [a]\<rparr>)) }) }"

end
