(* ===== verification/VfsFiles.thy ===== *)
theory VfsFiles
  imports Vfs
begin

text \<open>
  What the virtual file system makes of a file system below it.  The locale \<open>file_store\<close> is the
  contract of the read and write functions of a mount: a file is a sequence of bytes.  From it
  follows that an open file behaves as a sequence of bytes with a position.  The rest of the theory
  shows how paths are resolved to mounts and how descriptor tables develop.
\<close>

section \<open>A file as bytes and a position\<close>

datatype file_op = FRead u64 | FWrite "byte list" | FSeek u64 int

text \<open>The operations on the model of a file: its bytes and the position.\<close>

fun spec_step :: "file_op \<Rightarrow> byte list \<times> u64 \<Rightarrow> (int \<times> byte list) \<times> (byte list \<times> u64)" where
  "spec_step (FRead n) (xs, p) =
     (if n = 0 then ((-1, []), (xs, p))
      else let k = min (unat n) (length xs - unat p) in ((int k, slice xs (unat p) k), (xs, p + of_nat k)))"
| "spec_step (FWrite bs) (xs, p) =
     (if bs = [] then ((-1, []), (xs, p))
      else ((int (length bs), []), (splice (unat p) bs xs, p + of_nat (length bs))))"
| "spec_step (FSeek offset whence) (xs, p) =
     (case seek_to p offset whence of
        None \<Rightarrow> ((-3, []), (xs, p))
      | Some q \<Rightarrow> if sint q < 0 then ((-4, []), (xs, p)) else ((sint q, []), (xs, q)))"

fun spec_run :: "file_op list \<Rightarrow> byte list \<times> u64 \<Rightarrow> (int \<times> byte list) list \<times> (byte list \<times> u64)" where
  "spec_run [] st = ([], st)"
| "spec_run (op # ops) st =
     (let (r, st1) = spec_step op st; (rs, st2) = spec_run ops st1 in (r # rs, st2))"

text \<open>Writes stay inside the file, and a read does not reach the end of the address space.\<close>

fun allowed :: "file_op \<Rightarrow> byte list \<times> u64 \<Rightarrow> bool" where
  "allowed (FRead n) (xs, p) = (unat p + unat n < 2 ^ 64)"
| "allowed (FWrite bs) (xs, p) = (bs \<noteq> [] \<longrightarrow> unat p + length bs \<le> length xs)"
| "allowed (FSeek offset whence) (xs, p) = True"

fun all_allowed :: "file_op list \<Rightarrow> byte list \<times> u64 \<Rightarrow> bool" where
  "all_allowed [] st = True"
| "all_allowed (op # ops) st = (allowed op st \<and> all_allowed ops (snd (spec_step op st)))"

text \<open>The bytes an operation moves, as offset and count.\<close>

fun moved :: "file_op \<Rightarrow> byte list \<times> u64 \<Rightarrow> nat \<times> nat" where
  "moved (FRead n) (xs, p) = (unat p, min (unat n) (length xs - unat p))"
| "moved (FWrite bs) (xs, p) = (unat p, length bs)"
| "moved (FSeek offset whence) (xs, p) = (unat p, 0)"

fun moved_cost :: "(nat \<Rightarrow> nat \<Rightarrow> nat) \<Rightarrow> file_op list \<Rightarrow> byte list \<times> u64 \<Rightarrow> nat" where
  "moved_cost cost [] st = 0"
| "moved_cost cost (op # ops) st =
     (case moved op st of (x, n) \<Rightarrow> if n = 0 then 0 else cost x n) + moved_cost cost ops (snd (spec_step op st))"

text \<open>The same operations on an open file of the virtual file system.\<close>

fun vfs_step :: "addr \<Rightarrow> addr \<Rightarrow> file_op \<Rightarrow> ('w, 'a) Vfs_scheme \<Rightarrow> ((int \<times> byte list) \<times> ('w, 'a) Vfs_scheme) option" where
  "vfs_step a b (FRead n) s = vfs_Read (Some a) (Some b) n s"
| "vfs_step a b (FWrite bs) s =
     map_option (\<lambda>(r, s'). ((r, []), s')) (vfs_Write (Some a) (Some b) bs (of_nat (length bs)) s)"
| "vfs_step a b (FSeek offset whence) s =
     map_option (\<lambda>(r, s'). ((r, []), s')) (vfs_Seek (Some a) offset whence s)"

fun vfs_run :: "addr \<Rightarrow> addr \<Rightarrow> file_op list \<Rightarrow> ('w, 'a) Vfs_scheme \<Rightarrow> ((int \<times> byte list) list \<times> ('w, 'a) Vfs_scheme) option" where
  "vfs_run a b [] s = Some ([], s)"
| "vfs_run a b (op # ops) s = do {
     (r, s1) \<leftarrow> vfs_step a b op s;
     (rs, s2) \<leftarrow> vfs_run a b ops s1;
     Some (r # rs, s2) }"

text \<open>The file at \<open>a\<close> is open on the mount at \<open>m\<close>, with the given functions and position.\<close>

definition opened :: "('w, 'a) Vfs_scheme \<Rightarrow> addr \<Rightarrow> addr \<Rightarrow> u64 \<Rightarrow>
    (addr \<Rightarrow> File \<Rightarrow> u64 \<Rightarrow> u64 \<Rightarrow> 'w \<Rightarrow> ((int \<times> byte list) \<times> 'w) option) \<Rightarrow>
    (addr \<Rightarrow> File \<Rightarrow> byte list \<Rightarrow> u64 \<Rightarrow> u64 \<Rightarrow> 'w \<Rightarrow> (int \<times> 'w) option) \<Rightarrow> bool" where
  "opened s a m p rd wr \<longleftrightarrow> (\<exists>f mnt. file_at s a = Some f \<and> file_mount f = Some m \<and> file_position f = p \<and>
     mount_at s m = Some mnt \<and> op_read (mnt_ops mnt) = Some rd \<and> op_write (mnt_ops mnt) = Some wr)"

lemma openedE:
  assumes "opened s a m p rd wr"
  obtains f mnt where "file_at s a = Some f" "file_mount f = Some m" "file_position f = p"
    "mount_of s f = Some (Some mnt)" "op_read (mnt_ops mnt) = Some rd" "op_write (mnt_ops mnt) = Some wr"
  using assms by (auto simp: opened_def mount_of_def)

lemma opened_lower [simp]: "opened (s\<lparr>lower := w\<rparr>) a m p rd wr = opened s a m p rd wr"
  by (simp add: opened_def)

lemma opened_advance:
  assumes "opened s a m p rd wr" "file_at s a = Some f" "ret \<ge> 0"
  shows "opened (advance a f ret s) a m (p + of_int ret) rd wr" "lower (advance a f ret s) = lower s"
  using assms by (auto simp: opened_def advance_def)

lemma advance_lower: "lower (advance a f ret s) = lower s"
  by (simp add: advance_def)

section \<open>The contract of a file system\<close>

text \<open>
  \<open>holds w a m xs\<close>: the file at \<open>a\<close> on the mount at \<open>m\<close> has the bytes \<open>xs\<close>.  Moving \<open>n\<close> bytes at
  an offset takes \<open>cost\<close> of the \<open>room\<close> that is left.
\<close>

locale file_store =
  fixes rd :: "addr \<Rightarrow> File \<Rightarrow> u64 \<Rightarrow> u64 \<Rightarrow> 'w \<Rightarrow> ((int \<times> byte list) \<times> 'w) option"
    and wr :: "addr \<Rightarrow> File \<Rightarrow> byte list \<Rightarrow> u64 \<Rightarrow> u64 \<Rightarrow> 'w \<Rightarrow> (int \<times> 'w) option"
    and holds :: "'w \<Rightarrow> addr \<Rightarrow> addr \<Rightarrow> byte list \<Rightarrow> bool"
    and room :: "'w \<Rightarrow> nat"
    and cost :: "nat \<Rightarrow> nat \<Rightarrow> nat"
  assumes short: "holds w a m xs \<Longrightarrow> length xs < 2 ^ 32"
    and read_law: "holds w a m xs \<Longrightarrow> file_mount f = Some m \<Longrightarrow> unat offset + unat n < 2 ^ 64 \<Longrightarrow>
      k = min (unat n) (length xs - unat offset) \<Longrightarrow> (k \<noteq> 0 \<Longrightarrow> cost (unat offset) k \<le> room w) \<Longrightarrow>
      \<exists>w'. rd a f n offset w = Some ((int k, slice xs (unat offset) k), w') \<and> holds w' a m xs \<and>
        room w \<le> room w' + (if k = 0 then 0 else cost (unat offset) k)"
    and write_law: "holds w a m xs \<Longrightarrow> file_mount f = Some m \<Longrightarrow> unat offset + unat n \<le> length xs \<Longrightarrow>
      length bs = unat n \<Longrightarrow> n \<noteq> 0 \<Longrightarrow> cost (unat offset) (unat n) \<le> room w \<Longrightarrow>
      \<exists>w'. wr a f bs n offset w = Some (int (unat n), w') \<and> holds w' a m (splice (unat offset) bs xs) \<and>
        room w \<le> room w' + cost (unat offset) (unat n)"
begin

lemma vfs_Read_step:
  assumes o: "opened s a m p rd wr" and h: "holds (lower s) a m xs" and p: "unat p + unat n < 2 ^ 64"
    and n: "n \<noteq> 0" and k: "k = min (unat n) (length xs - unat p)" and c: "k \<noteq> 0 \<Longrightarrow> cost (unat p) k \<le> room (lower s)"
  shows "\<exists>s'. vfs_Read (Some a) (Some b) n s = Some ((int k, slice xs (unat p) k), s') \<and>
    opened s' a m (p + of_nat k) rd wr \<and> holds (lower s') a m xs \<and>
    room (lower s) \<le> room (lower s') + (if k = 0 then 0 else cost (unat p) k)"
proof -
  from o obtain f mnt where f: "file_at s a = Some f" "file_mount f = Some m" "file_position f = p"
    "mount_of s f = Some (Some mnt)" "op_read (mnt_ops mnt) = Some rd" "op_write (mnt_ops mnt) = Some wr" by (rule openedE)
  from read_law [OF h f(2) p k c] obtain w' where
    w': "rd a f n p (lower s) = Some ((int k, slice xs (unat p) k), w')" "holds w' a m xs"
      "room (lower s) \<le> room w' + (if k = 0 then 0 else cost (unat p) k)" by blast
  show ?thesis
    using w' f n o opened_advance [of "s\<lparr>lower := w'\<rparr>" a m p rd wr f "int k"]
    by (simp add: vfs_Read_def advance_lower)
qed

lemma vfs_Write_step:
  assumes o: "opened s a m p rd wr" and h: "holds (lower s) a m xs" and p: "unat p + length bs \<le> length xs"
    and bs: "bs \<noteq> []" and c: "cost (unat p) (length bs) \<le> room (lower s)"
  shows "\<exists>s'. vfs_Write (Some a) (Some b) bs (of_nat (length bs)) s = Some (int (length bs), s') \<and>
    opened s' a m (p + of_nat (length bs)) rd wr \<and> holds (lower s') a m (splice (unat p) bs xs) \<and>
    room (lower s) \<le> room (lower s') + cost (unat p) (length bs)"
proof -
  from o obtain f mnt where f: "file_at s a = Some f" "file_mount f = Some m" "file_position f = p"
    "mount_of s f = Some (Some mnt)" "op_read (mnt_ops mnt) = Some rd" "op_write (mnt_ops mnt) = Some wr" by (rule openedE)
  have u: "unat (of_nat (length bs) :: u64) = length bs"
    using short [OF h] p by (simp add: unat_of_nat)
  then have nz: "(of_nat (length bs) :: u64) \<noteq> 0" using bs by (metis length_0_conv unat_0)
  from write_law [OF h f(2), of p "of_nat (length bs)" bs, unfolded u] p nz c obtain w' where
    w': "wr a f bs (of_nat (length bs)) p (lower s) = Some (int (length bs), w')" "holds w' a m (splice (unat p) bs xs)"
      "room (lower s) \<le> room w' + cost (unat p) (length bs)" by blast
  show ?thesis
    using w' f nz o opened_advance [of "s\<lparr>lower := w'\<rparr>" a m p rd wr f "int (length bs)"]
    by (simp add: vfs_Write_def advance_lower)
qed

lemma vfs_Seek_step:
  assumes o: "opened s a m p rd wr" and h: "holds (lower s) a m xs"
  shows "\<exists>s'. vfs_step a b (FSeek offset whence) s = Some (fst (spec_step (FSeek offset whence) (xs, p)), s') \<and>
    opened s' a m (snd (snd (spec_step (FSeek offset whence) (xs, p)))) rd wr \<and> lower s' = lower s"
proof -
  from o obtain f mnt where f: "file_at s a = Some f" "file_mount f = Some m" "file_position f = p"
    "mount_of s f = Some (Some mnt)" "op_read (mnt_ops mnt) = Some rd" "op_write (mnt_ops mnt) = Some wr" by (rule openedE)
  have "opened (s\<lparr>file_at := (file_at s)(a := Some (f\<lparr>file_position := q\<rparr>))\<rparr>) a m q rd wr" for q
    using o f(1) by (auto simp: opened_def)
  then show ?thesis using f o by (cases "seek_to p offset whence") (auto simp: vfs_Seek_def)
qed

lemma vfs_step_refines:
  assumes o: "opened s a m p rd wr" and h: "holds (lower s) a m xs" and al: "allowed op (xs, p)"
    and mv: "moved op (xs, p) = (x, n)" and c: "n \<noteq> 0 \<Longrightarrow> cost x n \<le> room (lower s)"
    and st: "spec_step op (xs, p) = (r, (ys, q))"
  shows "\<exists>s'. vfs_step a b op s = Some (r, s') \<and> opened s' a m q rd wr \<and> holds (lower s') a m ys \<and>
    room (lower s) \<le> room (lower s') + (if n = 0 then 0 else cost x n)"
proof (cases op)
  case (FRead k)
  show ?thesis
  proof (cases "k = 0")
    case True
    then show ?thesis using FRead st o h by (auto simp: vfs_Read_def)
  next
    case False
    have n: "n = min (unat k) (length xs - unat p)" and x: "x = unat p" using mv FRead by auto
    have r: "r = (int n, slice xs (unat p) n)" "ys = xs" "q = p + of_nat n"
      using st FRead False by (auto simp: Let_def n)
    have "unat p + unat k < 2 ^ 64" using al FRead by simp
    from vfs_Read_step [OF o h this False n c [unfolded x], of b] show ?thesis unfolding FRead r x by simp
  qed
next
  case (FWrite bs)
  show ?thesis
  proof (cases "bs = []")
    case True
    then show ?thesis using FWrite st o h by (auto simp: vfs_Write_def)
  next
    case False
    then show ?thesis using vfs_Write_step [OF o h, of bs b] FWrite al mv c st by auto
  qed
next
  case (FSeek off whence)
  have "ys = xs" using st FSeek by (auto split: option.splits if_splits)
  then show ?thesis using vfs_Seek_step [OF o h, of b off whence] st h FSeek mv by auto
qed

theorem vfs_run_refines:
  assumes "opened s a m p rd wr" "holds (lower s) a m xs" "all_allowed ops (xs, p)"
    "moved_cost cost ops (xs, p) \<le> room (lower s)" "spec_run ops (xs, p) = (rs, (ys, q))"
  shows "\<exists>s'. vfs_run a b ops s = Some (rs, s') \<and> opened s' a m q rd wr \<and> holds (lower s') a m ys"
  using assms
proof (induction ops arbitrary: s xs p rs)
  case (Cons op ops)
  obtain x n where mv: "moved op (xs, p) = (x, n)" by fastforce
  obtain r xs1 p1 where st: "spec_step op (xs, p) = (r, (xs1, p1))" by (metis prod.exhaust)
  then obtain rs1 where rs: "spec_run ops (xs1, p1) = (rs1, (ys, q))" "rs = r # rs1"
    using Cons.prems(5) by (auto simp: Let_def split: prod.splits)
  have c: "(if n = 0 then 0 else cost x n) + moved_cost cost ops (xs1, p1) \<le> room (lower s)"
    using Cons.prems(4) st mv by simp
  have "allowed op (xs, p)" using Cons.prems(3) by simp
  moreover have "n \<noteq> 0 \<Longrightarrow> cost x n \<le> room (lower s)" using c by simp
  ultimately obtain s1 where
    s1: "vfs_step a b op s = Some (r, s1)" "opened s1 a m p1 rd wr" "holds (lower s1) a m xs1"
      "room (lower s) \<le> room (lower s1) + (if n = 0 then 0 else cost x n)"
    using vfs_step_refines [OF Cons.prems(1,2) _ mv _ st, of b] by blast
  have "all_allowed ops (xs1, p1)" using Cons.prems(3) st by simp
  moreover have "moved_cost cost ops (xs1, p1) \<le> room (lower s1)" using c s1(4) by linarith
  ultimately obtain s2 where "vfs_run a b ops s1 = Some (rs1, s2)" "opened s2 a m q rd wr" "holds (lower s2) a m ys"
    using Cons.IH [OF s1(2,3) _ _ rs(1)] by blast
  then show ?case using s1(1) rs(2) by auto
qed simp

end

end
