(* ===== verification/Blockdev.thy ===== *)
theory Blockdev
  imports Bytes
begin

text \<open>
  The interface between the file system and the machine below it: the virtual functions
  \<^verbatim>\<open>Read\<close> and \<^verbatim>\<open>Write\<close> of a \<^verbatim>\<open>BlockDevice\<close> (\<^verbatim>\<open>include/kernel/block.h\<close>) and the page allocator that
  every buffer comes from.  The record \<open>Machine\<close> is the table of these functions; the locale
  \<open>block_io\<close> states what a client may rely on, and carries a small calculus for total correctness
  of programs over it.
\<close>

section \<open>The table of functions\<close>

text \<open>
  A read returns a code and, when it is 0, the bytes read; a write returns a code, and has
  no result when the buffer is shorter than the sectors to be written.  \<open>page_Alloc\<close>
  returns \<open>None\<close> inside for a null pointer.
\<close>

record 'd Machine =
  dev_Read :: "u64 \<Rightarrow> u32 \<Rightarrow> 'd \<Rightarrow> int \<times> byte list \<times> 'd"
  dev_Write :: "u64 \<Rightarrow> u32 \<Rightarrow> byte list \<Rightarrow> 'd \<Rightarrow> (int \<times> 'd) option"
  page_Alloc :: "u64 \<Rightarrow> 'd \<Rightarrow> (addr option \<times> 'd) option"
  page_Free :: "addr \<Rightarrow> 'd \<Rightarrow> 'd"

text \<open>
  The pattern of every function with a buffer: allocate, return an error when there is no memory,
  otherwise work and release the buffer on the way out.
\<close>

definition with_buf :: "'d Machine \<Rightarrow> u64 \<Rightarrow> 'a \<Rightarrow> ('d \<Rightarrow> ('a \<times> 'd) option) \<Rightarrow> 'd \<Rightarrow> ('a \<times> 'd) option" where
  "with_buf M sz err body d = do {
     (p, d1) \<leftarrow> page_Alloc M sz d;
     (case p of None \<Rightarrow> Some (err, d1)
      | Some a \<Rightarrow> do { (r, d2) \<leftarrow> body d1; Some (r, page_Free M a d2) }) }"

text \<open>Division of machine integers; a division by zero has no result.\<close>

definition udiv :: "'w::len word \<Rightarrow> 'w word \<Rightarrow> 'w word option" where
  "udiv a b = (if b = 0 then None else Some (a div b))"

definition umod :: "'w::len word \<Rightarrow> 'w word \<Rightarrow> 'w word option" where
  "umod a b = (if b = 0 then None else Some (a mod b))"

lemma udiv_simps [simp]: "b \<noteq> 0 \<Longrightarrow> udiv a b = Some (a div b)" "b \<noteq> 0 \<Longrightarrow> umod a b = Some (a mod b)"
  by (simp_all add: udiv_def umod_def)

section \<open>The contract\<close>

text \<open>
  \<open>disk d\<close> gives the 512 bytes of every sector below \<open>limit\<close>, \<open>room d\<close> the number of pages the
  allocator can still hand out, \<open>cost sz\<close> how many of them a buffer of \<open>sz\<close> bytes takes, and
  \<open>buf a\<close> holds of the addresses the allocator returns.
\<close>

locale block_io =
  fixes M :: "'d Machine"
    and inv :: "'d \<Rightarrow> bool"
    and disk :: "'d \<Rightarrow> nat \<Rightarrow> byte list"
    and room :: "'d \<Rightarrow> nat"
    and cost :: "u64 \<Rightarrow> nat"
    and buf :: "addr \<Rightarrow> bool"
    and limit :: nat
  assumes sector_length: "inv d \<Longrightarrow> length (disk d s) = 512"
    and read_law: "inv d \<Longrightarrow> unat sec + unat n \<le> limit \<Longrightarrow>
      \<exists>d'. dev_Read M sec n d = (0, concat (map (disk d) [unat sec..<unat sec + unat n]), d') \<and>
        inv d' \<and> disk d' = disk d \<and> room d' = room d"
    and write_law: "inv d \<Longrightarrow> unat sec + unat n \<le> limit \<Longrightarrow> length bs = 512 * unat n \<Longrightarrow>
      \<exists>d'. dev_Write M sec n bs d = Some (0, d') \<and> inv d' \<and> room d' = room d \<and>
        disk d' = (\<lambda>s. if unat sec \<le> s \<and> s < unat sec + unat n then slice bs (512 * (s - unat sec)) 512 else disk d s)"
    and alloc_law: "inv d \<Longrightarrow> cost sz \<le> room d \<Longrightarrow>
      \<exists>a d'. page_Alloc M sz d = Some (Some a, d') \<and> inv d' \<and> disk d' = disk d \<and>
        room d' = room d - cost sz \<and> buf a"
    and free_law: "inv d \<Longrightarrow> buf a \<Longrightarrow>
      inv (page_Free M a d) \<and> disk (page_Free M a d) = disk d \<and> room d \<le> room (page_Free M a d)"
begin

text \<open>
  \<open>runs k c d Q\<close>: from \<open>d\<close> the program returns, uses at most \<open>k\<close> pages, and its result and the
  disk afterwards satisfy \<open>Q\<close>.
\<close>

definition runs :: "nat \<Rightarrow> ('d \<Rightarrow> ('a \<times> 'd) option) \<Rightarrow> 'd \<Rightarrow> ('a \<Rightarrow> (nat \<Rightarrow> byte list) \<Rightarrow> bool) \<Rightarrow> bool" where
  "runs k c d Q \<longleftrightarrow> (\<exists>r d'. c d = Some (r, d') \<and> inv d' \<and> room d \<le> room d' + k \<and> Q r (disk d'))"

lemma runsI: "c d = Some (r, d') \<Longrightarrow> inv d' \<Longrightarrow> room d \<le> room d' + k \<Longrightarrow> Q r (disk d') \<Longrightarrow> runs k c d Q"
  by (auto simp: runs_def)

lemma runsE:
  assumes "runs k c d Q"
  obtains r d' where "c d = Some (r, d')" "inv d'" "room d \<le> room d' + k" "Q r (disk d')"
  using assms by (auto simp: runs_def)

lemma runs_ret: "inv d \<Longrightarrow> Q x (disk d) \<Longrightarrow> runs k (\<lambda>d. Some (x, d)) d Q"
  by (auto simp: runs_def)

lemma runs_conseq: "runs k c d P \<Longrightarrow> (\<And>r D. P r D \<Longrightarrow> Q r D) \<Longrightarrow> k \<le> k' \<Longrightarrow> runs k' c d Q"
  unfolding runs_def by (meson add_left_mono order_trans)

lemma runs_bind:
  assumes "runs k1 c d P"
    and "\<And>r d1. inv d1 \<Longrightarrow> room d \<le> room d1 + k1 \<Longrightarrow> P r (disk d1) \<Longrightarrow> runs k2 (f r) d1 Q"
  shows "runs (k1 + k2) (\<lambda>d. do { (r, d1) \<leftarrow> c d; f r d1 }) d Q"
proof -
  from assms(1) obtain r d1 where 1: "c d = Some (r, d1)" "inv d1" "room d \<le> room d1 + k1" "P r (disk d1)"
    by (rule runsE)
  from assms(2) [OF this(2-4)] obtain r' d2 where
    "f r d1 = Some (r', d2)" "inv d2" "room d1 \<le> room d2 + k2" "Q r' (disk d2)" by (rule runsE)
  with 1 show ?thesis by (auto simp: runs_def)
qed

lemma runs_with_buf:
  assumes "inv d" "cost sz \<le> room d"
    and "\<And>d1. inv d1 \<Longrightarrow> disk d1 = disk d \<Longrightarrow> room d = room d1 + cost sz \<Longrightarrow> runs k body d1 Q"
  shows "runs (cost sz + k) (with_buf M sz err body) d Q"
proof -
  from alloc_law [OF assms(1,2)] obtain a d1 where
    1: "page_Alloc M sz d = Some (Some a, d1)" "inv d1" "disk d1 = disk d" "room d1 = room d - cost sz" "buf a"
    by blast
  have r1: "room d = room d1 + cost sz" using 1(4) assms(2) by simp
  from assms(3) [OF 1(2,3) r1] obtain r d2 where
    2: "body d1 = Some (r, d2)" "inv d2" "room d1 \<le> room d2 + k" "Q r (disk d2)" by (rule runsE)
  with free_law [OF 2(2) 1(5)] have "inv (page_Free M a d2)" "disk (page_Free M a d2) = disk d2"
    "room d \<le> room (page_Free M a d2) + (cost sz + k)" using r1 by auto
  with 1 2 show ?thesis by (auto simp: runs_def with_buf_def)
qed

end

end
