(* ===== verification/Ext2Layout.thy ===== *)
theory Ext2Layout
  imports Blockdev Bitmap
begin

text \<open>
  The on-disk structures of ext2 as \<^verbatim>\<open>include/kernel/fs/ext2.h\<close> declares them: packed little-endian
  records, with the functions that read them out of a byte image and write them into one.
\<close>

unbundle bit_operations_syntax

section \<open>Constants\<close>

definition EXT2_SUPER_MAGIC :: u16 where "EXT2_SUPER_MAGIC = 0xEF53"
definition EXT2_ROOT_INO :: u32 where "EXT2_ROOT_INO = 2"
definition EXT2_NDIR_BLOCKS :: u32 where "EXT2_NDIR_BLOCKS = 12"
definition EXT2_IND_BLOCK :: nat where "EXT2_IND_BLOCK = 12"
definition EXT2_DIND_BLOCK :: nat where "EXT2_DIND_BLOCK = 13"
definition EXT2_TIND_BLOCK :: nat where "EXT2_TIND_BLOCK = 14"
definition EXT2_N_BLOCKS :: nat where "EXT2_N_BLOCKS = 15"
definition EXT2_S_IFDIR :: u16 where "EXT2_S_IFDIR = 0x4000"
definition EXT2_S_IFREG :: u16 where "EXT2_S_IFREG = 0x8000"
definition PARTITION_TYPE_LINUX :: u8 where "PARTITION_TYPE_LINUX = 0x83"

lemmas ext2_consts = EXT2_SUPER_MAGIC_def EXT2_ROOT_INO_def EXT2_NDIR_BLOCKS_def EXT2_IND_BLOCK_def
  EXT2_DIND_BLOCK_def EXT2_TIND_BLOCK_def EXT2_N_BLOCKS_def EXT2_S_IFDIR_def EXT2_S_IFREG_def

section \<open>The super block\<close>

record Ext2SuperBlock =
  s_inodes_count :: u32
  s_blocks_count :: u32
  s_r_blocks_count :: u32
  s_free_blocks_count :: u32
  s_free_inodes_count :: u32
  s_first_data_block :: u32
  s_log_block_size :: u32
  s_log_frag_size :: u32
  s_blocks_per_group :: u32
  s_frags_per_group :: u32
  s_inodes_per_group :: u32
  s_mtime :: u32
  s_wtime :: u32
  s_mnt_count :: u16
  s_max_mnt_count :: u16
  s_magic :: u16
  s_state :: u16
  s_errors :: u16
  s_minor_rev_level :: u16
  s_lastcheck :: u32
  s_checkinterval :: u32
  s_creator_os :: u32
  s_rev_level :: u32
  s_def_resuid :: u16
  s_def_resgid :: u16
  s_first_ino :: u32
  s_inode_size :: u16
  s_block_group_nr :: u16
  s_feature_compat :: u32
  s_feature_incompat :: u32
  s_feature_ro_compat :: u32
  s_uuid :: "byte list"
  s_volume_name :: "byte list"
  s_last_mounted :: "byte list"
  s_algorithm_usage_bitmap :: u32
  s_prealloc_blocks :: byte
  s_prealloc_dir_blocks :: byte
  s_padding1 :: u16
  s_reserved :: "u32 list"

definition decode_super :: "byte list \<Rightarrow> Ext2SuperBlock" where
  "decode_super b = \<lparr>s_inodes_count = get32 b 0, s_blocks_count = get32 b 4, s_r_blocks_count = get32 b 8,
     s_free_blocks_count = get32 b 12, s_free_inodes_count = get32 b 16, s_first_data_block = get32 b 20,
     s_log_block_size = get32 b 24, s_log_frag_size = get32 b 28, s_blocks_per_group = get32 b 32,
     s_frags_per_group = get32 b 36, s_inodes_per_group = get32 b 40, s_mtime = get32 b 44, s_wtime = get32 b 48,
     s_mnt_count = get16 b 52, s_max_mnt_count = get16 b 54, s_magic = get16 b 56, s_state = get16 b 58,
     s_errors = get16 b 60, s_minor_rev_level = get16 b 62, s_lastcheck = get32 b 64, s_checkinterval = get32 b 68,
     s_creator_os = get32 b 72, s_rev_level = get32 b 76, s_def_resuid = get16 b 80, s_def_resgid = get16 b 82,
     s_first_ino = get32 b 84, s_inode_size = get16 b 88, s_block_group_nr = get16 b 90,
     s_feature_compat = get32 b 92, s_feature_incompat = get32 b 96, s_feature_ro_compat = get32 b 100,
     s_uuid = slice b 104 16, s_volume_name = slice b 120 16, s_last_mounted = slice b 136 64,
     s_algorithm_usage_bitmap = get32 b 200, s_prealloc_blocks = b ! 204, s_prealloc_dir_blocks = b ! 205,
     s_padding1 = get16 b 206, s_reserved = get32s b 208 204\<rparr>"

definition encode_super :: "Ext2SuperBlock \<Rightarrow> byte list" where
  "encode_super s = le32 (s_inodes_count s) @ le32 (s_blocks_count s) @ le32 (s_r_blocks_count s) @
     le32 (s_free_blocks_count s) @ le32 (s_free_inodes_count s) @ le32 (s_first_data_block s) @
     le32 (s_log_block_size s) @ le32 (s_log_frag_size s) @ le32 (s_blocks_per_group s) @
     le32 (s_frags_per_group s) @ le32 (s_inodes_per_group s) @ le32 (s_mtime s) @ le32 (s_wtime s) @
     le16 (s_mnt_count s) @ le16 (s_max_mnt_count s) @ le16 (s_magic s) @ le16 (s_state s) @
     le16 (s_errors s) @ le16 (s_minor_rev_level s) @ le32 (s_lastcheck s) @ le32 (s_checkinterval s) @
     le32 (s_creator_os s) @ le32 (s_rev_level s) @ le16 (s_def_resuid s) @ le16 (s_def_resgid s) @
     le32 (s_first_ino s) @ le16 (s_inode_size s) @ le16 (s_block_group_nr s) @
     le32 (s_feature_compat s) @ le32 (s_feature_incompat s) @ le32 (s_feature_ro_compat s) @
     s_uuid s @ s_volume_name s @ s_last_mounted s @
     le32 (s_algorithm_usage_bitmap s) @ [s_prealloc_blocks s, s_prealloc_dir_blocks s] @
     le16 (s_padding1 s) @ concat (map le32 (s_reserved s)) @ []"

text \<open>The array fields have their declared lengths.\<close>

definition super_typed :: "Ext2SuperBlock \<Rightarrow> bool" where
  "super_typed s \<longleftrightarrow> length (s_uuid s) = 16 \<and> length (s_volume_name s) = 16 \<and> length (s_last_mounted s) = 64 \<and>
     length (s_reserved s) = 204"

section \<open>Group descriptors and inodes\<close>

record Ext2GroupDesc =
  bg_block_bitmap :: u32
  bg_inode_bitmap :: u32
  bg_inode_table :: u32
  bg_free_blocks_count :: u16
  bg_free_inodes_count :: u16
  bg_used_dirs_count :: u16
  bg_pad :: u16
  bg_reserved :: "u32 list"

definition decode_gd :: "byte list \<Rightarrow> Ext2GroupDesc" where
  "decode_gd b = \<lparr>bg_block_bitmap = get32 b 0, bg_inode_bitmap = get32 b 4, bg_inode_table = get32 b 8,
     bg_free_blocks_count = get16 b 12, bg_free_inodes_count = get16 b 14, bg_used_dirs_count = get16 b 16,
     bg_pad = get16 b 18, bg_reserved = get32s b 20 3\<rparr>"

definition encode_gd :: "Ext2GroupDesc \<Rightarrow> byte list" where
  "encode_gd g = le32 (bg_block_bitmap g) @ le32 (bg_inode_bitmap g) @ le32 (bg_inode_table g) @
     le16 (bg_free_blocks_count g) @ le16 (bg_free_inodes_count g) @ le16 (bg_used_dirs_count g) @
     le16 (bg_pad g) @ concat (map le32 (bg_reserved g)) @ []"

record Ext2Inode =
  i_mode :: u16
  i_uid :: u16
  i_size :: u32
  i_atime :: u32
  i_ctime :: u32
  i_mtime :: u32
  i_dtime :: u32
  i_gid :: u16
  i_links_count :: u16
  i_blocks :: u32
  i_flags :: u32
  i_osd1 :: u32
  i_block :: "u32 list"
  i_generation :: u32
  i_file_acl :: u32
  i_dir_acl :: u32
  i_faddr :: u32
  i_osd2 :: "byte list"

definition decode_inode :: "byte list \<Rightarrow> Ext2Inode" where
  "decode_inode b = \<lparr>i_mode = get16 b 0, i_uid = get16 b 2, i_size = get32 b 4, i_atime = get32 b 8,
     i_ctime = get32 b 12, i_mtime = get32 b 16, i_dtime = get32 b 20, i_gid = get16 b 24,
     i_links_count = get16 b 26, i_blocks = get32 b 28, i_flags = get32 b 32, i_osd1 = get32 b 36,
     i_block = get32s b 40 15, i_generation = get32 b 100, i_file_acl = get32 b 104, i_dir_acl = get32 b 108,
     i_faddr = get32 b 112, i_osd2 = slice b 116 12\<rparr>"

definition encode_inode :: "Ext2Inode \<Rightarrow> byte list" where
  "encode_inode i = le16 (i_mode i) @ le16 (i_uid i) @ le32 (i_size i) @ le32 (i_atime i) @ le32 (i_ctime i) @
     le32 (i_mtime i) @ le32 (i_dtime i) @ le16 (i_gid i) @ le16 (i_links_count i) @ le32 (i_blocks i) @
     le32 (i_flags i) @ le32 (i_osd1 i) @ concat (map le32 (i_block i)) @ le32 (i_generation i) @
     le32 (i_file_acl i) @ le32 (i_dir_acl i) @ le32 (i_faddr i) @ i_osd2 i @ []"

definition inode_typed :: "Ext2Inode \<Rightarrow> bool" where
  "inode_typed i \<longleftrightarrow> length (i_block i) = 15 \<and> length (i_osd2 i) = 12"

section \<open>Round trips\<close>

lemma image_end [simp]:
  "length bs = n \<Longrightarrow> slice bs 0 n = bs"
  "length xs = n \<Longrightarrow> get32s (concat (map le32 xs)) 0 n = xs"
  using get32s_table [of xs n "[]"] by (simp_all add: slice_def)

lemma get_Cons [simp]:
  "0 < i \<Longrightarrow> get16 (b # bs) i = get16 bs (i - 1)"
  "0 < i \<Longrightarrow> get32s (b # bs) i n = get32s bs (i - 1) n"
  using get_skip(1) [of "[b]" i bs] get32s_skip [of "[b]" i bs n] by simp_all

lemma length_encode:
  "super_typed s \<Longrightarrow> length (encode_super s) = 1024"
  "length (bg_reserved g) = 3 \<Longrightarrow> length (encode_gd g) = 32"
  "inode_typed i \<Longrightarrow> length (encode_inode i) = 128"
  by (simp_all add: encode_super_def super_typed_def encode_gd_def encode_inode_def inode_typed_def)

lemma decode_typed: "length (bg_reserved (decode_gd b)) = 3" "length b = 128 \<Longrightarrow> inode_typed (decode_inode b)"
  "length b = 1024 \<Longrightarrow> super_typed (decode_super b)"
  by (simp_all add: decode_gd_def decode_inode_def inode_typed_def decode_super_def super_typed_def get32s_def)

lemma decode_encode_gd: "length (bg_reserved g) = 3 \<Longrightarrow> decode_gd (encode_gd g) = g"
  by (simp add: decode_gd_def encode_gd_def)

lemma decode_encode_inode: "inode_typed i \<Longrightarrow> decode_inode (encode_inode i) = i"
  by (simp add: decode_inode_def encode_inode_def inode_typed_def)

lemma decode_encode_super: "super_typed s \<Longrightarrow> decode_super (encode_super s) = s"
  by (simp add: decode_super_def encode_super_def super_typed_def nth_append)

text \<open>Images are read without loss: writing what was read gives the image back.\<close>

lemma bit_byte: "8 \<le> n \<Longrightarrow> \<not> bit (w :: byte) n"
  using bit_imp_le_length [of w n] by auto

lemma le16_get16: "i + 2 \<le> length b \<Longrightarrow> le16 (get16 b i) = slice b i 2"
proof -
  assume l: "i + 2 \<le> length b"
  have "le16 (get16 b i) = [b ! i, b ! (i + 1)]"
    unfolding le16_def get16_def by (auto intro!: bit_word_eqI simp: bit_simps bit_byte)
  also have "\<dots> = slice b i 2" using l by (intro nth_equalityI) (auto simp: slice_nth less_Suc_eq numeral_2_eq_2)
  finally show ?thesis .
qed

lemma le32_get32: "i + 4 \<le> length b \<Longrightarrow> le32 (get32 b i) = slice b i 4"
proof -
  assume l: "i + 4 \<le> length b"
  have "le32 (get32 b i) = [b ! i, b ! (i + 1), b ! (i + 2), b ! (i + 3)]"
    unfolding le32_def get32_def by (auto intro!: bit_word_eqI simp: bit_simps bit_byte)
  also have "\<dots> = slice b i 4" using l by (intro nth_equalityI) (auto simp: slice_nth less_Suc_eq numeral_eq_Suc)
  finally show ?thesis .
qed

lemma slice_append: "slice b i m @ slice b (i + m) n = slice b i (m + n)"
  by (simp add: slice_def take_add drop_drop add.commute)

lemma slice_append_more: "j = i + m \<Longrightarrow> slice b i m @ slice b j n @ r = slice b i (m + n) @ r"
  using slice_append [of b i m n] by (simp flip: append_assoc)

lemma le32s_get32s: "i + 4 * n \<le> length b \<Longrightarrow> concat (map le32 (get32s b i n)) = slice b i (4 * n)"
proof (induction n)
  case (Suc n)
  then show ?case using slice_append [of b i "4 * n" 4]
    by (simp add: get32s_def le32_get32 add.commute)
qed (simp add: get32s_def slice_def)

lemma encode_decode_gd: "length b = 32 \<Longrightarrow> encode_gd (decode_gd b) = b"
  by (simp add: encode_gd_def decode_gd_def le32_get32 le16_get16 le32s_get32s slice_append slice_append_more) (simp add: slice_def)

lemma encode_decode_inode: "length b = 128 \<Longrightarrow> encode_inode (decode_inode b) = b"
  by (simp add: encode_inode_def decode_inode_def le32_get32 le16_get16 le32s_get32s slice_append slice_append_more) (simp add: slice_def)
lemma encode_decode_super: "length b = 1024 \<Longrightarrow> encode_super (decode_super b) = b"
proof -
  assume l: "length b = 1024"
  then have c: "b ! 204 # drop (Suc 204) b = drop 204 b" "b ! 205 # drop (Suc 205) b = drop 205 b"
    using Cons_nth_drop_Suc [of 204 b] Cons_nth_drop_Suc [of 205 b] by simp_all
  have "take 2 (drop 206 b) @ drop 208 b = drop 206 b" using append_take_drop_id [of 2 "drop 206 b"] by simp
  then show ?thesis using l c
    by (simp add: encode_super_def decode_super_def le32_get32 le16_get16 le32s_get32s slice_append slice_append_more) (simp add: slice_def)
qed

section \<open>Blocks\<close>

text \<open>
  \<^verbatim>\<open>1024 << s_log_block_size\<close>; a shift by 32 or more has no defined result.
\<close>

definition block_size :: "Ext2SuperBlock \<Rightarrow> u32 option" where
  "block_size sb = (if s_log_block_size sb < 32 then Some (push_bit (unat (s_log_block_size sb)) 1024) else None)"

definition ReadBlock :: "'d Machine \<Rightarrow> Ext2SuperBlock \<Rightarrow> u32 \<Rightarrow> u32 \<Rightarrow> 'd \<Rightarrow> ((int \<times> byte list) \<times> 'd) option" where
  "ReadBlock M sb block_num ext2_lba d = do {
     bsize \<leftarrow> block_size sb;
     let sectors_per_block = bsize div 512;
     let sector = ucast ext2_lba + ucast block_num * ucast sectors_per_block;
     let (ret, data, d1) = dev_Read M sector sectors_per_block d;
     Some ((ret, data), d1) }"

definition WriteBlock :: "'d Machine \<Rightarrow> Ext2SuperBlock \<Rightarrow> u32 \<Rightarrow> byte list \<Rightarrow> u32 \<Rightarrow> 'd \<Rightarrow> (int \<times> 'd) option" where
  "WriteBlock M sb block_num data ext2_lba d = do {
     bsize \<leftarrow> block_size sb;
     let sectors_per_block = bsize div 512;
     let sector = ucast ext2_lba + ucast block_num * ucast sectors_per_block;
     dev_Write M sector sectors_per_block data d }"

end
