(* ===== verification/Ext2Alloc.thy ===== *)
theory Ext2Alloc
  imports Ext2Layout
begin

text \<open>
  Super block and group descriptors (\<^verbatim>\<open>src/fs/ext2/super.cc\<close>) and the allocation of blocks and
  inodes in the bitmaps (\<^verbatim>\<open>src/fs/ext2/balloc.cc\<close>).  The super block is held in memory and handed
  from call to call; an error code is negative, as in the code.
\<close>

section \<open>Partition table and super block\<close>

text \<open>Type and first sector of partition \<open>i\<close> in the image of sector 0.\<close>

definition mbr_type :: "byte list \<Rightarrow> nat \<Rightarrow> byte" where
  "mbr_type mbr i = mbr ! (446 + 16 * i + 4)"

definition mbr_lba :: "byte list \<Rightarrow> nat \<Rightarrow> u32" where
  "mbr_lba mbr i = get32 mbr (446 + 16 * i + 8)"

definition FindExt2Partition :: "'d Machine \<Rightarrow> 'd \<Rightarrow> (u32 \<times> 'd) option" where
  "FindExt2Partition M = with_buf M 0x1000 0 (\<lambda>d.
     let (ret, mbr, d1) = dev_Read M 0 1 d in
     if ret \<noteq> 0 then Some (0, d1)
     else if get16 mbr 510 \<noteq> 0xAA55 then Some (0, d1)
     else Some (case find (\<lambda>i. mbr_type mbr i = PARTITION_TYPE_LINUX) [0..<4] of
                  Some i \<Rightarrow> mbr_lba mbr i | None \<Rightarrow> 0, d1))"

definition ReadSuperBlock :: "'d Machine \<Rightarrow> Ext2SuperBlock \<Rightarrow> u32 \<Rightarrow> 'd \<Rightarrow> ((int \<times> Ext2SuperBlock) \<times> 'd) option" where
  "ReadSuperBlock M sb ext2_lba d = do {
     ((ret, sb1), d1) \<leftarrow> with_buf M 2048 (-3, sb) (\<lambda>d.
       let (ret, data, d1) = dev_Read M (ucast (ext2_lba + 2)) 2 d in
       if ret \<noteq> 0 then Some ((-4, sb), d1) else Some ((0, decode_super data), d1)) d;
     Some (if ret \<noteq> 0 then (ret, sb1)
           else if s_magic sb1 \<noteq> EXT2_SUPER_MAGIC then (-5, sb1) else (0, sb1), d1) }"

definition WriteSuperBlock :: "'d Machine \<Rightarrow> Ext2SuperBlock \<Rightarrow> 'd \<Rightarrow> (int \<times> 'd) option" where
  "WriteSuperBlock M sb = with_buf M 1024 (-2) (\<lambda>d. do {
     (ret, d1) \<leftarrow> dev_Write M 2 2 (encode_super sb) d;
     Some (if ret \<noteq> 0 then -3 else 0, d1) })"

text \<open>
  The descriptors are read from block 2 whatever the block size.  A group whose descriptor is not
  inside that block makes the copy leave the buffer.
\<close>

definition gd_sector :: "u32 \<Rightarrow> u32 \<Rightarrow> u64" where
  "gd_sector bsize ext2_lba = ucast ext2_lba + 2 * ucast (bsize div 512)"

definition ReadGroupDesc :: "'d Machine \<Rightarrow> Ext2SuperBlock \<Rightarrow> u32 \<Rightarrow> u32 \<Rightarrow> 'd \<Rightarrow> ((int + Ext2GroupDesc) \<times> 'd) option" where
  "ReadGroupDesc M sb grp ext2_lba d = do {
     bsize \<leftarrow> block_size sb;
     with_buf M (ucast bsize) (Inl (-2)) (\<lambda>d.
       let (ret, data, d1) = dev_Read M (gd_sector bsize ext2_lba) (bsize div 512) d; i = unat grp * 32 in
       if ret \<noteq> 0 then Some (Inl (-3), d1)
       else if i + 32 > length data then None
       else Some (Inr (decode_gd (slice data i 32)), d1)) d }"

definition WriteGroupDesc :: "'d Machine \<Rightarrow> Ext2SuperBlock \<Rightarrow> u32 \<Rightarrow> Ext2GroupDesc \<Rightarrow> u32 \<Rightarrow> 'd \<Rightarrow> (int \<times> 'd) option" where
  "WriteGroupDesc M sb grp gd ext2_lba d = do {
     bsize \<leftarrow> block_size sb;
     with_buf M (ucast bsize) (-2) (\<lambda>d.
       let (ret, data, d1) = dev_Read M (gd_sector bsize ext2_lba) (bsize div 512) d; i = unat grp * 32 in
       if ret \<noteq> 0 then Some (-3, d1)
       else if i + 32 > length data then None
       else do {
         (ret, d2) \<leftarrow> dev_Write M (gd_sector bsize ext2_lba) (bsize div 512) (splice i (encode_gd gd) data) d1;
         Some (if ret \<noteq> 0 then -4 else 0, d2) }) d }"

section \<open>Bitmap search\<close>

text \<open>
  The search loop over the bits of a bitmap: the first clear bit that \<open>acc\<close> accepts.  Reading past
  the end of the bitmap has no result.
\<close>

fun scan_bits :: "byte list \<Rightarrow> (nat \<Rightarrow> bool) \<Rightarrow> nat list \<Rightarrow> nat option option" where
  "scan_bits bm acc [] = Some None"
| "scan_bits bm acc (i # is) =
     (if i div 8 \<ge> length bm then None
      else if \<not> bm_test bm i \<and> acc i then Some (Some i)
      else scan_bits bm acc is)"

section \<open>Blocks\<close>

text \<open>The accepted block: mark it, write bitmap, descriptor and super block back, clear the block.\<close>

definition take_block :: "'d Machine \<Rightarrow> u32 \<Rightarrow> u32 \<Rightarrow> Ext2GroupDesc \<Rightarrow> byte list \<Rightarrow> u32 \<Rightarrow> Ext2SuperBlock \<Rightarrow> 'd \<Rightarrow>
    ((u32 \<times> Ext2SuperBlock) \<times> 'd) option" where
  "take_block M ext2_lba grp gd bitmap block sb d = do {
     bsize \<leftarrow> block_size sb;
     (ret, d1) \<leftarrow> WriteBlock M sb (bg_block_bitmap gd) bitmap ext2_lba d;
     if ret \<noteq> 0 then Some ((0, sb), d1) else do {
       let gd1 = gd\<lparr>bg_free_blocks_count := bg_free_blocks_count gd - 1\<rparr>;
       let sb1 = sb\<lparr>s_free_blocks_count := s_free_blocks_count sb - 1\<rparr>;
       (_, d2) \<leftarrow> WriteGroupDesc M sb1 grp gd1 ext2_lba d1;
       (_, d3) \<leftarrow> WriteSuperBlock M sb1 d2;
       (_, d4) \<leftarrow> with_buf M (ucast bsize) 0
         (\<lambda>d. WriteBlock M sb1 block (replicate (unat bsize) 0) ext2_lba d) d3;
       Some ((block, sb1), d4) } }"

fun alloc_block_groups :: "'d Machine \<Rightarrow> u32 \<Rightarrow> u32 list \<Rightarrow> Ext2SuperBlock \<Rightarrow> 'd \<Rightarrow>
    ((u32 \<times> Ext2SuperBlock) \<times> 'd) option" where
  "alloc_block_groups M ext2_lba [] sb d = Some ((0, sb), d)"
| "alloc_block_groups M ext2_lba (grp # gs) sb d = do {
     (r, d1) \<leftarrow> ReadGroupDesc M sb grp ext2_lba d;
     (case r of Inl e \<Rightarrow> alloc_block_groups M ext2_lba gs sb d1 | Inr gd \<Rightarrow>
       if bg_free_blocks_count gd = 0 then alloc_block_groups M ext2_lba gs sb d1 else do {
         ((ret, bitmap), d2) \<leftarrow> ReadBlock M sb (bg_block_bitmap gd) ext2_lba d1;
         if ret \<noteq> 0 then alloc_block_groups M ext2_lba gs sb d2 else do {
           let start_block = grp * s_blocks_per_group sb;
           let first = (if start_block < s_first_data_block sb then s_first_data_block sb - start_block else 0);
           x \<leftarrow> scan_bits bitmap (\<lambda>_. True) [unat first..<unat (s_blocks_per_group sb)];
           (case x of None \<Rightarrow> alloc_block_groups M ext2_lba gs sb d2
            | Some i \<Rightarrow> take_block M ext2_lba grp gd (bm_set i bitmap) (start_block + of_nat i) sb d2) } }) }"

definition group_list :: "u32 \<Rightarrow> u32 list" where
  "group_list n = map of_nat [0..<unat n]"

definition AllocBlock :: "'d Machine \<Rightarrow> Ext2SuperBlock \<Rightarrow> u32 \<Rightarrow> 'd \<Rightarrow> ((u32 \<times> Ext2SuperBlock) \<times> 'd) option" where
  "AllocBlock M sb ext2_lba d = do {
     bsize \<leftarrow> block_size sb;
     group_count \<leftarrow> udiv (s_blocks_count sb + s_blocks_per_group sb - 1) (s_blocks_per_group sb);
     with_buf M (ucast bsize) (0, sb) (alloc_block_groups M ext2_lba (group_list group_count) sb) d }"

text \<open>
  \<open>release\<close> is the common end of \<open>FreeBlock\<close> and \<open>FreeInode\<close>: clear the bit if it is set, then
  write the bitmap, the descriptor and the super block, whose counts \<open>up_gd\<close> and \<open>up_sb\<close> raise.
\<close>

definition release :: "'d Machine \<Rightarrow> u32 \<Rightarrow> u32 \<Rightarrow> u32 \<Rightarrow> nat \<Rightarrow> Ext2GroupDesc \<Rightarrow> Ext2SuperBlock \<Rightarrow>
    Ext2SuperBlock \<Rightarrow> 'd \<Rightarrow> (Ext2SuperBlock \<times> 'd) option" where
  "release M ext2_lba grp map_block i gd1 sb sb1 d = do {
     ((ret, bitmap), d1) \<leftarrow> ReadBlock M sb map_block ext2_lba d;
     if ret \<noteq> 0 then Some (sb, d1)
     else if i div 8 \<ge> length bitmap then None
     else if bm_test bitmap i then do {
       (_, d2) \<leftarrow> WriteBlock M sb map_block (bm_clear i bitmap) ext2_lba d1;
       (_, d3) \<leftarrow> WriteGroupDesc M sb1 grp gd1 ext2_lba d2;
       (_, d4) \<leftarrow> WriteSuperBlock M sb1 d3;
       Some (sb1, d4) }
     else Some (sb, d1) }"

definition FreeBlock :: "'d Machine \<Rightarrow> Ext2SuperBlock \<Rightarrow> u32 \<Rightarrow> u32 \<Rightarrow> 'd \<Rightarrow> (Ext2SuperBlock \<times> 'd) option" where
  "FreeBlock M sb block ext2_lba d =
     (if block = 0 then Some (sb, d) else do {
        bsize \<leftarrow> block_size sb;
        grp \<leftarrow> udiv block (s_blocks_per_group sb);
        block_in_group \<leftarrow> umod block (s_blocks_per_group sb);
        (r, d1) \<leftarrow> ReadGroupDesc M sb grp ext2_lba d;
        (case r of Inl e \<Rightarrow> Some (sb, d1) | Inr gd \<Rightarrow>
          with_buf M (ucast bsize) sb (release M ext2_lba grp (bg_block_bitmap gd) (unat block_in_group)
            (gd\<lparr>bg_free_blocks_count := bg_free_blocks_count gd + 1\<rparr>) sb
            (sb\<lparr>s_free_blocks_count := s_free_blocks_count sb + 1\<rparr>)) d1) })"

section \<open>Inodes\<close>

definition take_inode :: "'d Machine \<Rightarrow> u32 \<Rightarrow> u32 \<Rightarrow> Ext2GroupDesc \<Rightarrow> byte list \<Rightarrow> u32 \<Rightarrow> Ext2SuperBlock \<Rightarrow> 'd \<Rightarrow>
    ((u32 \<times> Ext2SuperBlock) \<times> 'd) option" where
  "take_inode M ext2_lba grp gd bitmap inode_num sb d = do {
     (ret, d1) \<leftarrow> WriteBlock M sb (bg_inode_bitmap gd) bitmap ext2_lba d;
     if ret \<noteq> 0 then Some ((0, sb), d1) else do {
       let gd1 = gd\<lparr>bg_free_inodes_count := bg_free_inodes_count gd - 1\<rparr>;
       let sb1 = sb\<lparr>s_free_inodes_count := s_free_inodes_count sb - 1\<rparr>;
       (_, d2) \<leftarrow> WriteGroupDesc M sb1 grp gd1 ext2_lba d1;
       (_, d3) \<leftarrow> WriteSuperBlock M sb1 d2;
       Some ((inode_num, sb1), d3) } }"

fun alloc_inode_groups :: "'d Machine \<Rightarrow> u32 \<Rightarrow> u32 list \<Rightarrow> Ext2SuperBlock \<Rightarrow> 'd \<Rightarrow>
    ((u32 \<times> Ext2SuperBlock) \<times> 'd) option" where
  "alloc_inode_groups M ext2_lba [] sb d = Some ((0, sb), d)"
| "alloc_inode_groups M ext2_lba (grp # gs) sb d = do {
     (r, d1) \<leftarrow> ReadGroupDesc M sb grp ext2_lba d;
     (case r of Inl e \<Rightarrow> alloc_inode_groups M ext2_lba gs sb d1 | Inr gd \<Rightarrow>
       if bg_free_inodes_count gd = 0 then alloc_inode_groups M ext2_lba gs sb d1 else do {
         ((ret, bitmap), d2) \<leftarrow> ReadBlock M sb (bg_inode_bitmap gd) ext2_lba d1;
         if ret \<noteq> 0 then alloc_inode_groups M ext2_lba gs sb d2 else do {
           let num = (\<lambda>i. grp * s_inodes_per_group sb + of_nat i + 1);
           x \<leftarrow> scan_bits bitmap (\<lambda>i. \<not> num i < EXT2_ROOT_INO) [0..<unat (s_inodes_per_group sb)];
           (case x of None \<Rightarrow> alloc_inode_groups M ext2_lba gs sb d2
            | Some i \<Rightarrow> take_inode M ext2_lba grp gd (bm_set i bitmap) (num i) sb d2) } }) }"

definition AllocInode :: "'d Machine \<Rightarrow> Ext2SuperBlock \<Rightarrow> u32 \<Rightarrow> 'd \<Rightarrow> ((u32 \<times> Ext2SuperBlock) \<times> 'd) option" where
  "AllocInode M sb ext2_lba d = do {
     bsize \<leftarrow> block_size sb;
     group_count \<leftarrow> udiv (s_inodes_count sb + s_inodes_per_group sb - 1) (s_inodes_per_group sb);
     with_buf M (ucast bsize) (0, sb) (alloc_inode_groups M ext2_lba (group_list group_count) sb) d }"

definition FreeInode :: "'d Machine \<Rightarrow> Ext2SuperBlock \<Rightarrow> u32 \<Rightarrow> u32 \<Rightarrow> 'd \<Rightarrow> (Ext2SuperBlock \<times> 'd) option" where
  "FreeInode M sb inode ext2_lba d =
     (if inode = 0 then Some (sb, d) else do {
        bsize \<leftarrow> block_size sb;
        grp \<leftarrow> udiv (inode - 1) (s_inodes_per_group sb);
        inode_in_group \<leftarrow> umod (inode - 1) (s_inodes_per_group sb);
        (r, d1) \<leftarrow> ReadGroupDesc M sb grp ext2_lba d;
        (case r of Inl e \<Rightarrow> Some (sb, d1) | Inr gd \<Rightarrow>
          with_buf M (ucast bsize) sb (release M ext2_lba grp (bg_inode_bitmap gd) (unat inode_in_group)
            (gd\<lparr>bg_free_inodes_count := bg_free_inodes_count gd + 1\<rparr>) sb
            (sb\<lparr>s_free_inodes_count := s_free_inodes_count sb + 1\<rparr>)) d1) })"

end
