(* ===== verification/Ext2Inodes.thy ===== *)
theory Ext2Inodes
  imports Ext2Alloc
begin

text \<open>
  Inodes and their block pointers: \<^verbatim>\<open>src/fs/ext2/inode.cc\<close>, and \<open>Truncate\<close> of
  \<^verbatim>\<open>src/fs/ext2/lseek.cc\<close>.
\<close>

section \<open>Reading and writing inodes\<close>

text \<open>
  Group of an inode, and block and byte offset of its image inside the inode table of that group:
  the arithmetic that \<open>Inode2Block\<close>, \<open>ReadInode\<close> and \<open>WriteInode\<close> begin with.
\<close>

definition inode_place :: "Ext2SuperBlock \<Rightarrow> u32 \<Rightarrow> (u32 \<times> u32 \<times> u32) option" where
  "inode_place sb inode_num = do {
     bsize \<leftarrow> block_size sb;
     inodes_per_block \<leftarrow> udiv bsize (ucast (s_inode_size sb));
     grp \<leftarrow> udiv (inode_num - 1) (s_inodes_per_group sb);
     inode_in_group \<leftarrow> umod (inode_num - 1) (s_inodes_per_group sb);
     table_index \<leftarrow> udiv inode_in_group inodes_per_block;
     k \<leftarrow> umod inode_in_group inodes_per_block;
     Some (grp, table_index, k * ucast (s_inode_size sb)) }"

definition Inode2Block :: "'d Machine \<Rightarrow> Ext2SuperBlock \<Rightarrow> u32 \<Rightarrow> u32 \<Rightarrow> 'd \<Rightarrow> (u32 \<times> 'd) option" where
  "Inode2Block M sb inode_num ext2_lba d = do {
     (grp, table_index, _) \<leftarrow> inode_place sb inode_num;
     (r, d1) \<leftarrow> ReadGroupDesc M sb grp ext2_lba d;
     Some (case r of Inl e \<Rightarrow> 0 | Inr gd \<Rightarrow> bg_inode_table gd + table_index, d1) }"

definition ReadInode :: "'d Machine \<Rightarrow> Ext2SuperBlock \<Rightarrow> u32 \<Rightarrow> u32 \<Rightarrow> 'd \<Rightarrow> ((int + Ext2Inode) \<times> 'd) option" where
  "ReadInode M sb inode_num ext2_lba d =
     (if inode_num = 0 then Some (Inl (-1), d) else do {
        bsize \<leftarrow> block_size sb;
        (grp, table_index, inode_offset) \<leftarrow> inode_place sb inode_num;
        (r, d1) \<leftarrow> ReadGroupDesc M sb grp ext2_lba d;
        (case r of Inl e \<Rightarrow> Some (Inl (-2), d1) | Inr gd \<Rightarrow>
          with_buf M (ucast bsize) (Inl (-3)) (\<lambda>d. do {
            ((ret, data), d2) \<leftarrow> ReadBlock M sb (bg_inode_table gd + table_index) ext2_lba d;
            if ret \<noteq> 0 then Some (Inl (-4), d2)
            else if unat inode_offset + 128 > length data then None
            else Some (Inr (decode_inode (slice data (unat inode_offset) 128)), d2) }) d1) })"

definition WriteInode :: "'d Machine \<Rightarrow> Ext2SuperBlock \<Rightarrow> u32 \<Rightarrow> Ext2Inode \<Rightarrow> u32 \<Rightarrow> 'd \<Rightarrow> (int \<times> 'd) option" where
  "WriteInode M sb inode_num inode ext2_lba d =
     (if inode_num = 0 then Some (-1, d) else do {
        bsize \<leftarrow> block_size sb;
        (grp, table_index, inode_offset) \<leftarrow> inode_place sb inode_num;
        (r, d1) \<leftarrow> ReadGroupDesc M sb grp ext2_lba d;
        (case r of Inl e \<Rightarrow> Some (-2, d1) | Inr gd \<Rightarrow>
          with_buf M (ucast bsize) (-3) (\<lambda>d. do {
            ((ret, data), d2) \<leftarrow> ReadBlock M sb (bg_inode_table gd + table_index) ext2_lba d;
            if ret \<noteq> 0 then Some (-4, d2)
            else if unat inode_offset + 128 > length data then None
            else do {
              (ret, d3) \<leftarrow> WriteBlock M sb (bg_inode_table gd + table_index)
                (splice (unat inode_offset) (encode_inode inode) data) ext2_lba d2;
              Some (if ret \<noteq> 0 then -5 else 0, d3) } }) d1) })"

section \<open>Looking up a block pointer\<close>

text \<open>
  One indirection: the pointer at \<open>idx\<close> of the table in block \<open>tbl\<close>, or 0 when the table is absent,
  there is no memory, or the read fails.
\<close>

definition read_ptr :: "'d Machine \<Rightarrow> Ext2SuperBlock \<Rightarrow> u32 \<Rightarrow> u32 \<Rightarrow> u32 \<Rightarrow> 'd \<Rightarrow> (u32 \<times> 'd) option" where
  "read_ptr M sb tbl idx ext2_lba d =
     (if tbl = 0 then Some (0, d) else do {
        bsize \<leftarrow> block_size sb;
        with_buf M (ucast bsize) 0 (\<lambda>d. do {
          ((ret, data), d1) \<leftarrow> ReadBlock M sb tbl ext2_lba d;
          if ret \<noteq> 0 then Some (0, d1)
          else if 4 * unat idx + 4 > length data then None
          else Some (get32 data (4 * unat idx), d1) }) d })"

definition GetBlockNum :: "'d Machine \<Rightarrow> Ext2SuperBlock \<Rightarrow> Ext2Inode \<Rightarrow> u32 \<Rightarrow> u32 \<Rightarrow> 'd \<Rightarrow> (u32 \<times> 'd) option" where
  "GetBlockNum M sb inode block ext2_lba d = do {
     bsize \<leftarrow> block_size sb;
     let p = bsize div 4;
     if block < EXT2_NDIR_BLOCKS then Some (i_block inode ! unat block, d) else do {
       let b1 = block - EXT2_NDIR_BLOCKS;
       if b1 < p then read_ptr M sb (i_block inode ! EXT2_IND_BLOCK) b1 ext2_lba d else do {
         let b2 = b1 - p;
         if b2 < p * p then do {
           (ind, d1) \<leftarrow> read_ptr M sb (i_block inode ! EXT2_DIND_BLOCK) (b2 div p) ext2_lba d;
           read_ptr M sb ind (b2 mod p) ext2_lba d1 }
         else do {
           let b3 = b2 - p * p;
           if i_block inode ! EXT2_TIND_BLOCK = 0 then Some (0, d) else do {
             q \<leftarrow> udiv b3 (p * p);
             r \<leftarrow> umod b3 (p * p);
             (dind, d1) \<leftarrow> read_ptr M sb (i_block inode ! EXT2_TIND_BLOCK) q ext2_lba d;
             (ind, d2) \<leftarrow> read_ptr M sb dind (r div p) ext2_lba d1;
             read_ptr M sb ind (r mod p) ext2_lba d2 } } } } }"

section \<open>Setting a block pointer\<close>

text \<open>
  \<open>root_table\<close> makes sure the inode has a table at slot \<open>k\<close>; \<open>sub_table\<close> makes sure the table in
  block \<open>tbl\<close> has a table at \<open>idx\<close>.  \<open>Inl\<close> is the code with which \<open>SetBlockNum\<close> returns at that point,
  \<open>Inr\<close> the table to go on with.
\<close>

definition root_table :: "'d Machine \<Rightarrow> nat \<Rightarrow> u32 \<Rightarrow> u32 \<Rightarrow> Ext2Inode \<Rightarrow> Ext2SuperBlock \<Rightarrow> 'd \<Rightarrow>
    ((int + u32) \<times> Ext2Inode \<times> Ext2SuperBlock \<times> 'd) option" where
  "root_table M k num ext2_lba inode sb d =
     (if i_block inode ! k = 0 then
        if num = 0 then Some (Inl 0, inode, sb, d) else do {
          ((b, sb1), d1) \<leftarrow> AllocBlock M sb ext2_lba d;
          let inode1 = inode\<lparr>i_block := (i_block inode)[k := b]\<rparr>;
          Some (if b = 0 then Inl (-2) else Inr b, inode1, sb1, d1) }
      else Some (Inr (i_block inode ! k), inode, sb, d))"

definition sub_table :: "'d Machine \<Rightarrow> u32 \<Rightarrow> u32 \<Rightarrow> u32 \<Rightarrow> u32 \<Rightarrow> Ext2SuperBlock \<Rightarrow> 'd \<Rightarrow>
    (((int + u32) \<times> Ext2SuperBlock) \<times> 'd) option" where
  "sub_table M tbl idx num ext2_lba sb d = do {
     bsize \<leftarrow> block_size sb;
     with_buf M (ucast bsize) (Inl (-3), sb) (\<lambda>d. do {
       ((ret, data), d1) \<leftarrow> ReadBlock M sb tbl ext2_lba d;
       if ret \<noteq> 0 then Some ((Inl (-4), sb), d1)
       else if 4 * unat idx + 4 > length data then None
       else do {
         let t = get32 data (4 * unat idx);
         if t = 0 \<and> num = 0 then Some ((Inl 0, sb), d1) else do {
           ((t1, sb1), d2) \<leftarrow> (if t = 0 then AllocBlock M sb ext2_lba d1 else Some ((t, sb), d1));
           if t1 = 0 then Some ((Inl (-2), sb1), d2) else do {
             let data1 = (if t = 0 then splice (4 * unat idx) (le32 t1) data else data);
             (ret, d3) \<leftarrow> WriteBlock M sb1 tbl data1 ext2_lba d2;
             Some ((if ret \<noteq> 0 then Inl (-5) else Inr t1, sb1), d3) } } } }) d }"

definition write_ptr :: "'d Machine \<Rightarrow> Ext2SuperBlock \<Rightarrow> u32 \<Rightarrow> u32 \<Rightarrow> u32 \<Rightarrow> u32 \<Rightarrow> 'd \<Rightarrow> (int \<times> 'd) option" where
  "write_ptr M sb tbl idx num ext2_lba d = do {
     bsize \<leftarrow> block_size sb;
     with_buf M (ucast bsize) (-3) (\<lambda>d. do {
       ((ret, data), d1) \<leftarrow> ReadBlock M sb tbl ext2_lba d;
       if ret \<noteq> 0 then Some (-4, d1)
       else if 4 * unat idx + 4 > length data then None
       else do {
         (ret, d2) \<leftarrow> WriteBlock M sb tbl (splice (4 * unat idx) (le32 num) data) ext2_lba d1;
         Some (if ret \<noteq> 0 then -5 else 0, d2) } }) d }"

text \<open>From a table on, through the levels \<open>path\<close> of sub-tables to the slot \<open>idx\<close>.\<close>

fun set_along :: "'d Machine \<Rightarrow> u32 \<Rightarrow> u32 \<Rightarrow> u32 list \<Rightarrow> u32 \<Rightarrow> u32 \<Rightarrow> Ext2Inode \<Rightarrow> Ext2SuperBlock \<Rightarrow> 'd \<Rightarrow>
    (int \<times> Ext2Inode \<times> Ext2SuperBlock \<times> 'd) option" where
  "set_along M num ext2_lba [] idx tbl inode sb d = do {
     (ret, d1) \<leftarrow> write_ptr M sb tbl idx num ext2_lba d;
     Some (ret, inode, sb, d1) }"
| "set_along M num ext2_lba (k # path) idx tbl inode sb d = do {
     ((r, sb1), d1) \<leftarrow> sub_table M tbl k num ext2_lba sb d;
     (case r of Inl e \<Rightarrow> Some (e, inode, sb1, d1)
      | Inr t \<Rightarrow> set_along M num ext2_lba path idx t inode sb1 d1) }"

definition set_from_root :: "'d Machine \<Rightarrow> nat \<Rightarrow> u32 \<Rightarrow> u32 \<Rightarrow> u32 list \<Rightarrow> u32 \<Rightarrow> Ext2Inode \<Rightarrow> Ext2SuperBlock \<Rightarrow> 'd \<Rightarrow>
    (int \<times> Ext2Inode \<times> Ext2SuperBlock \<times> 'd) option" where
  "set_from_root M slot num ext2_lba path idx inode sb d = do {
     (r, inode1, sb1, d1) \<leftarrow> root_table M slot num ext2_lba inode sb d;
     (case r of Inl e \<Rightarrow> Some (e, inode1, sb1, d1)
      | Inr t \<Rightarrow> set_along M num ext2_lba path idx t inode1 sb1 d1) }"

definition SetBlockNum :: "'d Machine \<Rightarrow> Ext2Inode \<Rightarrow> u32 \<Rightarrow> u32 \<Rightarrow> u32 \<Rightarrow> Ext2SuperBlock \<Rightarrow> 'd \<Rightarrow>
    (int \<times> Ext2Inode \<times> Ext2SuperBlock \<times> 'd) option" where
  "SetBlockNum M inode block num ext2_lba sb d = do {
     bsize \<leftarrow> block_size sb;
     let p = bsize div 4;
     if block < EXT2_NDIR_BLOCKS then
       Some (0, inode\<lparr>i_block := (i_block inode)[unat block := num]\<rparr>, sb, d)
     else do {
       let b1 = block - EXT2_NDIR_BLOCKS;
       if b1 < p then set_from_root M EXT2_IND_BLOCK num ext2_lba [] b1 inode sb d else do {
         let b2 = b1 - p;
         if b2 < p * p then
           set_from_root M EXT2_DIND_BLOCK num ext2_lba [b2 div p] (b2 mod p) inode sb d
         else do {
           let b3 = b2 - p * p;
           if i_block inode ! EXT2_TIND_BLOCK = 0 \<and> num = 0 then Some (0, inode, sb, d) else do {
             q \<leftarrow> udiv b3 (p * p);
             r \<leftarrow> umod b3 (p * p);
             set_from_root M EXT2_TIND_BLOCK num ext2_lba [q, r div p] (r mod p) inode sb d } } } } }"

section \<open>Truncation\<close>

text \<open>The loop over the direct pointers.\<close>

fun free_direct :: "'d Machine \<Rightarrow> u32 \<Rightarrow> u32 \<Rightarrow> nat list \<Rightarrow> Ext2Inode \<Rightarrow> Ext2SuperBlock \<Rightarrow> 'd \<Rightarrow>
    (Ext2Inode \<times> Ext2SuperBlock \<times> 'd) option" where
  "free_direct M ext2_lba file_blocks [] inode sb d = Some (inode, sb, d)"
| "free_direct M ext2_lba file_blocks (i # is) inode sb d =
     (if of_nat i < file_blocks \<and> i_block inode ! i \<noteq> 0 then do {
        (sb1, d1) \<leftarrow> FreeBlock M sb (i_block inode ! i) ext2_lba d;
        free_direct M ext2_lba file_blocks is (inode\<lparr>i_block := (i_block inode)[i := 0]\<rparr>) sb1 d1 }
      else free_direct M ext2_lba file_blocks is inode sb d)"

text \<open>The loop over the pointers of one table, which start at file block \<open>first\<close>.\<close>

fun free_ptrs :: "'d Machine \<Rightarrow> u32 \<Rightarrow> u32 \<Rightarrow> u32 \<Rightarrow> byte list \<Rightarrow> nat list \<Rightarrow> Ext2SuperBlock \<Rightarrow> 'd \<Rightarrow>
    (Ext2SuperBlock \<times> 'd) option" where
  "free_ptrs M ext2_lba file_blocks first data [] sb d = Some (sb, d)"
| "free_ptrs M ext2_lba file_blocks first data (i # is) sb d =
     (if 4 * i + 4 > length data then None
      else if first + of_nat i < file_blocks \<and> get32 data (4 * i) \<noteq> 0 then do {
        (sb1, d1) \<leftarrow> FreeBlock M sb (get32 data (4 * i)) ext2_lba d;
        free_ptrs M ext2_lba file_blocks first data is sb1 d1 }
      else free_ptrs M ext2_lba file_blocks first data is sb d)"

text \<open>What an indirect block points to, and then the block itself.\<close>

definition free_table :: "'d Machine \<Rightarrow> u32 \<Rightarrow> u32 \<Rightarrow> u32 \<Rightarrow> u32 \<Rightarrow> u32 \<Rightarrow> Ext2SuperBlock \<Rightarrow> 'd \<Rightarrow>
    (Ext2SuperBlock \<times> 'd) option" where
  "free_table M ext2_lba file_blocks bsize first tbl sb d = do {
     (sb1, d1) \<leftarrow> with_buf M (ucast bsize) sb (\<lambda>d. do {
       ((ret, data), d1) \<leftarrow> ReadBlock M sb tbl ext2_lba d;
       if ret \<noteq> 0 then Some (sb, d1)
       else free_ptrs M ext2_lba file_blocks first data [0..<unat (bsize div 4)] sb d1 }) d;
     FreeBlock M sb1 tbl ext2_lba d1 }"

fun free_tables :: "'d Machine \<Rightarrow> u32 \<Rightarrow> u32 \<Rightarrow> u32 \<Rightarrow> byte list \<Rightarrow> nat list \<Rightarrow> Ext2SuperBlock \<Rightarrow> 'd \<Rightarrow>
    (Ext2SuperBlock \<times> 'd) option" where
  "free_tables M ext2_lba file_blocks bsize data [] sb d = Some (sb, d)"
| "free_tables M ext2_lba file_blocks bsize data (i # is) sb d =
     (if 4 * i + 4 > length data then None
      else if get32 data (4 * i) \<noteq> 0 then do {
        (sb1, d1) \<leftarrow> free_table M ext2_lba file_blocks bsize
          (EXT2_NDIR_BLOCKS + bsize div 4 + of_nat i * (bsize div 4)) (get32 data (4 * i)) sb d;
        free_tables M ext2_lba file_blocks bsize data is sb1 d1 }
      else free_tables M ext2_lba file_blocks bsize data is sb d)"

definition free_double :: "'d Machine \<Rightarrow> u32 \<Rightarrow> u32 \<Rightarrow> u32 \<Rightarrow> u32 \<Rightarrow> Ext2SuperBlock \<Rightarrow> 'd \<Rightarrow>
    (Ext2SuperBlock \<times> 'd) option" where
  "free_double M ext2_lba file_blocks bsize tbl sb d = do {
     (sb1, d1) \<leftarrow> with_buf M (ucast bsize) sb (\<lambda>d. do {
       ((ret, data), d1) \<leftarrow> ReadBlock M sb tbl ext2_lba d;
       if ret \<noteq> 0 then Some (sb, d1)
       else free_tables M ext2_lba file_blocks bsize data [0..<unat (bsize div 4)] sb d1 }) d;
     FreeBlock M sb1 tbl ext2_lba d1 }"

text \<open>One slot of the inode: release what \<open>f\<close> releases for it and clear the slot.\<close>

definition free_slot :: "nat \<Rightarrow> (u32 \<Rightarrow> Ext2SuperBlock \<Rightarrow> 'd \<Rightarrow> (Ext2SuperBlock \<times> 'd) option) \<Rightarrow>
    Ext2Inode \<Rightarrow> Ext2SuperBlock \<Rightarrow> 'd \<Rightarrow> (Ext2Inode \<times> Ext2SuperBlock \<times> 'd) option" where
  "free_slot k f inode sb d =
     (if i_block inode ! k \<noteq> 0 then do {
        (sb1, d1) \<leftarrow> f (i_block inode ! k) sb d;
        Some (inode\<lparr>i_block := (i_block inode)[k := 0]\<rparr>, sb1, d1) }
      else Some (inode, sb, d))"

definition TruncateInode :: "'d Machine \<Rightarrow> Ext2Inode \<Rightarrow> u32 \<Rightarrow> Ext2SuperBlock \<Rightarrow> 'd \<Rightarrow>
    (int \<times> Ext2Inode \<times> Ext2SuperBlock \<times> 'd) option" where
  "TruncateInode M inode ext2_lba sb d = do {
     bsize \<leftarrow> block_size sb;
     file_blocks \<leftarrow> udiv (i_size inode + bsize - 1) bsize;
     (inode1, sb1, d1) \<leftarrow> free_direct M ext2_lba file_blocks [0..<unat EXT2_NDIR_BLOCKS] inode sb d;
     (inode2, sb2, d2) \<leftarrow> free_slot EXT2_IND_BLOCK
       (free_table M ext2_lba file_blocks bsize EXT2_NDIR_BLOCKS) inode1 sb1 d1;
     (inode3, sb3, d3) \<leftarrow> free_slot EXT2_DIND_BLOCK
       (free_double M ext2_lba file_blocks bsize) inode2 sb2 d2;
     (inode4, sb4, d4) \<leftarrow> free_slot EXT2_TIND_BLOCK
       (\<lambda>b sb d. FreeBlock M sb b ext2_lba d) inode3 sb3 d3;
     Some (0, inode4\<lparr>i_size := 0, i_blocks := 0\<rparr>, sb4, d4) }"

text \<open>The loop of \<open>Truncate\<close> over the blocks beyond the new end.\<close>

fun trunc_blocks :: "'d Machine \<Rightarrow> u32 \<Rightarrow> u32 list \<Rightarrow> Ext2Inode \<Rightarrow> Ext2SuperBlock \<Rightarrow> 'd \<Rightarrow>
    (Ext2Inode \<times> Ext2SuperBlock \<times> 'd) option" where
  "trunc_blocks M ext2_lba [] inode sb d = Some (inode, sb, d)"
| "trunc_blocks M ext2_lba (i # is) inode sb d = do {
     (b, d1) \<leftarrow> GetBlockNum M sb inode i ext2_lba d;
     if b \<noteq> 0 then do {
       (sb1, d2) \<leftarrow> FreeBlock M sb b ext2_lba d1;
       (_, inode1, sb2, d3) \<leftarrow> SetBlockNum M inode i 0 ext2_lba sb1 d2;
       trunc_blocks M ext2_lba is inode1 sb2 d3 }
     else trunc_blocks M ext2_lba is inode sb d1 }"

definition Truncate :: "'d Machine \<Rightarrow> u32 \<Rightarrow> u64 \<Rightarrow> u32 \<Rightarrow> Ext2SuperBlock \<Rightarrow> 'd \<Rightarrow> (int \<times> Ext2SuperBlock \<times> 'd) option" where
  "Truncate M inode_num new_size ext2_lba sb d =
     (if inode_num = 0 then Some (-1, sb, d) else do {
        (r, d1) \<leftarrow> ReadInode M sb inode_num ext2_lba d;
        (case r of Inl e \<Rightarrow> Some (-2, sb, d1) | Inr inode \<Rightarrow>
          let old_size = ucast (i_size inode) :: u64 in
          if new_size = old_size then Some (0, sb, d1) else do {
            (inode1, sb1, d2) \<leftarrow>
              (if new_size < old_size then do {
                 bsize \<leftarrow> block_size sb;
                 old_blocks \<leftarrow> udiv (old_size + ucast bsize - 1) (ucast bsize);
                 new_blocks \<leftarrow> udiv (new_size + ucast bsize - 1) (ucast bsize);
                 trunc_blocks M ext2_lba
                   (map of_nat [unat (ucast new_blocks :: u32)..<unat (ucast old_blocks :: u32)]) inode sb d1 }
               else Some (inode, sb, d1));
            (ret, d3) \<leftarrow> WriteInode M sb1 inode_num (inode1\<lparr>i_size := ucast new_size\<rparr>) ext2_lba d2;
            Some (if ret \<noteq> 0 then -3 else 0, sb1, d3) }) })"

end
