(* ===== verification/Ext2Dirs.thy ===== *)
theory Ext2Dirs
  imports Ext2Inodes VfsTypes
begin

text \<open>
  Directories: \<^verbatim>\<open>src/fs/ext2/dir.cc\<close>.  A directory block is a chain of entries, each with its length;
  a name or path is a C string given as the list of its bytes before the terminating zero.
\<close>

section \<open>Entries in a block\<close>

text \<open>
  The four header fields at an offset; a header that is not inside the block has no result.
  \<open>FindEntry\<close> hands out the name as well, but no caller looks at it.
\<close>

record Ext2DirEntry =
  de_inode :: u32
  rec_len :: u16
  name_len :: byte
  file_type :: byte

definition dir_entry :: "byte list \<Rightarrow> nat \<Rightarrow> Ext2DirEntry option" where
  "dir_entry data off =
     (if off + 8 > length data then None
      else Some \<lparr>de_inode = get32 data off, rec_len = get16 data (off + 4), name_len = data ! (off + 6),
        file_type = data ! (off + 7)\<rparr>)"

text \<open>
  \<^verbatim>\<open>strncmp(name, dir->name, n) == 0\<close> followed by the test \<^verbatim>\<open>name[n] == '\0'\<close>, where \<open>rest\<close> is the
  block from the entry's name on.  The first function stops at a difference or at the end of \<open>name\<close>;
  the second reads \<open>name\<close> at \<open>n\<close>, which has no result beyond its terminating zero.
\<close>

fun strncmp_eq :: "byte list \<Rightarrow> byte list \<Rightarrow> nat \<Rightarrow> bool option" where
  "strncmp_eq name rest 0 = Some True"
| "strncmp_eq name [] (Suc n) = None"
| "strncmp_eq [] (b # rest) (Suc n) = Some (b = 0)"
| "strncmp_eq (c # name) (b # rest) (Suc n) = (if c = b then strncmp_eq name rest n else Some False)"

definition name_matches :: "byte list \<Rightarrow> byte list \<Rightarrow> nat \<Rightarrow> Ext2DirEntry \<Rightarrow> bool option" where
  "name_matches name data off e =
     (if de_inode e \<noteq> 0 \<and> name_len e > 0 then do {
        let n = unat (name_len e);
        eq \<leftarrow> strncmp_eq name (drop (off + 8) data) n;
        if \<not> eq then Some False
        else if n > length name then None
        else Some (n = length name) }
      else Some False)"

text \<open>Offsets are \<^verbatim>\<open>uint32_t\<close>, and the chain is followed by adding the length of the entry.\<close>

definition find_body :: "u32 \<Rightarrow> byte list \<Rightarrow> byte list \<Rightarrow> u32 \<Rightarrow> (u32, Ext2DirEntry option) step option" where
  "find_body bsize name data off =
     (if off < bsize then do {
        e \<leftarrow> dir_entry data (unat off);
        hit \<leftarrow> name_matches name data (unat off) e;
        Some (if hit then Done (Some e) else Next (off + ucast (rec_len e))) }
      else Some (Done None))"

definition dir_blocks :: "Ext2SuperBlock \<Rightarrow> Ext2Inode \<Rightarrow> u32 option" where
  "dir_blocks sb inode = do {
     bsize \<leftarrow> block_size sb;
     udiv (i_size inode + bsize - 1) bsize }"

definition is_dir :: "Ext2Inode \<Rightarrow> bool" where
  "is_dir inode \<longleftrightarrow> i_mode inode AND EXT2_S_IFDIR \<noteq> 0"

fun find_blocks :: "'d Machine \<Rightarrow> Ext2SuperBlock \<Rightarrow> u32 \<Rightarrow> u32 \<Rightarrow> byte list \<Rightarrow> Ext2Inode \<Rightarrow> u32 list \<Rightarrow> 'd \<Rightarrow>
    (Ext2DirEntry option \<times> 'd) option" where
  "find_blocks M sb ext2_lba bsize name inode [] d = Some (None, d)"
| "find_blocks M sb ext2_lba bsize name inode (i # is) d = do {
     (b, d1) \<leftarrow> GetBlockNum M sb inode i ext2_lba d;
     if b = 0 then find_blocks M sb ext2_lba bsize name inode is d1 else do {
       ((ret, data), d2) \<leftarrow> ReadBlock M sb b ext2_lba d1;
       if ret \<noteq> 0 then find_blocks M sb ext2_lba bsize name inode is d2 else do {
         r \<leftarrow> loop (find_body bsize name data) 0;
         (case r of Some e \<Rightarrow> Some (Some e, d2)
          | None \<Rightarrow> find_blocks M sb ext2_lba bsize name inode is d2) } } }"

definition FindEntry :: "'d Machine \<Rightarrow> Ext2SuperBlock \<Rightarrow> Ext2Inode \<Rightarrow> byte list \<Rightarrow> u32 \<Rightarrow> 'd \<Rightarrow>
    ((int + Ext2DirEntry) \<times> 'd) option" where
  "FindEntry M sb dir_inode name ext2_lba d =
     (if \<not> is_dir dir_inode then Some (Inl (-2), d) else do {
        bsize \<leftarrow> block_size sb;
        block_count \<leftarrow> dir_blocks sb dir_inode;
        with_buf M (ucast bsize) (Inl (-3)) (\<lambda>d. do {
          (r, d1) \<leftarrow> find_blocks M sb ext2_lba bsize name dir_inode (group_list block_count) d;
          Some (case r of Some e \<Rightarrow> Inr e | None \<Rightarrow> Inl (-4), d1) }) d })"

section \<open>Adding an entry\<close>

definition align4 :: "u16 \<Rightarrow> u16" where
  "align4 x = (x + 3) AND NOT 3"

text \<open>Writing a whole entry at an offset; an entry that leaves the block has no result.\<close>

definition put_entry :: "nat \<Rightarrow> u32 \<Rightarrow> u16 \<Rightarrow> byte \<Rightarrow> byte list \<Rightarrow> byte list \<Rightarrow> byte list option" where
  "put_entry off ino len ft name data =
     (if off + 8 + length name > length data then None
      else Some (splice off (le32 ino @ le16 len @ [of_nat (length name), ft] @ name) data))"

definition set_rec_len :: "nat \<Rightarrow> u16 \<Rightarrow> byte list \<Rightarrow> byte list" where
  "set_rec_len off len data = splice (off + 4) (le16 len) data"

text \<open>
  One step of the search for room: split the entry at \<open>off\<close> when it is in use and long enough,
  take it over when it is unused and long enough, otherwise go on.
\<close>

definition add_body :: "u32 \<Rightarrow> u32 \<Rightarrow> byte list \<Rightarrow> byte \<Rightarrow> u16 \<Rightarrow> byte list \<Rightarrow> u32 \<Rightarrow> (u32, byte list option) step option" where
  "add_body bsize ino name ft entry_len data off =
     (if off < bsize then do {
        e \<leftarrow> dir_entry data (unat off);
        let used_len = align4 (8 + ucast (name_len e));
        if de_inode e \<noteq> 0 then
          if uint (rec_len e) - uint used_len \<ge> uint entry_len then do {
            data1 \<leftarrow> put_entry (unat off + unat used_len) ino (rec_len e - used_len) ft name data;
            Some (Done (Some (set_rec_len (unat off) used_len data1))) }
          else Some (Next (off + ucast (rec_len e)))
        else if rec_len e \<ge> entry_len then do {
          data1 \<leftarrow> put_entry (unat off) ino entry_len ft name data;
          Some (Done (Some data1)) }
        else Some (Next (off + ucast (rec_len e))) }
      else Some (Done None))"

text \<open>The loop over the blocks of the directory: \<open>Inl\<close> is the code to return, \<open>Inr\<close> means no room.\<close>

fun add_blocks :: "'d Machine \<Rightarrow> u32 \<Rightarrow> u32 \<Rightarrow> u32 \<Rightarrow> byte list \<Rightarrow> byte \<Rightarrow> u16 \<Rightarrow> u32 list \<Rightarrow>
    Ext2Inode \<Rightarrow> Ext2SuperBlock \<Rightarrow> 'd \<Rightarrow> ((int + unit) \<times> Ext2Inode \<times> Ext2SuperBlock \<times> 'd) option" where
  "add_blocks M ext2_lba bsize ino name ft entry_len [] inode sb d = Some (Inr (), inode, sb, d)"
| "add_blocks M ext2_lba bsize ino name ft entry_len (i # is) inode sb d = do {
     (b, d1) \<leftarrow> GetBlockNum M sb inode i ext2_lba d;
     (blk, inode1, sb1, d2) \<leftarrow>
       (if b = 0 then do {
          ((nb, sb1), d2) \<leftarrow> AllocBlock M sb ext2_lba d1;
          if nb = 0 then Some (Inl (-5), inode, sb1, d2) else do {
            (_, inode1, sb2, d3) \<leftarrow> SetBlockNum M inode i nb ext2_lba sb1 d2;
            Some (Inr (Some (nb, replicate (unat bsize) 0)), inode1, sb2, d3) } }
        else do {
          ((ret, data), d2) \<leftarrow> ReadBlock M sb b ext2_lba d1;
          Some (Inr (if ret \<noteq> 0 then None else Some (b, data)), inode, sb, d2) });
     (case blk of
        Inl e \<Rightarrow> Some (Inl e, inode1, sb1, d2)
      | Inr None \<Rightarrow> add_blocks M ext2_lba bsize ino name ft entry_len is inode1 sb1 d2
      | Inr (Some (nb, data)) \<Rightarrow> do {
          r \<leftarrow> loop (add_body bsize ino name ft entry_len data) 0;
          (case r of
             Some data1 \<Rightarrow> do {
               (ret, d3) \<leftarrow> WriteBlock M sb1 nb data1 ext2_lba d2;
               Some (Inl (if ret \<noteq> 0 then -6 else 0), inode1, sb1, d3) }
           | None \<Rightarrow> add_blocks M ext2_lba bsize ino name ft entry_len is inode1 sb1 d2) }) }"

definition AddEntry :: "'d Machine \<Rightarrow> Ext2Inode \<Rightarrow> u32 \<Rightarrow> byte list \<Rightarrow> byte \<Rightarrow> u32 \<Rightarrow> Ext2SuperBlock \<Rightarrow> 'd \<Rightarrow>
    ((int \<times> Ext2Inode \<times> Ext2SuperBlock) \<times> 'd) option" where
  "AddEntry M dir_inode ino name ft ext2_lba sb d =
     (if \<not> is_dir dir_inode then Some ((-2, dir_inode, sb), d)
      else if length name > 255 then Some ((-3, dir_inode, sb), d)
      else do {
        bsize \<leftarrow> block_size sb;
        block_count \<leftarrow> dir_blocks sb dir_inode;
        let entry_len = align4 (8 + of_nat (length name));
        with_buf M (ucast bsize) (-4, dir_inode, sb) (\<lambda>d. do {
          (r, inode1, sb1, d1) \<leftarrow>
            add_blocks M ext2_lba bsize ino name ft entry_len (group_list block_count) dir_inode sb d;
          (case r of
             Inl e \<Rightarrow> Some ((e, inode1, sb1), d1)
           | Inr _ \<Rightarrow> do {
               ((nb, sb2), d2) \<leftarrow> AllocBlock M sb1 ext2_lba d1;
               if nb = 0 then Some ((-5, inode1, sb2), d2) else do {
                 (_, inode2, sb3, d3) \<leftarrow> SetBlockNum M inode1 block_count nb ext2_lba sb2 d2;
                 data \<leftarrow> put_entry 0 ino (ucast bsize) ft name (replicate (unat bsize) 0);
                 (ret, d4) \<leftarrow> WriteBlock M sb3 nb data ext2_lba d3;
                 Some (if ret \<noteq> 0 then (-6, inode2, sb3)
                   else (0, inode2\<lparr>i_size := i_size inode2 + bsize\<rparr>, sb3), d4) } }) }) d })"

section \<open>Removing an entry\<close>

text \<open>The state of the scan is the offset and the previous entry, if any.\<close>

definition remove_body :: "u32 \<Rightarrow> byte list \<Rightarrow> byte list \<Rightarrow> u32 \<times> (u32 \<times> Ext2DirEntry) option \<Rightarrow>
    (u32 \<times> (u32 \<times> Ext2DirEntry) option, byte list option) step option" where
  "remove_body bsize name data = (\<lambda>(off, prev).
     if off < bsize then do {
       e \<leftarrow> dir_entry data (unat off);
       hit \<leftarrow> name_matches name data (unat off) e;
       Some (if hit then
           Done (Some (case prev of
             Some (poff, pe) \<Rightarrow> set_rec_len (unat poff) (rec_len pe + rec_len e) data
           | None \<Rightarrow> splice (unat off) (le32 0) data))
         else Next (off + ucast (rec_len e), Some (off, e))) }
     else Some (Done None))"

fun remove_blocks :: "'d Machine \<Rightarrow> Ext2SuperBlock \<Rightarrow> u32 \<Rightarrow> u32 \<Rightarrow> byte list \<Rightarrow> Ext2Inode \<Rightarrow> u32 list \<Rightarrow> 'd \<Rightarrow>
    (int \<times> 'd) option" where
  "remove_blocks M sb ext2_lba bsize name inode [] d = Some (-5, d)"
| "remove_blocks M sb ext2_lba bsize name inode (i # is) d = do {
     (b, d1) \<leftarrow> GetBlockNum M sb inode i ext2_lba d;
     if b = 0 then remove_blocks M sb ext2_lba bsize name inode is d1 else do {
       ((ret, data), d2) \<leftarrow> ReadBlock M sb b ext2_lba d1;
       if ret \<noteq> 0 then remove_blocks M sb ext2_lba bsize name inode is d2 else do {
         r \<leftarrow> loop (remove_body bsize name data) (0, None);
         (case r of
            Some data1 \<Rightarrow> do {
              (ret, d3) \<leftarrow> WriteBlock M sb b data1 ext2_lba d2;
              Some (if ret \<noteq> 0 then -4 else 0, d3) }
          | None \<Rightarrow> remove_blocks M sb ext2_lba bsize name inode is d2) } } }"

definition RemoveEntry :: "'d Machine \<Rightarrow> Ext2SuperBlock \<Rightarrow> Ext2Inode \<Rightarrow> byte list \<Rightarrow> u32 \<Rightarrow> 'd \<Rightarrow> (int \<times> 'd) option" where
  "RemoveEntry M sb dir_inode name ext2_lba d =
     (if \<not> is_dir dir_inode then Some (-2, d) else do {
        bsize \<leftarrow> block_size sb;
        block_count \<leftarrow> dir_blocks sb dir_inode;
        with_buf M (ucast bsize) (-3)
          (remove_blocks M sb ext2_lba bsize name dir_inode (group_list block_count)) d })"

section \<open>Paths\<close>

text \<open>The walk along the components of a path; \<open>path\<close> is what is left of it.\<close>

function lookup_from :: "'d Machine \<Rightarrow> Ext2SuperBlock \<Rightarrow> u32 \<Rightarrow> byte list \<Rightarrow> u32 \<Rightarrow> Ext2Inode \<Rightarrow> 'd \<Rightarrow>
    ((int + u32) \<times> 'd) option" where
  "lookup_from M sb ext2_lba path ino inode d =
     (if path = [] then Some (Inr ino, d) else do {
        let name = takeWhile (\<lambda>c. c \<noteq> 47) path;
        if length name \<ge> 256 then Some (Inl (-4), d) else do {
          (r, d1) \<leftarrow> FindEntry M sb inode name ext2_lba d;
          (case r of Inl _ \<Rightarrow> Some (Inl (-5), d1) | Inr e \<Rightarrow> do {
            (r2, d2) \<leftarrow> ReadInode M sb (de_inode e) ext2_lba d1;
            (case r2 of Inl _ \<Rightarrow> Some (Inl (-3), d2) | Inr inode1 \<Rightarrow>
              if length name = length path then Some (Inr (de_inode e), d2)
              else lookup_from M sb ext2_lba (drop (length name + 1) path) (de_inode e) inode1 d2) }) } })"
  by pat_completeness auto
termination by (relation "measure (\<lambda>(_, _, _, path, _). length path)") auto

declare lookup_from.simps [simp del]

definition LookupPath :: "'d Machine \<Rightarrow> Ext2SuperBlock \<Rightarrow> byte list \<Rightarrow> u32 \<Rightarrow> 'd \<Rightarrow> ((int + u32) \<times> 'd) option" where
  "LookupPath M sb path ext2_lba d =
     (case path of
        [] \<Rightarrow> Some (Inl (-2), d)
      | c # rest \<Rightarrow>
          if c \<noteq> 47 then Some (Inl (-2), d) else do {
            (r, d1) \<leftarrow> ReadInode M sb EXT2_ROOT_INO ext2_lba d;
            (case r of Inl _ \<Rightarrow> Some (Inl (-3), d1)
             | Inr inode \<Rightarrow> lookup_from M sb ext2_lba rest EXT2_ROOT_INO inode d1) })"

section \<open>Listing\<close>

text \<open>The scan of one block, counting live entries from \<open>k\<close> on until the wanted index.\<close>

definition readdir_body :: "u32 \<Rightarrow> byte list \<Rightarrow> u32 \<Rightarrow> u32 \<times> u32 \<Rightarrow> (u32 \<times> u32, (u32 \<times> Ext2DirEntry) + u32) step option" where
  "readdir_body bsize data index = (\<lambda>(off, k).
     if off < bsize then do {
       e \<leftarrow> dir_entry data (unat off);
       Some (if de_inode e \<noteq> 0 \<and> name_len e > 0 then
           if k = index then Done (Inl (off, e)) else Next (off + ucast (rec_len e), k + 1)
         else Next (off + ucast (rec_len e), k)) }
     else Some (Done (Inr k)))"

fun readdir_blocks :: "'d Machine \<Rightarrow> Ext2SuperBlock \<Rightarrow> u32 \<Rightarrow> u32 \<Rightarrow> u32 \<Rightarrow> Ext2Inode \<Rightarrow> u32 list \<Rightarrow> u32 \<Rightarrow> 'd \<Rightarrow>
    ((addr \<times> DirEntry) option \<times> 'd) option" where
  "readdir_blocks M sb ext2_lba bsize index inode [] k d = Some (None, d)"
| "readdir_blocks M sb ext2_lba bsize index inode (i # is) k d = do {
     (b, d1) \<leftarrow> GetBlockNum M sb inode i ext2_lba d;
     if b = 0 then readdir_blocks M sb ext2_lba bsize index inode is k d1 else do {
       ((ret, data), d2) \<leftarrow> ReadBlock M sb b ext2_lba d1;
       if ret \<noteq> 0 then readdir_blocks M sb ext2_lba bsize index inode is k d2 else do {
         r \<leftarrow> loop (readdir_body bsize data index) (0, k);
         (case r of
            Inr k1 \<Rightarrow> readdir_blocks M sb ext2_lba bsize index inode is k1 d2
          | Inl (off, e) \<Rightarrow>
              if unat off + 8 + unat (name_len e) > length data then None else do {
                (p, d3) \<leftarrow> page_Alloc M sizeof_DirEntry d2;
                Some (map_option (\<lambda>a. (a, \<lparr>d_name = slice data (unat off + 8) (unat (name_len e)),
                  d_inode = de_inode e, d_type = ucast (file_type e)\<rparr>)) p, d3) }) } } }"

definition Readdir :: "'d Machine \<Rightarrow> Ext2SuperBlock \<Rightarrow> u32 \<Rightarrow> u32 \<Rightarrow> u32 \<Rightarrow> 'd \<Rightarrow> ((addr \<times> DirEntry) option \<times> 'd) option" where
  "Readdir M sb dir_inode_num index ext2_lba d = do {
     (r, d1) \<leftarrow> ReadInode M sb dir_inode_num ext2_lba d;
     (case r of Inl _ \<Rightarrow> Some (None, d1) | Inr dir_inode \<Rightarrow>
       if \<not> is_dir dir_inode then Some (None, d1) else do {
         bsize \<leftarrow> block_size sb;
         block_count \<leftarrow> dir_blocks sb dir_inode;
         with_buf M (ucast bsize) None
           (readdir_blocks M sb ext2_lba bsize index dir_inode (group_list block_count) 0) d1 }) }"

end
