(* ===== verification/Ext2Files.thy ===== *)
theory Ext2Files
  imports Ext2Dirs
begin

text \<open>
  Files: reading and writing data, creation and deletion (\<^verbatim>\<open>src/fs/ext2/file.cc\<close>), offsets and
  sizes (\<^verbatim>\<open>src/fs/ext2/lseek.cc\<close>), and the operations that ext2 gives to the virtual file system
  (\<^verbatim>\<open>src/fs/ext2/fs.cc\<close>).
\<close>

section \<open>Data\<close>

text \<open>The part of a block that one round of the copy loops handles: block, offset in it, length.\<close>

definition chunk :: "u32 \<Rightarrow> u64 \<Rightarrow> u64 \<Rightarrow> u64 \<Rightarrow> (u32 \<times> u32 \<times> u32) option" where
  "chunk bsize offset bytes copied = do {
     let file_offset = offset + copied;
     q \<leftarrow> udiv file_offset (ucast bsize);
     r \<leftarrow> umod file_offset (ucast bsize);
     let block_offset = (ucast r :: u32);
     let in_block = bsize - block_offset;
     let remaining = bytes - copied;
     Some (ucast q, block_offset, if ucast in_block > remaining then ucast remaining else in_block) }"

definition read_body :: "'d Machine \<Rightarrow> Ext2SuperBlock \<Rightarrow> Ext2Inode \<Rightarrow> u32 \<Rightarrow> u32 \<Rightarrow> u64 \<Rightarrow> u64 \<Rightarrow>
    u64 \<times> byte list \<times> 'd \<Rightarrow> (u64 \<times> byte list \<times> 'd, u64 \<times> byte list \<times> 'd) step option" where
  "read_body M sb inode bsize ext2_lba offset bytes = (\<lambda>(copied, out, d).
     if copied < bytes then do {
       (block_index, block_offset, n) \<leftarrow> chunk bsize offset bytes copied;
       (b, d1) \<leftarrow> GetBlockNum M sb inode block_index ext2_lba d;
       if b = 0 then Some (Done (copied, out, d1)) else do {
         ((ok, data), d2) \<leftarrow> with_buf M (ucast bsize) (False, []) (\<lambda>d. do {
           ((ret, data), d2) \<leftarrow> ReadBlock M sb b ext2_lba d;
           Some ((ret = 0, data), d2) }) d1;
         Some (if ok then Next (copied + ucast n, out @ slice data (unat block_offset) (unat n), d2)
               else Done (copied, out, d2)) } }
     else Some (Done (copied, out, d)))"

text \<open>The result is the return value and the bytes stored in the caller's buffer.\<close>

definition ReadFile :: "'d Machine \<Rightarrow> Ext2SuperBlock \<Rightarrow> Ext2Inode \<Rightarrow> u64 \<Rightarrow> u64 \<Rightarrow> u32 \<Rightarrow> 'd \<Rightarrow>
    ((int \<times> byte list) \<times> 'd) option" where
  "ReadFile M sb inode count offset ext2_lba d =
     (if is_dir inode then Some ((-2, []), d) else do {
        bsize \<leftarrow> block_size sb;
        let file_size = (ucast (i_size inode) :: u64);
        if offset \<ge> file_size then Some ((0, []), d) else do {
          let bytes = (if offset + count > file_size then file_size - offset else count);
          (copied, out, d1) \<leftarrow> loop (read_body M sb inode bsize ext2_lba offset bytes) (0, [], d);
          Some ((sint copied, out), d1) } })"

text \<open>One round of the write loop: \<open>buf\<close> is the caller's buffer.\<close>

definition write_body :: "'d Machine \<Rightarrow> byte list \<Rightarrow> u32 \<Rightarrow> u32 \<Rightarrow> u64 \<Rightarrow> u64 \<Rightarrow>
    u64 \<times> Ext2Inode \<times> Ext2SuperBlock \<times> 'd \<Rightarrow>
    (u64 \<times> Ext2Inode \<times> Ext2SuperBlock \<times> 'd, u64 \<times> Ext2Inode \<times> Ext2SuperBlock \<times> 'd) step option" where
  "write_body M buf bsize ext2_lba offset bytes = (\<lambda>(copied, inode, sb, d).
     if copied < bytes then do {
       (block_index, block_offset, n) \<leftarrow> chunk bsize offset bytes copied;
       (b0, d1) \<leftarrow> GetBlockNum M sb inode block_index ext2_lba d;
       (b, inode1, sb1, d2) \<leftarrow>
         (if b0 = 0 then do {
            ((nb, sb1), d2) \<leftarrow> AllocBlock M sb ext2_lba d1;
            if nb = 0 then Some (0, inode, sb1, d2) else do {
              (_, inode1, sb2, d3) \<leftarrow> SetBlockNum M inode block_index nb ext2_lba sb1 d2;
              Some (nb, inode1, sb2, d3) } }
          else Some (b0, inode, sb, d1));
       if b = 0 then Some (Done (copied, inode1, sb1, d2))
       else if unat copied + unat n > length buf then None else do {
         (ok, d3) \<leftarrow> with_buf M (ucast bsize) False (\<lambda>d. do {
           ((ret, data), d3) \<leftarrow> ReadBlock M sb1 b ext2_lba d;
           if ret \<noteq> 0 then Some (False, d3) else do {
             (ret, d4) \<leftarrow> WriteBlock M sb1 b
               (splice (unat block_offset) (slice buf (unat copied) (unat n)) data) ext2_lba d3;
             Some (ret = 0, d4) } }) d2;
         Some (if ok then Next (copied + ucast n, inode1, sb1, d3) else Done (copied, inode1, sb1, d3)) } }
     else Some (Done (copied, inode, sb, d)))"

definition WriteFile :: "'d Machine \<Rightarrow> Ext2Inode \<Rightarrow> byte list \<Rightarrow> u64 \<Rightarrow> u64 \<Rightarrow> u32 \<Rightarrow> Ext2SuperBlock \<Rightarrow> 'd \<Rightarrow>
    (int \<times> Ext2Inode \<times> Ext2SuperBlock \<times> 'd) option" where
  "WriteFile M inode buf count offset ext2_lba sb d =
     (if is_dir inode then Some (-2, inode, sb, d) else do {
        bsize \<leftarrow> block_size sb;
        let new_size = offset + count;
        let inode1 = (if new_size > ucast (i_size inode) then inode\<lparr>i_size := ucast new_size\<rparr> else inode);
        (copied, inode2, sb1, d1) \<leftarrow> loop (write_body M buf bsize ext2_lba offset count) (0, inode1, sb, d);
        Some (sint copied, inode2, sb1, d1) })"

section \<open>Creating and deleting\<close>

text \<open>
  Splitting a path at its last slash into the parent's path and the name: \<open>Inl\<close> is the error for a
  parent path of 256 bytes or more, and a name that does not fit its array of 256 has no result.
\<close>

definition last_slash :: "byte list \<Rightarrow> nat option" where
  "last_slash path = find (\<lambda>i. path ! i = 47) (rev [0..<length path])"

definition split_path :: "int \<Rightarrow> byte list \<Rightarrow> nat \<Rightarrow> (int + byte list \<times> byte list) option" where
  "split_path err path i =
     (if i \<noteq> 0 \<and> i \<ge> 256 then Some (Inl err)
      else if length path - (i + 1) \<ge> 256 then None
      else Some (Inr (if i = 0 then [47] else take i path, drop (i + 1) path)))"

definition new_inode :: "u16 \<Rightarrow> Ext2Inode" where
  "new_inode mode = \<lparr>i_mode = mode, i_uid = 0, i_size = 0, i_atime = 0, i_ctime = 0, i_mtime = 0, i_dtime = 0,
     i_gid = 0, i_links_count = 1, i_blocks = 0, i_flags = 0, i_osd1 = 0, i_block = replicate 15 0,
     i_generation = 0, i_file_acl = 0, i_dir_acl = 0, i_faddr = 0, i_osd2 = replicate 12 0\<rparr>"

text \<open>From the parent directory on: the name must be new; inode, entry, and the parent written back.\<close>

definition create_in :: "'d Machine \<Rightarrow> u32 \<Rightarrow> Ext2Inode \<Rightarrow> byte list \<Rightarrow> u16 \<Rightarrow> u32 \<Rightarrow> Ext2SuperBlock \<Rightarrow> 'd \<Rightarrow>
    ((int \<times> Ext2SuperBlock) \<times> 'd) option" where
  "create_in M parent_num parent filename mode ext2_lba sb d = do {
     (found, d1) \<leftarrow> FindEntry M sb parent filename ext2_lba d;
     (case found of Inr _ \<Rightarrow> Some ((-8, sb), d1) | Inl _ \<Rightarrow> do {
       ((num, sb1), d2) \<leftarrow> AllocInode M sb ext2_lba d1;
       if num = 0 then Some ((-9, sb1), d2) else do {
         (ret, d3) \<leftarrow> WriteInode M sb1 num (new_inode mode) ext2_lba d2;
         if ret \<noteq> 0 then do {
           (sb2, d4) \<leftarrow> FreeInode M sb1 num ext2_lba d3;
           Some ((-10, sb2), d4) }
         else do {
           ((ret, parent1, sb2), d4) \<leftarrow> AddEntry M parent num filename 1 ext2_lba sb1 d3;
           if ret \<noteq> 0 then do {
             (sb3, d5) \<leftarrow> FreeInode M sb2 num ext2_lba d4;
             Some ((-11, sb3), d5) }
           else do {
             (_, d5) \<leftarrow> WriteInode M sb2 parent_num (parent1\<lparr>i_mtime := 0\<rparr>) ext2_lba d4;
             Some ((sint num, sb2), d5) } } } }) }"

definition CreateFile :: "'d Machine \<Rightarrow> byte list \<Rightarrow> u16 \<Rightarrow> u32 \<Rightarrow> Ext2SuperBlock \<Rightarrow> 'd \<Rightarrow>
    ((int \<times> Ext2SuperBlock) \<times> 'd) option" where
  "CreateFile M path mode ext2_lba sb d =
     (case last_slash path of None \<Rightarrow> Some ((-2, sb), d) | Some i \<Rightarrow> do {
        x \<leftarrow> split_path (-3) path i;
        (case x of Inl e \<Rightarrow> Some ((e, sb), d) | Inr (parent_path, filename) \<Rightarrow>
          if filename = [] then Some ((-4, sb), d) else do {
            (r, d1) \<leftarrow> LookupPath M sb parent_path ext2_lba d;
            (case r of Inl _ \<Rightarrow> Some ((-5, sb), d1) | Inr parent_num \<Rightarrow> do {
              (r, d2) \<leftarrow> ReadInode M sb parent_num ext2_lba d1;
              (case r of Inl _ \<Rightarrow> Some ((-6, sb), d2) | Inr parent \<Rightarrow>
                if \<not> is_dir parent then Some ((-7, sb), d2)
                else create_in M parent_num parent filename mode ext2_lba sb d2) }) }) })"

definition DeleteFile :: "'d Machine \<Rightarrow> byte list \<Rightarrow> u32 \<Rightarrow> Ext2SuperBlock \<Rightarrow> 'd \<Rightarrow> ((int \<times> Ext2SuperBlock) \<times> 'd) option" where
  "DeleteFile M path ext2_lba sb d = do {
     (r, d1) \<leftarrow> LookupPath M sb path ext2_lba d;
     (case r of Inl _ \<Rightarrow> Some ((-2, sb), d1) | Inr inode_num \<Rightarrow> do {
       (r, d2) \<leftarrow> ReadInode M sb inode_num ext2_lba d1;
       (case r of Inl _ \<Rightarrow> Some ((-3, sb), d2) | Inr inode \<Rightarrow>
         if is_dir inode then Some ((-4, sb), d2)
         else (case last_slash path of None \<Rightarrow> Some ((-5, sb), d2) | Some i \<Rightarrow> do {
           x \<leftarrow> split_path (-6) path i;
           (case x of Inl e \<Rightarrow> Some ((e, sb), d2) | Inr (parent_path, filename) \<Rightarrow> do {
             (r, d3) \<leftarrow> LookupPath M sb parent_path ext2_lba d2;
             (case r of Inl _ \<Rightarrow> Some ((-7, sb), d3) | Inr parent_num \<Rightarrow> do {
               (r, d4) \<leftarrow> ReadInode M sb parent_num ext2_lba d3;
               (case r of Inl _ \<Rightarrow> Some ((-8, sb), d4) | Inr parent \<Rightarrow> do {
                 (ret, d5) \<leftarrow> RemoveEntry M sb parent filename ext2_lba d4;
                 if ret \<noteq> 0 then Some ((-9, sb), d5) else do {
                   (_, _, sb1, d6) \<leftarrow> TruncateInode M inode ext2_lba sb d5;
                   (sb2, d7) \<leftarrow> FreeInode M sb1 inode_num ext2_lba d6;
                   (_, d8) \<leftarrow> WriteInode M sb2 parent_num (parent\<lparr>i_mtime := 0\<rparr>) ext2_lba d7;
                   Some ((0, sb2), d8) } }) }) }) })) }) }"

section \<open>Offsets and sizes\<close>

text \<open>Offsets are signed 64-bit integers.\<close>

definition Lseek :: "Ext2Inode \<Rightarrow> u64 \<Rightarrow> int \<Rightarrow> int" where
  "Lseek inode offset whence =
     (if whence = 0 \<or> whence = 1 \<or> whence = 2 then
        let new_offset = (if whence = 2 then ucast (i_size inode) + offset else offset) in
        if sint new_offset < 0 then -3 else sint new_offset
      else -2)"

definition GetFileSize :: "'d Machine \<Rightarrow> Ext2SuperBlock \<Rightarrow> byte list \<Rightarrow> u32 \<Rightarrow> 'd \<Rightarrow> ((int + u64) \<times> 'd) option" where
  "GetFileSize M sb path ext2_lba d = do {
     (r, d1) \<leftarrow> LookupPath M sb path ext2_lba d;
     (case r of Inl _ \<Rightarrow> Some (Inl (-2), d1) | Inr inode_num \<Rightarrow> do {
       (r, d2) \<leftarrow> ReadInode M sb inode_num ext2_lba d1;
       Some (case r of Inl _ \<Rightarrow> Inl (-3) | Inr inode \<Rightarrow> Inr (ucast (i_size inode)), d2) }) }"

end
