(* ===== verification/Ext2Ops.thy ===== *)
theory Ext2Ops
  imports Ext2Files
begin

text \<open>
  The operations that ext2 registers with the virtual file system: \<^verbatim>\<open>src/fs/ext2/fs.cc\<close>.  A mount
  keeps the super block and the first sector of its partition, a file the number and a copy of its
  inode; objects that \<^verbatim>\<open>new\<close> creates take memory as any other buffer does.
\<close>

unbundle bit_operations_syntax

section \<open>Data\<close>

record Ext2MountData =
  m_super :: Ext2SuperBlock
  m_block_size :: u32
  m_ext2_lba :: u32

record Ext2FileData =
  f_inode_num :: u32
  f_inode :: Ext2Inode

record Ext2StatBuf =
  st_ino :: u32
  st_mode :: u32
  st_nlink :: u32
  st_uid :: u32
  st_gid :: u32
  st_rdev :: u32
  st_size :: u64
  st_blksize :: u32
  st_blocks :: u64
  st_atime :: u32
  st_mtime :: u32
  st_ctime :: u32

text \<open>
  \<^verbatim>\<open>sizeof\<close> of \<^verbatim>\<open>Ext2MountData\<close> and \<^verbatim>\<open>Ext2FileData\<close> on the 64-bit target.
\<close>

definition sizeof_MountData :: u64 where "sizeof_MountData = 1040"
definition sizeof_FileData :: u64 where "sizeof_FileData = 132"

section \<open>Mounting\<close>

text \<open>
  The partition number in a device name: the digits from the first digit on, less one, as
  \<^verbatim>\<open>uint32_t\<close>; without a digit it is 0.
\<close>

definition is_digit :: "byte \<Rightarrow> bool" where
  "is_digit c \<longleftrightarrow> 48 \<le> c \<and> c \<le> 57"

definition digits_value :: "byte list \<Rightarrow> u32" where
  "digits_value cs = foldl (\<lambda>v c. v * 10 + (ucast c - 48)) 0 cs"

definition partition_of :: "byte list \<Rightarrow> u32" where
  "partition_of device = (let p = dropWhile (\<lambda>c. \<not> is_digit c) device in
     if p = [] then 0 else digits_value (takeWhile is_digit p) - 1)"

text \<open>The loop over the partition table: the first sector of Linux partition \<open>n\<close>, counting from \<open>k\<close>.\<close>

fun linux_partition :: "byte list \<Rightarrow> u32 \<Rightarrow> u32 \<Rightarrow> nat list \<Rightarrow> u32" where
  "linux_partition mbr n k [] = 0"
| "linux_partition mbr n k (i # is) =
     (if mbr_type mbr i = PARTITION_TYPE_LINUX then
        if k = n then mbr_lba mbr i else linux_partition mbr n (k + 1) is
      else linux_partition mbr n k is)"

text \<open>
  The device name is copied into an array of four bytes before it is cut to three characters, so a
  name of four or more characters writes outside the array and has no result.  \<open>find_dev\<close> tells
  whether the device is registered; the empty super block is what \<^verbatim>\<open>new\<close> leaves.  The result has the
  addresses of the mount and of its data, and the data.
\<close>

definition Ext2Mount :: "(byte list \<Rightarrow> bool) \<Rightarrow> 'd Machine \<Rightarrow> byte list \<Rightarrow> Ext2SuperBlock \<Rightarrow> 'd \<Rightarrow>
    ((addr \<times> addr \<times> Ext2MountData) option \<times> 'd) option" where
  "Ext2Mount find_dev M device sb0 d =
     (if length device \<ge> 4 then None
      else if \<not> find_dev device then Some (None, d)
      else do {
        (md, d1) \<leftarrow> page_Alloc M sizeof_MountData d;
        (case md of None \<Rightarrow> Some (None, d1) | Some md_addr \<Rightarrow> do {
          (lba, d2) \<leftarrow> with_buf M 512 None (\<lambda>d.
            let (ret, mbr, d1) = dev_Read M 0 1 d in
            Some (Some (if ret = 0 \<and> get16 mbr 510 = 0xAA55
              then linux_partition mbr (partition_of device) 0 [0..<4] else 0), d1)) d1;
          (case lba of None \<Rightarrow> Some (None, page_Free M md_addr d2) | Some ext2_lba \<Rightarrow> do {
            ((ret, sb), d3) \<leftarrow> ReadSuperBlock M sb0 ext2_lba d2;
            if ret \<noteq> 0 then Some (None, page_Free M md_addr d3) else do {
              bsize \<leftarrow> block_size sb;
              (mnt, d4) \<leftarrow> page_Alloc M sizeof_MountFs d3;
              Some (case mnt of
                None \<Rightarrow> (None, page_Free M md_addr d4)
              | Some mnt_addr \<Rightarrow> (Some (mnt_addr, md_addr,
                  \<lparr>m_super = sb, m_block_size = bsize, m_ext2_lba = ext2_lba\<rparr>), d4)) } }) }) })"

text \<open>\<open>md_addr\<close> is the address of the mount data; \<open>None\<close> is a mount already released.\<close>

definition Ext2Umount :: "'d Machine \<Rightarrow> addr \<Rightarrow> Ext2MountData option \<Rightarrow> 'd \<Rightarrow> int \<times> Ext2MountData option \<times> 'd" where
  "Ext2Umount M md_addr md d = (case md of None \<Rightarrow> (-1, None, d) | Some _ \<Rightarrow> (0, None, page_Free M md_addr d))"

section \<open>Files\<close>

text \<open>The absolute form of a path; \<open>None\<close> when it does not fit in 256 bytes.\<close>

definition abs_path :: "byte list \<Rightarrow> byte list option" where
  "abs_path path =
     (if path \<noteq> [] \<and> hd path = 47 then Some path
      else if length path \<ge> 255 then None else Some (47 # path))"

definition Ext2Open :: "'d Machine \<Rightarrow> addr \<Rightarrow> byte list \<Rightarrow> u32 \<Rightarrow> Ext2MountData \<Rightarrow> 'd \<Rightarrow>
    ((((addr \<times> File) \<times> (addr \<times> Ext2FileData)) option \<times> Ext2MountData) \<times> 'd) option" where
  "Ext2Open M mount path flgs md d =
     (case abs_path path of None \<Rightarrow> Some ((None, md), d) | Some lookup_path \<Rightarrow> do {
        let lba = m_ext2_lba md;
        (r, d1) \<leftarrow> LookupPath M (m_super md) lookup_path lba d;
        (num, md1, d2) \<leftarrow>
          (case r of
             Inr inode_num \<Rightarrow> Some (Some inode_num, md, d1)
           | Inl _ \<Rightarrow>
               if flgs AND 0x02 \<noteq> 0 then do {
                 ((ret, sb1), d2) \<leftarrow> CreateFile M lookup_path (EXT2_S_IFREG OR 0x1A4) lba (m_super md) d1;
                 Some (if ret \<le> 0 then None else Some (of_int ret), md\<lparr>m_super := sb1\<rparr>, d2) }
               else Some (None, md, d1));
        (case num of None \<Rightarrow> Some ((None, md1), d2) | Some inode_num \<Rightarrow> do {
          (r, d3) \<leftarrow> ReadInode M (m_super md1) inode_num lba d2;
          (case r of Inl _ \<Rightarrow> Some ((None, md1), d3) | Inr inode \<Rightarrow> do {
            (fd, d4) \<leftarrow> page_Alloc M sizeof_FileData d3;
            (case fd of None \<Rightarrow> Some ((None, md1), d4) | Some fd_addr \<Rightarrow> do {
              (fl, d5) \<leftarrow> page_Alloc M sizeof_File d4;
              Some (case fl of
                None \<Rightarrow> ((None, md1), page_Free M fd_addr d5)
              | Some fl_addr \<Rightarrow>
                  ((Some ((fl_addr, \<lparr>file_flags = flgs, file_position = 0, file_mount = Some mount\<rparr>),
                    (fd_addr, \<lparr>f_inode_num = inode_num, f_inode = inode\<rparr>)), md1), d5)) }) }) }) })"

text \<open>\<open>fd_addr\<close> and \<open>fl_addr\<close> are the addresses of the file's data and of the file.\<close>

definition Ext2Close :: "'d Machine \<Rightarrow> addr \<Rightarrow> addr \<Rightarrow> 'd \<Rightarrow> int \<times> 'd" where
  "Ext2Close M fd_addr fl_addr d = (0, page_Free M fl_addr (page_Free M fd_addr d))"

definition Ext2Read :: "'d Machine \<Rightarrow> Ext2MountData \<Rightarrow> Ext2FileData \<Rightarrow> u64 \<Rightarrow> u64 \<Rightarrow> 'd \<Rightarrow> ((int \<times> byte list) \<times> 'd) option" where
  "Ext2Read M md fl count offset d = ReadFile M (m_super md) (f_inode fl) count offset (m_ext2_lba md) d"

definition Ext2Write :: "'d Machine \<Rightarrow> byte list \<Rightarrow> u64 \<Rightarrow> u64 \<Rightarrow> Ext2MountData \<Rightarrow> Ext2FileData \<Rightarrow> 'd \<Rightarrow>
    (int \<times> Ext2MountData \<times> Ext2FileData \<times> 'd) option" where
  "Ext2Write M buf count offset md fl d = do {
     (ret, inode, sb, d1) \<leftarrow> WriteFile M (f_inode fl) buf count offset (m_ext2_lba md) (m_super md) d;
     (_, d2) \<leftarrow> (if ret > 0 then WriteInode M sb (f_inode_num fl) inode (m_ext2_lba md) d1 else Some (0, d1));
     Some (ret, md\<lparr>m_super := sb\<rparr>, fl\<lparr>f_inode := inode\<rparr>, d2) }"

section \<open>Directories\<close>

definition Ext2Mkdir :: "'d Machine \<Rightarrow> byte list \<Rightarrow> Ext2MountData \<Rightarrow> 'd \<Rightarrow> ((int \<times> Ext2MountData) \<times> 'd) option" where
  "Ext2Mkdir M path md d = do {
     let lba = m_ext2_lba md;
     ((ret, sb1), d1) \<leftarrow> CreateFile M path (EXT2_S_IFDIR OR 0x1ED) lba (m_super md) d;
     if ret \<le> 0 then Some ((-3, md\<lparr>m_super := sb1\<rparr>), d1) else do {
       let num = of_int ret;
       (r, d2) \<leftarrow> ReadInode M sb1 num lba d1;
       (case r of Inl _ \<Rightarrow> Some ((-4, md\<lparr>m_super := sb1\<rparr>), d2) | Inr inode \<Rightarrow> do {
         ((_, inode1, sb2), d3) \<leftarrow> AddEntry M inode num [46] 2 lba sb1 d2;
         ((_, inode2, sb3), d4) \<leftarrow> AddEntry M inode1 num [46, 46] 2 lba sb2 d3;
         (_, d5) \<leftarrow> WriteInode M sb3 num (inode2\<lparr>i_links_count := 2\<rparr>) lba d4;
         Some ((0, md\<lparr>m_super := sb3\<rparr>), d5) }) } }"

definition Ext2Rmdir :: "'d Machine \<Rightarrow> byte list \<Rightarrow> Ext2MountData \<Rightarrow> 'd \<Rightarrow> ((int \<times> Ext2MountData) \<times> 'd) option" where
  "Ext2Rmdir M path md d =
     (case abs_path path of None \<Rightarrow> Some ((-7, md), d) | Some lookup_path \<Rightarrow> do {
        let lba = m_ext2_lba md;
        (r, d1) \<leftarrow> LookupPath M (m_super md) lookup_path lba d;
        (case r of Inl _ \<Rightarrow> Some ((-3, md), d1) | Inr inode_num \<Rightarrow> do {
          (r, d2) \<leftarrow> ReadInode M (m_super md) inode_num lba d1;
          (case r of Inl _ \<Rightarrow> Some ((-4, md), d2) | Inr inode \<Rightarrow>
            if \<not> is_dir inode then Some ((-5, md), d2)
            else if i_links_count inode > 2 then Some ((-6, md), d2)
            else do {
              ((ret, sb1), d3) \<leftarrow> DeleteFile M lookup_path lba (m_super md) d2;
              Some ((ret, md\<lparr>m_super := sb1\<rparr>), d3) }) }) })"

definition Ext2Readdir :: "'d Machine \<Rightarrow> byte list \<Rightarrow> u32 \<Rightarrow> Ext2MountData \<Rightarrow> 'd \<Rightarrow> ((addr \<times> DirEntry) option \<times> 'd) option" where
  "Ext2Readdir M path index md d =
     (case abs_path path of None \<Rightarrow> Some (None, d) | Some lookup_path \<Rightarrow> do {
        let lba = m_ext2_lba md;
        (r, d1) \<leftarrow> LookupPath M (m_super md) lookup_path lba d;
        (case r of Inl _ \<Rightarrow> Some (None, d1) | Inr inode_num \<Rightarrow> do {
          (r, d2) \<leftarrow> ReadInode M (m_super md) inode_num lba d1;
          (case r of Inl _ \<Rightarrow> Some (None, d2) | Inr inode \<Rightarrow>
            if \<not> is_dir inode then Some (None, d2)
            else Readdir M (m_super md) inode_num index lba d2) }) })"

definition Ext2Stat :: "'d Machine \<Rightarrow> byte list \<Rightarrow> Ext2MountData \<Rightarrow> 'd \<Rightarrow> ((int + Ext2StatBuf) \<times> 'd) option" where
  "Ext2Stat M path md d =
     (case abs_path path of None \<Rightarrow> Some (Inl (-5), d) | Some lookup_path \<Rightarrow> do {
        let lba = m_ext2_lba md;
        (r, d1) \<leftarrow> LookupPath M (m_super md) lookup_path lba d;
        (case r of Inl _ \<Rightarrow> Some (Inl (-3), d1) | Inr inode_num \<Rightarrow> do {
          (r, d2) \<leftarrow> ReadInode M (m_super md) inode_num lba d1;
          Some (case r of Inl _ \<Rightarrow> Inl (-4) | Inr inode \<Rightarrow> Inr \<lparr>st_ino = inode_num,
              st_mode = ucast (i_mode inode), st_nlink = ucast (i_links_count inode),
              st_uid = ucast (i_uid inode), st_gid = ucast (i_gid inode), st_rdev = 0,
              st_size = ucast (i_size inode), st_blksize = m_block_size md,
              st_blocks = ucast (i_blocks inode), st_atime = i_atime inode, st_mtime = i_mtime inode,
              st_ctime = i_ctime inode\<rparr>, d2) }) })"

end
