(* ===== verification/Ext2Disk.thy ===== *)
theory Ext2Disk
  imports Ext2Ops
begin

text \<open>
  What the block, descriptor and inode operations do to the disk.  The view of a disk here is the
  function from sector numbers to 512 bytes of the interface \<open>block_io\<close>; \<open>blockdata\<close> is a block of
  the file system in it and \<open>put_block\<close> the disk after a block is overwritten.
\<close>

section \<open>Blocks of a disk\<close>

type_synonym disk = "nat \<Rightarrow> byte list"

definition full :: "disk \<Rightarrow> bool" where
  "full D \<longleftrightarrow> (\<forall>s. length (D s) = 512)"

definition geo :: "Ext2SuperBlock \<Rightarrow> u32 \<Rightarrow> bool" where
  "geo sb B \<longleftrightarrow> block_size sb = Some B \<and> unat B mod 512 = 0 \<and> 1024 \<le> unat B \<and> unat B \<le> 65536"

definition spb :: "u32 \<Rightarrow> nat" where
  "spb B = unat B div 512"

definition base :: "u32 \<Rightarrow> u32 \<Rightarrow> u32 \<Rightarrow> nat" where
  "base lba B b = unat lba + unat b * spb B"

definition blockdata :: "disk \<Rightarrow> u32 \<Rightarrow> u32 \<Rightarrow> u32 \<Rightarrow> byte list" where
  "blockdata D lba B b = concat (map D [base lba B b..<base lba B b + spb B])"

definition put_block :: "disk \<Rightarrow> u32 \<Rightarrow> u32 \<Rightarrow> u32 \<Rightarrow> byte list \<Rightarrow> disk" where
  "put_block D lba B b data = (\<lambda>s. if base lba B b \<le> s \<and> s < base lba B b + spb B
     then slice data (512 * (s - base lba B b)) 512 else D s)"

lemma geo_exists:
  assumes "s_log_block_size sb \<le> 6"
  shows "geo sb (push_bit (unat (s_log_block_size sb)) 1024)"
proof -
  let ?k = "unat (s_log_block_size sb)"
  have k: "?k \<le> 6" using assms by (simp add: word_le_nat_alt)
  then have "2 ^ ?k \<le> (2 :: nat) ^ 6" by (rule power_increasing) simp
  then have p: "1 \<le> (2 :: nat) ^ ?k" "(2 :: nat) ^ ?k \<le> 64" by simp_all
  have "unat (push_bit ?k (1024 :: u32)) = 1024 * 2 ^ ?k mod 2 ^ 32"
    unfolding unsigned_push_bit_eq by (simp add: take_bit_eq_mod push_bit_eq_mult)
  then have u: "unat (push_bit ?k (1024 :: u32)) = 1024 * 2 ^ ?k" using p by simp
  have "s_log_block_size sb < 32" using k by (simp add: word_less_nat_alt)
  then have "block_size sb = Some (push_bit ?k 1024)" by (simp add: block_size_def)
  moreover have "1024 * 2 ^ ?k mod 512 = (0 :: nat)" by simp
  ultimately show ?thesis using p u by (simp add: geo_def)
qed

lemma geo_simps:
  assumes "geo sb B"
  shows "block_size sb = Some B" "512 * spb B = unat B" "2 \<le> spb B" "spb B \<le> 128" "unat (B div 512) = spb B"
    "B \<noteq> 0" "unat B \<le> 65536" "1024 \<le> unat B"
  using assms by (auto simp: geo_def spb_def unat_div)

lemma unat_sector:
  assumes "geo sb B"
  shows "unat (ucast lba + ucast b * ucast (B div 512) :: u64) = base lba B b"
proof -
  have u: "unat (ucast (x :: u32) :: u64) = unat x" for x
  proof -
    have "unat x < 2 ^ 32" using unsigned_less [of x, where ?'a = nat] by simp
    then show ?thesis by (simp add: unsigned_ucast_eq take_bit_nat_eq_self)
  qed
  have b: "unat b < 2 ^ 32" "unat lba < 2 ^ 32" "spb B \<le> 128"
    using unsigned_less [of b, where ?'a = nat] unsigned_less [of lba, where ?'a = nat] geo_simps(4) [OF assms] by simp_all
  then have m: "unat b * spb B \<le> 2 ^ 32 * 128" by (intro mult_le_mono) simp_all
  then have "unat (ucast b * ucast (B div 512) :: u64) = unat b * spb B"
    using geo_simps(5) [OF assms] by (simp add: unat_word_ariths u)
  then show ?thesis using m b by (simp add: unat_word_ariths u base_def)
qed

lemma length_concat_sectors: "full D \<Longrightarrow> length (concat (map D xs)) = 512 * length xs"
  by (induction xs) (simp_all add: full_def)

lemma length_blockdata: "full D \<Longrightarrow> geo sb B \<Longrightarrow> length (blockdata D lba B b) = unat B"
  by (simp add: blockdata_def length_concat_sectors geo_simps)

lemma full_put_block: "full D \<Longrightarrow> geo sb B \<Longrightarrow> length data = unat B \<Longrightarrow> full (put_block D lba B b data)"
  unfolding full_def put_block_def by (auto intro!: length_slice dest!: geo_simps(2))

lemma concat_slices: "length data = 512 * n \<Longrightarrow> concat (map (\<lambda>i. slice data (512 * i) 512) [0..<n]) = data"
proof (induction n arbitrary: data)
  case (Suc n)
  have "[0..<Suc n] = 0 # map Suc [0..<n]" by (simp add: map_Suc_upt upt_conv_Cons del: upt_Suc)
  moreover have "slice data (512 * Suc i) 512 = slice (drop 512 data) (512 * i) 512" for i
    by (simp add: slice_def add.commute)
  ultimately have "concat (map (\<lambda>i. slice data (512 * i) 512) [0..<Suc n]) =
      slice data 0 512 @ concat (map (\<lambda>i. slice (drop 512 data) (512 * i) 512) [0..<n])"
    by (simp add: comp_def del: upt_Suc)
  with Suc.IH [of "drop 512 data"] Suc.prems show ?case by (simp add: slice_def)
qed simp

lemma map_shift_upt: "map f [a..<a + n] = map (\<lambda>i. f (a + i)) [0..<n]"
  by (rule nth_equalityI) simp_all

lemma blockdata_put_same:
  assumes "geo sb B" "length data = unat B"
  shows "blockdata (put_block D lba B b data) lba B b = data"
proof -
  have "map (put_block D lba B b data) [base lba B b..<base lba B b + spb B] =
      map (\<lambda>i. slice data (512 * i) 512) [0..<spb B]"
    unfolding map_shift_upt by (simp add: put_block_def)
  then show ?thesis using concat_slices [of data "spb B"] assms geo_simps(2) [OF assms(1)] by (simp add: blockdata_def)
qed

lemma base_disjoint:
  assumes "b \<noteq> b'"
  shows "base lba B b + spb B \<le> base lba B b' \<or> base lba B b' + spb B \<le> base lba B b"
proof -
  from assms have "unat b \<noteq> unat b'" by (simp add: word_unat_eq_iff)
  then consider "Suc (unat b) \<le> unat b'" | "Suc (unat b') \<le> unat b" by linarith
  then show ?thesis
  proof cases
    case 1
    then have "Suc (unat b) * spb B \<le> unat b' * spb B" by (rule mult_le_mono1)
    then show ?thesis by (simp add: base_def)
  next
    case 2
    then have "Suc (unat b') * spb B \<le> unat b * spb B" by (rule mult_le_mono1)
    then show ?thesis by (simp add: base_def)
  qed
qed

lemma blockdata_put_other:
  assumes "b \<noteq> b'"
  shows "blockdata (put_block D lba B b data) lba B b' = blockdata D lba B b'"
proof -
  have "put_block D lba B b data s = D s" if "base lba B b' \<le> s" "s < base lba B b' + spb B" for s
    using that base_disjoint [OF assms, of lba B] by (auto simp: put_block_def)
  then have "map (put_block D lba B b data) [base lba B b'..<base lba B b' + spb B] =
      map D [base lba B b'..<base lba B b' + spb B]" by simp
  then show ?thesis unfolding blockdata_def by (rule arg_cong)
qed

lemma put_block_same: "full D \<Longrightarrow> geo sb B \<Longrightarrow> put_block D lba B b (blockdata D lba B b) = D"
proof (rule ext)
  fix s assume D: "full D" and g: "geo sb B"
  have "slice (concat (map D [a..<a + n])) (512 * i) 512 = D (a + i)" if "i < n" for a n i
    using that
  proof (induction i arbitrary: a n)
    case 0
    then have "[a..<a + n] = a # [Suc a..<a + n]" by (simp add: upt_conv_Cons)
    then show ?case using D by (simp add: full_def slice_def)
  next
    case (Suc i)
    then obtain m where m: "n = Suc m" by (cases n) auto
    have "[a..<a + n] = a # [Suc a..<Suc a + m]" by (simp add: m upt_conv_Cons del: upt_Suc)
    then have "slice (concat (map D [a..<a + n])) (512 * Suc i) 512 =
        slice (concat (map D [Suc a..<Suc a + m])) (512 * i) 512"
      using D by (simp add: full_def slice_def del: upt_Suc)
    also have "\<dots> = D (Suc a + i)" using Suc m by (intro Suc.IH) simp
    finally show ?case by simp
  qed
  then show "put_block D lba B b (blockdata D lba B b) s = D s"
    by (auto simp: put_block_def blockdata_def)
qed

section \<open>Descriptors and inodes on the disk\<close>

definition gd_at :: "disk \<Rightarrow> u32 \<Rightarrow> u32 \<Rightarrow> u32 \<Rightarrow> Ext2GroupDesc" where
  "gd_at D lba B g = decode_gd (slice (blockdata D lba B 2) (unat g * 32) 32)"

text \<open>The pointer at an index of a table block; the absent table 0 has only null pointers.\<close>

definition ptr_at :: "disk \<Rightarrow> u32 \<Rightarrow> u32 \<Rightarrow> u32 \<Rightarrow> nat \<Rightarrow> u32" where
  "ptr_at D lba B t i = (if t = 0 then 0 else get32 (blockdata D lba B t) (4 * i))"

definition on_device :: "nat \<Rightarrow> u32 \<Rightarrow> u32 \<Rightarrow> u32 \<Rightarrow> bool" where
  "on_device limit lba B b \<longleftrightarrow> base lba B b + spb B \<le> limit"

context block_io begin

lemma full_disk: "inv d \<Longrightarrow> full (disk d)"
  using sector_length by (simp add: full_def)

lemma runs_ReadBlock:
  assumes "inv d" "geo sb B" "on_device limit lba B b"
  shows "runs 0 (ReadBlock M sb b lba) d (\<lambda>(ret, data) D. ret = 0 \<and> data = blockdata (disk d) lba B b \<and> D = disk d)"
proof -
  let ?s = "ucast lba + ucast b * ucast (B div 512) :: u64"
  have s: "unat ?s = base lba B b" by (rule unat_sector [OF assms(2)])
  have "unat ?s + unat (B div 512) \<le> limit" using assms(3) s geo_simps(5) [OF assms(2)] by (simp add: on_device_def)
  from read_law [OF assms(1) this] obtain d' where
    "dev_Read M ?s (B div 512) d = (0, blockdata (disk d) lba B b, d')" "inv d'" "disk d' = disk d" "room d' = room d"
    using s geo_simps(5) [OF assms(2)] by (auto simp: blockdata_def)
  then show ?thesis using geo_simps(1) [OF assms(2)] by (auto simp: runs_def ReadBlock_def Let_def)
qed

lemma runs_WriteBlock:
  assumes "inv d" "geo sb B" "on_device limit lba B b" "length data = unat B"
  shows "runs 0 (WriteBlock M sb b data lba) d (\<lambda>ret D. ret = 0 \<and> D = put_block (disk d) lba B b data)"
proof -
  let ?s = "ucast lba + ucast b * ucast (B div 512) :: u64"
  have s: "unat ?s = base lba B b" by (rule unat_sector [OF assms(2)])
  have "unat ?s + unat (B div 512) \<le> limit" "length data = 512 * unat (B div 512)"
    using assms(3,4) s geo_simps(2,5) [OF assms(2)] by (simp_all add: on_device_def)
  from write_law [OF assms(1) this] obtain d' where
    "dev_Write M ?s (B div 512) data d = Some (0, d')" "inv d'" "disk d' = put_block (disk d) lba B b data"
    "room d' = room d"
    unfolding s geo_simps(5) [OF assms(2)] put_block_def by blast
  then show ?thesis using geo_simps(1) [OF assms(2)] by (auto simp: runs_def WriteBlock_def Let_def)
qed

lemma runs_ReadGroupDesc:
  assumes "inv d" "geo sb B" "on_device limit lba B 2" "unat g * 32 + 32 \<le> unat B" "cost (ucast B) \<le> room d"
  shows "runs (cost (ucast B)) (ReadGroupDesc M sb g lba) d
    (\<lambda>r D. r = Inr (gd_at (disk d) lba B g) \<and> D = disk d)"
proof -
  let ?body = "\<lambda>d. let (ret, data, d1) = dev_Read M (gd_sector B lba) (B div 512) d; i = unat g * 32 in
       if ret \<noteq> 0 then Some (Inl (-3 :: int), d1)
       else if i + 32 > length data then None
       else Some (Inr (decode_gd (slice data i 32)), d1)"
  have s: "unat (gd_sector B lba) = base lba B 2" using unat_sector [OF assms(2), of lba 2] by (simp add: gd_sector_def)
  have "runs 0 ?body d1 (\<lambda>r D. r = Inr (gd_at (disk d) lba B g) \<and> D = disk d)"
    if d1: "inv d1" "disk d1 = disk d" for d1
  proof -
    have "unat (gd_sector B lba) + unat (B div 512) \<le> limit"
      using assms(3) s geo_simps(5) [OF assms(2)] by (simp add: on_device_def)
    from read_law [OF d1(1) this] obtain d' where
      "dev_Read M (gd_sector B lba) (B div 512) d1 = (0, blockdata (disk d) lba B 2, d')" "inv d'" "disk d' = disk d"
      "room d' = room d1" unfolding s geo_simps(5) [OF assms(2)] blockdata_def d1(2) by blast
    then show ?thesis using assms(4) length_blockdata [OF full_disk [OF assms(1)] assms(2), of lba 2]
      by (auto simp: runs_def gd_at_def)
  qed
  with runs_with_buf [OF assms(1,5), of 0 ?body]
  have "runs (cost (ucast B)) (with_buf M (ucast B) (Inl (-2)) ?body) d
      (\<lambda>r D. r = Inr (gd_at (disk d) lba B g) \<and> D = disk d)" by simp
  then show ?thesis using geo_simps(1) [OF assms(2)] by (simp add: ReadGroupDesc_def runs_def)
qed

end

section \<open>Inodes\<close>

text \<open>Where the image of an inode lies: the block and the byte offset in it.\<close>

definition inode_block :: "disk \<Rightarrow> Ext2SuperBlock \<Rightarrow> u32 \<Rightarrow> u32 \<Rightarrow> u32 \<Rightarrow> u32" where
  "inode_block D sb lba B ino = (case inode_place sb ino of
     Some (g, ti, off) \<Rightarrow> bg_inode_table (gd_at D lba B g) + ti | None \<Rightarrow> 0)"

definition inode_off :: "Ext2SuperBlock \<Rightarrow> u32 \<Rightarrow> nat" where
  "inode_off sb ino = (case inode_place sb ino of Some (g, ti, off) \<Rightarrow> unat off | None \<Rightarrow> 0)"

definition inode_at :: "disk \<Rightarrow> Ext2SuperBlock \<Rightarrow> u32 \<Rightarrow> u32 \<Rightarrow> u32 \<Rightarrow> Ext2Inode" where
  "inode_at D sb lba B ino =
     decode_inode (slice (blockdata D lba B (inode_block D sb lba B ino)) (inode_off sb ino) 128)"

text \<open>
  The inode number is usable: its descriptor is in block 2, its image is inside a block of the
  device, and that block is not the one with the descriptors.
\<close>

definition inode_ok :: "nat \<Rightarrow> disk \<Rightarrow> Ext2SuperBlock \<Rightarrow> u32 \<Rightarrow> u32 \<Rightarrow> u32 \<Rightarrow> bool" where
  "inode_ok limit D sb lba B ino \<longleftrightarrow> ino \<noteq> 0 \<and> on_device limit lba B 2 \<and>
     on_device limit lba B (inode_block D sb lba B ino) \<and> inode_block D sb lba B ino \<noteq> 2 \<and>
     (case inode_place sb ino of
        Some (g, ti, off) \<Rightarrow> unat g * 32 + 32 \<le> unat B \<and> unat off + 128 \<le> unat B | None \<Rightarrow> False)"

lemma inode_okE:
  assumes "inode_ok limit D sb lba B ino"
  obtains g ti off where "inode_place sb ino = Some (g, ti, off)" "ino \<noteq> 0" "unat g * 32 + 32 \<le> unat B"
    "unat off + 128 \<le> unat B" "on_device limit lba B 2"
    "inode_block D sb lba B ino = bg_inode_table (gd_at D lba B g) + ti" "inode_off sb ino = unat off"
    "on_device limit lba B (bg_inode_table (gd_at D lba B g) + ti)" "bg_inode_table (gd_at D lba B g) + ti \<noteq> 2"
  using assms by (auto simp: inode_ok_def inode_block_def inode_off_def split: option.splits)

context block_io begin

lemma runs_ReadInode:
  assumes "inv d" "geo sb B" "inode_ok limit (disk d) sb lba B ino" "2 * cost (ucast B) \<le> room d"
  shows "runs (2 * cost (ucast B)) (ReadInode M sb ino lba) d
    (\<lambda>r D. r = Inr (inode_at (disk d) sb lba B ino) \<and> D = disk d)"
proof -
  let ?K = "cost (ucast B)"
  from assms(3) obtain g ti off where p: "inode_place sb ino = Some (g, ti, off)" "ino \<noteq> 0"
    "unat g * 32 + 32 \<le> unat B" "unat off + 128 \<le> unat B" "on_device limit lba B 2"
    "inode_block (disk d) sb lba B ino = bg_inode_table (gd_at (disk d) lba B g) + ti" "inode_off sb ino = unat off"
    "on_device limit lba B (bg_inode_table (gd_at (disk d) lba B g) + ti)" by (rule inode_okE)
  let ?blk = "bg_inode_table (gd_at (disk d) lba B g) + ti"
  let ?body = "\<lambda>d. do {
            ((ret, data), d2) \<leftarrow> ReadBlock M sb ?blk lba d;
            if ret \<noteq> 0 then Some (Inl (-4 :: int), d2)
            else if unat off + 128 > length data then None
            else Some (Inr (decode_inode (slice data (unat off) 128)), d2) }"
  from runs_ReadGroupDesc [OF assms(1,2) p(5,3)] assms(4) obtain d1 where
    d1: "ReadGroupDesc M sb g lba d = Some (Inr (gd_at (disk d) lba B g), d1)" "inv d1" "room d \<le> room d1 + ?K"
      "disk d1 = disk d" by (auto elim!: runsE)
  have "runs 0 ?body d2 (\<lambda>r D. r = Inr (inode_at (disk d) sb lba B ino) \<and> D = disk d)"
    if d2: "inv d2" "disk d2 = disk d" for d2
    using runs_ReadBlock [OF d2(1) assms(2) p(8)] length_blockdata [OF full_disk [OF assms(1)] assms(2), of lba ?blk] p(4,6,7) d2(2)
    by (auto elim!: runsE simp: runs_def inode_at_def)
  with runs_with_buf [OF d1(2), of "ucast B" 0 ?body] d1(3,4) assms(4)
  have "runs ?K (with_buf M (ucast B) (Inl (-3)) ?body) d1 (\<lambda>r D. r = Inr (inode_at (disk d) sb lba B ino) \<and> D = disk d)"
    by simp
  then show ?thesis using d1 p(1,2) geo_simps(1) [OF assms(2)] by (auto simp: ReadInode_def runs_def)
qed

lemma runs_WriteInode:
  assumes "inv d" "geo sb B" "inode_ok limit (disk d) sb lba B ino" "2 * cost (ucast B) \<le> room d" "inode_typed i"
  defines "blk \<equiv> inode_block (disk d) sb lba B ino"
  shows "runs (2 * cost (ucast B)) (WriteInode M sb ino i lba) d
    (\<lambda>r D. r = 0 \<and> D = put_block (disk d) lba B blk
      (splice (inode_off sb ino) (encode_inode i) (blockdata (disk d) lba B blk)))"
proof -
  let ?K = "cost (ucast B)"
  from assms(3) obtain g ti off where p: "inode_place sb ino = Some (g, ti, off)" "ino \<noteq> 0"
    "unat g * 32 + 32 \<le> unat B" "unat off + 128 \<le> unat B" "on_device limit lba B 2"
    "inode_block (disk d) sb lba B ino = bg_inode_table (gd_at (disk d) lba B g) + ti" "inode_off sb ino = unat off"
    "on_device limit lba B (bg_inode_table (gd_at (disk d) lba B g) + ti)" by (rule inode_okE)
  let ?blk = "bg_inode_table (gd_at (disk d) lba B g) + ti"
  let ?img = "splice (unat off) (encode_inode i) (blockdata (disk d) lba B ?blk)"
  let ?body = "\<lambda>d. do {
            ((ret, data), d2) \<leftarrow> ReadBlock M sb ?blk lba d;
            if ret \<noteq> 0 then Some (-4, d2)
            else if unat off + 128 > length data then None
            else do {
              (ret, d3) \<leftarrow> WriteBlock M sb ?blk (splice (unat off) (encode_inode i) data) lba d2;
              Some (if ret \<noteq> 0 then -5 else 0 :: int, d3) } }"
  have len: "length (blockdata (disk d) lba B ?blk) = unat B"
    by (rule length_blockdata [OF full_disk [OF assms(1)] assms(2)])
  have limg: "length ?img = unat B" using len p(4) length_encode(3) [OF assms(5)] by simp
  from runs_ReadGroupDesc [OF assms(1,2) p(5,3)] assms(4) obtain d1 where
    d1: "ReadGroupDesc M sb g lba d = Some (Inr (gd_at (disk d) lba B g), d1)" "inv d1" "room d \<le> room d1 + ?K"
      "disk d1 = disk d" by (auto elim!: runsE)
  have "runs 0 ?body d2 (\<lambda>r D. r = 0 \<and> D = put_block (disk d) lba B ?blk ?img)"
    if d2: "inv d2" "disk d2 = disk d" for d2
  proof -
    from runs_ReadBlock [OF d2(1) assms(2) p(8)] d2(2) obtain d3 where
      d3: "ReadBlock M sb ?blk lba d2 = Some ((0, blockdata (disk d) lba B ?blk), d3)" "inv d3" "disk d3 = disk d"
        "room d2 \<le> room d3" by (auto elim!: runsE)
    from runs_WriteBlock [OF d3(2) assms(2) p(8) limg] d3 show ?thesis
      using len p(4) by (auto elim!: runsE simp: runs_def)
  qed
  with runs_with_buf [OF d1(2), of "ucast B" 0 ?body] d1(3,4) assms(4)
  have "runs ?K (with_buf M (ucast B) (-3) ?body) d1 (\<lambda>r D. r = 0 \<and> D = put_block (disk d) lba B ?blk ?img)"
    by simp
  then show ?thesis using d1 p(1,2,6,7) geo_simps(1) [OF assms(2)] by (auto simp: WriteInode_def runs_def blk_def)
qed

end

text \<open>After writing an inode image, that inode is the new one and the others are unchanged.\<close>

lemma inode_at_put:
  assumes "full D" "geo sb B" "inode_typed i" "inode_ok limit D sb lba B ino"
  defines "blk \<equiv> inode_block D sb lba B ino"
  defines "D' \<equiv> put_block D lba B blk (splice (inode_off sb ino) (encode_inode i) (blockdata D lba B blk))"
  shows "inode_at D' sb lba B ino = i"
    and "inode_ok limit D sb lba B k \<Longrightarrow> inode_block D sb lba B k \<noteq> blk \<or>
        inode_off sb k + 128 \<le> inode_off sb ino \<or> inode_off sb ino + 128 \<le> inode_off sb k \<Longrightarrow>
      inode_at D' sb lba B k = inode_at D sb lba B k"
    and "inode_ok limit D sb lba B k \<Longrightarrow> inode_ok limit D' sb lba B k"
proof -
  let ?img = "splice (inode_off sb ino) (encode_inode i) (blockdata D lba B blk)"
  have off: "inode_off sb ino + 128 \<le> unat B" "blk \<noteq> 2"
    using assms(4) by (auto simp: inode_ok_def inode_off_def blk_def split: option.splits)
  have len: "length (blockdata D lba B blk) = unat B" by (rule length_blockdata [OF assms(1,2)])
  have limg: "length ?img = unat B" using len off length_encode(3) [OF assms(3)] by simp
  have gd: "gd_at D' lba B g = gd_at D lba B g" for g
    using blockdata_put_other [OF off(2)] by (simp add: gd_at_def D'_def)
  then have ib: "inode_block D' sb lba B k = inode_block D sb lba B k" for k by (simp add: inode_block_def split: option.split)
  have same: "blockdata D' lba B blk = ?img" unfolding D'_def by (rule blockdata_put_same [OF assms(2) limg])
  show "inode_at D' sb lba B ino = i"
    using same ib len off length_encode(3) [OF assms(3)] decode_encode_inode [OF assms(3)]
    by (simp add: inode_at_def blk_def)
  show "inode_ok limit D' sb lba B k" if "inode_ok limit D sb lba B k"
    using that by (simp add: inode_ok_def ib)
  show "inode_at D' sb lba B k = inode_at D sb lba B k" if k: "inode_ok limit D sb lba B k"
    and dis: "inode_block D sb lba B k \<noteq> blk \<or>
        inode_off sb k + 128 \<le> inode_off sb ino \<or> inode_off sb ino + 128 \<le> inode_off sb k"
  proof (cases "inode_block D sb lba B k = blk")
    case False
    then have "blk \<noteq> inode_block D sb lba B k" by simp
    then show ?thesis unfolding inode_at_def ib unfolding D'_def by (simp add: blockdata_put_other)
  next
    case True
    have "inode_off sb k + 128 \<le> unat B" using k by (auto simp: inode_ok_def inode_off_def split: option.splits)
    then have "slice ?img (inode_off sb k) 128 = slice (blockdata D lba B blk) (inode_off sb k) 128"
      using dis True len off length_encode(3) [OF assms(3)] by (intro slice_splice_other) auto
    then show ?thesis unfolding inode_at_def ib True same by simp
  qed
qed

end
