(* ===== verification/Ext2Map.thy ===== *)
theory Ext2Map
  imports Ext2Disk
begin

text \<open>
  The block map of an inode.  \<open>bmap\<close> is the reference definition: a route of table indices, computed
  from the block number, followed from a slot of the inode.  \<open>GetBlockNum\<close> computes it, and
  \<open>SetBlockNum\<close> changes one slot of one table.
\<close>

section \<open>Reference definition\<close>

definition block_route :: "nat \<Rightarrow> nat \<Rightarrow> nat \<times> nat list" where
  "block_route p n =
     (if n < 12 then (n, [])
      else if n < 12 + p then (12, [n - 12])
      else if n < 12 + p + p * p then (13, [(n - 12 - p) div p, (n - 12 - p) mod p])
      else let k = n - 12 - p - p * p in (14, [k div (p * p), k mod (p * p) div p, k mod (p * p) mod p]))"

text \<open>Following a route from a table, and the (table, index) pairs it reads.\<close>

fun walk :: "disk \<Rightarrow> u32 \<Rightarrow> u32 \<Rightarrow> u32 \<Rightarrow> nat list \<Rightarrow> u32" where
  "walk D lba B t [] = t"
| "walk D lba B t (i # is) = walk D lba B (ptr_at D lba B t i) is"

fun visits :: "disk \<Rightarrow> u32 \<Rightarrow> u32 \<Rightarrow> u32 \<Rightarrow> nat list \<Rightarrow> (u32 \<times> nat) list" where
  "visits D lba B t [] = []"
| "visits D lba B t (i # is) = (t, i) # visits D lba B (ptr_at D lba B t i) is"

definition bmap :: "disk \<Rightarrow> u32 \<Rightarrow> u32 \<Rightarrow> Ext2Inode \<Rightarrow> nat \<Rightarrow> u32" where
  "bmap D lba B inode n = (let (slot, is) = block_route (unat B div 4) n in walk D lba B (i_block inode ! slot) is)"

definition bvisits :: "disk \<Rightarrow> u32 \<Rightarrow> u32 \<Rightarrow> Ext2Inode \<Rightarrow> nat \<Rightarrow> (u32 \<times> nat) list" where
  "bvisits D lba B inode n = (let (slot, is) = block_route (unat B div 4) n in visits D lba B (i_block inode ! slot) is)"

text \<open>The block number is in the range of the map, and every table on its route is on the device.\<close>

definition max_blocks :: "u32 \<Rightarrow> nat" where
  "max_blocks B = (let p = unat B div 4 in 12 + p + p * p + p * p * p)"

definition map_ok :: "nat \<Rightarrow> disk \<Rightarrow> u32 \<Rightarrow> u32 \<Rightarrow> Ext2Inode \<Rightarrow> nat \<Rightarrow> bool" where
  "map_ok limit D lba B inode n \<longleftrightarrow> n < max_blocks B \<and>
     (\<forall>(t, i) \<in> set (bvisits D lba B inode n). t \<noteq> 0 \<longrightarrow> on_device limit lba B t)"

lemma walk_append: "walk D lba B t (is @ js) = walk D lba B (walk D lba B t is) js"
  by (induction "is" arbitrary: t) simp_all

lemma visits_append: "visits D lba B t (is @ js) = visits D lba B t is @ visits D lba B (walk D lba B t is) js"
  by (induction "is" arbitrary: t) simp_all

lemma visits_index: "(t', i) \<in> set (visits D lba B t is) \<Longrightarrow> i \<in> set is"
  by (induction "is" arbitrary: t) auto

lemma route_index_nat:
  assumes "n < 12 + p + p * p + p * p * p" "block_route p n = (slot, is)" "0 < p"
  shows "\<forall>i\<in>set is. i < p"
proof -
  let ?k = "n - 12 - p - p * p"
  have "?k < p * p * p" if "\<not> n < 12 + p + p * p" using assms(1) that by linarith
  then have k: "?k div (p * p) < p" if "\<not> n < 12 + p + p * p"
    using that less_mult_imp_div_less [of ?k p "p * p"] by (simp add: mult.assoc)
  have m: "(n - 12 - p) div p < p" if "n < 12 + p + p * p" "\<not> n < 12 + p"
    using that by (intro less_mult_imp_div_less) linarith
  have "x mod (p * p) div p < p" for x using assms(3) by (intro less_mult_imp_div_less) simp
  then show ?thesis
    using assms k m by (auto simp: block_route_def Let_def split: if_splits)
qed

lemma route_index:
  assumes "n < max_blocks B" "block_route (unat B div 4) n = (slot, is)" "256 \<le> unat B div 4"
  shows "\<forall>i\<in>set is. i < unat B div 4"
  using route_index_nat [OF _ assms(2)] assms(1,3) by (simp add: max_blocks_def Let_def)

section \<open>Changing one slot\<close>

definition set_ptr :: "disk \<Rightarrow> u32 \<Rightarrow> u32 \<Rightarrow> u32 \<Rightarrow> nat \<Rightarrow> u32 \<Rightarrow> disk" where
  "set_ptr D lba B t i v = put_block D lba B t (splice (4 * i) (le32 v) (blockdata D lba B t))"

lemma ptr_at_set_ptr:
  assumes D: "full D" "geo sb B" and i: "4 * i + 4 \<le> unat B" and j: "4 * j + 4 \<le> unat B" and t: "t \<noteq> 0"
  shows "ptr_at (set_ptr D lba B t i v) lba B u j = (if u = t \<and> j = i then v else ptr_at D lba B u j)"
proof (cases "u = t")
  case False
  then have "t \<noteq> u" by simp
  then show ?thesis unfolding ptr_at_def set_ptr_def by (simp add: blockdata_put_other False)
next
  case True
  have len: "length (blockdata D lba B t) = unat B" by (rule length_blockdata [OF D])
  then have "length (splice (4 * i) (le32 v) (blockdata D lba B t)) = unat B" using i by simp
  from blockdata_put_same [OF D(2) this, of D lba t]
  have b: "blockdata (set_ptr D lba B t i v) lba B t = splice (4 * i) (le32 v) (blockdata D lba B t)"
    by (simp add: set_ptr_def)
  show ?thesis
  proof (cases "j = i")
    case True
    with b \<open>u = t\<close> t i len show ?thesis by (simp add: ptr_at_def get_splice_same)
  next
    case False
    then have "4 * j + 4 \<le> 4 * i \<or> 4 * i + 4 \<le> 4 * j" by linarith
    then have "get32 (splice (4 * i) (le32 v) (blockdata D lba B t)) (4 * j) = get32 (blockdata D lba B t) (4 * j)"
      using len i j by (intro get_splice(2)) simp_all
    with b \<open>u = t\<close> t False show ?thesis by (simp add: ptr_at_def)
  qed
qed

lemma walk_set_ptr:
  assumes D: "full D" "geo sb B" and i: "4 * i + 4 \<le> unat B" and t: "t \<noteq> 0"
  shows "(t, i) \<notin> set (visits D lba B u js) \<Longrightarrow> \<forall>j\<in>set js. 4 * j + 4 \<le> unat B \<Longrightarrow>
    walk (set_ptr D lba B t i v) lba B u js = walk D lba B u js"
proof (induction js arbitrary: u)
  case (Cons j js)
  then have "ptr_at (set_ptr D lba B t i v) lba B u j = ptr_at D lba B u j"
    using ptr_at_set_ptr [OF D i _ t, of j lba v u] by auto
  with Cons show ?case by simp
qed simp

lemma geo_ptrs:
  assumes "geo sb B"
  shows "256 \<le> unat B div 4" "unat B div 4 \<le> 16384" "unat B = 4 * (unat B div 4)" "unat (B div 4) = unat B div 4"
  using assms by (auto simp: geo_def unat_div)

lemma set_ptr_bmap:
  assumes D: "full D" "geo sb B" and n: "n < max_blocks B" "block_route (unat B div 4) n = (slot, path @ [i])"
    and t: "t = walk D lba B (i_block inode ! slot) path" "t \<noteq> 0"
    and once: "(t, i) \<notin> set (visits D lba B (i_block inode ! slot) path)"
  shows "bmap (set_ptr D lba B t i v) lba B inode n = v"
    and "k < max_blocks B \<Longrightarrow> (t, i) \<notin> set (bvisits D lba B inode k) \<Longrightarrow>
      bmap (set_ptr D lba B t i v) lba B inode k = bmap D lba B inode k"
proof -
  have i: "4 * i + 4 \<le> unat B" if "i < unat B div 4" for i using that geo_ptrs(3) [OF D(2)] by linarith
  have r: "\<forall>j\<in>set (path @ [i]). j < unat B div 4" by (rule route_index [OF n geo_ptrs(1) [OF D(2)]])
  have "walk (set_ptr D lba B t i v) lba B (i_block inode ! slot) path = t"
    unfolding t(1) using walk_set_ptr [OF D i _ once] r t by (simp add: i)
  then show "bmap (set_ptr D lba B t i v) lba B inode n = v"
    using n(2) ptr_at_set_ptr [OF D i i t(2)] r by (simp add: bmap_def walk_append)
  assume k: "k < max_blocks B" "(t, i) \<notin> set (bvisits D lba B inode k)"
  obtain s js where sj: "block_route (unat B div 4) k = (s, js)" by fastforce
  have "\<forall>j\<in>set js. 4 * j + 4 \<le> unat B" using route_index [OF k(1) sj geo_ptrs(1) [OF D(2)]] i by simp
  then show "bmap (set_ptr D lba B t i v) lba B inode k = bmap D lba B inode k"
    using walk_set_ptr [OF D i t(2)] k(2) r sj by (simp add: bmap_def bvisits_def)
qed

section \<open>The code\<close>

context block_io begin

lemma runs_read_ptr:
  assumes "inv d" "geo sb B" "t \<noteq> 0 \<Longrightarrow> on_device limit lba B t" "unat i < unat B div 4" "cost (ucast B) \<le> room d"
  shows "runs (cost (ucast B)) (read_ptr M sb t i lba) d (\<lambda>r D. r = ptr_at (disk d) lba B t (unat i) \<and> D = disk d)"
proof (cases "t = 0")
  case True
  with assms(1) show ?thesis by (simp add: read_ptr_def runs_def ptr_at_def)
next
  case False
  let ?body = "\<lambda>d. do {
          ((ret, data), d1) \<leftarrow> ReadBlock M sb t lba d;
          if ret \<noteq> 0 then Some (0, d1)
          else if 4 * unat i + 4 > length data then None
          else Some (get32 data (4 * unat i), d1) }"
  have "runs 0 ?body d1 (\<lambda>r D. r = ptr_at (disk d) lba B t (unat i) \<and> D = disk d)"
    if d1: "inv d1" "disk d1 = disk d" for d1
    using runs_ReadBlock [OF d1(1) assms(2) assms(3) [OF False]] False assms(4) geo_ptrs(3) [OF assms(2)]
      length_blockdata [OF full_disk [OF assms(1)] assms(2), of lba t] d1(2)
    by (auto elim!: runsE simp: runs_def ptr_at_def)
  with runs_with_buf [OF assms(1,5), of 0 ?body]
  have "runs (cost (ucast B)) (with_buf M (ucast B) 0 ?body) d
      (\<lambda>r D. r = ptr_at (disk d) lba B t (unat i) \<and> D = disk d)" by simp
  then show ?thesis using False geo_simps(1) [OF assms(2)] by (simp add: read_ptr_def runs_def)
qed

lemma runs_write_ptr:
  assumes "inv d" "geo sb B" "on_device limit lba B t" "unat i < unat B div 4" "cost (ucast B) \<le> room d"
  shows "runs (cost (ucast B)) (write_ptr M sb t i v lba) d (\<lambda>r D. r = 0 \<and> D = set_ptr (disk d) lba B t (unat i) v)"
proof -
  let ?img = "splice (4 * unat i) (le32 v) (blockdata (disk d) lba B t)"
  let ?body = "\<lambda>d. do {
       ((ret, data), d1) \<leftarrow> ReadBlock M sb t lba d;
       if ret \<noteq> 0 then Some (-4, d1)
       else if 4 * unat i + 4 > length data then None
       else do {
         (ret, d2) \<leftarrow> WriteBlock M sb t (splice (4 * unat i) (le32 v) data) lba d1;
         Some (if ret \<noteq> 0 then -5 else 0 :: int, d2) } }"
  have len: "length (blockdata (disk d) lba B t) = unat B"
    by (rule length_blockdata [OF full_disk [OF assms(1)] assms(2)])
  have i: "4 * unat i + 4 \<le> unat B" using assms(4) geo_ptrs(3) [OF assms(2)] by linarith
  then have limg: "length ?img = unat B" using len by simp
  have "runs 0 ?body d1 (\<lambda>r D. r = 0 \<and> D = set_ptr (disk d) lba B t (unat i) v)"
    if d1: "inv d1" "disk d1 = disk d" for d1
  proof -
    from runs_ReadBlock [OF d1(1) assms(2,3)] d1(2) obtain d2 where
      d2: "ReadBlock M sb t lba d1 = Some ((0, blockdata (disk d) lba B t), d2)" "inv d2" "disk d2 = disk d"
        "room d1 \<le> room d2" by (auto elim!: runsE)
    from runs_WriteBlock [OF d2(2) assms(2,3) limg] d2 show ?thesis
      using len i by (auto elim!: runsE simp: runs_def set_ptr_def)
  qed
  with runs_with_buf [OF assms(1,5), of 0 ?body]
  have "runs (cost (ucast B)) (with_buf M (ucast B) (-3) ?body) d (\<lambda>r D. r = 0 \<and> D = set_ptr (disk d) lba B t (unat i) v)"
    by simp
  then show ?thesis using geo_simps(1) [OF assms(2)] by (simp add: write_ptr_def runs_def)
qed

text \<open>A table that already has the sub-table is written back as it was.\<close>

lemma runs_sub_table:
  assumes "inv d" "geo sb B" "on_device limit lba B t" "unat i < unat B div 4" "cost (ucast B) \<le> room d"
    and nz: "t \<noteq> 0" "ptr_at (disk d) lba B t (unat i) \<noteq> 0"
  shows "runs (cost (ucast B)) (sub_table M t i v lba sb) d
    (\<lambda>r D. r = (Inr (ptr_at (disk d) lba B t (unat i)), sb) \<and> D = disk d)"
proof -
  let ?body = "\<lambda>d. do {
       ((ret, data), d1) \<leftarrow> ReadBlock M sb t lba d;
       if ret \<noteq> 0 then Some ((Inl (-4), sb), d1)
       else if 4 * unat i + 4 > length data then None
       else do {
         let u = get32 data (4 * unat i);
         if u = 0 \<and> v = 0 then Some ((Inl 0, sb), d1) else do {
           ((u1, sb1), d2) \<leftarrow> (if u = 0 then AllocBlock M sb lba d1 else Some ((u, sb), d1));
           if u1 = 0 then Some ((Inl (-2), sb1), d2) else do {
             let data1 = (if u = 0 then splice (4 * unat i) (le32 u1) data else data);
             (ret, d3) \<leftarrow> WriteBlock M sb1 t data1 lba d2;
             Some ((if ret \<noteq> 0 then Inl (-5 :: int) else Inr u1, sb1), d3) } } } }"
  let ?bd = "blockdata (disk d) lba B t"
  have len: "length ?bd = unat B"
    by (rule length_blockdata [OF full_disk [OF assms(1)] assms(2)])
  have i: "4 * unat i + 4 \<le> unat B" using assms(4) geo_ptrs(3) [OF assms(2)] by linarith
  have u: "get32 ?bd (4 * unat i) = ptr_at (disk d) lba B t (unat i)" using nz(1) by (simp add: ptr_at_def)
  have "runs 0 ?body d1 (\<lambda>r D. r = (Inr (ptr_at (disk d) lba B t (unat i)), sb) \<and> D = disk d)"
    if d1: "inv d1" "disk d1 = disk d" for d1
  proof -
    from runs_ReadBlock [OF d1(1) assms(2,3)] d1(2) obtain d2 where
      d2: "ReadBlock M sb t lba d1 = Some ((0, ?bd), d2)" "inv d2" "disk d2 = disk d"
        "room d1 \<le> room d2" by (auto elim!: runsE)
    from runs_WriteBlock [OF d2(2) assms(2,3) len] put_block_same [OF full_disk [OF assms(1)] assms(2)] d2(3)
    obtain d3 where d3: "WriteBlock M sb t ?bd lba d2 = Some (0, d3)" "inv d3" "disk d3 = disk d" "room d2 \<le> room d3"
      by (auto elim!: runsE)
    have "?body d1 = Some ((Inr (ptr_at (disk d) lba B t (unat i)), sb), d3)"
      using d2(1) d3(1) len i u nz(2) by simp
    then show ?thesis using d2 d3 by (auto simp: runs_def)
  qed
  with runs_with_buf [OF assms(1,5), of 0 ?body]
  have "runs (cost (ucast B)) (with_buf M (ucast B) (Inl (-3), sb) ?body) d
      (\<lambda>r D. r = (Inr (ptr_at (disk d) lba B t (unat i)), sb) \<and> D = disk d)" by simp
  then show ?thesis using geo_simps(1) [OF assms(2)] by (simp add: sub_table_def runs_def)
qed

end

text \<open>The word arithmetic of the two functions is that of the route.\<close>

lemma unat_less_12: "n < EXT2_NDIR_BLOCKS \<longleftrightarrow> unat n < 12"
  by (simp add: EXT2_NDIR_BLOCKS_def word_less_nat_alt)

lemma unat_minus: "b \<le> a \<Longrightarrow> unat (a - b) = unat a - unat b"
  by (simp add: unat_sub)

lemma route_words:
  fixes n :: u32
  assumes "geo sb B"
  defines "p \<equiv> B div 4"
  defines "P \<equiv> unat B div 4"
  defines "b1 \<equiv> n - EXT2_NDIR_BLOCKS"
  shows "unat p = P" "unat (p * p) = P * P" "p \<noteq> 0" "p * p \<noteq> 0"
    and "\<not> n < EXT2_NDIR_BLOCKS \<Longrightarrow> unat b1 = unat n - 12"
    and "\<not> n < EXT2_NDIR_BLOCKS \<Longrightarrow> \<not> b1 < p \<Longrightarrow> unat (b1 - p) = unat n - 12 - P"
    and "\<not> n < EXT2_NDIR_BLOCKS \<Longrightarrow> \<not> b1 < p \<Longrightarrow> \<not> b1 - p < p * p \<Longrightarrow> unat (b1 - p - p * p) = unat n - 12 - P - P * P"
proof -
  note g = geo_ptrs [OF assms(1)]
  show p: "unat p = P" using g(4) by (simp add: p_def P_def)
  have "P * P \<le> 16384 * 16384" using g(2) by (intro mult_le_mono) (simp_all add: P_def)
  then show pp: "unat (p * p) = P * P" using p by (simp add: unat_word_ariths)
  have "0 < P" using g(1) by (simp add: P_def)
  then show "p \<noteq> 0" "p * p \<noteq> 0" using p pp by (auto simp flip: unat_eq_zero)
  show 1: "unat b1 = unat n - 12" if "\<not> n < EXT2_NDIR_BLOCKS"
    using that unat_minus [of EXT2_NDIR_BLOCKS n] by (simp add: b1_def EXT2_NDIR_BLOCKS_def)
  show 2: "unat (b1 - p) = unat n - 12 - P" if "\<not> n < EXT2_NDIR_BLOCKS" "\<not> b1 < p"
    using unat_minus [of p b1] that 1 p by simp
  show "unat (b1 - p - p * p) = unat n - 12 - P - P * P"
    if "\<not> n < EXT2_NDIR_BLOCKS" "\<not> b1 < p" "\<not> b1 - p < p * p"
    using unat_minus [of "p * p" "b1 - p"] that 2 pp by simp
qed

text \<open>What the code computes: the slot and the indices of the route, as words.\<close>

definition word_route :: "u32 \<Rightarrow> u32 \<Rightarrow> nat \<times> u32 list" where
  "word_route B n = (let p = B div 4; b1 = n - EXT2_NDIR_BLOCKS; b2 = b1 - p; b3 = b2 - p * p in
     if n < EXT2_NDIR_BLOCKS then (unat n, [])
     else if b1 < p then (EXT2_IND_BLOCK, [b1])
     else if b2 < p * p then (EXT2_DIND_BLOCK, [b2 div p, b2 mod p])
     else (EXT2_TIND_BLOCK, [b3 div (p * p), b3 mod (p * p) div p, b3 mod (p * p) mod p]))"

lemma word_route_correct:
  assumes "geo sb B" "word_route B n = (slot, ws)"
  shows "block_route (unat B div 4) (unat n) = (slot, map unat ws)"
proof -
  let ?p = "B div 4" and ?P = "unat B div 4"
  let ?b1 = "n - EXT2_NDIR_BLOCKS"
  note w = route_words [OF assms(1)]
  consider (a) "n < EXT2_NDIR_BLOCKS" | (b) "\<not> n < EXT2_NDIR_BLOCKS" "?b1 < ?p"
    | (c) "\<not> n < EXT2_NDIR_BLOCKS" "\<not> ?b1 < ?p" "?b1 - ?p < ?p * ?p"
    | (d) "\<not> n < EXT2_NDIR_BLOCKS" "\<not> ?b1 < ?p" "\<not> ?b1 - ?p < ?p * ?p" by blast
  then show ?thesis
  proof cases
    case a
    then show ?thesis using assms(2) by (auto simp: word_route_def Let_def block_route_def unat_less_12)
  next
    case b
    from b(1) have "\<not> unat n < 12" unfolding unat_less_12 .
    moreover from b(2) have "unat n - 12 < ?P" unfolding word_less_nat_alt w(5) [OF b(1)] w(1) .
    ultimately have "\<not> unat n < 12" "unat n < 12 + ?P" by linarith+
    then show ?thesis using assms(2) b w(5) [OF b(1)]
      by (auto simp: word_route_def Let_def block_route_def ext2_consts)
  next
    case c
    from c(1) have "\<not> unat n < 12" unfolding unat_less_12 .
    moreover from c(2) have "\<not> unat n - 12 < ?P" unfolding word_less_nat_alt w(5) [OF c(1)] w(1) .
    moreover from c(3) have "unat n - 12 - ?P < ?P * ?P" unfolding word_less_nat_alt w(6) [OF c(1,2)] w(2) .
    ultimately have "\<not> unat n < 12" "\<not> unat n < 12 + ?P" "unat n < 12 + ?P + ?P * ?P" by linarith+
    then show ?thesis using assms(2) c w(1) w(6) [OF c(1,2)]
      by (auto simp: word_route_def Let_def block_route_def ext2_consts unat_div unat_mod)
  next
    case d
    from d(1) have "\<not> unat n < 12" unfolding unat_less_12 .
    moreover from d(2) have "\<not> unat n - 12 < ?P" unfolding word_less_nat_alt w(5) [OF d(1)] w(1) .
    moreover from d(3) have "\<not> unat n - 12 - ?P < ?P * ?P" unfolding word_less_nat_alt w(6) [OF d(1,2)] w(2) .
    ultimately have "\<not> unat n < 12" "\<not> unat n < 12 + ?P" "\<not> unat n < 12 + ?P + ?P * ?P" by linarith+
    then show ?thesis using assms(2) d w(1,2) w(7) [OF d]
      by (auto simp: word_route_def Let_def block_route_def ext2_consts unat_div unat_mod)
  qed
qed

text \<open>Both functions, rewritten over the route.\<close>

fun read_along :: "'d Machine \<Rightarrow> Ext2SuperBlock \<Rightarrow> u32 \<Rightarrow> u32 list \<Rightarrow> u32 \<Rightarrow> 'd \<Rightarrow> (u32 \<times> 'd) option" where
  "read_along M sb lba [] t d = Some (t, d)"
| "read_along M sb lba (i # is) t d = do { (u, d1) \<leftarrow> read_ptr M sb t i lba d; read_along M sb lba is u d1 }"

lemma read_ptr_0 [simp]: "read_ptr M sb 0 i lba d = Some (0, d)"
  by (simp add: read_ptr_def)

lemma bind_pair_Some [simp]: "do { (x, y) \<leftarrow> m; Some (x, y) } = m"
  by (cases m) auto

lemma read_along_expand:
  "read_along M sb lba [i] t d = read_ptr M sb t i lba d"
  "read_along M sb lba [i, j] t d = do { (u, d1) \<leftarrow> read_ptr M sb t i lba d; read_ptr M sb u j lba d1 }"
  "read_along M sb lba [i, j, k] t d = do {
     (u, d1) \<leftarrow> read_ptr M sb t i lba d; (v, d2) \<leftarrow> read_ptr M sb u j lba d1; read_ptr M sb v k lba d2 }"
  unfolding read_along.simps bind_pair_Some by (rule refl)+

lemma GetBlockNum_route:
  assumes "geo sb B" "word_route B n = (slot, ws)"
  shows "GetBlockNum M sb inode n lba d = read_along M sb lba ws (i_block inode ! slot) d"
  using assms(2) geo_simps(1) [OF assms(1)] route_words(4) [OF assms(1)]
  by (auto simp: GetBlockNum_def word_route_def Let_def read_along_expand simp del: read_along.simps(2) split: if_splits)

lemma SetBlockNum_route:
  assumes "geo sb B" "word_route B n = (slot, ws @ [w])" "i_block inode ! slot \<noteq> 0"
  shows "SetBlockNum M inode n v lba sb d = set_along M v lba ws w (i_block inode ! slot) inode sb d"
  using assms(2,3) geo_simps(1) [OF assms(1)] route_words(4) [OF assms(1)]
  by (auto simp: SetBlockNum_def word_route_def Let_def set_from_root_def root_table_def split: if_splits)

lemma SetBlockNum_direct:
  assumes "geo sb B" "n < EXT2_NDIR_BLOCKS"
  shows "SetBlockNum M inode n v lba sb d = Some (0, inode\<lparr>i_block := (i_block inode)[unat n := v]\<rparr>, sb, d)"
  using assms(2) geo_simps(1) [OF assms(1)] by (simp add: SetBlockNum_def Let_def)

context block_io begin

lemma runs_read_along:
  assumes "geo sb B"
  shows "inv d \<Longrightarrow> \<forall>(u, i)\<in>set (visits (disk d) lba B t (map unat ws)). u \<noteq> 0 \<longrightarrow> on_device limit lba B u \<Longrightarrow>
    \<forall>w\<in>set ws. unat w < unat B div 4 \<Longrightarrow> length ws * cost (ucast B) \<le> room d \<Longrightarrow>
    runs (length ws * cost (ucast B)) (read_along M sb lba ws t) d
      (\<lambda>r D. r = walk (disk d) lba B t (map unat ws) \<and> D = disk d)"
proof (induction ws arbitrary: t d)
  case Nil
  then show ?case by (simp add: runs_def)
next
  case (Cons w ws)
  let ?K = "cost (ucast B)" and ?u = "ptr_at (disk d) lba B t (unat w)"
  from Cons.prems runs_read_ptr [OF Cons.prems(1) assms, of t lba w] obtain d1 where
    d1: "read_ptr M sb t w lba d = Some (?u, d1)" "inv d1" "room d \<le> room d1 + ?K" "disk d1 = disk d"
    by (auto elim!: runsE)
  then have "runs (length ws * ?K) (read_along M sb lba ws ?u) d1
      (\<lambda>r D. r = walk (disk d) lba B ?u (map unat ws) \<and> D = disk d)"
    using Cons.IH [of d1 ?u] Cons.prems by simp
  with d1 show ?case by (auto simp: runs_def)
qed

lemma runs_GetBlockNum:
  assumes "inv d" "geo sb B" "map_ok limit (disk d) lba B inode (unat n)" "3 * cost (ucast B) \<le> room d"
  shows "runs (3 * cost (ucast B)) (GetBlockNum M sb inode n lba) d
    (\<lambda>r D. r = bmap (disk d) lba B inode (unat n) \<and> D = disk d)"
proof -
  let ?K = "cost (ucast B)"
  obtain slot ws where w: "word_route B n = (slot, ws)" by fastforce
  note r = word_route_correct [OF assms(2) w]
  have l: "length ws \<le> 3" using w by (auto simp: word_route_def Let_def split: if_splits)
  then have lk: "length ws * ?K \<le> 3 * ?K" by (rule mult_le_mono1)
  have ix: "\<forall>w\<in>set ws. unat w < unat B div 4"
    using route_index [OF _ r geo_ptrs(1) [OF assms(2)]] assms(3) by (simp add: map_ok_def)
  have v: "\<forall>(u, i)\<in>set (visits (disk d) lba B (i_block inode ! slot) (map unat ws)). u \<noteq> 0 \<longrightarrow> on_device limit lba B u"
    using assms(3) r by (simp add: map_ok_def bvisits_def)
  have "runs (length ws * ?K) (read_along M sb lba ws (i_block inode ! slot)) d
      (\<lambda>r D. r = bmap (disk d) lba B inode (unat n) \<and> D = disk d)"
    using runs_read_along [OF assms(2,1) v ix] lk assms(4) r by (simp add: bmap_def)
  then show ?thesis using runs_conseq [OF _ _ lk] GetBlockNum_route [OF assms(2) w, of M inode lba]
    by (simp add: runs_def) (meson lk add_left_mono order_trans)
qed

lemma runs_set_along:
  assumes "geo sb B"
  shows "inv d \<Longrightarrow> \<forall>(u, i)\<in>set (visits (disk d) lba B t (map unat (ws @ [w]))). u \<noteq> 0 \<and> on_device limit lba B u \<Longrightarrow>
    \<forall>w\<in>set (ws @ [w]). unat w < unat B div 4 \<Longrightarrow> (length ws + 1) * cost (ucast B) \<le> room d \<Longrightarrow>
    \<exists>d'. set_along M v lba ws w t inode sb d = Some (0, inode, sb, d') \<and> inv d' \<and>
      room d \<le> room d' + (length ws + 1) * cost (ucast B) \<and>
      disk d' = set_ptr (disk d) lba B (walk (disk d) lba B t (map unat ws)) (unat w) v"
proof (induction ws arbitrary: t d)
  case Nil
  then show ?case using runs_write_ptr [OF Nil(1) assms, of lba t w v] by (auto elim!: runsE)
next
  case (Cons i ws)
  let ?K = "cost (ucast B)" and ?u = "ptr_at (disk d) lba B t (unat i)"
  have u: "?u \<noteq> 0" "t \<noteq> 0" "on_device limit lba B t" using Cons.prems(2) by (cases ws; auto)+
  from Cons.prems runs_sub_table [OF Cons.prems(1) assms u(3) _ _ u(2,1), of v] obtain d1 where
    d1: "sub_table M t i v lba sb d = Some ((Inr ?u, sb), d1)" "inv d1" "room d \<le> room d1 + ?K" "disk d1 = disk d"
    by (auto elim!: runsE)
  with Cons.IH [of d1 ?u] Cons.prems obtain d' where
    "set_along M v lba ws w ?u inode sb d1 = Some (0, inode, sb, d')" "inv d'"
    "room d1 \<le> room d' + (length ws + 1) * ?K"
    "disk d' = set_ptr (disk d) lba B (walk (disk d) lba B ?u (map unat ws)) (unat w) v" by auto
  with d1 show ?case by auto
qed

end

end
