(* ===== verification/Ext2Data.thy ===== *)
theory Ext2Data
  imports Ext2Map
begin

text \<open>
  The data of a file whose blocks are all mapped: reading returns its bytes, overwriting changes
  exactly the bytes written.
\<close>

section \<open>The bytes of a file\<close>

definition file_byte :: "disk \<Rightarrow> u32 \<Rightarrow> u32 \<Rightarrow> Ext2Inode \<Rightarrow> nat \<Rightarrow> byte" where
  "file_byte D lba B inode k = blockdata D lba B (bmap D lba B inode (k div unat B)) ! (k mod unat B)"

definition file_range :: "disk \<Rightarrow> u32 \<Rightarrow> u32 \<Rightarrow> Ext2Inode \<Rightarrow> nat \<Rightarrow> nat \<Rightarrow> byte list" where
  "file_range D lba B inode off n = map (file_byte D lba B inode) [off..<off + n]"

text \<open>Every block of the file up to byte \<open>n\<close> is mapped to a block of the device.\<close>

definition mapped :: "nat \<Rightarrow> disk \<Rightarrow> u32 \<Rightarrow> u32 \<Rightarrow> Ext2Inode \<Rightarrow> nat \<Rightarrow> bool" where
  "mapped limit D lba B inode n \<longleftrightarrow> (\<forall>k. k * unat B < n \<longrightarrow> map_ok limit D lba B inode k \<and>
     bmap D lba B inode k \<noteq> 0 \<and> on_device limit lba B (bmap D lba B inode k))"

lemma div_mult_less: "k < n \<Longrightarrow> k div b * b < (n :: nat)"
  using div_mult_mod_eq [of k b] by linarith

lemma mappedD:
  assumes "mapped limit D lba B inode n" "k < n"
  shows "map_ok limit D lba B inode (k div unat B)" "bmap D lba B inode (k div unat B) \<noteq> 0"
    "on_device limit lba B (bmap D lba B inode (k div unat B))"
  using assms(1) div_mult_less [OF assms(2), of "unat B"] by (auto simp: mapped_def)

lemma file_range_append:
  "file_range D lba B inode off (m + n) = file_range D lba B inode off m @ file_range D lba B inode (off + m) n"
proof -
  have "[off..<off + m + n] = [off..<off + m] @ [off + m..<off + m + n]"
    by (rule upt_add_eq_append) simp
  then show ?thesis by (simp add: file_range_def add.assoc)
qed

lemma div_mod_add:
  fixes b x i :: nat
  assumes "x mod b + i < b"
  shows "(x + i) div b = x div b" "(x + i) mod b = x mod b + i"
proof -
  have "x + i = (x mod b + i) + b * (x div b)" by simp
  moreover have "((x mod b + i) + b * (x div b)) div b = x div b" "((x mod b + i) + b * (x div b)) mod b = x mod b + i"
    using assms by (simp_all only: div_mult_self2 mod_mult_self2 div_less mod_less)
  ultimately show "(x + i) div b = x div b" "(x + i) mod b = x mod b + i" by simp_all
qed

text \<open>A range inside one block is a slice of it.\<close>

lemma file_range_slice:
  assumes "x mod unat B + n \<le> unat B" "length (blockdata D lba B (bmap D lba B inode (x div unat B))) = unat B" "0 < n"
  shows "file_range D lba B inode x n = slice (blockdata D lba B (bmap D lba B inode (x div unat B))) (x mod unat B) n"
proof (rule nth_equalityI)
  show "length (file_range D lba B inode x n) = length (slice (blockdata D lba B (bmap D lba B inode (x div unat B))) (x mod unat B) n)"
    using assms by (simp add: file_range_def)
  fix i assume "i < length (file_range D lba B inode x n)"
  then have i: "i < n" by (simp add: file_range_def)
  have lt: "x mod unat B + i < unat B" using i assms(1) by simp
  from div_mod_add [OF this] show "file_range D lba B inode x n ! i =
      slice (blockdata D lba B (bmap D lba B inode (x div unat B))) (x mod unat B) n ! i"
    using i assms by (simp add: file_range_def file_byte_def slice_nth)
qed

section \<open>One round of the copy loops\<close>

lemma sint_small:
  fixes c :: u64
  assumes "unat c < 2 ^ 63"
  shows "sint c = int (unat c)"
proof -
  have "uint c < 2 ^ 63" using assms by (metis of_nat_less_iff of_nat_numeral of_nat_power uint_nat)
  moreover have "- (2 ^ 63) \<le> (0 :: int)" by simp
  then have "- (2 ^ 63) \<le> uint c" by (rule order_trans) simp
  ultimately show ?thesis by (simp add: sint_uint signed_take_bit_int_eq_self uint_nat [symmetric])
qed

lemma unat_ucast_u32: "unat (ucast (w :: u32) :: u64) = unat w"
proof -
  have "unat w < 2 ^ 32" using unsigned_less [of w, where ?'a = nat] by simp
  then show ?thesis by (simp add: unsigned_ucast_eq take_bit_nat_eq_self)
qed

lemma unat_ucast_down: "unat (w :: u64) < 2 ^ 32 \<Longrightarrow> unat (ucast w :: u32) = unat w"
  by (simp add: unsigned_ucast_eq take_bit_nat_eq_self)

lemma chunk_correct:
  fixes offset bytes c :: u64
  assumes "geo sb B" "unat offset + unat bytes < 2 ^ 32" "c < bytes"
  defines "x \<equiv> unat offset + unat c"
  shows "\<exists>q r n. chunk B offset bytes c = Some (q, r, n) \<and> unat q = x div unat B \<and> unat r = x mod unat B \<and>
    unat n = min (unat B - x mod unat B) (unat bytes - unat c)"
proof -
  have c: "unat c < unat bytes" using assms(3) by (simp add: word_less_nat_alt)
  have x: "unat (offset + c) = x" "x < 2 ^ 32" using assms(2) c by (simp_all add: x_def unat_word_ariths)
  have B: "unat (ucast B :: u64) = unat B" "0 < unat B" "unat B \<le> 65536"
    using geo_simps(7,8) [OF assms(1)] by (simp_all add: unat_ucast_u32)
  then have nz: "(ucast B :: u64) \<noteq> 0" by (metis less_numeral_extra(3) unat_0)
  let ?q = "ucast ((offset + c) div ucast B) :: u32" and ?r = "ucast ((offset + c) mod ucast B) :: u32"
  have le: "x div unat B \<le> x" by (rule div_le_dividend)
  have uq: "unat ((offset + c) div ucast B) = x div unat B" unfolding unat_div x(1) B(1) ..
  then have "unat ((offset + c) div ucast B) < 2 ^ 32" using le x(2) by linarith
  then have q: "unat ?q = x div unat B" using uq by (simp add: unat_ucast_down)
  have rl: "x mod unat B < unat B" using B(2) by simp
  have ur: "unat ((offset + c) mod ucast B) = x mod unat B" unfolding unat_mod x(1) B(1) ..
  then have "unat ((offset + c) mod ucast B) < 2 ^ 32" using rl B(3) by simp
  then have r: "unat ?r = x mod unat B" using ur by (simp add: unat_ucast_down)
  have ib: "unat (B - ?r) = unat B - x mod unat B" using rl r by (simp add: unat_minus word_le_nat_alt)
  have rem: "unat (bytes - c) = unat bytes - unat c" using assms(3) by (simp add: unat_minus less_imp_le)
  let ?n = "if ucast (B - ?r) > bytes - c then ucast (bytes - c) else B - ?r"
  have "unat ?n = min (unat B - x mod unat B) (unat bytes - unat c)"
  proof (cases "ucast (B - ?r) > bytes - c")
    case True
    then have lt: "unat bytes - unat c < unat B - x mod unat B"
      unfolding word_less_nat_alt unat_ucast_u32 ib rem .
    then have "unat (bytes - c) < 2 ^ 32" using rem B(3) by simp
    then show ?thesis using True lt rem by (simp add: unat_ucast_down)
  next
    case False
    then have "\<not> unat bytes - unat c < unat B - x mod unat B"
      unfolding word_less_nat_alt unat_ucast_u32 ib rem .
    then show ?thesis using False ib by simp
  qed
  moreover have "chunk B offset bytes c = Some (?q, ?r, ?n)" using nz by (simp add: chunk_def Let_def)
  ultimately show ?thesis using q r by blast
qed

text \<open>How many blocks a copy has touched after \<open>c\<close> bytes from \<open>x\<close> on.\<close>

definition touched :: "nat \<Rightarrow> nat \<Rightarrow> nat \<Rightarrow> nat" where
  "touched b x c = (if c = 0 then 0 else (x + c - 1) div b + 1 - x div b)"

lemma touched_mono: "c \<le> c' \<Longrightarrow> touched b x c \<le> touched b x c'"
  by (auto simp: touched_def intro!: diff_le_mono div_le_mono)

lemma touched_step:
  assumes "0 < b" "c = 0 \<or> (x + c) mod b = 0" "n \<le> b - (x + c) mod b" "0 < n"
  shows "touched b x c + 1 \<le> touched b x (c + n)"
proof -
  let ?y = "x + c"
  have "x div b \<le> ?y div b" by (rule div_le_mono) simp
  moreover have "?y div b \<le> (?y + n - 1) div b" using assms(4) by (intro div_le_mono) simp
  moreover have "(?y - 1) div b + 1 \<le> ?y div b" if "c \<noteq> 0"
  proof -
    from that assms(2) have m: "?y mod b = 0" "0 < ?y" by auto
    then obtain k where k: "?y = b * k" by auto
    then have "0 < k" using m(2) by (cases k) auto
    have "?y - 1 < b * k" using k m(2) by simp
    then have "(?y - 1) div b < k" using less_mult_imp_div_less [of "?y - 1" k b] by (simp add: mult.commute)
    then show ?thesis using k assms(1) by simp
  qed
  ultimately show ?thesis using assms(4) by (auto simp: touched_def add.assoc)
qed

section \<open>Reading\<close>

context block_io begin

definition copy_inv :: "'d \<Rightarrow> nat \<Rightarrow> nat \<Rightarrow> nat \<Rightarrow> nat \<Rightarrow> 'd \<Rightarrow> bool" where
  "copy_inv d0 b x bytes c d \<longleftrightarrow> inv d \<and> c \<le> bytes \<and> (c = 0 \<or> c = bytes \<or> (x + c) mod b = 0) \<and>
     room d0 \<le> room d + 4 * cost (of_nat b) * touched b x c"

lemma copy_inv_step:
  assumes "copy_inv d0 b x bytes c d" "c < bytes" "0 < b" "n = min (b - (x + c) mod b) (bytes - c)"
    "4 * cost (of_nat b) * touched b x bytes \<le> room d0"
  shows "4 * cost (of_nat b) \<le> room d" "0 < n"
    and "inv d' \<Longrightarrow> room d \<le> room d' + 4 * cost (of_nat b) \<Longrightarrow> copy_inv d0 b x bytes (c + n) d'"
proof -
  let ?K = "4 * cost (of_nat b)"
  have al: "c = 0 \<or> (x + c) mod b = 0" using assms(1,2) by (auto simp: copy_inv_def)
  have lt: "(x + c) mod b < b" using assms(3) by simp
  then show n: "0 < n" using assms(2,4) by simp
  have st: "touched b x c + 1 \<le> touched b x (c + n)"
    using touched_step [OF assms(3) al _ n] assms(4) by simp
  have "c + n \<le> bytes" using assms(2,4) by simp
  then have "touched b x (c + n) \<le> touched b x bytes" by (rule touched_mono)
  then have "?K * (touched b x c + 1) \<le> ?K * touched b x bytes" using st by (intro mult_le_mono2) simp
  then show "?K \<le> room d" using assms(1,5) by (simp add: copy_inv_def algebra_simps)
  assume d': "inv d'" "room d \<le> room d' + ?K"
  have "?K * (touched b x c + 1) \<le> ?K * touched b x (c + n)" using st by (rule mult_le_mono2)
  then have "room d0 \<le> room d' + ?K * touched b x (c + n)"
    using d'(2) assms(1) by (simp add: copy_inv_def algebra_simps)
  moreover have "c + n = bytes \<or> (x + (c + n)) mod b = 0"
  proof (cases "b - (x + c) mod b \<le> bytes - c")
    case True
    then have "n = b - (x + c) mod b" using assms(4) by simp
    then have "x + (c + n) = (x + c) div b * b + b" using lt div_mult_mod_eq [of "x + c" b] by linarith
    then show ?thesis by (metis mod_add_self2 mod_mult_self2_is_0)
  qed (use assms(2,4) in simp)
  ultimately show "copy_inv d0 b x bytes (c + n) d'"
    using d'(1) \<open>c + n \<le> bytes\<close> by (auto simp: copy_inv_def)
qed

lemma ReadFile_correct:
  assumes i: "inv d" and g: "geo sb B" and f: "\<not> is_dir inode"
    and m: "mapped limit (disk d) lba B inode (unat (i_size inode))"
    and o: "unat offset < unat (i_size inode)" "unat offset + unat count < 2 ^ 64"
  defines "n \<equiv> min (unat count) (unat (i_size inode) - unat offset)"
  assumes rm: "4 * cost (ucast B) * touched (unat B) (unat offset) n \<le> room d"
  shows "runs (4 * cost (ucast B) * touched (unat B) (unat offset) n) (ReadFile M sb inode count offset lba) d
    (\<lambda>r D. r = (int n, file_range (disk d) lba B inode (unat offset) n) \<and> D = disk d)"
proof -
  let ?D = "disk d" and ?size = "unat (i_size inode)" and ?x = "unat offset" and ?b = "unat B"
  let ?bytes = "if offset + count > ucast (i_size inode) then ucast (i_size inode) - offset else count"
  have sz: "?size < 2 ^ 32" using unsigned_less [of "i_size inode", where ?'a = nat] by simp
  have oc: "unat (offset + count) = ?x + unat count" using o(2) by (simp add: unat_word_ariths)
  have le: "offset \<le> ucast (i_size inode)" using o(1) by (simp add: word_le_nat_alt unat_ucast_u32)
  have bytes: "unat ?bytes = n"
    using unat_minus [OF le] by (auto simp: n_def word_less_nat_alt oc unat_ucast_u32)
  have nx: "?x + n \<le> ?size" using o(1) by (simp add: n_def)
  have ub: "of_nat ?b = (ucast B :: u64)" by (simp add: word_unat_eq_iff unat_ucast_u32 unat_of_nat)
  let ?I = "\<lambda>(c :: u64, out, s). disk s = ?D \<and> out = file_range ?D lba B inode ?x (unat c) \<and> copy_inv d ?b ?x n (unat c) s"
  let ?Q = "\<lambda>(c, out, s). ?I (c, out, s) \<and> unat c = n"
  have "\<exists>r. loop (read_body M sb inode B lba offset ?bytes) (0, [], d) = Some r \<and> ?Q r"
  proof (rule loop_total [where I = ?I and m = "\<lambda>(c, _, _). n - unat c"])
    show "?I (0, [], d)" using i by (simp add: file_range_def copy_inv_def touched_def)
  next
    fix st :: "u64 \<times> byte list \<times> 'd" assume "?I st"
    obtain c out s where st: "st = (c, out, s)" by (cases st) auto
    with \<open>?I st\<close> have I: "disk s = ?D" "out = file_range ?D lba B inode ?x (unat c)" "copy_inv d ?b ?x n (unat c) s"
      by simp_all
    have is_: "inv s" using I(3) by (simp add: copy_inv_def)
    show "(\<exists>st'. read_body M sb inode B lba offset ?bytes st = Some (Next st') \<and> ?I st' \<and>
            (case st' of (c, _, _) \<Rightarrow> n - unat c) < (case st of (c, _, _) \<Rightarrow> n - unat c)) \<or>
          (\<exists>r. read_body M sb inode B lba offset ?bytes st = Some (Done r) \<and> ?Q r)"
    proof (cases "c < ?bytes")
      case False
      then have "unat c = n" using I(3) bytes by (simp add: copy_inv_def word_less_nat_alt)
      with False I show ?thesis by (simp add: st read_body_def)
    next
      case True
      then have cn: "unat c < n" using bytes by (simp add: word_less_nat_alt)
      have "?x + unat ?bytes < 2 ^ 32" using bytes nx sz by linarith
      from chunk_correct [OF g this True] bytes obtain q r k where
        ch: "chunk B offset ?bytes c = Some (q, r, k)" "unat q = (?x + unat c) div ?b" "unat r = (?x + unat c) mod ?b"
          "unat k = min (?b - (?x + unat c) mod ?b) (n - unat c)" by auto
      note step = copy_inv_step [OF I(3) cn _ ch(4)]
      have b0: "0 < ?b" using geo_simps(8) [OF g] by simp
      have rms: "4 * cost (ucast B) \<le> room s" "0 < unat k" using step(1,2) [OF b0] rm by (simp_all add: ub)
      have xc: "?x + unat c < ?size" using cn nx by linarith
      note md = mappedD [OF m xc]
      let ?blk = "bmap ?D lba B inode (unat q)"
      obtain s1 where s1: "GetBlockNum M sb inode q lba s = Some (?blk, s1)" "inv s1" "disk s1 = ?D"
        "room s \<le> room s1 + 3 * cost (ucast B)"
        using runs_GetBlockNum [OF is_ g, of lba inode q] md(1) rms(1) I(1) ch(2) by (auto elim!: runsE)
      let ?body = "\<lambda>d. do { ((ret, data), d2) \<leftarrow> ReadBlock M sb ?blk lba d; Some ((ret = 0, data), d2) }"
      have "runs 0 ?body s2 (\<lambda>r D. r = (True, blockdata ?D lba B ?blk) \<and> D = ?D)" if "inv s2" "disk s2 = ?D" for s2
        using runs_ReadBlock [OF that(1) g, of lba ?blk] md(3) ch(2) that(2) by (auto elim!: runsE simp: runs_def)
      with runs_with_buf [OF s1(2), of "ucast B" 0 ?body] s1(3,4) rms(1)
      have "runs (cost (ucast B)) (with_buf M (ucast B) (False, []) ?body) s1
          (\<lambda>r D. r = (True, blockdata ?D lba B ?blk) \<and> D = ?D)" by simp
      then obtain s2 where s2: "with_buf M (ucast B) (False, []) ?body s1 = Some ((True, blockdata ?D lba B ?blk), s2)"
        "inv s2" "disk s2 = ?D" "room s1 \<le> room s2 + cost (ucast B)" by (auto elim!: runsE)
      have rs: "room s \<le> room s2 + 4 * cost (of_nat ?b)" using s1(4) s2(4) by (simp add: ub)
      have uc: "unat (c + ucast k) = unat c + unat k"
        using ch(4) cn nx sz by (simp add: unat_word_ariths unat_ucast_u32)
      have "file_range ?D lba B inode (?x + unat c) (unat k) = slice (blockdata ?D lba B ?blk) (unat r) (unat k)"
      proof -
        have "(?x + unat c) mod ?b < ?b" using b0 by simp
        then have "(?x + unat c) mod ?b + unat k \<le> ?b" unfolding ch(4) by linarith
        from file_range_slice [OF this length_blockdata [OF full_disk [OF i] g] rms(2)] show ?thesis
          by (simp add: ch(2,3))
      qed
      then have out: "out @ slice (blockdata ?D lba B ?blk) (unat r) (unat k) = file_range ?D lba B inode ?x (unat (c + ucast k))"
        unfolding uc file_range_append I(2) by simp
      have ci: "copy_inv d ?b ?x n (unat (c + ucast k)) s2"
        unfolding uc using step(3) [OF b0 _ s2(2) rs] rm by (simp add: ub)
      have "read_body M sb inode B lba offset ?bytes st =
          Some (Next (c + ucast k, out @ slice (blockdata ?D lba B ?blk) (unat r) (unat k), s2))"
        using True ch(1) s1(1) s2(1) md(2) ch(2) by (simp add: st read_body_def)
      then show ?thesis using s2(3) out ci uc rms(2) cn by (intro disjI1) (auto simp: st)
    qed
  qed
  then obtain c out s where r: "loop (read_body M sb inode B lba offset ?bytes) (0, [], d) = Some (c, out, s)"
    "disk s = ?D" "out = file_range ?D lba B inode ?x n" "copy_inv d ?b ?x n n s" "unat c = n" by auto
  have "sint c = int n" using sint_small [of c] r(5) nx sz by simp
  then have "ReadFile M sb inode count offset lba d = Some ((int n, out), s)"
    using f o(1) geo_simps(1) [OF g] r(1)
    by (simp add: ReadFile_def Let_def word_le_nat_alt unat_ucast_u32)
  then show ?thesis using r(2-4) by (auto simp: runs_def copy_inv_def ub)
qed

end

section \<open>Overwriting\<close>

text \<open>No two blocks of the file are the same, and none of them is a table on the way to another.\<close>

definition separate :: "disk \<Rightarrow> u32 \<Rightarrow> u32 \<Rightarrow> Ext2Inode \<Rightarrow> nat \<Rightarrow> bool" where
  "separate D lba B inode n \<longleftrightarrow> (\<forall>j k. j * unat B < n \<longrightarrow> k * unat B < n \<longrightarrow>
     (bmap D lba B inode j = bmap D lba B inode k \<longrightarrow> j = k) \<and>
     bmap D lba B inode j \<notin> fst ` set (bvisits D lba B inode k))"

lemma walk_put_other:
  "b \<notin> fst ` set (visits D lba B t is) \<Longrightarrow>
    walk (put_block D lba B b data) lba B t is = walk D lba B t is \<and>
    visits (put_block D lba B b data) lba B t is = visits D lba B t is"
proof (induction "is" arbitrary: t)
  case (Cons i "is")
  then have "b \<noteq> t" by auto
  from blockdata_put_other [OF this] have "ptr_at (put_block D lba B b data) lba B t i = ptr_at D lba B t i"
    by (simp add: ptr_at_def)
  with Cons show ?case by simp
qed simp

lemma bmap_put_other:
  assumes "b \<notin> fst ` set (bvisits D lba B inode k)"
  shows "bmap (put_block D lba B b data) lba B inode k = bmap D lba B inode k"
    "bvisits (put_block D lba B b data) lba B inode k = bvisits D lba B inode k"
  using assms walk_put_other by (auto simp: bmap_def bvisits_def split: prod.splits)

text \<open>The disk after \<open>c\<close> bytes of \<open>buf\<close> have been written from byte \<open>x\<close> of the file on.\<close>

definition overwritten :: "disk \<Rightarrow> u32 \<Rightarrow> u32 \<Rightarrow> Ext2Inode \<Rightarrow> nat \<Rightarrow> byte list \<Rightarrow> nat \<Rightarrow> nat \<Rightarrow> disk \<Rightarrow> bool" where
  "overwritten D lba B inode sz buf x c D' \<longleftrightarrow> full D' \<and>
     (\<forall>k. k * unat B < sz \<longrightarrow> bmap D' lba B inode k = bmap D lba B inode k \<and>
        bvisits D' lba B inode k = bvisits D lba B inode k) \<and>
     (\<forall>k < sz. file_byte D' lba B inode k =
        (if x \<le> k \<and> k < x + c then buf ! (k - x) else file_byte D lba B inode k)) \<and>
     (\<forall>b. (\<forall>k. k * unat B < sz \<longrightarrow> bmap D lba B inode k \<noteq> b) \<longrightarrow> blockdata D' lba B b = blockdata D lba B b)"

lemma overwritten_mapped:
  assumes "overwritten D lba B inode sz buf x c D'"
  shows "mapped limit D' lba B inode sz = mapped limit D lba B inode sz"
    "separate D' lba B inode sz = separate D lba B inode sz"
  using assms by (auto simp: overwritten_def mapped_def map_ok_def separate_def)

lemma overwritten_step:
  assumes O: "overwritten D lba B inode sz buf x c D'" and g: "geo sb B"
    and sep: "separate D lba B inode sz" and y: "y = x + c" "y + n \<le> sz" "0 < n" "y mod unat B + n \<le> unat B"
    and len: "c + n \<le> length buf"
  defines "b \<equiv> bmap D' lba B inode (y div unat B)"
  shows "overwritten D lba B inode sz buf x (c + n)
    (put_block D' lba B b (splice (y mod unat B) (slice buf c n) (blockdata D' lba B b)))"
proof -
  let ?b = "unat B" and ?img = "splice (y mod unat B) (slice buf c n) (blockdata D' lba B b)"
  let ?D = "put_block D' lba B b ?img"
  have f: "full D'" using O by (simp add: overwritten_def)
  have b0: "0 < ?b" using geo_simps(8) [OF g] by simp
  have lb: "length (blockdata D' lba B b) = ?b" by (rule length_blockdata [OF f g])
  have ls: "length (slice buf c n) = n" using len by simp
  have li: "length ?img = ?b" using lb ls y(4) by simp
  have sep': "separate D' lba B inode sz" using overwritten_mapped(2) [OF O] sep by simp
  have yk: "y div ?b * ?b < sz" using div_mult_less [of y sz ?b] y(2,3) by linarith
  have nv: "b \<notin> fst ` set (bvisits D' lba B inode k)" if "k * ?b < sz" for k
    using sep' that yk by (auto simp: separate_def b_def)
  have bm: "bmap ?D lba B inode k = bmap D' lba B inode k" "bvisits ?D lba B inode k = bvisits D' lba B inode k"
    if "k * ?b < sz" for k using bmap_put_other [OF nv [OF that]] by simp_all
  have fb: "file_byte ?D lba B inode k = (if y \<le> k \<and> k < y + n then buf ! (k - x) else file_byte D' lba B inode k)"
    if k: "k < sz" for k
  proof (cases "k div ?b = y div ?b")
    case True
    have "blockdata ?D lba B b = ?img" by (rule blockdata_put_same [OF g li])
    then have "file_byte ?D lba B inode k = ?img ! (k mod ?b)"
      using bm(1) [OF div_mult_less [OF k]] True by (simp add: file_byte_def b_def)
    also have "\<dots> = (if y mod ?b \<le> k mod ?b \<and> k mod ?b < y mod ?b + n then slice buf c n ! (k mod ?b - y mod ?b)
        else blockdata D' lba B b ! (k mod ?b))"
      using splice_nth [of "y mod ?b" "slice buf c n" "blockdata D' lba B b" "k mod ?b"] lb ls y(4) b0 by simp
    also have "\<dots> = (if y \<le> k \<and> k < y + n then buf ! (k - x) else file_byte D' lba B inode k)"
    proof -
      have e: "k = y div ?b * ?b + k mod ?b" "y = y div ?b * ?b + y mod ?b"
        using True div_mult_mod_eq [of k ?b] div_mult_mod_eq [of y ?b] by simp_all
      then have c: "(y mod ?b \<le> k mod ?b \<and> k mod ?b < y mod ?b + n) = (y \<le> k \<and> k < y + n)" by linarith
      have "slice buf c n ! (k mod ?b - y mod ?b) = buf ! (k - x)" if "y \<le> k" "k < y + n"
      proof -
        have d: "k mod ?b - y mod ?b = k - y" "k - y < n" "c + (k - y) = k - x" using e that y(1) by linarith+
        show ?thesis unfolding d(1) using slice_nth [OF len d(2)] d(3) by simp
      qed
      moreover have "blockdata D' lba B b ! (k mod ?b) = file_byte D' lba B inode k"
        using True by (simp add: file_byte_def b_def)
      ultimately show ?thesis unfolding c by simp
    qed
    finally show ?thesis .
  next
    case False
    have "\<not> (y \<le> k \<and> k < y + n)"
    proof
      assume h: "y \<le> k \<and> k < y + n"
      then have "y mod ?b + (k - y) < ?b" using y(4) by linarith
      from div_mod_add(1) [OF this] h False show False by simp
    qed
    moreover have "b \<noteq> bmap D' lba B inode (k div ?b)"
      using sep' yk div_mult_less [OF k, of ?b] False by (auto simp: separate_def b_def)
    then have "blockdata ?D lba B (bmap D' lba B inode (k div ?b)) = blockdata D' lba B (bmap D' lba B inode (k div ?b))"
      by (rule blockdata_put_other)
    then have "file_byte ?D lba B inode k = file_byte D' lba B inode k"
      using bm(1) [OF div_mult_less [OF k]] by (simp add: file_byte_def)
    ultimately show ?thesis by (simp only: if_False)
  qed
  have "file_byte ?D lba B inode k = (if x \<le> k \<and> k < x + (c + n) then buf ! (k - x) else file_byte D lba B inode k)"
    if "k < sz" for k
    using fb [OF that] O that y(1) by (auto simp: overwritten_def)
  moreover have "blockdata ?D lba B b' = blockdata D lba B b'" if "\<forall>k. k * ?b < sz \<longrightarrow> bmap D lba B inode k \<noteq> b'" for b'
  proof -
    have "b \<noteq> b'" using that O yk by (auto simp: overwritten_def b_def)
    then show ?thesis using that O by (simp add: overwritten_def blockdata_put_other)
  qed
  ultimately show ?thesis using O full_put_block [OF f g li] bm by (simp add: overwritten_def)
qed

context block_io begin

lemma WriteFile_correct:
  assumes i: "inv d" and g: "geo sb B" and f: "\<not> is_dir inode"
    and m: "mapped limit (disk d) lba B inode (unat (i_size inode))"
    and sep: "separate (disk d) lba B inode (unat (i_size inode))"
    and o: "unat offset + unat count \<le> unat (i_size inode)" and len: "unat count \<le> length bytes"
    and rm: "4 * cost (ucast B) * touched (unat B) (unat offset) (unat count) \<le> room d"
  shows "\<exists>d'. WriteFile M inode bytes count offset lba sb d = Some (int (unat count), inode, sb, d') \<and> inv d' \<and>
    room d \<le> room d' + 4 * cost (ucast B) * touched (unat B) (unat offset) (unat count) \<and>
    overwritten (disk d) lba B inode (unat (i_size inode)) bytes (unat offset) (unat count) (disk d')"
proof -
  let ?D = "disk d" and ?size = "unat (i_size inode)" and ?x = "unat offset" and ?b = "unat B" and ?n = "unat count"
  have sz32: "?size < 2 ^ 32" using unsigned_less [of "i_size inode", where ?'a = nat] by simp
  have oc: "unat (offset + count) = ?x + ?n" using o sz32 by (simp add: unat_word_ariths)
  have ub: "of_nat ?b = (ucast B :: u64)" by (simp add: word_unat_eq_iff unat_ucast_u32 unat_of_nat)
  have b0: "0 < ?b" using geo_simps(8) [OF g] by simp
  let ?I = "\<lambda>(c :: u64, j, sb', s). j = inode \<and> sb' = sb \<and> copy_inv d ?b ?x ?n (unat c) s \<and>
    overwritten ?D lba B inode ?size bytes ?x (unat c) (disk s)"
  let ?Q = "\<lambda>(c, j, sb', s). ?I (c, j, sb', s) \<and> unat c = ?n"
  have "\<exists>r. loop (write_body M bytes B lba offset count) (0, inode, sb, d) = Some r \<and> ?Q r"
  proof (rule loop_total [where I = ?I and m = "\<lambda>(c, _, _). ?n - unat c"])
    show "?I (0, inode, sb, d)"
      using i full_disk [OF i] by (auto simp: copy_inv_def touched_def overwritten_def)
  next
    fix st :: "u64 \<times> Ext2Inode \<times> Ext2SuperBlock \<times> 'd" assume "?I st"
    then obtain c s where st: "st = (c, inode, sb, s)" and I: "copy_inv d ?b ?x ?n (unat c) s"
      "overwritten ?D lba B inode ?size bytes ?x (unat c) (disk s)" by (cases st) auto
    have is_: "inv s" using I(1) by (simp add: copy_inv_def)
    show "(\<exists>st'. write_body M bytes B lba offset count st = Some (Next st') \<and> ?I st' \<and>
            (case st' of (c, _, _) \<Rightarrow> ?n - unat c) < (case st of (c, _, _) \<Rightarrow> ?n - unat c)) \<or>
          (\<exists>r. write_body M bytes B lba offset count st = Some (Done r) \<and> ?Q r)"
    proof (cases "c < count")
      case False
      then have "unat c = ?n" using I(1) by (simp add: copy_inv_def word_less_nat_alt)
      with False I show ?thesis by (simp add: st write_body_def)
    next
      case True
      then have cn: "unat c < ?n" by (simp add: word_less_nat_alt)
      have "?x + ?n < 2 ^ 32" using o sz32 by linarith
      from chunk_correct [OF g this True] obtain q r k where
        ch: "chunk B offset count c = Some (q, r, k)" "unat q = (?x + unat c) div ?b" "unat r = (?x + unat c) mod ?b"
          "unat k = min (?b - (?x + unat c) mod ?b) (?n - unat c)" by auto
      note step = copy_inv_step [OF I(1) cn b0 ch(4)]
      have rms: "4 * cost (ucast B) \<le> room s" "0 < unat k" using step(1,2) rm by (simp_all add: ub)
      have xc: "?x + unat c < ?size" using cn o by linarith
      have ms: "mapped limit (disk s) lba B inode ?size" using overwritten_mapped(1) [OF I(2)] m by simp
      note md = mappedD [OF ms xc]
      let ?blk = "bmap (disk s) lba B inode (unat q)"
      have rb: "(?x + unat c) mod ?b + unat k \<le> ?b"
      proof -
        have "(?x + unat c) mod ?b < ?b" using b0 by simp
        then show ?thesis unfolding ch(4) by linarith
      qed
      have kn: "unat c + unat k \<le> ?n" using cn unfolding ch(4) by linarith
      then have kl: "unat c + unat k \<le> length bytes" using len by linarith
      obtain s1 where s1: "GetBlockNum M sb inode q lba s = Some (?blk, s1)" "inv s1" "disk s1 = disk s"
        "room s \<le> room s1 + 3 * cost (ucast B)"
        using runs_GetBlockNum [OF is_ g, of lba inode q] md(1) rms(1) ch(2) by (auto elim!: runsE)
      let ?img = "splice (unat r) (slice bytes (unat c) (unat k)) (blockdata (disk s) lba B ?blk)"
      let ?body = "\<lambda>d. do {
           ((ret, data), d3) \<leftarrow> ReadBlock M sb ?blk lba d;
           if ret \<noteq> 0 then Some (False, d3) else do {
             (ret, d4) \<leftarrow> WriteBlock M sb ?blk (splice (unat r) (slice bytes (unat c) (unat k)) data) lba d3;
             Some (ret = 0, d4) } }"
      have li: "length ?img = ?b" using length_blockdata [OF full_disk [OF is_] g] rb kl ch(3) by simp
      have od: "on_device limit lba B ?blk" using md(3) ch(2) by simp
      have "runs 0 ?body s2 (\<lambda>r D. r = True \<and> D = put_block (disk s) lba B ?blk ?img)" if s2: "inv s2" "disk s2 = disk s" for s2
      proof -
        from runs_ReadBlock [OF s2(1) g od] s2(2) obtain s3 where
          s3: "ReadBlock M sb ?blk lba s2 = Some ((0, blockdata (disk s) lba B ?blk), s3)" "inv s3" "disk s3 = disk s"
            "room s2 \<le> room s3" by (auto elim!: runsE)
        from runs_WriteBlock [OF s3(2) g od li] s3 show ?thesis by (auto elim!: runsE simp: runs_def)
      qed
      with runs_with_buf [OF s1(2), of "ucast B" 0 ?body] s1(3,4) rms(1)
      have "runs (cost (ucast B)) (with_buf M (ucast B) False ?body) s1
          (\<lambda>r D. r = True \<and> D = put_block (disk s) lba B ?blk ?img)" by simp
      then obtain s2 where s2: "with_buf M (ucast B) False ?body s1 = Some (True, s2)"
        "inv s2" "disk s2 = put_block (disk s) lba B ?blk ?img" "room s1 \<le> room s2 + cost (ucast B)" by (auto elim!: runsE)
      have rs: "room s \<le> room s2 + 4 * cost (of_nat ?b)" using s1(4) s2(4) by (simp add: ub)
      have uc: "unat (c + ucast k) = unat c + unat k"
        using kn o sz32 by (simp add: unat_word_ariths unat_ucast_u32)
      have ci: "copy_inv d ?b ?x ?n (unat (c + ucast k)) s2"
        unfolding uc using step(3) [OF _ s2(2) rs] rm by (simp add: ub)
      have "?x + unat c + unat k \<le> ?size" using kn o by linarith
      from overwritten_step [OF I(2) g sep refl this rms(2) rb kl]
      have ov: "overwritten ?D lba B inode ?size bytes ?x (unat (c + ucast k)) (disk s2)"
        unfolding uc s2(3) by (simp add: ch(2,3))
      have "write_body M bytes B lba offset count st = Some (Next (c + ucast k, inode, sb, s2))"
        using True ch(1) s1(1) s2(1) md(2) [folded ch(2)] kl by (simp add: st write_body_def)
      then show ?thesis using ov ci uc rms(2) cn by (intro disjI1) (auto simp: st)
    qed
  qed
  then obtain c s where r: "loop (write_body M bytes B lba offset count) (0, inode, sb, d) = Some (c, inode, sb, s)"
    "copy_inv d ?b ?x ?n ?n s" "overwritten ?D lba B inode ?size bytes ?x ?n (disk s)" "unat c = ?n" by auto
  have "sint c = int ?n" using sint_small [of c] r(4) o sz32 by simp
  moreover have "\<not> offset + count > ucast (i_size inode)"
    using o by (simp add: word_less_nat_alt oc unat_ucast_u32)
  ultimately have "WriteFile M inode bytes count offset lba sb d = Some (int ?n, inode, sb, s)"
    using f geo_simps(1) [OF g] r(1) by (simp add: WriteFile_def Let_def)
  then show ?thesis using r(2,3) by (auto simp: copy_inv_def ub)
qed

end

end
