(* ===== verification/Ext2Search.thy ===== *)
theory Ext2Search
  imports Ext2Data Ext2Dirs
begin

text \<open>
  Searching a directory.  \<open>chain\<close> says what a well-formed directory block is: entries one after the
  other up to the end of the block, each with its name.  On such blocks \<open>FindEntry\<close> returns the first
  live entry with the name; on an entry of length zero it never returns.
\<close>

section \<open>Well-formed blocks\<close>

fun chain :: "byte list \<Rightarrow> nat \<Rightarrow> (byte list \<times> Ext2DirEntry) list \<Rightarrow> bool" where
  "chain data off [] \<longleftrightarrow> off = length data"
| "chain data off ((nm, e) # es) \<longleftrightarrow> dir_entry data off = Some e \<and>
     off + 8 + unat (name_len e) \<le> length data \<and> nm = slice data (off + 8) (unat (name_len e)) \<and>
     0 \<notin> set nm \<and> 0 < rec_len e \<and> chain data (off + unat (rec_len e)) es"

definition live_named :: "byte list \<Rightarrow> byte list \<times> Ext2DirEntry \<Rightarrow> bool" where
  "live_named name = (\<lambda>(nm, e). de_inode e \<noteq> 0 \<and> nm \<noteq> [] \<and> nm = name)"

definition first_named :: "byte list \<Rightarrow> (byte list \<times> Ext2DirEntry) list \<Rightarrow> Ext2DirEntry option" where
  "first_named name es = map_option snd (find (live_named name) es)"

lemma first_named_simps [simp]:
  "first_named name [] = None"
  "first_named name (x # es) = (if live_named name x then Some (snd x) else first_named name es)"
  by (simp_all add: first_named_def)

lemma first_named_append:
  "first_named name (xs @ ys) = (case first_named name xs of Some e \<Rightarrow> Some e | None \<Rightarrow> first_named name ys)"
  by (induction xs) auto

text \<open>On names without zero bytes the two tests of the code compare the names.\<close>

lemma strncmp_eq_take:
  "n \<le> length rest \<Longrightarrow> 0 \<notin> set (take n rest) \<Longrightarrow> strncmp_eq name rest n = Some (take n rest = take n name)"
proof (induction name rest n rule: strncmp_eq.induct)
  case (4 c name b rest n)
  then show ?case by auto
qed auto

lemma name_matches_correct:
  assumes "off + 8 + unat (name_len e) \<le> length data" "nm = slice data (off + 8) (unat (name_len e))" "0 \<notin> set nm"
  shows "name_matches name data off e = Some (live_named name (nm, e))"
proof -
  let ?n = "unat (name_len e)"
  have len: "length nm = ?n" using assms(1,2) by simp
  have tk: "take ?n (drop (off + 8) data) = nm" using assms(2) by (simp add: slice_def)
  then have s: "strncmp_eq name (drop (off + 8) data) ?n = Some (nm = take ?n name)"
    using strncmp_eq_take [of ?n "drop (off + 8) data" name] assms(1,3) by simp
  have n0: "0 < name_len e \<longleftrightarrow> nm \<noteq> []" using len by (metis length_greater_0_conv unat_gt_0 word_neq_0_conv)
  have "?n \<le> length name" if "nm = take ?n name" using that len by (metis length_take min.cobounded1)
  then show ?thesis
    using s n0 len unfolding name_matches_def live_named_def
    by (auto simp: Let_def split: if_splits)
qed

lemma chain_end: "chain data off es \<Longrightarrow> off \<le> length data"
  by (induction es arbitrary: off) auto

lemma find_body_correct:
  fixes B :: u32
  assumes "chain data off0 es" "unat off = off0" "length data = unat B" "unat B \<le> 65536"
  shows "loop (find_body B name data) off = Some (first_named name es)"
  using assms(1,2)
proof (induction es arbitrary: off0 off)
  case Nil
  then have "\<not> off < B" using assms(3) by (simp add: word_less_nat_alt)
  then show ?case by (simp add: loop.simps [of _ off] find_body_def)
next
  case (Cons x es)
  obtain nm e where x: "x = (nm, e)" by fastforce
  from Cons.prems x have c: "dir_entry data (unat off) = Some e" "unat off + 8 + unat (name_len e) \<le> length data"
    "nm = slice data (unat off + 8) (unat (name_len e))" "0 \<notin> set nm" "chain data (unat off + unat (rec_len e)) es" by auto
  have lt: "off < B" using c(2) assms(3) by (simp add: word_less_nat_alt)
  note m = name_matches_correct [OF c(2-4), of name]
  have "unat off + unat (rec_len e) \<le> 65536" using chain_end [OF c(5)] assms(3,4) by simp
  then have "unat (off + ucast (rec_len e)) = unat off + unat (rec_len e)"
    by (simp add: unat_word_ariths unsigned_ucast_eq take_bit_nat_eq_self)
  from Cons.IH [OF c(5) this] lt c(1) m show ?case
    by (subst loop.simps) (simp add: find_body_def [of B name data off] x)
qed

section \<open>The search\<close>

text \<open>What the directory holds: one list of entries for every block.\<close>

definition dir_holds :: "disk \<Rightarrow> u32 \<Rightarrow> u32 \<Rightarrow> Ext2Inode \<Rightarrow> (byte list \<times> Ext2DirEntry) list list \<Rightarrow> bool" where
  "dir_holds D lba B inode ess \<longleftrightarrow> unat (i_size inode) = length ess * unat B \<and>
     (\<forall>k<length ess. chain (blockdata D lba B (bmap D lba B inode k)) 0 (ess ! k))"

context block_io begin

lemma find_blocks_correct:
  assumes g: "geo sb B" and m: "\<And>k. k < length ess \<Longrightarrow> map_ok limit D lba B inode k \<and>
      bmap D lba B inode k \<noteq> 0 \<and> on_device limit lba B (bmap D lba B inode k) \<and>
      chain (blockdata D lba B (bmap D lba B inode k)) 0 (ess ! k)"
    and l: "length ess < 2 ^ 32"
  shows "inv d \<Longrightarrow> disk d = D \<Longrightarrow> j \<le> length ess \<Longrightarrow> 3 * cost (ucast B) * (length ess - j) \<le> room d \<Longrightarrow>
    runs (3 * cost (ucast B) * (length ess - j)) (find_blocks M sb lba B name inode (map of_nat [j..<length ess])) d
      (\<lambda>r D'. r = first_named name (concat (drop j ess)) \<and> D' = D)"
proof (induction "length ess - j" arbitrary: j d)
  case 0
  then show ?case by (simp add: runs_def)
next
  case (Suc n)
  let ?K = "3 * cost (ucast B)" and ?b = "bmap D lba B inode j"
  let ?is = "map of_nat [Suc j..<length ess] :: u32 list"
  have j: "j < length ess" "n = length ess - Suc j" using Suc.hyps(2) by simp_all
  have ks: "?K * (length ess - j) = ?K + ?K * (length ess - Suc j)"
    unfolding Suc.hyps(2) [symmetric] j(2) [symmetric] by simp
  have u: "unat (of_nat j :: u32) = j" using j(1) l by (simp add: unat_of_nat)
  have up: "map of_nat [j..<length ess] = (of_nat j :: u32) # ?is" using j(1) by (simp add: upt_conv_Cons)
  have dr: "drop j ess = ess ! j # drop (Suc j) ess" using j(1) by (simp add: Cons_nth_drop_Suc)
  note mj = m [OF j(1)]
  obtain d1 where d1: "GetBlockNum M sb inode (of_nat j) lba d = Some (?b, d1)" "inv d1" "disk d1 = D"
    "room d \<le> room d1 + ?K"
    using runs_GetBlockNum [OF Suc.prems(1) g, of lba inode "of_nat j"] mj Suc.prems(2,4) u ks
    by (auto elim!: runsE)
  obtain d2 where d2: "ReadBlock M sb ?b lba d1 = Some ((0, blockdata D lba B ?b), d2)" "inv d2" "disk d2 = D"
    "room d1 \<le> room d2"
    using runs_ReadBlock [OF d1(2) g, of lba ?b] mj d1(3) by (auto elim!: runsE)
  have len: "length (blockdata D lba B ?b) = unat B"
    using length_blockdata [OF full_disk [OF d2(2)] g, of lba ?b] d2(3) by simp
  have lp: "loop (find_body B name (blockdata D lba B ?b)) 0 = Some (first_named name (ess ! j))"
    by (rule find_body_correct) (use mj len geo_simps(7) [OF g] in simp_all)
  show ?case
  proof (cases "first_named name (ess ! j)")
    case (Some e)
    then have "find_blocks M sb lba B name inode (map of_nat [j..<length ess]) d = Some (Some e, d2)"
      unfolding up using d1(1) d2(1) lp mj by simp
    then show ?thesis using d1(4) d2 Some dr ks by (auto simp: runs_def first_named_append)
  next
    case None
    then have "find_blocks M sb lba B name inode (map of_nat [j..<length ess]) d =
        find_blocks M sb lba B name inode ?is d2"
      unfolding up using d1(1) d2(1) lp mj by simp
    moreover have "?K * (length ess - Suc j) \<le> room d2" using Suc.prems(4) d1(4) d2(4) ks by linarith
    then have "runs (?K * (length ess - Suc j)) (find_blocks M sb lba B name inode ?is) d2
        (\<lambda>r D'. r = first_named name (concat (drop (Suc j) ess)) \<and> D' = D)"
      using Suc.hyps(1) [OF j(2) d2(2,3)] j(1) by simp
    ultimately show ?thesis using d1(4) d2(4) None dr ks by (auto simp: runs_def first_named_append)
  qed
qed

lemma FindEntry_correct:
  assumes i: "inv d" and g: "geo sb B" and f: "is_dir inode" and sz: "unat (i_size inode) + unat B < 2 ^ 32"
    and m: "mapped limit (disk d) lba B inode (unat (i_size inode))" and h: "dir_holds (disk d) lba B inode ess"
    and r: "cost (ucast B) + 3 * cost (ucast B) * length ess \<le> room d"
  shows "runs (cost (ucast B) + 3 * cost (ucast B) * length ess) (FindEntry M sb inode name lba) d
    (\<lambda>r D. D = disk d \<and> r = (case first_named name (concat ess) of Some e \<Rightarrow> Inr e | None \<Rightarrow> Inl (-4)))"
proof -
  let ?K = "3 * cost (ucast B)" and ?n = "length ess" and ?b = "unat B"
  have b: "0 < ?b" "1024 \<le> ?b" using geo_simps(8) [OF g] by simp_all
  have s: "unat (i_size inode) = ?n * ?b" using h by (simp add: dir_holds_def)
  have "?n * 1024 \<le> ?n * ?b" using b(2) by (rule mult_le_mono2)
  then have n: "?n < 2 ^ 32" using sz s by linarith
  have "unat (i_size inode + B - 1) = ?n * ?b + (?b - 1)"
  proof -
    have "unat (i_size inode + B) = ?n * ?b + ?b" using sz s by (simp add: unat_word_ariths)
    moreover have "1 \<le> i_size inode + B" using calculation b by (simp add: word_le_nat_alt)
    ultimately show ?thesis using unat_minus [of 1 "i_size inode + B"] b by simp
  qed
  moreover have "(?n * ?b + (?b - 1)) div ?b = ?n" using b(1) by (simp only: div_mult_self3 div_less)
  ultimately have "unat ((i_size inode + B - 1) div B) = ?n" unfolding unat_div by simp
  then have cnt: "dir_blocks sb inode = Some (of_nat ?n)"
    using geo_simps(1,6) [OF g] n by (simp add: dir_blocks_def word_unat_eq_iff unat_of_nat)
  have gl: "group_list (of_nat ?n) = map of_nat [0..<?n]" using n by (simp add: group_list_def unat_of_nat)
  have mk: "map_ok limit (disk d) lba B inode k \<and> bmap (disk d) lba B inode k \<noteq> 0 \<and>
      on_device limit lba B (bmap (disk d) lba B inode k) \<and>
      chain (blockdata (disk d) lba B (bmap (disk d) lba B inode k)) 0 (ess ! k)" if k: "k < ?n" for k
  proof -
    have "k * ?b < unat (i_size inode)" using s k b(1) by simp
    then show ?thesis using m h k by (simp add: mapped_def dir_holds_def)
  qed
  let ?body = "\<lambda>d. do {
          (r, d1) \<leftarrow> find_blocks M sb lba B name inode (map of_nat [0..<?n]) d;
          Some (case r of Some e \<Rightarrow> Inr e | None \<Rightarrow> Inl (-4 :: int), d1) }"
  have body: "runs (?K * ?n) ?body d1
      (\<lambda>r D. D = disk d \<and> r = (case first_named name (concat ess) of Some e \<Rightarrow> Inr e | None \<Rightarrow> Inl (-4)))"
    if d1: "inv d1" "disk d1 = disk d" "room d = room d1 + cost (ucast B)" for d1
  proof -
    have "?K * (?n - 0) \<le> room d1" using r d1(3) by simp
    from find_blocks_correct [OF g mk n d1(1,2) _ this, of name] show ?thesis by (auto simp: runs_def)
  qed
  have cr: "cost (ucast B) \<le> room d" using r by simp
  have e: "FindEntry M sb inode name lba = with_buf M (ucast B) (Inl (-3)) ?body"
    using f geo_simps(1) [OF g] cnt gl by (intro ext) (simp add: FindEntry_def)
  show ?thesis unfolding e by (rule runs_with_buf [OF i cr body])
qed

end

section \<open>Searches that never end\<close>

text \<open>An entry of length zero that does not match is read again and again.\<close>

lemma find_body_stuck:
  assumes "off < B" "dir_entry data (unat off) = Some e" "rec_len e = 0" "name_matches name data (unat off) e = Some False"
  shows "loop (find_body B name data) off = None"
  by (rule loop_fixpoint) (use assms in \<open>simp add: find_body_def\<close>)

lemma find_body_next:
  assumes "off < B" "dir_entry data (unat off) = Some e" "name_matches name data (unat off) e = Some False"
  shows "loop (find_body B name data) off = loop (find_body B name data) (off + ucast (rec_len e))"
  by (subst loop.simps) (use assms in \<open>simp add: find_body_def [of B name data off]\<close>)

context block_io begin

lemma FindEntry_stuck:
  assumes i: "inv d" and g: "geo sb B" and f: "is_dir inode" and sz: "0 < unat (i_size inode)" "unat (i_size inode) + unat B < 2 ^ 32"
    and m: "mapped limit (disk d) lba B inode 1"
    and h: "loop (find_body B name (blockdata (disk d) lba B (bmap (disk d) lba B inode 0))) 0 = None"
    and r: "4 * cost (ucast B) \<le> room d"
  shows "FindEntry M sb inode name lba d = None"
proof -
  let ?b = "unat B" and ?blk = "bmap (disk d) lba B inode 0"
  have b: "0 < ?b" using geo_simps(8) [OF g] by simp
  have "unat (i_size inode + B) = unat (i_size inode) + ?b" using sz by (simp add: unat_word_ariths)
  moreover have "1 \<le> i_size inode + B" using calculation b by (simp add: word_le_nat_alt)
  ultimately have "?b \<le> unat (i_size inode + B - 1)" using unat_minus [of 1 "i_size inode + B"] sz by simp
  then have "0 < unat (i_size inode + B - 1) div ?b" using b by (simp add: div_greater_zero_iff)
  then have "0 < unat ((i_size inode + B - 1) div B)" unfolding unat_div .
  then obtain is' where gl: "group_list ((i_size inode + B - 1) div B) = 0 # is'"
    by (simp add: group_list_def upt_conv_Cons)
  have cnt: "dir_blocks sb inode = Some ((i_size inode + B - 1) div B)"
    using geo_simps(1,6) [OF g] by (simp add: dir_blocks_def)
  have m0: "map_ok limit (disk d) lba B inode 0" "?blk \<noteq> 0" "on_device limit lba B ?blk"
    using m by (auto simp: mapped_def)
  have "cost (ucast B) \<le> room d" using r by simp
  from alloc_law [OF i this] obtain a d1 where
    d1: "page_Alloc M (ucast B) d = Some (Some a, d1)" "inv d1" "disk d1 = disk d" "room d1 = room d - cost (ucast B)" by blast
  have "3 * cost (ucast B) \<le> room d1" using d1(4) r by simp
  then obtain d2 where d2: "GetBlockNum M sb inode 0 lba d1 = Some (?blk, d2)" "inv d2" "disk d2 = disk d"
    using runs_GetBlockNum [OF d1(2) g, of lba inode 0] m0(1) d1(3) by (auto elim!: runsE)
  obtain d3 where d3: "ReadBlock M sb ?blk lba d2 = Some ((0, blockdata (disk d) lba B ?blk), d3)"
    using runs_ReadBlock [OF d2(2) g m0(3)] d2(3) by (auto elim!: runsE)
  have "find_blocks M sb lba B name inode (0 # is') d1 = None" using d2(1) d3 m0(2) h by simp
  then show ?thesis using f geo_simps(1) [OF g] cnt gl d1(1) by (simp add: FindEntry_def with_buf_def del: find_blocks.simps)
qed

end

text \<open>
  Taking over an unused entry sets its length to that of the new entry, whatever it was before.  When
  only zeros follow, as in a block with a single entry that has been removed, the chain then ends in
  an entry of length zero.
\<close>

lemma get_slice:
  assumes "off + n \<le> length bs"
  shows "i + 2 \<le> n \<Longrightarrow> get16 (slice bs off n) i = get16 bs (off + i)"
    "i + 4 \<le> n \<Longrightarrow> get32 (slice bs off n) i = get32 bs (off + i)"
  using assms by (simp_all add: slice_def get_take get_drop)

text \<open>A header is read from its eight bytes.\<close>

lemma dir_entry_slice:
  assumes "off + n \<le> length data" "8 \<le> n"
  shows "dir_entry data off = dir_entry (slice data off n) 0"
proof -
  have "slice data off n ! 6 = data ! (off + 6)" "slice data off n ! 7 = data ! (off + 7)"
    using assms by (simp_all add: slice_nth)
  then show ?thesis using assms get_slice [OF assms(1), of 0] get_slice [OF assms(1), of 4]
    by (simp add: dir_entry_def)
qed

lemma dir_entry_zeros:
  assumes "off + 8 \<le> length data" "slice data off 8 = replicate 8 0"
  shows "dir_entry data off = Some \<lparr>de_inode = 0, rec_len = 0, name_len = 0, file_type = 0\<rparr>"
  unfolding dir_entry_slice [OF assms(1) le_refl] assms(2) by code_simp

lemma put_entry_read:
  assumes "put_entry off ino len ft name data = Some data1" "length name < 256"
  shows "dir_entry data1 off = Some \<lparr>de_inode = ino, rec_len = len, name_len = of_nat (length name), file_type = ft\<rparr>"
    "slice data1 (off + 8) (length name) = name" "length data1 = length data"
    "off + 8 + length name \<le> j \<Longrightarrow> j + n \<le> length data \<Longrightarrow> slice data1 j n = slice data j n"
proof -
  let ?img = "le32 ino @ le16 len @ [of_nat (length name), ft] @ name"
  have l: "off + 8 + length name \<le> length data" and d: "data1 = splice off ?img data"
    using assms(1) by (simp_all add: put_entry_def split: if_splits)
  have li: "length ?img = 8 + length name" by simp
  show len: "length data1 = length data" using l by (simp add: d)
  have "slice data1 off (8 + length name) = ?img" unfolding d by (rule slice_splice_same) (use l in simp_all)
  then have "dir_entry data1 off = dir_entry ?img 0"
    using dir_entry_slice [of off "8 + length name" data1] l len by simp
  then show "dir_entry data1 off = Some \<lparr>de_inode = ino, rec_len = len, name_len = of_nat (length name), file_type = ft\<rparr>"
    by (simp add: dir_entry_def nth_append)
  show "slice data1 (off + 8) (length name) = name"
    using l by (simp add: d slice_def splice_def)
  show "slice data1 j n = slice data j n" if "off + 8 + length name \<le> j" "j + n \<le> length data"
    unfolding d by (rule slice_splice_other) (use l that in simp_all)
qed

lemma align4_bounds:
  assumes "n < 256"
  shows "8 + n \<le> unat (align4 (8 + of_nat n))" "unat (align4 (8 + of_nat n)) \<le> 264"
proof -
  let ?x = "8 + of_nat n + 3 :: u16"
  have u: "unat ?x = 11 + n" using assms by (simp add: unat_word_ariths unat_of_nat)
  have "align4 (8 + of_nat n) = ?x AND NOT (mask 2)" by (simp add: align4_def mask_numeral)
  also have "\<dots> = push_bit 2 (drop_bit 2 ?x)" by (auto simp: bit_eq_iff bit_simps not_less dest!: le_Suc_ex)
  also have "\<dots> = ?x div 4 * 4" by (simp add: push_bit_eq_mult drop_bit_eq_div)
  finally have "unat (align4 (8 + of_nat n)) = unat (?x div 4 * 4)" by simp
  also have "\<dots> = (11 + n) div 4 * 4 mod 2 ^ 16"
    unfolding unat_word_ariths(2) unat_div u by simp
  also have "\<dots> = (11 + n) div 4 * 4" using assms by (intro mod_less) simp
  finally have "unat (align4 (8 + of_nat n)) = (11 + n) div 4 * 4" .
  moreover have "(11 + n) div 4 \<le> 66" using div_le_mono [of "11 + n" 266 4] assms by simp
  ultimately show "8 + n \<le> unat (align4 (8 + of_nat n))" "unat (align4 (8 + of_nat n)) \<le> 264"
    by linarith+
qed

lemma reuse_breaks_chain:
  assumes B: "length data = unat B" "1024 \<le> unat B" and nm: "length name < 256" "0 \<notin> set name"
    and hole: "dir_entry data 0 = Some e" "de_inode e = 0" "entry_len \<le> rec_len e"
    and el: "entry_len = align4 (8 + of_nat (length name))"
    and zeros: "slice data (unat entry_len) 8 = replicate 8 0" and other: "other \<noteq> name"
  shows "\<exists>data1. loop (add_body B ino name ft entry_len data) 0 = Some (Some data1) \<and>
    loop (find_body B other data1) 0 = None"
proof -
  note al = align4_bounds [OF nm(1), folded el]
  have "0 + 8 + length name \<le> length data" using B nm(1) by simp
  then obtain data1 where p: "put_entry 0 ino entry_len ft name data = Some data1" by (simp add: put_entry_def)
  note r = put_entry_read [OF p nm(1)]
  let ?e = "\<lparr>de_inode = ino, rec_len = entry_len, name_len = of_nat (length name), file_type = ft\<rparr>"
  have B0: "0 < B" using B(2) by (simp add: word_less_nat_alt)
  have "loop (add_body B ino name ft entry_len data) 0 = Some (Some data1)"
    by (subst loop.simps) (use B0 hole p in \<open>simp add: add_body_def [of B ino name ft entry_len data 0]\<close>)
  moreover have "loop (find_body B other data1) 0 = None"
  proof -
    have nl: "unat (name_len ?e) = length name" using nm(1) by (simp add: unat_of_nat)
    have "name_matches other data1 (unat (0 :: u32)) ?e = Some (live_named other (name, ?e))"
      by (rule name_matches_correct) (use B nl nm r(2,3) in simp_all)
    then have m: "name_matches other data1 (unat (0 :: u32)) ?e = Some False" using other by (simp add: live_named_def)
    have "loop (find_body B other data1) 0 = loop (find_body B other data1) (0 + ucast (rec_len ?e))"
      by (rule find_body_next [OF B0 _ m]) (use r(1) in simp)
    also have "\<dots> = None"
    proof (rule find_body_stuck)
      have u: "unat (0 + ucast (rec_len ?e) :: u32) = unat entry_len"
        by (simp add: unsigned_ucast_eq take_bit_nat_eq_self order_le_less_trans [OF al(2)])
      show "0 + ucast (rec_len ?e) < B" unfolding word_less_nat_alt u using al(2) B(2) by simp
      have "slice data1 (unat entry_len) 8 = replicate 8 0" using r(4) [of "unat entry_len" 8] al B zeros by simp
      then show "dir_entry data1 (unat (0 + ucast (rec_len ?e) :: u32)) =
          Some \<lparr>de_inode = 0, rec_len = 0, name_len = 0, file_type = 0\<rparr>"
        unfolding u using al B r(3) by (intro dir_entry_zeros) simp_all
    qed (simp_all add: name_matches_def)
    finally show ?thesis .
  qed
  ultimately show ?thesis by blast
qed

end
