(* ===== verification/Ext2Paths.thy ===== *)
theory Ext2Paths
  imports Ext2Search
begin

text \<open>
  Paths.  \<open>resolves\<close> is the meaning of a path on a disk: one directory entry after the other.
  \<open>LookupPath\<close> follows it, and what \<open>Ext2Rmdir\<close> does with a directory that it finds is shown from that.
\<close>

text \<open>
  \<open>resolves limit K D sb lba B ino path n k\<close>: from inode \<open>ino\<close> the rest of a path leads to inode \<open>n\<close>;
  following it takes \<open>k\<close> pages, where a block takes \<open>K\<close>.
\<close>

inductive resolves :: "nat \<Rightarrow> nat \<Rightarrow> disk \<Rightarrow> Ext2SuperBlock \<Rightarrow> u32 \<Rightarrow> u32 \<Rightarrow> u32 \<Rightarrow> byte list \<Rightarrow> u32 \<Rightarrow> nat \<Rightarrow> bool"
  for limit K D sb lba B where
  here: "resolves limit K D sb lba B ino [] ino 0"
| down: "path \<noteq> [] \<Longrightarrow> name = takeWhile (\<lambda>c. c \<noteq> 47) path \<Longrightarrow> length name < 256 \<Longrightarrow>
     inode = inode_at D sb lba B ino \<Longrightarrow> is_dir inode \<Longrightarrow> unat (i_size inode) + unat B < 2 ^ 32 \<Longrightarrow>
     mapped limit D lba B inode (unat (i_size inode)) \<Longrightarrow> dir_holds D lba B inode ess \<Longrightarrow>
     first_named name (concat ess) = Some e \<Longrightarrow> inode_ok limit D sb lba B (de_inode e) \<Longrightarrow>
     resolves limit K D sb lba B (de_inode e) (drop (length name + 1) path) n k \<Longrightarrow>
     resolves limit K D sb lba B ino path n (K * (3 + 3 * length ess) + k)"

inductive_cases resolves_NilE: "resolves limit K D sb lba B ino [] n k"

context block_io begin

lemma lookup_from_correct:
  assumes g: "geo sb B"
  shows "resolves limit (cost (ucast B)) D sb lba B ino path n k \<Longrightarrow> inv d \<Longrightarrow> disk d = D \<Longrightarrow> k \<le> room d \<Longrightarrow>
    runs k (lookup_from M sb lba path ino (inode_at D sb lba B ino)) d (\<lambda>r D'. r = Inr n \<and> D' = D)"
proof (induction arbitrary: d rule: resolves.induct)
  case (here ino)
  then show ?case by (simp add: runs_def lookup_from.simps [of M sb lba "[]"])
next
  case (down path name inode ino ess e n k)
  let ?K = "cost (ucast B)"
  have "?K + 3 * ?K * length ess \<le> room d" using down.prems(3) by (simp add: algebra_simps)
  then obtain d1 where d1: "FindEntry M sb inode name lba d = Some (Inr e, d1)" "inv d1" "disk d1 = D"
    "room d \<le> room d1 + (?K + 3 * ?K * length ess)"
    using FindEntry_correct [OF down.prems(1) g down.hyps(5,6), of lba ess name] down.hyps(7-9) down.prems(2)
    by (auto elim!: runsE)
  have "2 * ?K \<le> room d1" using down.prems(3) d1(4) by (simp add: algebra_simps)
  then obtain d2 where d2: "ReadInode M sb (de_inode e) lba d1 = Some (Inr (inode_at D sb lba B (de_inode e)), d2)"
    "inv d2" "disk d2 = D" "room d1 \<le> room d2 + 2 * ?K"
    using runs_ReadInode [OF d1(2) g, of lba "de_inode e"] down.hyps(10) d1(3) by (auto elim!: runsE)
  have "k \<le> room d2" using down.prems(3) d1(4) d2(4) by (simp add: algebra_simps)
  from down.IH [OF d2(2,3) this] obtain d3 where
    d3: "lookup_from M sb lba (drop (length name + 1) path) (de_inode e) (inode_at D sb lba B (de_inode e)) d2 = Some (Inr n, d3)"
      "inv d3" "disk d3 = D" "room d2 \<le> room d3 + k" by (auto elim!: runsE)
  have "lookup_from M sb lba path ino inode d = Some (Inr n, d3)"
  proof (cases "length name = length path")
    case True
    then have "drop (length name + 1) path = []" by simp
    then have "de_inode e = n" "d3 = d2"
      using down.hyps(11) d3(1) by (auto elim: resolves_NilE simp: lookup_from.simps [of M sb lba "[]"])
    with True down.hyps(1-3) d1(1) d2(1) show ?thesis by (subst lookup_from.simps) (simp add: Let_def)
  next
    case False
    with down.hyps(1-3) d1(1) d2(1) d3(1) show ?thesis by (subst lookup_from.simps) (simp add: Let_def)
  qed
  then show ?case using d1(4) d2(4) d3(2-4) down.hyps(4) by (simp add: runs_def algebra_simps)
qed

lemma LookupPath_correct:
  assumes g: "geo sb B" and i: "inv d" and r: "inode_ok limit (disk d) sb lba B EXT2_ROOT_INO"
    and p: "resolves limit (cost (ucast B)) (disk d) sb lba B EXT2_ROOT_INO path n k"
    and rm: "2 * cost (ucast B) + k \<le> room d"
  shows "runs (2 * cost (ucast B) + k) (LookupPath M sb (47 # path) lba) d (\<lambda>r D. r = Inr n \<and> D = disk d)"
proof -
  let ?K = "cost (ucast B)"
  obtain d1 where d1: "ReadInode M sb EXT2_ROOT_INO lba d = Some (Inr (inode_at (disk d) sb lba B EXT2_ROOT_INO), d1)"
    "inv d1" "disk d1 = disk d" "room d \<le> room d1 + 2 * ?K"
    using runs_ReadInode [OF i g r] rm by (auto elim!: runsE)
  from lookup_from_correct [OF g p d1(2,3)] d1(4) rm obtain d2 where
    "lookup_from M sb lba path EXT2_ROOT_INO (inode_at (disk d) sb lba B EXT2_ROOT_INO) d1 = Some (Inr n, d2)"
    "inv d2" "disk d2 = disk d" "room d1 \<le> room d2 + k" by (auto elim!: runsE)
  with d1 show ?thesis by (simp add: runs_def LookupPath_def)
qed

text \<open>A directory is never deleted.\<close>

lemma DeleteFile_directory:
  assumes g: "geo sb B" and i: "inv d" and r: "inode_ok limit (disk d) sb lba B EXT2_ROOT_INO"
    and p: "resolves limit (cost (ucast B)) (disk d) sb lba B EXT2_ROOT_INO path n k"
    and n: "inode_ok limit (disk d) sb lba B n" "is_dir (inode_at (disk d) sb lba B n)"
    and rm: "4 * cost (ucast B) + k \<le> room d"
  shows "runs (4 * cost (ucast B) + k) (DeleteFile M (47 # path) lba sb) d (\<lambda>r D. r = (-4, sb) \<and> D = disk d)"
proof -
  let ?K = "cost (ucast B)"
  from LookupPath_correct [OF g i r p] rm obtain d1 where
    d1: "LookupPath M sb (47 # path) lba d = Some (Inr n, d1)" "inv d1" "disk d1 = disk d" "room d \<le> room d1 + (2 * ?K + k)"
    by (auto elim!: runsE)
  then obtain d2 where d2: "ReadInode M sb n lba d1 = Some (Inr (inode_at (disk d) sb lba B n), d2)"
    "inv d2" "disk d2 = disk d" "room d1 \<le> room d2 + 2 * ?K"
    using runs_ReadInode [OF d1(2) g, of lba n] n(1) rm by (auto elim!: runsE)
  with d1 n(2) show ?thesis by (simp add: runs_def DeleteFile_def)
qed

lemma Ext2Rmdir_directory:
  assumes g: "geo sb B" and i: "inv d" and r: "inode_ok limit (disk d) sb lba B EXT2_ROOT_INO"
    and p: "resolves limit (cost (ucast B)) (disk d) sb lba B EXT2_ROOT_INO path n k"
    and n: "inode_ok limit (disk d) sb lba B n" "is_dir (inode_at (disk d) sb lba B n)"
    and rm: "8 * cost (ucast B) + 2 * k \<le> room d" and md: "m_super md = sb" "m_ext2_lba md = lba"
  shows "\<exists>ret d'. Ext2Rmdir M (47 # path) md d = Some ((ret, md), d') \<and>
    ret = (if i_links_count (inode_at (disk d) sb lba B n) > 2 then -6 else -4) \<and> disk d' = disk d"
proof -
  let ?K = "cost (ucast B)"
  from LookupPath_correct [OF g i r p] rm obtain d1 where
    d1: "LookupPath M sb (47 # path) lba d = Some (Inr n, d1)" "inv d1" "disk d1 = disk d" "room d \<le> room d1 + (2 * ?K + k)"
    by (auto elim!: runsE)
  then obtain d2 where d2: "ReadInode M sb n lba d1 = Some (Inr (inode_at (disk d) sb lba B n), d2)"
    "inv d2" "disk d2 = disk d" "room d1 \<le> room d2 + 2 * ?K"
    using runs_ReadInode [OF d1(2) g, of lba n] n(1) rm by (auto elim!: runsE)
  have "4 * ?K + k \<le> room d2" using d1(4) d2(4) rm by simp
  then obtain d3 where d3: "DeleteFile M (47 # path) lba sb d2 = Some ((-4, sb), d3)" "disk d3 = disk d"
    using DeleteFile_directory [OF g d2(2), of lba path n k] r p n d2(3) by (auto elim!: runsE)
  have "md\<lparr>m_super := sb\<rparr> = md" using md(1) by (cases md) simp
  then show ?thesis using d1(1) d2 d3 n(2) md by (auto simp: Ext2Rmdir_def abs_path_def Let_def)
qed

end

end
