(* ===== verification/Ext2Handles.thy ===== *)
theory Ext2Handles
  imports Ext2Data
begin

text \<open>
  The functions of \<^verbatim>\<open>src/fs/ext2/fs.cc\<close> as the virtual file system calls them, by the addresses of mounts
  and files, with the private data kept beside the disk; and what reading and writing an open file do.
\<close>

section \<open>The private data of mounts and files\<close>

text \<open>
  The \<^verbatim>\<open>private_data\<close> of the mount and of the file at an address: its own address and its content.
\<close>

record 'd Ext2World =
  ew_device :: 'd
  mount_data :: "addr \<Rightarrow> (addr \<times> Ext2MountData) option"
  file_data :: "addr \<Rightarrow> (addr \<times> Ext2FileData) option"

definition ext2_umount :: "'d Machine \<Rightarrow> addr \<Rightarrow> 'd Ext2World \<Rightarrow> (int \<times> 'd Ext2World) option" where
  "ext2_umount M mount w =
     (case mount_data w mount of
        None \<Rightarrow> Some (-1, w)
      | Some (md_addr, md) \<Rightarrow>
          (let (ret, _, d) = Ext2Umount M md_addr (Some md) (ew_device w)
           in Some (ret, w\<lparr>ew_device := d, mount_data := (mount_data w)(mount := None)\<rparr>)))"

definition ext2_open :: "'d Machine \<Rightarrow> addr \<Rightarrow> byte list \<Rightarrow> u32 \<Rightarrow> 'd Ext2World \<Rightarrow>
    ((addr \<times> File) option \<times> 'd Ext2World) option" where
  "ext2_open M mount path flgs w =
     (case mount_data w mount of
        None \<Rightarrow> Some (None, w)
      | Some (md_addr, md) \<Rightarrow> do {
          ((r, md1), d) \<leftarrow> Ext2Open M mount path flgs md (ew_device w);
          let w1 = w\<lparr>ew_device := d, mount_data := (mount_data w)(mount := Some (md_addr, md1))\<rparr>;
          Some (case r of
            None \<Rightarrow> (None, w1)
          | Some ((a, f), fd) \<Rightarrow> (Some (a, f), w1\<lparr>file_data := (file_data w1)(a := Some fd)\<rparr>)) })"

text \<open>The file is deleted, with its data when it has any; nothing of it is left.\<close>

definition ext2_close :: "'d Machine \<Rightarrow> addr \<Rightarrow> File \<Rightarrow> 'd Ext2World \<Rightarrow> (int \<times> File option \<times> 'd Ext2World) option" where
  "ext2_close M a f w =
     (let (ret, d) = (case file_data w a of
            None \<Rightarrow> (0, page_Free M a (ew_device w))
          | Some (fd_addr, _) \<Rightarrow> Ext2Close M fd_addr a (ew_device w))
      in Some (ret, None, w\<lparr>ew_device := d, file_data := (file_data w)(a := None)\<rparr>))"

text \<open>
  Reading and writing need the data of the file and, through the pointer to its mount, the data of the
  mount.
\<close>

definition ext2_read :: "'d Machine \<Rightarrow> addr \<Rightarrow> File \<Rightarrow> u64 \<Rightarrow> u64 \<Rightarrow> 'd Ext2World \<Rightarrow> ((int \<times> byte list) \<times> 'd Ext2World) option" where
  "ext2_read M a f n offset w =
     (case file_data w a of None \<Rightarrow> Some ((-2, []), w) | Some (_, fd) \<Rightarrow> do {
        mount \<leftarrow> file_mount f;
        (case mount_data w mount of None \<Rightarrow> Some ((-3, []), w) | Some (_, md) \<Rightarrow> do {
           (r, d) \<leftarrow> Ext2Read M md fd n offset (ew_device w);
           Some (r, w\<lparr>ew_device := d\<rparr>) }) })"

definition ext2_write :: "'d Machine \<Rightarrow> addr \<Rightarrow> File \<Rightarrow> byte list \<Rightarrow> u64 \<Rightarrow> u64 \<Rightarrow> 'd Ext2World \<Rightarrow> (int \<times> 'd Ext2World) option" where
  "ext2_write M a f bytes n offset w =
     (case file_data w a of None \<Rightarrow> Some (-2, w) | Some (fd_addr, fd) \<Rightarrow> do {
        mount \<leftarrow> file_mount f;
        (case mount_data w mount of None \<Rightarrow> Some (-3, w) | Some (md_addr, md) \<Rightarrow> do {
           (ret, md1, fd1, d) \<leftarrow> Ext2Write M bytes n offset md fd (ew_device w);
           Some (ret, w\<lparr>ew_device := d, mount_data := (mount_data w)(mount := Some (md_addr, md1)),
             file_data := (file_data w)(a := Some (fd_addr, fd1))\<rparr>) }) })"

definition ext2_readdir :: "'d Machine \<Rightarrow> addr \<Rightarrow> byte list \<Rightarrow> u32 \<Rightarrow> 'd Ext2World \<Rightarrow>
    ((addr \<times> DirEntry) option \<times> 'd Ext2World) option" where
  "ext2_readdir M mount path index w =
     (case mount_data w mount of
        None \<Rightarrow> Some (None, w)
      | Some (_, md) \<Rightarrow> do {
          (e, d) \<leftarrow> Ext2Readdir M path index md (ew_device w);
          Some (e, w\<lparr>ew_device := d\<rparr>) })"

section \<open>The bytes of an open file\<close>

text \<open>
  An open file whose blocks are all mapped to different blocks of the device, none of them the one with
  its inode or with the group descriptors: its bytes.
\<close>

definition ext2_bytes :: "nat \<Rightarrow> disk \<Rightarrow> u32 \<Rightarrow> Ext2MountData \<Rightarrow> Ext2FileData \<Rightarrow> byte list \<Rightarrow> bool" where
  "ext2_bytes limit D B md fd xs \<longleftrightarrow>
     (let sb = m_super md; lba = m_ext2_lba md; inode = f_inode fd; sz = unat (i_size inode);
          ib = inode_block D sb lba B (f_inode_num fd)
      in geo sb B \<and> \<not> is_dir inode \<and> inode_typed inode \<and> mapped limit D lba B inode sz \<and> separate D lba B inode sz \<and>
         inode_ok limit D sb lba B (f_inode_num fd) \<and>
         (\<forall>k. k * unat B < sz \<longrightarrow> bmap D lba B inode k \<noteq> 2 \<and> bmap D lba B inode k \<noteq> ib \<and>
            ib \<notin> fst ` set (bvisits D lba B inode k)) \<and>
         xs = file_range D lba B inode 0 sz)"

lemma file_range_part:
  "n \<le> sz - off \<Longrightarrow> file_range D lba B inode off n = slice (file_range D lba B inode 0 sz) off n"
  by (cases "n = 0") (auto simp: file_range_def slice_def drop_map take_map)

text \<open>Neither the inode table nor the descriptors change when the bytes of a file are overwritten.\<close>

lemma inode_place_kept:
  assumes "blockdata D' lba B 2 = blockdata D lba B 2"
  shows "inode_block D' sb lba B ino = inode_block D sb lba B ino"
    "inode_ok limit D' sb lba B ino = inode_ok limit D sb lba B ino"
proof -
  have "gd_at D' lba B g = gd_at D lba B g" for g using assms by (simp add: gd_at_def)
  then show "inode_block D' sb lba B ino = inode_block D sb lba B ino" by (simp add: inode_block_def split: option.split)
  then show "inode_ok limit D' sb lba B ino = inode_ok limit D sb lba B ino" by (simp add: inode_ok_def)
qed

text \<open>Writing a block that is neither a block of the file nor a table of it keeps its bytes.\<close>

lemma file_put_other:
  fixes data :: "byte list"
  assumes "\<forall>k. k * unat B < sz \<longrightarrow> bmap D lba B inode k \<noteq> b \<and> b \<notin> fst ` set (bvisits D lba B inode k)"
  defines "D' \<equiv> put_block D lba B b data"
  shows "mapped limit D' lba B inode sz = mapped limit D lba B inode sz"
    "separate D' lba B inode sz = separate D lba B inode sz"
    "file_range D' lba B inode 0 sz = file_range D lba B inode 0 sz"
    "k * unat B < sz \<Longrightarrow> bmap D' lba B inode k = bmap D lba B inode k"
    "k * unat B < sz \<Longrightarrow> bvisits D' lba B inode k = bvisits D lba B inode k"
proof -
  have b: "bmap D' lba B inode k = bmap D lba B inode k" "bvisits D' lba B inode k = bvisits D lba B inode k"
    if "k * unat B < sz" for k
    using bmap_put_other [of b D lba B inode k data] assms(1) that by (simp_all add: D'_def)
  then show "k * unat B < sz \<Longrightarrow> bmap D' lba B inode k = bmap D lba B inode k"
    "k * unat B < sz \<Longrightarrow> bvisits D' lba B inode k = bvisits D lba B inode k" by simp_all
  show "mapped limit D' lba B inode sz = mapped limit D lba B inode sz"
    "separate D' lba B inode sz = separate D lba B inode sz"
    using b by (simp_all add: mapped_def map_ok_def separate_def)
  have "file_byte D' lba B inode k = file_byte D lba B inode k" if "k < sz" for k
  proof -
    have k: "k div unat B * unat B < sz" by (rule div_mult_less [OF that])
    then have "b \<noteq> bmap D lba B inode (k div unat B)" using assms(1) by blast
    then have "blockdata D' lba B (bmap D lba B inode (k div unat B)) = blockdata D lba B (bmap D lba B inode (k div unat B))"
      unfolding D'_def by (rule blockdata_put_other)
    then show ?thesis using b(1) [OF k] by (simp add: file_byte_def)
  qed
  then show "file_range D' lba B inode 0 sz = file_range D lba B inode 0 sz" by (simp add: file_range_def)
qed

lemma length_ext2_bytes: "ext2_bytes limit D B md fd xs \<Longrightarrow> length xs = unat (i_size (f_inode fd))"
  by (simp add: ext2_bytes_def Let_def file_range_def)

text \<open>The pages that moving bytes takes.\<close>

definition move_cost :: "nat \<Rightarrow> nat \<Rightarrow> nat \<Rightarrow> nat \<Rightarrow> nat" where
  "move_cost K b x n = 4 * K * touched b x n + 2 * K"

context block_io begin

lemma Ext2Read_bytes:
  assumes i: "inv d" and x: "ext2_bytes limit (disk d) B md fd xs" and o: "unat offset + unat n < 2 ^ 64"
    and k: "k = min (unat n) (length xs - unat offset)"
    and rm: "k \<noteq> 0 \<Longrightarrow> move_cost (cost (ucast B)) (unat B) (unat offset) k \<le> room d"
  shows "\<exists>d'. Ext2Read M md fd n offset d = Some ((int k, slice xs (unat offset) k), d') \<and> inv d' \<and> disk d' = disk d \<and>
    room d \<le> room d' + (if k = 0 then 0 else move_cost (cost (ucast B)) (unat B) (unat offset) k)"
proof -
  let ?sz = "unat (i_size (f_inode fd))" and ?lba = "m_ext2_lba md" and ?sb = "m_super md"
  have h: "geo ?sb B" "\<not> is_dir (f_inode fd)" "mapped limit (disk d) ?lba B (f_inode fd) ?sz"
    "xs = file_range (disk d) ?lba B (f_inode fd) 0 ?sz" using x by (simp_all add: ext2_bytes_def Let_def)
  have len: "length xs = ?sz" by (rule length_ext2_bytes [OF x])
  show ?thesis
  proof (cases "unat offset < ?sz")
    case True
    have k': "k = min (unat n) (?sz - unat offset)" using k len by simp
    have c: "4 * cost (ucast B) * touched (unat B) (unat offset) k \<le> room d"
      using rm by (cases "k = 0") (simp_all add: touched_def move_cost_def)
    have s: "slice xs (unat offset) k = file_range (disk d) ?lba B (f_inode fd) (unat offset) k"
      unfolding h(4) by (rule file_range_part [symmetric]) (simp add: k')
    from ReadFile_correct [OF i h(1-3) True o] c obtain d' where
      "ReadFile M ?sb (f_inode fd) n offset ?lba d = Some ((int k, slice xs (unat offset) k), d')" "inv d'" "disk d' = disk d"
      "room d \<le> room d' + 4 * cost (ucast B) * touched (unat B) (unat offset) k"
      unfolding s k' [symmetric] by (auto elim!: runsE)
    then show ?thesis by (auto simp: Ext2Read_def move_cost_def touched_def)
  next
    case False
    then have "k = 0" using k len by simp
    moreover have "ReadFile M ?sb (f_inode fd) n offset ?lba d = Some ((0, []), d)"
      using False h(2) geo_simps(1) [OF h(1)] by (simp add: ReadFile_def Let_def word_le_nat_alt unat_ucast_u32)
    ultimately show ?thesis using i by (simp add: Ext2Read_def slice_def)
  qed
qed

lemma Ext2Write_bytes:
  assumes i: "inv d" and x: "ext2_bytes limit (disk d) B md fd xs" and o: "unat offset + unat n \<le> length xs"
    and len: "length bs = unat n" and n: "n \<noteq> 0"
    and rm: "move_cost (cost (ucast B)) (unat B) (unat offset) (unat n) \<le> room d"
  shows "\<exists>d'. Ext2Write M bs n offset md fd d = Some (int (unat n), md, fd, d') \<and> inv d' \<and>
    ext2_bytes limit (disk d') B md fd (splice (unat offset) bs xs) \<and>
    room d \<le> room d' + move_cost (cost (ucast B)) (unat B) (unat offset) (unat n)"
proof -
  let ?inode = "f_inode fd" and ?num = "f_inode_num fd"
  let ?sz = "unat (i_size ?inode)" and ?lba = "m_ext2_lba md" and ?sb = "m_super md" and ?D = "disk d"
  let ?K = "cost (ucast B)"
  let ?ib = "inode_block ?D ?sb ?lba B ?num"
  have h: "geo ?sb B" "\<not> is_dir ?inode" "inode_typed ?inode" "mapped limit ?D ?lba B ?inode ?sz"
    "separate ?D ?lba B ?inode ?sz" "inode_ok limit ?D ?sb ?lba B ?num"
    "\<forall>k. k * unat B < ?sz \<longrightarrow> bmap ?D ?lba B ?inode k \<noteq> 2 \<and> bmap ?D ?lba B ?inode k \<noteq> ?ib \<and>
       ?ib \<notin> fst ` set (bvisits ?D ?lba B ?inode k)"
    "xs = file_range ?D ?lba B ?inode 0 ?sz" using x by (simp_all add: ext2_bytes_def Let_def)
  have lx: "length xs = ?sz" by (rule length_ext2_bytes [OF x])
  have "unat n \<le> length bs" "unat offset + unat n \<le> ?sz" using len o lx by simp_all
  moreover have "4 * ?K * touched (unat B) (unat offset) (unat n) \<le> room d" using rm by (simp add: move_cost_def)
  ultimately obtain d1 where d1: "WriteFile M ?inode bs n offset ?lba ?sb d = Some (int (unat n), ?inode, ?sb, d1)" "inv d1"
    "room d \<le> room d1 + 4 * ?K * touched (unat B) (unat offset) (unat n)"
    "overwritten ?D ?lba B ?inode ?sz bs (unat offset) (unat n) (disk d1)"
    using WriteFile_correct [OF i h(1,2,4,5), of offset n bs] by blast
  have keep: "blockdata (disk d1) ?lba B 2 = blockdata ?D ?lba B 2"
    using d1(4) h(7) by (simp add: overwritten_def)
  note ip = inode_place_kept [OF keep]
  have ok1: "inode_ok limit (disk d1) ?sb ?lba B ?num" using h(6) ip(2) by simp
  have r1: "2 * ?K \<le> room d1" using d1(3) rm by (simp add: move_cost_def)
  let ?D1 = "disk d1"
  let ?D2 = "put_block ?D1 ?lba B ?ib (splice (inode_off ?sb ?num) (encode_inode ?inode) (blockdata ?D1 ?lba B ?ib))"
  obtain d2 where d2: "WriteInode M ?sb ?num ?inode ?lba d1 = Some (0, d2)" "inv d2" "disk d2 = ?D2"
    "room d1 \<le> room d2 + 2 * ?K"
    using runs_WriteInode [OF d1(2) h(1) ok1 r1 h(3)] unfolding ip(1) by (auto elim!: runsE)
  have apart1: "\<forall>k. k * unat B < ?sz \<longrightarrow> bmap ?D1 ?lba B ?inode k \<noteq> ?ib \<and> ?ib \<notin> fst ` set (bvisits ?D1 ?lba B ?inode k)"
    using h(7) d1(4) by (simp add: overwritten_def)
  note po = file_put_other [OF apart1]
  have bm1: "bmap ?D1 ?lba B ?inode k = bmap ?D ?lba B ?inode k" "bvisits ?D1 ?lba B ?inode k = bvisits ?D ?lba B ?inode k"
    if "k * unat B < ?sz" for k using d1(4) that by (simp_all add: overwritten_def)
  have keep2: "blockdata ?D2 ?lba B 2 = blockdata ?D1 ?lba B 2"
    using h(6) by (intro blockdata_put_other) (auto simp: inode_ok_def)
  note ip2 = inode_place_kept [OF keep2, unfolded ip]
  have xs: "file_range ?D1 ?lba B ?inode 0 ?sz = splice (unat offset) bs xs"
    using d1(4) o len lx h(8) by (intro nth_equalityI) (auto simp: overwritten_def file_range_def splice_nth)
  have "ext2_bytes limit ?D2 B md fd (splice (unat offset) bs xs)"
    unfolding ext2_bytes_def Let_def
  proof (intro conjI)
    show "mapped limit ?D2 ?lba B ?inode ?sz" "separate ?D2 ?lba B ?inode ?sz"
      using po(1,2) overwritten_mapped [OF d1(4)] h(4,5) by simp_all
    show "inode_ok limit ?D2 ?sb ?lba B ?num" using ip2(2) h(6) by simp
    show "\<forall>k. k * unat B < ?sz \<longrightarrow> bmap ?D2 ?lba B ?inode k \<noteq> 2 \<and>
        bmap ?D2 ?lba B ?inode k \<noteq> inode_block ?D2 ?sb ?lba B ?num \<and>
        inode_block ?D2 ?sb ?lba B ?num \<notin> fst ` set (bvisits ?D2 ?lba B ?inode k)"
      unfolding ip2(1) using po(4,5) h(7) bm1 by simp
    show "splice (unat offset) bs xs = file_range ?D2 ?lba B ?inode 0 ?sz" using po(3) xs by simp
  qed (use h in simp_all)
  moreover have "0 < unat n" using n by (simp add: unat_gt_0)
  then have "0 < uint n" by (metis uint_nat of_nat_0_less_iff)
  then have "Ext2Write M bs n offset md fd d = Some (int (unat n), md, fd, d2)"
    using d1(1) d2(1) by (simp add: Ext2Write_def)
  moreover have "room d \<le> room d2 + move_cost ?K (unat B) (unat offset) (unat n)"
    using d1(3) d2(4) by (simp add: move_cost_def)
  ultimately show ?thesis using d2(2,3) by auto
qed

end

end
