(* ===== verification/Ide.thy ===== *)
theory Ide
  imports Ext2Paths Ext2Handles Frames
begin

text \<open>
  The block layer: the registry of devices of \<^verbatim>\<open>src/drivers/block/block.cc\<close>, the request queue of
  \<^verbatim>\<open>include/kernel/block.h\<close>, and the IDE driver of \<^verbatim>\<open>src/drivers/block/ide.cc\<close> over a drive that
  stores 512 bytes per 28-bit address.  The driver and the page allocator together provide the
  interface \<open>block_io\<close>.
\<close>

unbundle bit_operations_syntax

section \<open>The IDE driver\<close>

text \<open>
  A drive with its sectors, the driver's lock, and the memory that buffers come from.  The drive
  itself is hardware: a PIO read or write moves the 512 bytes of the addressed sector.
\<close>

record Ide =
  sectors :: "nat \<Rightarrow> byte list"
  ide_lock :: u32
  fm :: FrameMem
  words :: "u64 \<Rightarrow> u64"

text \<open>The values written to the device, low, middle and high address registers for one sector.\<close>

definition lba_regs :: "u8 \<Rightarrow> u64 \<Rightarrow> u8 \<times> u8 \<times> u8 \<times> u8" where
  "lba_regs drive s =
     (0xE0 OR push_bit 4 drive OR ucast (drop_bit 24 s AND 0x0F),
      ucast (s AND 0xFF), ucast (drop_bit 8 s AND 0xFF), ucast (drop_bit 16 s AND 0xFF))"

text \<open>The sector a drive in LBA28 mode addresses with these registers.\<close>

definition addressed :: "u8 \<times> u8 \<times> u8 \<times> u8 \<Rightarrow> nat" where
  "addressed = (\<lambda>(dev, low, mid, high).
     unat (dev AND 0x0F) * 2 ^ 24 + unat high * 2 ^ 16 + unat mid * 2 ^ 8 + unat low)"

definition IDEDeviceRead :: "u8 \<Rightarrow> u64 \<Rightarrow> u32 \<Rightarrow> Ide \<Rightarrow> int \<times> byte list \<times> Ide" where
  "IDEDeviceRead drive sector n d =
     (0, concat (map (\<lambda>i. sectors d (addressed (lba_regs drive (sector + of_nat i)))) [0..<unat n]),
      d\<lparr>ide_lock := 0\<rparr>)"

definition IDEDeviceWrite :: "u8 \<Rightarrow> u64 \<Rightarrow> u32 \<Rightarrow> byte list \<Rightarrow> Ide \<Rightarrow> (int \<times> Ide) option" where
  "IDEDeviceWrite drive sector n bs d =
     (if length bs < 512 * unat n then None
      else Some (0, (fold (\<lambda>i d. d\<lparr>sectors := (sectors d)
          (addressed (lba_regs drive (sector + of_nat i)) := slice bs (512 * i) 512)\<rparr>) [0..<unat n] d)
          \<lparr>ide_lock := 0\<rparr>))"

text \<open>The virtual functions of an \<^verbatim>\<open>IDEBlockDevice\<close> together with the page allocator.\<close>

definition ide_Alloc :: "u64 \<Rightarrow> Ide \<Rightarrow> (addr option \<times> Ide) option" where
  "ide_Alloc sz d = do { (p, f, w) \<leftarrow> Alloc sz (fm d, words d); Some (p, d\<lparr>fm := f, words := w\<rparr>) }"

definition ide_Free :: "addr \<Rightarrow> Ide \<Rightarrow> Ide" where
  "ide_Free a d = (let (f, w) = Free a (fm d, words d) in d\<lparr>fm := f, words := w\<rparr>)"

definition ide_machine :: "u8 \<Rightarrow> Ide Machine" where
  "ide_machine drive = \<lparr>dev_Read = IDEDeviceRead drive, dev_Write = IDEDeviceWrite drive,
     page_Alloc = ide_Alloc, page_Free = ide_Free\<rparr>"

section \<open>Addressing\<close>

lemma unat_and_mask: "unat (x AND mask n :: 'w::len word) = unat x mod 2 ^ n"
  unfolding take_bit_eq_mask [symmetric] unsigned_take_bit_eq by (simp only: take_bit_eq_mod)

lemma unat_drop_bit: "unat (drop_bit k (x :: 'w::len word)) = unat x div 2 ^ k"
proof -
  have "unat x < 2 ^ LENGTH('w)" by (rule unsigned_less)
  then have "take_bit LENGTH('w) (unat x) = unat x" by (rule take_bit_nat_eq_self)
  then show ?thesis unfolding unsigned_drop_bit_eq by (simp add: drop_bit_eq_div)
qed

lemma unat_ucast8: "unat (ucast (x :: u64) :: u8) = unat x mod 256"
  by (simp add: unsigned_ucast_eq take_bit_eq_mod)

text \<open>The registers carry only the low 28 bits of the sector number.\<close>

theorem addressed_lba: "addressed (lba_regs drive s) = unat s mod 2 ^ 28"
proof -
  let ?n = "unat s"
  have m: "(0xFF :: u64) = mask 8" "(0x0F :: u64) = mask 4" "(0x0F :: u8) = mask 4"
    by (simp_all add: mask_numeral)
  have low: "unat (ucast (s AND 0xFF) :: u8) = ?n mod 256"
    by (simp add: unat_ucast8 m unat_and_mask)
  have mid: "unat (ucast (drop_bit k s AND 0xFF) :: u8) = ?n div 2 ^ k mod 256" for k
    by (simp add: unat_ucast8 m unat_and_mask unat_drop_bit)
  have z: "0xE0 AND (0x0F :: u8) = 0" by simp
  have "push_bit 4 drive AND mask 4 = 0"
    by (rule bit_word_eqI) (simp add: bit_simps)
  then have "(0xE0 OR push_bit 4 drive OR x) AND 0x0F = x AND 0x0F" for x :: u8
    using z by (simp add: bit.conj_disj_distrib2 m)
  then have dev: "unat ((0xE0 OR push_bit 4 drive OR ucast (drop_bit 24 s AND 0x0F)) AND 0x0F :: u8) =
      ?n div 2 ^ 24 mod 16"
    by (simp add: m unat_and_mask unat_ucast8 unat_drop_bit mod_mod_cancel)
  have split: "?n mod 2 ^ 28 = ?n div 2 ^ 24 mod 16 * 2 ^ 24 + ?n div 2 ^ 16 mod 256 * 2 ^ 16 +
      ?n div 2 ^ 8 mod 256 * 2 ^ 8 + ?n mod 256"
    using mod_mult2_eq [of ?n "2 ^ 24" 16] mod_mult2_eq [of ?n "2 ^ 16" 256] mod_mult2_eq [of ?n "2 ^ 8" 256]
    by simp
  show ?thesis unfolding lba_regs_def addressed_def prod.case dev mid low split by simp
qed

section \<open>The driver provides the block interface\<close>

definition ide_inv :: "u64 \<Rightarrow> u64 \<Rightarrow> Ide \<Rightarrow> bool" where
  "ide_inv su tp d \<longleftrightarrow> (\<forall>s. length (sectors d s) = 512) \<and> frame_ok (fm d) \<and> start_usable (fm d) = su \<and>
     total_pages (fm d) = tp \<and> (\<exists>k. used (fm d) = {..<k}) \<and> unat su + unat tp * 4096 < 2 ^ 44"

definition ide_room :: "Ide \<Rightarrow> nat" where
  "ide_room d = unat (free_pages (fm d))"

definition pages_for :: "u64 \<Rightarrow> u64" where
  "pages_for sz = ((if sz = 0 then 1 else sz) + 8 + PAGE_SIZE - 1) div PAGE_SIZE"

definition ide_cost :: "u64 \<Rightarrow> nat" where
  "ide_cost sz = unat (if pages_for sz = 0 then 1 else pages_for sz)"

definition ide_buf :: "u64 \<Rightarrow> u64 \<Rightarrow> addr \<Rightarrow> bool" where
  "ide_buf su tp a \<longleftrightarrow> (\<exists>i<unat tp. a = Phy2Vir (su + of_nat i * PAGE_SIZE))"

lemma ide_alloc_law:
  assumes "ide_inv su tp d" "ide_cost sz \<le> ide_room d"
  shows "\<exists>a d'. ide_Alloc sz d = Some (Some a, d') \<and> ide_inv su tp d' \<and> sectors d' = sectors d \<and>
    ide_room d' = ide_room d - ide_cost sz \<and> ide_buf su tp a"
proof -
  let ?n = "if pages_for sz = 0 then 1 else pages_for sz"
  from assms(1) obtain k where i: "frame_ok (fm d)" "used (fm d) = {..<k}" "start_usable (fm d) = su"
    "total_pages (fm d) = tp" by (auto simp: ide_inv_def)
  have "?n \<noteq> 0" "?n \<le> free_pages (fm d)" using assms(2)
    by (simp_all add: ide_cost_def ide_room_def word_le_nat_alt)
  from AllocPages_prefix [OF i(1,2) this] obtain f' where
    f': "AllocPages ?n (fm d) = Some (Some (Phy2Vir (su + of_nat k * PAGE_SIZE)), f')" "frame_ok f'"
      "used f' = {..<k + unat ?n}" "start_usable f' = su" "total_pages f' = tp" "k < unat tp"
      "unat (free_pages f') = unat (free_pages (fm d)) - unat ?n" by (auto simp: i)
  have "AllocPages (pages_for sz) (fm d) = AllocPages ?n (fm d)" using AllocPages_0 by simp
  with f'(1) have "ide_Alloc sz d = Some (Some (Phy2Vir (su + of_nat k * PAGE_SIZE)),
      d\<lparr>fm := f', words := (words d)(Phy2Vir (su + of_nat k * PAGE_SIZE) := pages_for sz)\<rparr>)"
    by (simp add: ide_Alloc_def Alloc_def Let_def pages_for_def)
  moreover have "ide_buf su tp (Phy2Vir (su + of_nat k * PAGE_SIZE))" using f'(6) by (auto simp: ide_buf_def)
  ultimately show ?thesis using assms(1) f' by (auto simp: ide_inv_def ide_room_def ide_cost_def)
qed

lemma ide_free_law:
  assumes "ide_inv su tp d" "ide_buf su tp a"
  shows "ide_Free a d = d"
proof -
  from assms(2) obtain i where i: "i < unat tp" "a = Phy2Vir (su + of_nat i * PAGE_SIZE)" by (auto simp: ide_buf_def)
  have "FreePages a n (fm d) = fm d" for n
    using FreePages_virtual [of "fm d" i n] assms(1) i by (simp add: ide_inv_def)
  then show ?thesis by (simp add: ide_Free_def Free_def Let_def)
qed

lemma ide_read_law:
  assumes "unat sec + unat n \<le> 2 ^ 28"
  shows "IDEDeviceRead drive sec n d =
    (0, concat (map (sectors d) [unat sec..<unat sec + unat n]), d\<lparr>ide_lock := 0\<rparr>)"
proof -
  have "addressed (lba_regs drive (sec + of_nat i)) = unat sec + i" if "i < unat n" for i
    using unat_add_of_nat [of sec i] that assms by (simp add: addressed_lba)
  then have "map (\<lambda>i. sectors d (addressed (lba_regs drive (sec + of_nat i)))) [0..<unat n] =
      map (\<lambda>i. sectors d (unat sec + i)) [0..<unat n]" by simp
  also have "\<dots> = map (sectors d) [unat sec..<unat sec + unat n]"
    by (rule nth_equalityI) simp_all
  finally show ?thesis by (simp add: IDEDeviceRead_def)
qed

lemma ide_write_fold:
  assumes "unat sec + k \<le> 2 ^ 28"
  shows "fold (\<lambda>i d. d\<lparr>sectors := (sectors d)
          (addressed (lba_regs drive (sec + of_nat i)) := slice bs (512 * i) 512)\<rparr>) [0..<k] d =
    d\<lparr>sectors := \<lambda>s. if unat sec \<le> s \<and> s < unat sec + k then slice bs (512 * (s - unat sec)) 512 else sectors d s\<rparr>"
  using assms
proof (induction k)
  case (Suc k)
  have "addressed (lba_regs drive (sec + of_nat k)) = unat sec + k"
    using unat_add_of_nat [of sec k] Suc.prems by (simp add: addressed_lba)
  with Suc show ?case by (auto simp: fun_eq_iff less_Suc_eq)
next
  case 0
  have "(\<lambda>s. if unat sec \<le> s \<and> s < unat sec + 0 then slice bs (512 * (s - unat sec)) 512 else sectors d s) = sectors d"
    by (auto simp: fun_eq_iff)
  then show ?case by simp
qed

lemma length_slice_ide: "512 * n \<le> length bs \<Longrightarrow> i < n \<Longrightarrow> length (slice bs (512 * i) 512) = 512"
  by (rule length_slice) simp

lemma ide_write_law:
  assumes "ide_inv su tp d" "unat sec + unat n \<le> 2 ^ 28" "length bs = 512 * unat n"
  shows "\<exists>d'. IDEDeviceWrite drive sec n bs d = Some (0, d') \<and> ide_inv su tp d' \<and> ide_room d' = ide_room d \<and>
    sectors d' = (\<lambda>s. if unat sec \<le> s \<and> s < unat sec + unat n then slice bs (512 * (s - unat sec)) 512 else sectors d s)"
  using assms length_slice_ide [of "unat n" bs]
  by (auto simp: IDEDeviceWrite_def ide_write_fold ide_inv_def ide_room_def)

interpretation ide: block_io "ide_machine drive" "ide_inv su tp" sectors ide_room ide_cost "ide_buf su tp" "2 ^ 28"
  for drive su tp
proof
  show "length (sectors d s) = 512" if "ide_inv su tp d" for d s using that by (simp add: ide_inv_def)
  show "\<exists>d'. dev_Read (ide_machine drive) sec n d = (0, concat (map (sectors d) [unat sec..<unat sec + unat n]), d') \<and>
      ide_inv su tp d' \<and> sectors d' = sectors d \<and> ide_room d' = ide_room d"
    if "ide_inv su tp d" "unat sec + unat n \<le> 2 ^ 28" for d sec n
    using that ide_read_law [OF that(2)] by (simp add: ide_machine_def ide_inv_def ide_room_def)
  show "\<exists>d'. dev_Write (ide_machine drive) sec n bs d = Some (0, d') \<and> ide_inv su tp d' \<and> ide_room d' = ide_room d \<and>
      sectors d' = (\<lambda>s. if unat sec \<le> s \<and> s < unat sec + unat n then slice bs (512 * (s - unat sec)) 512 else sectors d s)"
    if "ide_inv su tp d" "unat sec + unat n \<le> 2 ^ 28" "length bs = 512 * unat n" for d sec n bs
    using ide_write_law [OF that] by (simp add: ide_machine_def)
  show "\<exists>a d'. page_Alloc (ide_machine drive) sz d = Some (Some a, d') \<and> ide_inv su tp d' \<and> sectors d' = sectors d \<and>
      ide_room d' = ide_room d - ide_cost sz \<and> ide_buf su tp a"
    if "ide_inv su tp d" "ide_cost sz \<le> ide_room d" for d sz
    using ide_alloc_law [OF that] by (simp add: ide_machine_def)
  show "ide_inv su tp (page_Free (ide_machine drive) a d) \<and> sectors (page_Free (ide_machine drive) a d) = sectors d \<and>
      ide_room d \<le> ide_room (page_Free (ide_machine drive) a d)"
    if "ide_inv su tp d" "ide_buf su tp a" for d a
    using ide_free_law [OF that] that by (simp add: ide_machine_def)
qed

end
