(* ===== verification/Ext2Props.thy ===== *)
theory Ext2Props
  imports Ide
begin

text \<open>
  The properties of the file system, each over the IDE driver and the page allocator: the lemmas
  proved from the interface \<open>block_io\<close> are used through its interpretation \<open>ide\<close>.
\<close>

unbundle bit_operations_syntax

section \<open>A small disk for the examples\<close>

text \<open>A file system with blocks of 1 KiB on a disk of zeros, and 64 free pages.\<close>

definition sb1k :: Ext2SuperBlock where
  "sb1k = (decode_super (replicate 1024 0))\<lparr>s_log_block_size := 0, s_inodes_per_group := 16, s_inode_size := 128\<rparr>"

definition fm64 :: FrameMem where
  "fm64 = \<lparr>total_pages = 64, free_pages = 64, bitmap_size = 8, bitmap = replicate 8 0,
     pages = replicate 64 \<lparr>page_flag = PAGE_FREE, vaddr = 0, page_count = 0\<rparr>,
     start_addr = 0x100000, start_usable = 0x100000\<rparr>"

definition zero_disk :: Ide where
  "zero_disk = \<lparr>sectors = (\<lambda>_. replicate 512 0), ide_lock = 0, fm = fm64, words = (\<lambda>_. 0)\<rparr>"

abbreviation (input) ide0 :: "Ide Machine" where "ide0 \<equiv> ide_machine 0"

lemma fm64_used: "used fm64 = {..<0}"
proof -
  have "filter (bm_test (bitmap fm64)) [0..<unat (total_pages fm64)] = []" by code_simp
  then show ?thesis by (simp add: used_def marked_def filter_empty_conv)
qed

lemma zero_disk_inv: "ide_inv 0x100000 64 zero_disk"
proof -
  have "frame_ok fm64" using fm64_used by (simp add: frame_ok_def) (simp add: fm64_def)
  moreover have "\<exists>k. used fm64 = {..<k}" using fm64_used by blast
  ultimately show ?thesis by (simp add: ide_inv_def zero_disk_def) (simp add: fm64_def)
qed

lemma sb1k_geo: "geo sb1k 1024"
proof -
  have "s_log_block_size sb1k \<le> 6" "push_bit (unat (s_log_block_size sb1k)) 1024 = (1024 :: u32)"
    by (simp_all add: sb1k_def)
  then show ?thesis using geo_exists [of sb1k] by metis
qed

lemma zero_disk_room: "ide_room zero_disk = 64" "ide_cost (ucast (1024 :: u32)) = 1"
  by (simp add: ide_room_def zero_disk_def fm64_def) code_simp

lemma concat_const: "concat (map (\<lambda>_. replicate n x) ks) = replicate (length ks * n) x"
  by (induction ks) (simp_all add: replicate_add)

lemma zero_disk_block: "blockdata (sectors zero_disk) lba 1024 b = replicate 1024 0"
proof -
  have "spb 1024 = 2" by (simp add: spb_def)
  then show ?thesis by (simp add: blockdata_def zero_disk_def concat_const del: upt_Suc)
qed

section \<open>Inodes\<close>




section \<open>The block map\<close>

text \<open>
  C29.  \<open>GetBlockNum\<close> computes the block map: for every block number in the range of the map whose
  tables are on the device it returns the pointer that the reference definition \<open>bmap\<close> finds by
  following the route of the number, and changes nothing on the disk.
\<close>

theorem GetBlockNum_is_bmap:
  assumes "ide_inv su tp d" "geo sb B" "map_ok (2 ^ 28) (sectors d) lba B inode (unat n)"
    "3 * ide_cost (ucast B) \<le> ide_room d"
  shows "\<exists>d'. GetBlockNum (ide_machine drive) sb inode n lba d = Some (bmap (sectors d) lba B inode (unat n), d') \<and>
     sectors d' = sectors d \<and> ide_inv su tp d'"
  using ide.runs_GetBlockNum [OF assms, of drive] by (auto elim!: ide.runsE)

text \<open>A file whose first two blocks are 20 and 21 and whose indirect table is block 22.\<close>

definition ino2 :: Ext2Inode where
  "ino2 = (new_inode 0x81A4)\<lparr>i_size := 2000, i_block := [20, 21, 0, 0, 0, 0, 0, 0, 0, 0, 0, 0, 22, 0, 0]\<rparr>"

lemma ino2_blocks: "i_block ino2 = [20, 21, 0, 0, 0, 0, 0, 0, 0, 0, 0, 0, 22, 0, 0]"
  by (simp add: ino2_def)

theorem GetBlockNum_is_bmap_witness:
  "(\<exists>d'. GetBlockNum ide0 sb1k ino2 1 0 zero_disk = Some (21, d')) \<and>
   (\<exists>d'. GetBlockNum ide0 sb1k ino2 14 0 zero_disk = Some (0, d'))"
proof -
  have room: "3 * ide_cost (ucast (1024 :: u32)) \<le> ide_room zero_disk" by (simp only: zero_disk_room)
  have r: "block_route (unat (1024 :: u32) div 4) (unat (1 :: u32)) = (1, [])"
    "block_route (unat (1024 :: u32) div 4) (unat (14 :: u32)) = (12, [2])" by code_simp+
  have o: "on_device (2 ^ 28) 0 1024 22" by (simp add: on_device_def base_def spb_def)
  have p: "ptr_at (sectors zero_disk) 0 1024 22 2 = 0"
    unfolding ptr_at_def zero_disk_block by code_simp
  have b: "bmap (sectors zero_disk) 0 1024 ino2 (unat (1 :: u32)) = 21"
    "bmap (sectors zero_disk) 0 1024 ino2 (unat (14 :: u32)) = 0"
    unfolding bmap_def r by (simp_all add: ino2_blocks p)
  have m: "map_ok (2 ^ 28) (sectors zero_disk) 0 1024 ino2 (unat (1 :: u32))"
    "map_ok (2 ^ 28) (sectors zero_disk) 0 1024 ino2 (unat (14 :: u32))"
    unfolding map_ok_def bvisits_def r using o by (simp_all add: max_blocks_def ino2_blocks)
  from GetBlockNum_is_bmap [OF zero_disk_inv sb1k_geo m(1) room, of 0]
    GetBlockNum_is_bmap [OF zero_disk_inv sb1k_geo m(2) room, of 0]
  show ?thesis unfolding b by blast
qed

text \<open>
  C30.  \<open>SetBlockNum\<close> on a block whose tables exist changes the map at that block only: it returns 0,
  leaves the inode as it is, writes the one pointer, and afterwards \<open>GetBlockNum\<close> returns the new
  number there and the old ones at every block whose route does not read the changed slot.  One of the
  first twelve blocks is a slot of the inode and touches no disk.
\<close>

theorem SetBlockNum_updates_map:
  assumes "ide_inv su tp d" "geo sb B" "unat n < max_blocks B"
    "block_route (unat B div 4) (unat n) = (slot, path @ [i])"
    "t = walk (sectors d) lba B (i_block inode ! slot) path"
    "\<forall>(u, j) \<in> set (bvisits (sectors d) lba B inode (unat n)). u \<noteq> 0 \<and> on_device (2 ^ 28) lba B u"
    "(t, i) \<notin> set (visits (sectors d) lba B (i_block inode ! slot) path)"
    "4 * ide_cost (ucast B) \<le> ide_room d"
  shows "\<exists>d'. SetBlockNum (ide_machine drive) inode n v lba sb d = Some (0, inode, sb, d') \<and> ide_inv su tp d' \<and>
     bmap (sectors d') lba B inode (unat n) = v \<and>
     (\<forall>k < max_blocks B. (t, i) \<notin> set (bvisits (sectors d) lba B inode k) \<longrightarrow>
        bmap (sectors d') lba B inode k = bmap (sectors d) lba B inode k) \<and>
     (\<forall>b. b \<noteq> t \<longrightarrow> blockdata (sectors d') lba B b = blockdata (sectors d) lba B b) \<and>
     (\<forall>m < EXT2_NDIR_BLOCKS. SetBlockNum (ide_machine drive) inode m v lba sb d =
        Some (0, inode\<lparr>i_block := (i_block inode)[unat m := v]\<rparr>, sb, d))"
proof -
  obtain s ws0 where w0: "word_route B n = (s, ws0)" by fastforce
  have wr: "s = slot" "map unat ws0 = path @ [i]" using word_route_correct [OF assms(2) w0] assms(4) by simp_all
  then obtain ws w where ws: "ws0 = ws @ [w]" "map unat ws = path" "unat w = i"
    by (auto simp: map_eq_append_conv)
  have l: "length ws \<le> 2" using w0 ws(1) by (auto simp: word_route_def Let_def split: if_splits)
  let ?r = "i_block inode ! slot"
  have v: "visits (sectors d) lba B ?r (map unat (ws @ [w])) = bvisits (sectors d) lba B inode (unat n)"
    using assms(4) ws by (simp add: bvisits_def)
  have t: "t \<noteq> 0" "?r \<noteq> 0"
    using assms(5,6) assms(4) by (auto simp: bvisits_def visits_append) (cases path; auto)
  have ix: "\<forall>w\<in>set (ws @ [w]). unat w < unat B div 4"
    using route_index [OF assms(3,4) geo_ptrs(1) [OF assms(2)]] ws by auto
  have "(length ws + 1) * ide_cost (ucast B) \<le> 4 * ide_cost (ucast B)" using l by (intro mult_le_mono1) simp
  then have rm: "(length ws + 1) * ide_cost (ucast B) \<le> ide_room d" by (rule order_trans [OF _ assms(8)])
  from ide.runs_set_along [OF assms(2,1) _ ix rm, of lba ?r drive v inode] assms(6) v obtain d' where
    d': "set_along (ide_machine drive) v lba ws w ?r inode sb d = Some (0, inode, sb, d')" "ide_inv su tp d'"
      "sectors d' = set_ptr (sectors d) lba B (walk (sectors d) lba B ?r (map unat ws)) (unat w) v" by auto
  have D: "sectors d' = set_ptr (sectors d) lba B t i v" unfolding d'(3) ws(2,3) assms(5) ..
  note put = set_ptr_bmap [OF ide.full_disk [OF assms(1)] assms(2,3,4,5) t(1) assms(7)]
  have "blockdata (sectors d') lba B b = blockdata (sectors d) lba B b" if "b \<noteq> t" for b
    unfolding D set_ptr_def by (rule blockdata_put_other) (use that in simp)
  moreover have "SetBlockNum (ide_machine drive) inode n v lba sb d = Some (0, inode, sb, d')"
    using SetBlockNum_route [OF assms(2), where M = "ide_machine drive" and n = n and slot = slot and ws = ws] w0 wr(1) ws(1) t(2) d'(1) by simp
  ultimately show ?thesis using d'(2) put SetBlockNum_direct [OF assms(2), where M = "ide_machine drive"]
    by (intro exI [of _ d']) (simp add: D)
qed

theorem SetBlockNum_updates_map_witness:
  "\<exists>d'. SetBlockNum ide0 ino2 14 33 0 sb1k zero_disk = Some (0, ino2, sb1k, d') \<and>
     bmap (sectors d') 0 1024 ino2 14 = 33 \<and> bmap (sectors d') 0 1024 ino2 1 = 21"
proof -
  have room: "4 * ide_cost (ucast (1024 :: u32)) \<le> ide_room zero_disk" by (simp only: zero_disk_room)
  have r: "block_route (unat (1024 :: u32) div 4) (unat (14 :: u32)) = (12, [] @ [2])"
    "block_route (unat (1024 :: u32) div 4) 1 = (1, [])" by code_simp+
  have o: "on_device (2 ^ 28) 0 1024 22" by (simp add: on_device_def base_def spb_def)
  have b: "bmap (sectors zero_disk) 0 1024 ino2 1 = 21" "bvisits (sectors zero_disk) 0 1024 ino2 1 = []"
    unfolding bmap_def bvisits_def r by (simp_all add: ino2_blocks)
  have m: "unat (14 :: u32) < max_blocks 1024" "1 < max_blocks 1024" by (simp_all add: max_blocks_def)
  have t: "22 = walk (sectors zero_disk) 0 1024 (i_block ino2 ! 12) []" by (simp add: ino2_blocks)
  have v: "\<forall>(u, j) \<in> set (bvisits (sectors zero_disk) 0 1024 ino2 (unat (14 :: u32))). u \<noteq> 0 \<and> on_device (2 ^ 28) 0 1024 u"
    unfolding bvisits_def r using o by (simp add: ino2_blocks)
  from SetBlockNum_updates_map [OF zero_disk_inv sb1k_geo m(1) r(1) t v _ room, of 0 33] m(2) b
  show ?thesis by auto
qed

section \<open>File data\<close>

lemma read_file_bytes:
  assumes "ide_inv su tp d" "geo sb B" "\<not> is_dir inode"
    "mapped (2 ^ 28) (sectors d) lba B inode (unat (i_size inode))" "unat offset + unat count < 2 ^ 64"
    "n = min (unat count) (unat (i_size inode) - unat offset)"
    "4 * ide_cost (ucast B) * touched (unat B) (unat offset) n \<le> ide_room d"
  shows "\<exists>d'. ReadFile (ide_machine drive) sb inode count offset lba d =
     Some ((int n, file_range (sectors d) lba B inode (unat offset) n), d') \<and> sectors d' = sectors d \<and> ide_inv su tp d'"
proof (cases "unat offset < unat (i_size inode)")
  case True
  show ?thesis using ide.ReadFile_correct [OF assms(1-4) True assms(5), of drive] assms(6,7)
    by (auto elim!: ide.runsE)
next
  case False
  then have "ReadFile (ide_machine drive) sb inode count offset lba d = Some ((0, []), d)"
    using assms(3) geo_simps(1) [OF assms(2)] by (simp add: ReadFile_def Let_def word_le_nat_alt unat_ucast_u32)
  moreover have "n = 0" using False assms(6) by simp
  ultimately show ?thesis using assms(1) by (simp add: file_range_def)
qed

text \<open>
  C31.  \<open>ReadFile\<close> on a file whose blocks are all mapped returns the bytes of the file: from the
  offset on, as many as asked for or up to the end of the file, and changes nothing on the disk.
  At or beyond the end it returns 0 and no bytes.
\<close>

theorem ReadFile_returns_bytes:
  assumes "ide_inv su tp d" "geo sb B" "\<not> is_dir inode"
    "mapped (2 ^ 28) (sectors d) lba B inode (unat (i_size inode))" "unat offset + unat count < 2 ^ 64"
    "n = min (unat count) (unat (i_size inode) - unat offset)"
    "4 * ide_cost (ucast B) * touched (unat B) (unat offset) n \<le> ide_room d"
  shows "\<exists>d'. ReadFile (ide_machine drive) sb inode count offset lba d =
     Some ((int n, file_range (sectors d) lba B inode (unat offset) n), d') \<and> sectors d' = sectors d \<and> ide_inv su tp d'"
  by (rule read_file_bytes [OF assms])

lemma ino2_mapped:
  "mapped (2 ^ 28) (sectors zero_disk) 0 1024 ino2 2000" "separate (sectors zero_disk) 0 1024 ino2 2000"
  "\<not> is_dir ino2" "unat (i_size ino2) = 2000"
proof -
  have r: "block_route 256 k = (k, [])" if "k < 2" for k using that by (simp add: block_route_def)
  have lt: "k * 1024 < 2000 \<longleftrightarrow> k = 0 \<or> k = 1" for k :: nat by auto
  have o: "on_device (2 ^ 28) 0 1024 20" "on_device (2 ^ 28) 0 1024 21" by (simp_all add: on_device_def base_def spb_def)
  have b: "bmap (sectors zero_disk) 0 1024 ino2 0 = 20" "bmap (sectors zero_disk) 0 1024 ino2 1 = 21"
    "bvisits (sectors zero_disk) 0 1024 ino2 0 = []" "bvisits (sectors zero_disk) 0 1024 ino2 1 = []"
    by (simp_all add: bmap_def bvisits_def r ino2_blocks)
  show "mapped (2 ^ 28) (sectors zero_disk) 0 1024 ino2 2000" "separate (sectors zero_disk) 0 1024 ino2 2000"
    using b o by (auto simp: mapped_def separate_def map_ok_def lt max_blocks_def)
  show "\<not> is_dir ino2" "unat (i_size ino2) = 2000" by (simp_all add: is_dir_def ino2_def new_inode_def ext2_consts)
qed

theorem ReadFile_returns_bytes_witness:
  "\<exists>d'. ReadFile ide0 sb1k ino2 5000 1000 0 zero_disk = Some ((1000, replicate 1000 0), d')"
proof -
  have n: "1000 = min (unat (5000 :: u64)) (unat (i_size ino2) - unat (1000 :: u64))" by (simp add: ino2_mapped)
  have t: "touched (unat (1024 :: u32)) (unat (1000 :: u64)) 1000 = 2" by (simp add: touched_def)
  have room: "4 * ide_cost (ucast (1024 :: u32)) * touched (unat (1024 :: u32)) (unat (1000 :: u64)) 1000 \<le> ide_room zero_disk"
    unfolding t by (simp only: zero_disk_room)
  have z: "file_byte (sectors zero_disk) 0 1024 ino2 k = 0" for k
    by (simp add: file_byte_def zero_disk_block)
  have "file_range (sectors zero_disk) 0 1024 ino2 1000 1000 = replicate 1000 0"
    unfolding file_range_def by (rule replicate_eqI) (auto simp: z)
  then show ?thesis
    using ReadFile_returns_bytes [OF zero_disk_inv sb1k_geo ino2_mapped(3) _ _ n room, of 0 0] ino2_mapped(1,4) by auto
qed

text \<open>
  C32.  \<open>WriteFile\<close> inside a file refines the replacement of a part of a byte sequence: the content of
  the file becomes the old one with the written bytes in place of those from the offset on, the inode
  and the super block stay as they are, and a read of the same range gives back what was written.
\<close>

theorem WriteFile_overwrites:
  assumes "ide_inv su tp d" "geo sb B" "\<not> is_dir inode"
    "mapped (2 ^ 28) (sectors d) lba B inode (unat (i_size inode))"
    "separate (sectors d) lba B inode (unat (i_size inode))"
    "unat offset + unat count \<le> unat (i_size inode)" "unat count \<le> length bytes"
    "8 * ide_cost (ucast B) * touched (unat B) (unat offset) (unat count) \<le> ide_room d"
  shows "\<exists>d1 d2. WriteFile (ide_machine drive) inode bytes count offset lba sb d = Some (int (unat count), inode, sb, d1) \<and>
     file_range (sectors d1) lba B inode 0 (unat (i_size inode)) =
       splice (unat offset) (take (unat count) bytes) (file_range (sectors d) lba B inode 0 (unat (i_size inode))) \<and>
     ReadFile (ide_machine drive) sb inode count offset lba d1 = Some ((int (unat count), take (unat count) bytes), d2)"
proof -
  let ?n = "unat count" and ?x = "unat offset" and ?sz = "unat (i_size inode)"
  let ?T = "touched (unat B) ?x ?n" and ?K = "ide_cost (ucast B)"
  have "4 * ?K * ?T \<le> ide_room d" using assms(8) by simp
  from ide.WriteFile_correct [OF assms(1-7) this, of drive] obtain d1 where
    d1: "WriteFile (ide_machine drive) inode bytes count offset lba sb d = Some (int ?n, inode, sb, d1)"
      "ide_inv su tp d1" "ide_room d \<le> ide_room d1 + 4 * ?K * ?T"
      "overwritten (sectors d) lba B inode ?sz bytes ?x ?n (sectors d1)" by auto
  have by1: "file_byte (sectors d1) lba B inode k =
      (if ?x \<le> k \<and> k < ?x + ?n then bytes ! (k - ?x) else file_byte (sectors d) lba B inode k)" if "k < ?sz" for k
    using d1(4) that by (simp add: overwritten_def)
  have "file_range (sectors d1) lba B inode 0 ?sz = splice ?x (take ?n bytes) (file_range (sectors d) lba B inode 0 ?sz)"
    using assms(6,7) by (intro nth_equalityI) (auto simp: file_range_def by1 splice_nth)
  moreover have "file_range (sectors d1) lba B inode ?x ?n = take ?n bytes"
    using assms(6,7) by (intro nth_equalityI) (auto simp: file_range_def by1)
  moreover have "mapped (2 ^ 28) (sectors d1) lba B inode ?sz" using overwritten_mapped(1) [OF d1(4)] assms(4) by simp
  moreover have "?sz < 2 ^ 32" using unsigned_less [of "i_size inode", where ?'a = nat] by simp
  then have "?x + ?n < 2 ^ 64" using assms(6) by simp
  moreover have "?n = min ?n (?sz - ?x)" using assms(6) by simp
  moreover have "4 * ?K * ?T \<le> ide_room d1" using d1(3) assms(8) by simp
  ultimately show ?thesis
    using d1(1) read_file_bytes [OF d1(2) assms(2,3), of lba offset count ?n drive] by auto
qed

theorem WriteFile_overwrites_witness:
  "\<exists>d1 d2. WriteFile ide0 ino2 (replicate 600 7) 600 900 0 sb1k zero_disk = Some (600, ino2, sb1k, d1) \<and>
     ReadFile ide0 sb1k ino2 600 900 0 d1 = Some ((600, replicate 600 7), d2)"
proof -
  have t: "touched (unat (1024 :: u32)) (unat (900 :: u64)) (unat (600 :: u64)) = 2" by (simp add: touched_def)
  have room: "8 * ide_cost (ucast (1024 :: u32)) * touched (unat (1024 :: u32)) (unat (900 :: u64)) (unat (600 :: u64))
      \<le> ide_room zero_disk" unfolding t by (simp only: zero_disk_room)
  have le: "unat (900 :: u64) + unat (600 :: u64) \<le> unat (i_size ino2)" "unat (600 :: u64) \<le> length (replicate 600 (7 :: byte))"
    by (simp_all add: ino2_mapped)
  show ?thesis
    using WriteFile_overwrites [OF zero_disk_inv sb1k_geo ino2_mapped(3) _ _ le room, of 0 0] ino2_mapped(1,2,4) by auto
qed

section \<open>Directories\<close>

text \<open>
  C33.  \<open>FindEntry\<close> on a directory whose blocks are well-formed chains returns the first live entry
  with the name, in the order of the blocks, or -4 when there is none.
\<close>

theorem FindEntry_first:
  assumes "ide_inv su tp d" "geo sb B" "is_dir inode" "unat (i_size inode) + unat B < 2 ^ 32"
    "mapped (2 ^ 28) (sectors d) lba B inode (unat (i_size inode))" "dir_holds (sectors d) lba B inode ess"
    "ide_cost (ucast B) + 3 * ide_cost (ucast B) * length ess \<le> ide_room d"
  shows "\<exists>d'. FindEntry (ide_machine drive) sb inode name lba d =
      Some (case first_named name (concat ess) of Some e \<Rightarrow> Inr e | None \<Rightarrow> Inl (-4), d') \<and>
    sectors d' = sectors d"
  using ide.FindEntry_correct [OF assms, of drive name] by (auto elim!: ide.runsE)

text \<open>A directory with one block, number 20, that holds the entries of the names ``.'' and ``abc''.\<close>

definition dir_image :: "byte list" where
  "dir_image = le32 11 @ le16 12 @ [1, 2, 46, 0, 0, 0] @ le32 12 @ le16 1012 @ [3, 1, 97, 98, 99] @ replicate 1001 0"

definition disk_with :: "byte list \<Rightarrow> Ide" where
  "disk_with img = zero_disk\<lparr>sectors := put_block (sectors zero_disk) 0 1024 20 img\<rparr>"

definition dir1 :: Ext2Inode where
  "dir1 = (new_inode 0x41ED)\<lparr>i_size := 1024, i_block := 20 # replicate 14 0\<rparr>"

lemma disk_with:
  assumes "length img = 1024"
  shows "ide_inv 0x100000 64 (disk_with img)" "ide_room (disk_with img) = 64"
    "blockdata (sectors (disk_with img)) 0 1024 20 = img"
    "bmap (sectors (disk_with img)) 0 1024 dir1 0 = 20"
    "mapped (2 ^ 28) (sectors (disk_with img)) 0 1024 dir1 1024"
    "is_dir dir1" "unat (i_size dir1) = 1024"
proof -
  have "full (sectors zero_disk)" using zero_disk_inv by (simp add: full_def ide_inv_def)
  from full_put_block [OF this sb1k_geo] have "full (sectors (disk_with img))" using assms by (simp add: disk_with_def)
  then show "ide_inv 0x100000 64 (disk_with img)"
    using zero_disk_inv by (simp add: ide_inv_def full_def disk_with_def)
  show "ide_room (disk_with img) = 64" using zero_disk_room(1) by (simp add: ide_room_def disk_with_def)
  show "blockdata (sectors (disk_with img)) 0 1024 20 = img"
    using blockdata_put_same [OF sb1k_geo, of img] assms by (simp add: disk_with_def)
  have r: "block_route 256 0 = (0, [])" by (simp add: block_route_def)
  show b: "bmap (sectors (disk_with img)) 0 1024 dir1 0 = 20" by (simp add: bmap_def r dir1_def)
  have "on_device (2 ^ 28) 0 1024 20" by (simp add: on_device_def base_def spb_def)
  moreover have "bvisits (sectors (disk_with img)) 0 1024 dir1 0 = []" by (simp add: bvisits_def r)
  moreover have "k * 1024 < 1024 \<longleftrightarrow> k = 0" for k :: nat by auto
  ultimately show "mapped (2 ^ 28) (sectors (disk_with img)) 0 1024 dir1 1024"
    using b by (auto simp: mapped_def map_ok_def max_blocks_def)
  show "is_dir dir1" "unat (i_size dir1) = 1024" by (simp_all add: is_dir_def dir1_def new_inode_def ext2_consts)
qed

theorem FindEntry_first_witness:
  "(\<exists>e d'. FindEntry ide0 sb1k dir1 [97, 98, 99] 0 (disk_with dir_image) = Some (Inr e, d') \<and> de_inode e = 12) \<and>
   (\<exists>d'. FindEntry ide0 sb1k dir1 [97, 98] 0 (disk_with dir_image) = Some (Inl (-4), d'))"
proof -
  have len: "length dir_image = 1024" by (simp add: dir_image_def)
  let ?e1 = "\<lparr>de_inode = 11, rec_len = 12, name_len = 1, file_type = 2\<rparr>"
  let ?e2 = "\<lparr>de_inode = 12, rec_len = 1012, name_len = 3, file_type = 1\<rparr>"
  have "chain dir_image 0 [([46], ?e1), ([97, 98, 99], ?e2)]" by code_simp
  then have h: "dir_holds (sectors (disk_with dir_image)) 0 1024 dir1 [[([46], ?e1), ([97, 98, 99], ?e2)]]"
    using disk_with(3,4,7) [OF len] by (simp add: dir_holds_def del: chain.simps)
  have room: "ide_cost (ucast (1024 :: u32)) + 3 * ide_cost (ucast (1024 :: u32)) * length [[([46], ?e1), ([97, 98, 99], ?e2)]]
      \<le> ide_room (disk_with dir_image)" by (simp only: zero_disk_room(2) disk_with(2) [OF len]) simp
  note F = FindEntry_first [OF disk_with(1) [OF len] sb1k_geo disk_with(6) [OF len] _ _ h room, of 0]
  have "first_named [97, 98, 99] (concat [[([46], ?e1), ([97, 98, 99], ?e2)]]) = Some ?e2"
    "first_named [97, 98] (concat [[([46], ?e1), ([97, 98, 99], ?e2)]]) = None"
    by (simp_all add: live_named_def)
  then show ?thesis using F [of "[97, 98, 99]"] F [of "[97, 98]"] disk_with(5,7) [OF len] by auto
qed

text \<open>
  C34.  Some searches never end.  When the first entry of a directory has length zero and does not
  match, \<open>FindEntry\<close> has no result.  The code makes such blocks itself: when \<open>AddEntry\<close> takes over
  the single unused entry of a block of zeros, the search of that block for any other name has no
  result.
\<close>

theorem zero_length_entry_hangs:
  assumes "ide_inv su tp d" "geo sb B" "is_dir inode" "0 < unat (i_size inode)" "unat (i_size inode) + unat B < 2 ^ 32"
    "mapped (2 ^ 28) (sectors d) lba B inode 1" "4 * ide_cost (ucast B) \<le> ide_room d"
    "data = blockdata (sectors d) lba B (bmap (sectors d) lba B inode 0)" "dir_entry data 0 = Some e"
  shows "(rec_len e = 0 \<and> name_matches name data 0 e = Some False \<longrightarrow>
      FindEntry (ide_machine drive) sb inode name lba d = None) \<and>
    (de_inode e = 0 \<and> length name < 256 \<and> 0 \<notin> set name \<and> align4 (8 + of_nat (length name)) \<le> rec_len e \<and>
       slice data (unat (align4 (8 + of_nat (length name)))) 8 = replicate 8 0 \<and> other \<noteq> name \<longrightarrow>
      (\<exists>data1. loop (add_body B ino name ft (align4 (8 + of_nat (length name))) data) 0 = Some (Some data1) \<and>
         loop (find_body B other data1) 0 = None))"
proof (intro conjI impI)
  have B: "1024 \<le> unat B" by (rule geo_simps(8) [OF assms(2)])
  assume h: "rec_len e = 0 \<and> name_matches name data 0 e = Some False"
  have "loop (find_body B name data) 0 = None"
    by (rule find_body_stuck [where e = e]) (use h assms(9) B in \<open>simp_all add: word_less_nat_alt\<close>)
  then show "FindEntry (ide_machine drive) sb inode name lba d = None"
    using ide.FindEntry_stuck [OF assms(1-6) _ assms(7)] assms(8) by simp
next
  assume h: "de_inode e = 0 \<and> length name < 256 \<and> 0 \<notin> set name \<and> align4 (8 + of_nat (length name)) \<le> rec_len e \<and>
       slice data (unat (align4 (8 + of_nat (length name)))) 8 = replicate 8 0 \<and> other \<noteq> name"
  have "length data = unat B"
    unfolding assms(8) by (rule length_blockdata [OF ide.full_disk [OF assms(1)] assms(2)])
  with h show "\<exists>data1. loop (add_body B ino name ft (align4 (8 + of_nat (length name))) data) 0 = Some (Some data1) \<and>
         loop (find_body B other data1) 0 = None"
    by (intro reuse_breaks_chain [OF _ geo_simps(8) [OF assms(2)] _ _ assms(9)]) auto
qed

theorem zero_length_entry_hangs_witness:
  "FindEntry ide0 sb1k dir1 [97] 0 (disk_with (replicate 1024 0)) = None \<and>
   (\<exists>data1. loop (add_body 1024 12 [97] 1 12 (le32 0 @ le16 1024 @ replicate 1018 0)) 0 = Some (Some data1) \<and>
      loop (find_body 1024 [98] data1) 0 = None)"
proof -
  have len: "length (replicate 1024 (0 :: byte)) = 1024" "length (le32 0 @ le16 1024 @ replicate 1018 0) = 1024" by simp_all
  have room: "4 * ide_cost (ucast (1024 :: u32)) \<le> ide_room (disk_with img)" if "length img = 1024" for img
    by (simp only: zero_disk_room(2) disk_with(2) [OF that])
  have m: "mapped (2 ^ 28) (sectors (disk_with img)) 0 1024 dir1 1" if "length img = 1024" for img
    using disk_with(5) [OF that] by (auto simp: mapped_def)
  have sz: "0 < unat (i_size dir1)" "unat (i_size dir1) + unat (1024 :: u32) < 2 ^ 32"
    by (simp_all add: disk_with(7) [OF len(1)])
  have d: "img = blockdata (sectors (disk_with img)) 0 1024 (bmap (sectors (disk_with img)) 0 1024 dir1 0)"
    if "length img = 1024" for img by (simp add: disk_with(3,4) [OF that])
  note H = zero_length_entry_hangs [OF disk_with(1) sb1k_geo disk_with(6) sz m room d]
  have e: "dir_entry (replicate 1024 0) 0 = Some \<lparr>de_inode = 0, rec_len = 0, name_len = 0, file_type = 0\<rparr>"
    "dir_entry (le32 0 @ le16 1024 @ replicate 1018 0) 0 = Some \<lparr>de_inode = 0, rec_len = 1024, name_len = 0, file_type = 0\<rparr>"
    by code_simp+
  have a: "align4 (8 + of_nat (length [97 :: byte])) = 12" by code_simp
  have z: "slice (le32 0 @ le16 1024 @ replicate 1018 0) (unat (12 :: u16)) 8 = replicate 8 0" by code_simp
  from H [OF len(1) len(1) len(1) len(1) len(1) e(1), of "[97]" 0 "[98]" 12 1]
    H [OF len(2) len(2) len(2) len(2) len(2) e(2), of "[97]" 0 "[98]" 12 1]
  show ?thesis using z unfolding a by (simp add: name_matches_def)
qed

section \<open>Images, paths and errors\<close>



text \<open>
  C36.  \<open>LookupPath\<close> resolves a path: it returns the inode that the path leads to through the
  directories on the disk, one entry after the other, and changes nothing.
\<close>

theorem LookupPath_resolves:
  assumes "ide_inv su tp d" "geo sb B" "inode_ok (2 ^ 28) (sectors d) sb lba B EXT2_ROOT_INO"
    "resolves (2 ^ 28) (ide_cost (ucast B)) (sectors d) sb lba B EXT2_ROOT_INO path n k"
    "2 * ide_cost (ucast B) + k \<le> ide_room d"
  shows "\<exists>d'. LookupPath (ide_machine drive) sb (47 # path) lba d = Some (Inr n, d') \<and> sectors d' = sectors d"
  using ide.LookupPath_correct [OF assms(2,1,3-5), of drive] by (auto elim!: ide.runsE)

text \<open>The directory above as the root: its inode is the second of the table in block 0.\<close>

definition root_disk :: Ide where
  "root_disk = (disk_with dir_image)\<lparr>sectors := put_block (sectors (disk_with dir_image)) 0 1024 0
     (splice 128 (encode_inode dir1) (replicate 1024 0))\<rparr>"

lemma root_disk:
  shows "ide_inv 0x100000 64 root_disk" "ide_room root_disk = 64"
    "inode_ok (2 ^ 28) (sectors root_disk) sb1k 0 1024 2" "inode_at (sectors root_disk) sb1k 0 1024 2 = dir1"
    "inode_ok (2 ^ 28) (sectors root_disk) sb1k 0 1024 12"
    "blockdata (sectors root_disk) 0 1024 20 = dir_image"
proof -
  let ?D = "sectors (disk_with dir_image)"
  have len: "length dir_image = 1024" by (simp add: dir_image_def)
  have t: "inode_typed dir1" by (simp add: inode_typed_def dir1_def new_inode_def)
  have full: "full ?D" using disk_with(1) [OF len] by (simp add: full_def ide_inv_def)
  have z: "blockdata ?D 0 1024 b = replicate 1024 0" if "b \<noteq> 20" for b
  proof -
    have "20 \<noteq> b" using that by simp
    from blockdata_put_other [OF this] show ?thesis by (simp add: disk_with_def zero_disk_block)
  qed
  have p: "inode_place sb1k 2 = Some (0, 0, 128)" "inode_place sb1k 12 = Some (0, 1, 384)"
    by (simp_all add: inode_place_def block_size_def sb1k_def)
  have "bg_inode_table (gd_at ?D 0 1024 0) = 0" 
  proof -
    have "blockdata ?D 0 1024 2 = replicate 1024 0" by (rule z) simp
    then show ?thesis unfolding gd_at_def by (simp only:) code_simp
  qed
  then have b: "inode_block ?D sb1k 0 1024 2 = 0" "inode_block ?D sb1k 0 1024 12 = 1"
    and o: "inode_off sb1k 2 = 128" by (simp_all add: inode_block_def inode_off_def p)
  have ok: "inode_ok (2 ^ 28) ?D sb1k 0 1024 2" "inode_ok (2 ^ 28) ?D sb1k 0 1024 12"
    by (simp_all add: inode_ok_def b p on_device_def base_def spb_def)
  have R: "sectors root_disk = put_block ?D 0 1024 (inode_block ?D sb1k 0 1024 2)
      (splice (inode_off sb1k 2) (encode_inode dir1) (blockdata ?D 0 1024 (inode_block ?D sb1k 0 1024 2)))"
    using z [of 0] by (simp add: root_disk_def b o)
  note put = inode_at_put [OF full sb1k_geo t ok(1), folded R]
  show "inode_ok (2 ^ 28) (sectors root_disk) sb1k 0 1024 2" "inode_at (sectors root_disk) sb1k 0 1024 2 = dir1"
    "inode_ok (2 ^ 28) (sectors root_disk) sb1k 0 1024 12" using put(1,3) ok by simp_all
  show "ide_room root_disk = 64" using disk_with(2) [OF len] by (simp add: ide_room_def root_disk_def)
  have "(0 :: u32) \<noteq> 20" by simp
  from blockdata_put_other [OF this] show "blockdata (sectors root_disk) 0 1024 20 = dir_image"
    using disk_with(3) [OF len] by (simp add: root_disk_def)
  have "length (splice 128 (encode_inode dir1) (replicate 1024 0)) = 1024" using length_encode(3) [OF t] by simp
  from full_put_block [OF full sb1k_geo, of "splice 128 (encode_inode dir1) (replicate 1024 0)"] this
  have "full (sectors root_disk)" by (simp add: root_disk_def)
  then show "ide_inv 0x100000 64 root_disk"
    using disk_with(1) [OF len] by (simp add: ide_inv_def full_def root_disk_def)
qed

theorem LookupPath_resolves_witness:
  "\<exists>d'. LookupPath ide0 sb1k [47, 97, 98, 99] 0 root_disk = Some (Inr 12, d')"
proof -
  let ?D = "sectors root_disk"
  let ?e1 = "\<lparr>de_inode = 11, rec_len = 12, name_len = 1, file_type = 2\<rparr>"
  let ?e2 = "\<lparr>de_inode = 12, rec_len = 1012, name_len = 3, file_type = 1\<rparr>"
  let ?ess = "[[([46], ?e1), ([97, 98, 99], ?e2)]]"
  have r: "block_route 256 0 = (0, [])" by (simp add: block_route_def)
  have b: "bmap ?D 0 1024 dir1 0 = 20" "bvisits ?D 0 1024 dir1 0 = []" by (simp_all add: bmap_def bvisits_def r dir1_def)
  have "on_device (2 ^ 28) 0 1024 20" by (simp add: on_device_def base_def spb_def)
  moreover have "k * 1024 < 1024 \<longleftrightarrow> k = 0" for k :: nat by auto
  ultimately have m: "mapped (2 ^ 28) ?D 0 1024 dir1 (unat (i_size dir1))"
    using b by (auto simp: mapped_def map_ok_def max_blocks_def dir1_def)
  have "chain dir_image 0 [([46], ?e1), ([97, 98, 99], ?e2)]" by code_simp
  then have h: "dir_holds ?D 0 1024 dir1 ?ess" using b root_disk(6) by (simp add: dir_holds_def dir1_def del: chain.simps)
  have d: "is_dir dir1" "unat (i_size dir1) + unat (1024 :: u32) < 2 ^ 32"
    by (simp_all add: is_dir_def dir1_def new_inode_def ext2_consts)
  have f: "first_named [97, 98, 99] (concat ?ess) = Some ?e2" by (simp add: live_named_def)
  have "resolves (2 ^ 28) 1 ?D sb1k 0 1024 (de_inode ?e2) (drop (length [97, 98, 99 :: byte] + 1) [97, 98, 99]) 12 0"
    by (simp add: resolves.here)
  from resolves.down [OF _ _ _ root_disk(4) [symmetric] d m h f _ this] root_disk(5)
  have "resolves (2 ^ 28) 1 ?D sb1k 0 1024 2 [97, 98, 99] 12 6" by simp
  then show ?thesis
    using LookupPath_resolves [OF root_disk(1) sb1k_geo, of 0 "[97, 98, 99]" 12 6 0] root_disk(2,3)
    unfolding zero_disk_room(2) by (auto simp: ext2_consts)
qed

text \<open>
  C37.  Errors of the file system.  Data operations on a directory and directory operations on a file
  return -2 and change nothing; inode 0 is refused; \<open>Lseek\<close> refuses unknown origins and negative
  results and takes an offset from the current position as one from the start; \<open>Ext2Mount\<close>
  overruns its four-byte array for a device name of four or more characters; and \<open>Ext2Rmdir\<close> never
  removes a directory, since \<open>DeleteFile\<close> refuses it.
\<close>

theorem ext2_errors:
  assumes "ide_inv su tp d" "geo sb B" "inode_ok (2 ^ 28) (sectors d) sb lba B EXT2_ROOT_INO"
    "resolves (2 ^ 28) (ide_cost (ucast B)) (sectors d) sb lba B EXT2_ROOT_INO path n k"
    "inode_ok (2 ^ 28) (sectors d) sb lba B n" "is_dir (inode_at (sectors d) sb lba B n)"
    "8 * ide_cost (ucast B) + 2 * k \<le> ide_room d" "m_super md = sb" "m_ext2_lba md = lba"
  shows "(is_dir f \<longrightarrow> ReadFile M sb f count offset lba s = Some ((-2, []), s) \<and>
       WriteFile M f bytes count offset lba sb s = Some (-2, f, sb, s)) \<and>
     (\<not> is_dir f \<longrightarrow> FindEntry M sb f name lba s = Some (Inl (-2), s) \<and>
       AddEntry M f ino name ft lba sb s = Some ((-2, f, sb), s) \<and> RemoveEntry M sb f name lba s = Some (-2, s)) \<and>
     ReadInode M sb 0 lba s = Some (Inl (-1), s) \<and> WriteInode M sb 0 f lba s = Some (-1, s) \<and>
     (whence \<notin> {0, 1, 2} \<longrightarrow> Lseek f offset whence = -2) \<and>
     Lseek f offset 1 = Lseek f offset 0 \<and> (sint offset < 0 \<longrightarrow> Lseek f offset 0 = -3) \<and>
     (4 \<le> length device \<longrightarrow> Ext2Mount find_dev M device sb s = None) \<and>
     (\<exists>ret d'. Ext2Rmdir (ide_machine drive) (47 # path) md d = Some ((ret, md), d') \<and>
       ret = (if i_links_count (inode_at (sectors d) sb lba B n) > 2 then -6 else -4) \<and> sectors d' = sectors d)"
  using ide.Ext2Rmdir_directory [OF assms(2,1,3-9), of drive]
  by (auto simp: ReadFile_def WriteFile_def FindEntry_def AddEntry_def RemoveEntry_def ReadInode_def WriteInode_def
      Lseek_def Ext2Mount_def)

theorem ext2_errors_witness:
  "\<exists>d'. Ext2Rmdir ide0 [47] \<lparr>m_super = sb1k, m_block_size = 1024, m_ext2_lba = 0\<rparr> root_disk =
     Some ((-4, \<lparr>m_super = sb1k, m_block_size = 1024, m_ext2_lba = 0\<rparr>), d') \<and> sectors d' = sectors root_disk"
proof -
  let ?md = "\<lparr>m_super = sb1k, m_block_size = 1024, m_ext2_lba = 0\<rparr>"
  have r: "EXT2_ROOT_INO = 2" by (simp add: ext2_consts)
  have p: "resolves (2 ^ 28) (ide_cost (ucast (1024 :: u32))) (sectors root_disk) sb1k 0 1024 EXT2_ROOT_INO [] 2 0"
    unfolding r by (rule resolves.here)
  have d: "is_dir (inode_at (sectors root_disk) sb1k 0 1024 2)" "i_links_count (inode_at (sectors root_disk) sb1k 0 1024 2) = 1"
    by (simp_all add: root_disk(4) is_dir_def dir1_def new_inode_def ext2_consts)
  have room: "8 * ide_cost (ucast (1024 :: u32)) + 2 * 0 \<le> ide_room root_disk"
    by (simp only: zero_disk_room(2) root_disk(2))
  note E = ext2_errors [OF root_disk(1) sb1k_geo root_disk(3) [folded r] p root_disk(3) d(1) room, of ?md, where drive = 0,
      simplified d(2), THEN conjunct2, THEN conjunct2, THEN conjunct2, THEN conjunct2, THEN conjunct2, THEN conjunct2,
      THEN conjunct2, THEN conjunct2]
  show ?thesis using E by simp
qed

end
