(* ===== verification/VfsExt2.thy ===== *)
theory VfsExt2
  imports VfsFiles Ext2Props
begin

text \<open>
  The virtual file system over ext2 over the IDE driver.  The tables of functions that
  \<^verbatim>\<open>src/fs/ext2/fs.cc\<close> fills, the registration and the mount, and the proof that the read and write functions
  of ext2 meet the contract \<open>file_store\<close>.
\<close>

section \<open>The tables of ext2\<close>

definition ext2_ops :: "'d Machine \<Rightarrow> 'd Ext2World FsOps" where
  "ext2_ops M = \<lparr>op_umount = Some (ext2_umount M), op_open = Some (ext2_open M), op_close = Some (ext2_close M),
     op_read = Some (ext2_read M), op_write = Some (ext2_write M), op_readdir = Some (ext2_readdir M)\<rparr>"

text \<open>The path of a mount is cut to 63 bytes.\<close>

definition ext2_mount :: "(byte list \<Rightarrow> bool) \<Rightarrow> 'd Machine \<Rightarrow> Ext2SuperBlock \<Rightarrow> byte list \<Rightarrow> byte list \<Rightarrow> u32 \<Rightarrow>
    'd Ext2World \<Rightarrow> ((addr \<times> 'd Ext2World MountFs) option \<times> 'd Ext2World) option" where
  "ext2_mount find_dev M sb0 dev path flgs w = do {
     (r, d) \<leftarrow> Ext2Mount find_dev M dev sb0 (ew_device w);
     let w1 = w\<lparr>ew_device := d\<rparr>;
     Some (case r of
       None \<Rightarrow> (None, w1)
     | Some (mnt, md) \<Rightarrow> (Some (mnt, \<lparr>mnt_path = take 63 path, mnt_ops = ext2_ops M\<rparr>),
         w1\<lparr>mount_data := (mount_data w1)(mnt := Some md)\<rparr>)) }"

definition ext2_fs :: "(byte list \<Rightarrow> bool) \<Rightarrow> 'd Machine \<Rightarrow> Ext2SuperBlock \<Rightarrow> 'd Ext2World FileSystem" where
  "ext2_fs find_dev M sb0 = \<lparr>fs_name = [101, 120, 116, 50], fs_mount = Some (ext2_mount find_dev M sb0)\<rparr>"

definition RegisterFileSystems :: "(byte list \<Rightarrow> bool) \<Rightarrow> 'd Machine \<Rightarrow> Ext2SuperBlock \<Rightarrow>
    ('d Ext2World, 'a) Vfs_scheme \<Rightarrow> ('d Ext2World, 'a) Vfs_scheme option" where
  "RegisterFileSystems find_dev M sb0 s = do {
     (p, d) \<leftarrow> page_Alloc M sizeof_FileSystem (ew_device (lower s));
     let s1 = s\<lparr>lower := (lower s)\<lparr>ew_device := d\<rparr>\<rparr>;
     (case p of
        None \<Rightarrow> Some s1
      | Some _ \<Rightarrow> map_option snd (RegisterFileSystem (Some (ext2_fs find_dev M sb0)) s1)) }"

section \<open>The contract is met\<close>

definition ext2_holds :: "u64 \<Rightarrow> u64 \<Rightarrow> u32 \<Rightarrow> Ide Ext2World \<Rightarrow> addr \<Rightarrow> addr \<Rightarrow> byte list \<Rightarrow> bool" where
  "ext2_holds su tp B w a m xs \<longleftrightarrow> (\<exists>fd_addr fd md_addr md. file_data w a = Some (fd_addr, fd) \<and>
     mount_data w m = Some (md_addr, md) \<and> ide_inv su tp (ew_device w) \<and>
     ext2_bytes (2 ^ 28) (sectors (ew_device w)) B md fd xs)"

lemma ext2_read_law:
  assumes h: "ext2_holds su tp B w a m xs" and f: "file_mount f = Some m" and o: "unat offset + unat n < 2 ^ 64"
    and k: "k = min (unat n) (length xs - unat offset)"
    and rm: "k \<noteq> 0 \<Longrightarrow> move_cost (ide_cost (ucast B)) (unat B) (unat offset) k \<le> ide_room (ew_device w)"
  shows "\<exists>w'. ext2_read (ide_machine drive) a f n offset w = Some ((int k, slice xs (unat offset) k), w') \<and>
    ext2_holds su tp B w' a m xs \<and>
    ide_room (ew_device w) \<le> ide_room (ew_device w') + (if k = 0 then 0 else move_cost (ide_cost (ucast B)) (unat B) (unat offset) k)"
proof -
  from h obtain fda fd mda md where 1: "file_data w a = Some (fda, fd)" "mount_data w m = Some (mda, md)"
    "ide_inv su tp (ew_device w)" "ext2_bytes (2 ^ 28) (sectors (ew_device w)) B md fd xs" by (auto simp: ext2_holds_def)
  from ide.Ext2Read_bytes [OF 1(3,4) o k rm, of drive] obtain d' where
    "Ext2Read (ide_machine drive) md fd n offset (ew_device w) = Some ((int k, slice xs (unat offset) k), d')"
    "ide_inv su tp d'" "sectors d' = sectors (ew_device w)"
    "ide_room (ew_device w) \<le> ide_room d' + (if k = 0 then 0 else move_cost (ide_cost (ucast B)) (unat B) (unat offset) k)" by blast
  then show ?thesis using 1 f by (auto simp: ext2_read_def ext2_holds_def)
qed

lemma ext2_write_law:
  assumes h: "ext2_holds su tp B w a m xs" and f: "file_mount f = Some m" and o: "unat offset + unat n \<le> length xs"
    and bs: "length bs = unat n" "n \<noteq> 0"
    and rm: "move_cost (ide_cost (ucast B)) (unat B) (unat offset) (unat n) \<le> ide_room (ew_device w)"
  shows "\<exists>w'. ext2_write (ide_machine drive) a f bs n offset w = Some (int (unat n), w') \<and>
    ext2_holds su tp B w' a m (splice (unat offset) bs xs) \<and>
    ide_room (ew_device w) \<le> ide_room (ew_device w') + move_cost (ide_cost (ucast B)) (unat B) (unat offset) (unat n)"
proof -
  from h obtain fda fd mda md where 1: "file_data w a = Some (fda, fd)" "mount_data w m = Some (mda, md)"
    "ide_inv su tp (ew_device w)" "ext2_bytes (2 ^ 28) (sectors (ew_device w)) B md fd xs" by (auto simp: ext2_holds_def)
  from ide.Ext2Write_bytes [OF 1(3,4) o bs rm, of drive] obtain d' where
    "Ext2Write (ide_machine drive) bs n offset md fd (ew_device w) = Some (int (unat n), md, fd, d')"
    "ide_inv su tp d'" "ext2_bytes (2 ^ 28) (sectors d') B md fd (splice (unat offset) bs xs)"
    "ide_room (ew_device w) \<le> ide_room d' + move_cost (ide_cost (ucast B)) (unat B) (unat offset) (unat n)" by blast
  then show ?thesis using 1 f by (auto simp: ext2_write_def ext2_holds_def)
qed

interpretation ext2: file_store "ext2_read (ide_machine drive)" "ext2_write (ide_machine drive)" "ext2_holds su tp B"
    "\<lambda>w. ide_room (ew_device w)" "move_cost (ide_cost (ucast B)) (unat B)"
  for drive su tp B
proof
  show "length xs < 2 ^ 32" if "ext2_holds su tp B w a m xs" for w a m xs
  proof -
    from that obtain z :: u32 where "length xs = unat z"
      unfolding ext2_holds_def using length_ext2_bytes by blast
    then show ?thesis using unsigned_less [of z, where ?'a = nat] by simp
  qed
qed (rule ext2_read_law ext2_write_law; assumption)+

end
