(* ===== verification/VfsPaths.thy ===== *)
theory VfsPaths
  imports VfsFiles
begin

text \<open>
  How paths find their mount, and how the descriptor tables of processes develop.
\<close>

section \<open>Paths\<close>

text \<open>The mount at an address covers a path when its own path is a string prefix of it.\<close>

definition covers :: "(addr \<Rightarrow> 'w MountFs option) \<Rightarrow> addr \<Rightarrow> byte list \<Rightarrow> bool" where
  "covers at a p \<longleftrightarrow> (\<exists>m rest. at a = Some m \<and> p = mnt_path m @ rest)"

definition path_len :: "(addr \<Rightarrow> 'w MountFs option) \<Rightarrow> addr \<Rightarrow> nat" where
  "path_len at a = (case at a of Some m \<Rightarrow> length (mnt_path m) | None \<Rightarrow> 0)"

lemma covers_iff: "at a = Some m \<Longrightarrow> covers at a p \<longleftrightarrow> take (length (mnt_path m)) p = mnt_path m"
  unfolding covers_def by (metis append_eq_conv_conj append_take_drop_id option.inject)

lemma find_mount_correct:
  assumes "\<forall>a\<in>set as. at a \<noteq> None"
  shows "\<exists>r. find_mount at p n best as = Some r \<and>
    (r = best \<and> (\<forall>a\<in>set as. covers at a p \<longrightarrow> path_len at a \<le> n) \<or>
     (\<exists>a\<in>set as. r = Some a \<and> covers at a p \<and> n < path_len at a \<and>
        (\<forall>b\<in>set as. covers at b p \<longrightarrow> path_len at b \<le> path_len at a)))"
  using assms
proof (induction "as" arbitrary: n best)
  case (Cons a "as")
  then obtain m where m: "at a = Some m" by auto
  have "\<forall>a\<in>set as. at a \<noteq> None" using Cons.prems by simp
  note IH = Cons.IH [OF this]
  have step: "find_mount at p n best (a # as) =
      (if covers at a p \<and> n < path_len at a then find_mount at p (path_len at a) (Some a) as else find_mount at p n best as)"
    unfolding covers_iff [of at, OF m] by (simp add: m path_len_def Let_def)
  show ?case
  proof (cases "covers at a p \<and> n < path_len at a")
    case True
    obtain r where r: "find_mount at p (path_len at a) (Some a) as = Some r" and
      "r = Some a \<and> (\<forall>b\<in>set as. covers at b p \<longrightarrow> path_len at b \<le> path_len at a) \<or>
       (\<exists>b\<in>set as. r = Some b \<and> covers at b p \<and> path_len at a < path_len at b \<and>
          (\<forall>c\<in>set as. covers at c p \<longrightarrow> path_len at c \<le> path_len at b))"
      using IH [of "path_len at a" "Some a"] by (elim exE conjE) (rule that)
    then have "\<exists>b\<in>set (a # as). r = Some b \<and> covers at b p \<and> n < path_len at b \<and>
        (\<forall>c\<in>set (a # as). covers at c p \<longrightarrow> path_len at c \<le> path_len at b)"
    proof (elim disjE bexE conjE)
      assume "r = Some a" "\<forall>b\<in>set as. covers at b p \<longrightarrow> path_len at b \<le> path_len at a"
      with True show ?thesis by (intro bexI [of _ a]) simp_all
    next
      fix b assume "b \<in> set as" "r = Some b" "covers at b p" "path_len at a < path_len at b"
        "\<forall>c\<in>set as. covers at c p \<longrightarrow> path_len at c \<le> path_len at b"
      with True show ?thesis by (intro bexI [of _ b]) simp_all
    qed
    then show ?thesis using r True step by (intro exI [of _ r] conjI disjI2) simp_all
  next
    case False
    obtain r where r: "find_mount at p n best as = Some r" and
      "r = best \<and> (\<forall>b\<in>set as. covers at b p \<longrightarrow> path_len at b \<le> n) \<or>
       (\<exists>b\<in>set as. r = Some b \<and> covers at b p \<and> n < path_len at b \<and>
          (\<forall>c\<in>set as. covers at c p \<longrightarrow> path_len at c \<le> path_len at b))"
      using IH [of n best] by (elim exE conjE) (rule that)
    then have "r = best \<and> (\<forall>b\<in>set (a # as). covers at b p \<longrightarrow> path_len at b \<le> n) \<or>
       (\<exists>b\<in>set (a # as). r = Some b \<and> covers at b p \<and> n < path_len at b \<and>
          (\<forall>c\<in>set (a # as). covers at c p \<longrightarrow> path_len at c \<le> path_len at b))"
    proof (elim disjE bexE conjE)
      fix b assume b: "b \<in> set as" "r = Some b" "covers at b p" "n < path_len at b"
        "\<forall>c\<in>set as. covers at c p \<longrightarrow> path_len at c \<le> path_len at b"
      have "path_len at a \<le> path_len at b" if "covers at a p" using False that b(4) by linarith
      with b show ?thesis by (intro disjI2 bexI [of _ b]) simp_all
    next
      assume "r = best" "\<forall>b\<in>set as. covers at b p \<longrightarrow> path_len at b \<le> n"
      moreover have "path_len at a \<le> n" if "covers at a p" using False that by simp
      ultimately show ?thesis by simp
    qed
    then show ?thesis using r unfolding step if_not_P [OF False] by (intro exI [of _ r] conjI) simp_all
  qed
qed simp

text \<open>The relative path of a path that continues a mount path at a separator.\<close>

lemma ExtractRelativePath_below:
  assumes "rest \<noteq> []" "length rest \<le> 255"
  shows "mp \<noteq> [47] \<Longrightarrow> ExtractRelativePath mp (mp @ 47 # rest) = Some rest"
    "hd rest \<noteq> 47 \<Longrightarrow> ExtractRelativePath [47] (47 # rest) = Some rest"
  using assms by (auto simp: ExtractRelativePath_def Let_def)

section \<open>Descriptors\<close>

lemma fdt_Alloc_lowest:
  assumes "length fds = MAX_FD"
  shows "(\<forall>i\<in>{5..<MAX_FD}. fd_used (fds ! i)) \<and> fdt_Alloc fl flgs fds = (-1, fds) \<or>
    (\<exists>i. 5 \<le> i \<and> i < MAX_FD \<and> \<not> fd_used (fds ! i) \<and> (\<forall>j\<in>{5..<i}. fd_used (fds ! j)) \<and>
       fdt_Alloc fl flgs fds = (int i, fds[i := \<lparr>fd_used = True, fd_file = fl, fd_flags = flgs\<rparr>]))"
proof (cases "List.find (\<lambda>i. \<not> fd_used (fds ! i)) [5..<MAX_FD]")
  case None
  then have "\<forall>i\<in>{5..<MAX_FD}. fd_used (fds ! i)" by (simp add: find_None_iff)
  with None show ?thesis by (simp add: fdt_Alloc_def)
next
  case (Some i)
  then obtain k where k: "k < MAX_FD - 5" "\<not> fd_used (fds ! i)" "i = 5 + k" "\<forall>j<k. fd_used (fds ! (5 + j))"
    by (auto simp: find_Some_iff)
  have "fd_used (fds ! j)" if "5 \<le> j" "j < i" for j
    using k(4) [rule_format, of "j - 5"] that k(3) by auto
  then show ?thesis using Some k(1-3) by (intro disjI2 exI [of _ i]) (auto simp: fdt_Alloc_def)
qed

lemma fdt_Get_update:
  assumes "length fds = MAX_FD" "i < MAX_FD"
  shows "fdt_Get fd (fds[i := \<lparr>fd_used = u, fd_file = fl, fd_flags = flgs\<rparr>]) =
    (if fd = int i then if u then fl else None else fdt_Get fd fds)"
  using assms by (auto simp: fdt_Get_def fd_open_def nth_list_update)

text \<open>A freed file leaves nothing behind to read.\<close>

lemma read_after_free:
  assumes "file_at s a = None" "n \<noteq> 0"
  shows "vfs_Read (Some a) (Some b) n s = None"
  using assms by (simp add: vfs_Read_def)

text \<open>The same for the table of a process.\<close>

lemma FdAlloc_lowest:
  assumes "length (fd_tables s c) = MAX_FD"
  shows "(\<forall>i\<in>{5..<MAX_FD}. fd_used (fd_tables s c ! i)) \<and> FdAlloc c fl flgs s = (-1, s) \<or>
    (\<exists>i s'. 5 \<le> i \<and> i < MAX_FD \<and> \<not> fd_used (fd_tables s c ! i) \<and> (\<forall>j\<in>{5..<i}. fd_used (fd_tables s c ! j)) \<and>
       FdAlloc c fl flgs s = (int i, s') \<and> length (fd_tables s' c) = MAX_FD \<and>
       (\<forall>k. FdGet c k s' = (if k = int i then fl else FdGet c k s)) \<and>
       s' = s\<lparr>fd_tables := (fd_tables s)(c := fd_tables s' c)\<rparr>)"
  using fdt_Alloc_lowest [OF assms, of fl flgs]
proof (elim disjE conjE exE)
  assume "fdt_Alloc fl flgs (fd_tables s c) = (-1, fd_tables s c)" "\<forall>i\<in>{5..<MAX_FD}. fd_used (fd_tables s c ! i)"
  then show ?thesis by (simp add: FdAlloc_def set_fds_def)
next
  fix i assume i: "5 \<le> i" "i < MAX_FD" "\<not> fd_used (fd_tables s c ! i)" "\<forall>j\<in>{5..<i}. fd_used (fd_tables s c ! j)"
    "fdt_Alloc fl flgs (fd_tables s c) = (int i, (fd_tables s c)[i := \<lparr>fd_used = True, fd_file = fl, fd_flags = flgs\<rparr>])"
  let ?s = "s\<lparr>fd_tables := (fd_tables s)(c := (fd_tables s c)[i := \<lparr>fd_used = True, fd_file = fl, fd_flags = flgs\<rparr>])\<rparr>"
  have "FdAlloc c fl flgs s = (int i, ?s)" using i(5) by (simp add: FdAlloc_def set_fds_def)
  then show ?thesis
    using i(1-4) assms fdt_Get_update [OF assms i(2)] by (intro disjI2 exI [of _ i] exI [of _ ?s]) (simp add: FdGet_def)
qed

lemma FdFree_closes:
  assumes "length (fd_tables s c) = MAX_FD" "FdGet c fd s = Some a" "vfs_Close (Some a) s = Some (r, s1)"
    "fd_tables s1 = fd_tables s"
  shows "\<exists>s2. FdFree c fd s = Some (0, s2) \<and> file_at s2 = file_at s1 \<and>
    (\<forall>k. FdGet c k s2 = (if k = fd then None else FdGet c k s))"
proof -
  let ?t = "fd_tables s c"
  have fd: "fd_open fd ?t" "fd_file (?t ! nat fd) = Some a" "nat fd < MAX_FD" "int (nat fd) = fd"
    using assms(2) by (auto simp: FdGet_def fdt_Get_def fd_open_def split: if_splits)
  then show ?thesis
    using assms(1,3,4) fdt_Get_update [OF assms(1) fd(3), of _ False]
    by (simp add: FdFree_def fdt_Free_def set_fds_def FdGet_def)
qed

text \<open>
  A duplicate shares the file.  When closing the file deletes it, freeing the duplicate leaves the first
  descriptor with a deleted file.
\<close>

lemma dup_free_dangles:
  assumes len: "length (fd_tables s c) = MAX_FD" and fd: "FdGet c fd s = Some a"
    and dup: "FdDup c fd s = (fd2, s1)" "fd2 \<noteq> -1"
    and cl: "\<exists>r s2. vfs_Close (Some a) s1 = Some (r, s2) \<and> fd_tables s2 = fd_tables s1 \<and> file_at s2 a = None"
  shows "FdGet c fd2 s1 = Some a \<and> FdGet c fd s1 = Some a \<and>
    (\<exists>s2. FdFree c fd2 s1 = Some (0, s2) \<and> FdGet c fd s2 = Some a \<and> FdGet c fd2 s2 = None \<and> file_at s2 a = None)"
proof -
  let ?fl = "fd_flags (fd_tables s c ! nat fd)"
  have "FdAlloc c (Some a) ?fl s = (fd2, s1)" using dup(1) fd by (simp add: FdDup_def)
  with FdAlloc_lowest [OF len, of "Some a" ?fl] dup(2) obtain i where
    i: "fd2 = int i" "\<not> fd_used (fd_tables s c ! i)" "length (fd_tables s1 c) = MAX_FD"
      "\<forall>k. FdGet c k s1 = (if k = int i then Some a else FdGet c k s)" by auto
  have ne: "fd \<noteq> fd2" using fd i(1,2) by (auto simp: FdGet_def fdt_Get_def fd_open_def split: if_splits)
  have g: "FdGet c fd2 s1 = Some a" "FdGet c fd s1 = Some a" using i(1,4) fd by simp_all
  from cl obtain r s2 where "vfs_Close (Some a) s1 = Some (r, s2)" "fd_tables s2 = fd_tables s1" "file_at s2 a = None" by blast
  with FdFree_closes [OF i(3) g(1)] show ?thesis using g ne by fastforce
qed

end
