(* ===== verification/VfsProps.thy ===== *)
theory VfsProps
  imports VfsExt2 VfsPaths
begin

text \<open>
  The properties of the virtual file system, over ext2 and the IDE driver where a file system is needed:
  the lemmas of \<open>file_store\<close> are used through its interpretation \<open>ext2\<close>.
\<close>

unbundle bit_operations_syntax

section \<open>Open files\<close>


text \<open>The file with blocks 20 and 21 on the disk of zeros, open at position 0.\<close>

definition vfs0 :: "Ide Ext2World Vfs" where
  "vfs0 = \<lparr>registered_filesystems = [], mount_points = [1],
     mount_at = [1 \<mapsto> \<lparr>mnt_path = [47], mnt_ops = ext2_ops ide0\<rparr>],
     file_at = [2 \<mapsto> \<lparr>file_flags = 0, file_position = 0, file_mount = Some 1\<rparr>],
     lower = \<lparr>ew_device = zero_disk, mount_data = [1 \<mapsto> (3, \<lparr>m_super = sb1k, m_block_size = 1024, m_ext2_lba = 0\<rparr>)],
       file_data = [2 \<mapsto> (4, \<lparr>f_inode_num = 3, f_inode = ino2\<rparr>)]\<rparr>\<rparr>"



section \<open>Mounts\<close>

text \<open>
  C39.  A path is resolved to the mount with the longest path that is a string prefix of it, and \<open>Open\<close>
  hands the rest to the open function of that mount: without its leading separator, or \<^verbatim>\<open>/\<close> when
  nothing is left.  The prefix need not end at a separator: the second case applies to \<^verbatim>\<open>/mntx\<close> on a
  mount \<^verbatim>\<open>/mnt\<close>, which opens \<^verbatim>\<open>x\<close> in it.  Without a mount the result is a null pointer.
\<close>

theorem vfs_mount_resolution:
  assumes "\<forall>a\<in>set (mount_points s). mount_at s a \<noteq> None"
  shows "\<exists>r. FindMountPoint (Some (47 # p)) s = Some r \<and>
     (r = None \<longrightarrow> vfs_Open (Some (47 # p)) flgs s = Some (None, s) \<and>
        (\<forall>a\<in>set (mount_points s). covers (mount_at s) a (47 # p) \<longrightarrow> path_len (mount_at s) a = 0)) \<and>
     (\<forall>a. r = Some a \<longrightarrow> a \<in> set (mount_points s) \<and> covers (mount_at s) a (47 # p) \<and>
        (\<forall>b\<in>set (mount_points s). covers (mount_at s) b (47 # p) \<longrightarrow> path_len (mount_at s) b \<le> path_len (mount_at s) a) \<and>
        (\<forall>m rest rel open_fn. mount_at s a = Some m \<and> 47 # p = mnt_path m @ rest \<and> op_open (mnt_ops m) = Some open_fn \<and>
           (rest = 47 # rel \<and> rel \<noteq> [] \<and> length rel \<le> 255 \<or>
            rest \<noteq> [] \<and> hd rest \<noteq> 47 \<and> length rest \<le> 255 \<and> rel = rest \<or> rest = [] \<and> rel = [47]) \<longrightarrow>
           vfs_Open (Some (47 # p)) flgs s = map_option (\<lambda>(fl, w). case fl of
               None \<Rightarrow> (None, s\<lparr>lower := w\<rparr>)
             | Some (x, f) \<Rightarrow> (Some x, s\<lparr>lower := w, file_at := (file_at s)(x \<mapsto> f\<lparr>file_mount := Some a\<rparr>)\<rparr>))
             (open_fn a rel flgs (lower s))))"
proof -
  let ?p = "47 # p" and ?at = "mount_at s" and ?mps = "set (mount_points s)"
  from find_mount_correct [OF assms, of ?p 0 None] obtain r where
    r: "FindMountPoint (Some ?p) s = Some r" and
    c: "r = None \<and> (\<forall>a\<in>?mps. covers ?at a ?p \<longrightarrow> path_len ?at a \<le> 0) \<or>
     (\<exists>a\<in>?mps. r = Some a \<and> covers ?at a ?p \<and> 0 < path_len ?at a \<and>
        (\<forall>b\<in>?mps. covers ?at b ?p \<longrightarrow> path_len ?at b \<le> path_len ?at a))"
    by (auto simp: FindMountPoint_def)
  have opens: "vfs_Open (Some ?p) flgs s = map_option (\<lambda>(fl, w). case fl of
               None \<Rightarrow> (None, s\<lparr>lower := w\<rparr>)
             | Some (x, f) \<Rightarrow> (Some x, s\<lparr>lower := w, file_at := (file_at s)(x \<mapsto> f\<lparr>file_mount := Some a\<rparr>)\<rparr>))
             (open_fn a rel flgs (lower s))"
    if a: "r = Some a" and m: "?at a = Some m" "?p = mnt_path m @ rest" "op_open (mnt_ops m) = Some open_fn" and
      rel: "rest = 47 # rel \<and> rel \<noteq> [] \<and> length rel \<le> 255 \<or>
            rest \<noteq> [] \<and> hd rest \<noteq> 47 \<and> length rest \<le> 255 \<and> rel = rest \<or> rest = [] \<and> rel = [47]" for a m rest rel open_fn
  proof -
    have "mnt_path m \<noteq> []" using c a m(1) by (auto simp: path_len_def)
    then have "ExtractRelativePath (mnt_path m) ?p = Some rel"
      using rel unfolding m(2) by (cases rest) (auto simp: ExtractRelativePath_def Let_def)
    then show ?thesis
      using r a m(1,3) by (cases "open_fn a rel flgs (lower s)") (auto simp: vfs_Open_def Let_def split: option.splits)
  qed
  have none: "vfs_Open (Some ?p) flgs s = Some (None, s)" if "r = None" using r that by (simp add: vfs_Open_def)
  show ?thesis
    using r c opens none by (intro exI [of _ r]) auto
qed

text \<open>Two mounts, \<^verbatim>\<open>/\<close> at address 1 and \<^verbatim>\<open>/m\<close> at address 2.\<close>

definition vfs1 :: "Ide Ext2World Vfs" where
  "vfs1 = vfs0\<lparr>mount_points := [1, 2],
     mount_at := [1 \<mapsto> \<lparr>mnt_path = [47], mnt_ops = ext2_ops ide0\<rparr>, 2 \<mapsto> \<lparr>mnt_path = [47, 109], mnt_ops = ext2_ops ide0\<rparr>]\<rparr>"

theorem vfs_mount_resolution_witness:
  "vfs_Open (Some [47, 109, 120]) 0 vfs1 = map_option (\<lambda>(fl, w). case fl of
      None \<Rightarrow> (None, vfs1\<lparr>lower := w\<rparr>)
    | Some (x, f) \<Rightarrow> (Some x, vfs1\<lparr>lower := w, file_at := (file_at vfs1)(x \<mapsto> f\<lparr>file_mount := Some 2\<rparr>)\<rparr>))
    (ext2_open ide0 2 [120] 0 (lower vfs1))"
proof -
  have "\<forall>a\<in>set (mount_points vfs1). mount_at vfs1 a \<noteq> None" by (simp add: vfs1_def)
  note R = vfs_mount_resolution [OF this, of "[109, 120]" 0]
  have f: "FindMountPoint (Some [47, 109, 120]) vfs1 = Some (Some 2)" by (simp add: FindMountPoint_def vfs1_def Let_def)
  have m: "mount_at vfs1 2 = Some \<lparr>mnt_path = [47, 109], mnt_ops = ext2_ops ide0\<rparr>" by (simp add: vfs1_def)
  show ?thesis using R unfolding f
    by (elim exE conjE) (drule spec [of _ 2], auto simp: m ext2_ops_def)
qed

section \<open>Descriptors\<close>

text \<open>
  C40.  Descriptors of an open ext2 file.  A new descriptor is the lowest free one from 5 on, refers to
  the file, and leaves the other descriptors alone; there is none only when all are taken.  A duplicate
  refers to the same file, and freeing it deletes the file although the first descriptor still refers to
  it: a later read through that one has no defined result.  A request to duplicate onto a given number
  never changes the table of its sender, unless that is the service itself.
\<close>

theorem vfs_descriptors:
  fixes s :: "('d Ext2World, 'a) VfsTask_scheme"
  assumes "length (fd_tables s c) = MAX_FD" "FdGet c fd s = Some a" "file_at s a = Some f"
    "file_mount f = Some m" "mount_at s m = Some mnt" "mnt_ops mnt = ext2_ops M"
  shows "((\<forall>i\<in>{5..<MAX_FD}. fd_used (fd_tables s c ! i)) \<and> FdAlloc c fl flgs s = (-1, s) \<or>
      (\<exists>i s'. 5 \<le> i \<and> i < MAX_FD \<and> \<not> fd_used (fd_tables s c ! i) \<and> (\<forall>j\<in>{5..<i}. fd_used (fd_tables s c ! j)) \<and>
         FdAlloc c fl flgs s = (int i, s') \<and> (\<forall>k. FdGet c k s' = (if k = int i then fl else FdGet c k s)) \<and>
         s' = s\<lparr>fd_tables := (fd_tables s)(c := fd_tables s' c)\<rparr>)) \<and>
    (\<forall>fd2 s1. FdDup c fd s = (fd2, s1) \<and> fd2 \<noteq> -1 \<longrightarrow> FdGet c fd2 s1 = Some a \<and> FdGet c fd s1 = Some a \<and>
       (\<exists>s2. FdFree c fd2 s1 = Some (0, s2) \<and> FdGet c fd s2 = Some a \<and> FdGet c fd2 s2 = None \<and>
          (\<forall>b n. n \<noteq> 0 \<longrightarrow> vfs_Read (Some a) (Some b) n s2 = None))) \<and>
    (\<forall>self msg r s'. self \<noteq> c \<and> msg_type msg = SYS_FS_DUP2 \<and> serve_request self c msg s = Some (r, s') \<longrightarrow>
       fd_tables s' c = fd_tables s c)"
proof (intro conjI allI impI)
  show "(\<forall>i\<in>{5..<MAX_FD}. fd_used (fd_tables s c ! i)) \<and> FdAlloc c fl flgs s = (-1, s) \<or>
      (\<exists>i s'. 5 \<le> i \<and> i < MAX_FD \<and> \<not> fd_used (fd_tables s c ! i) \<and> (\<forall>j\<in>{5..<i}. fd_used (fd_tables s c ! j)) \<and>
         FdAlloc c fl flgs s = (int i, s') \<and> (\<forall>k. FdGet c k s' = (if k = int i then fl else FdGet c k s)) \<and>
         s' = s\<lparr>fd_tables := (fd_tables s)(c := fd_tables s' c)\<rparr>)"
    using FdAlloc_lowest [OF assms(1), of fl flgs] by blast
next
  fix fd2 s1 assume d: "FdDup c fd s = (fd2, s1) \<and> fd2 \<noteq> -1"
  then have "FdAlloc c (Some a) (fd_flags (fd_tables s c ! nat fd)) s = (fd2, s1)" using assms(2) by (simp add: FdDup_def)
  then have s1: "file_at s1 a = Some f" "mount_at s1 m = Some mnt"
    using assms(3,5) by (auto simp: FdAlloc_def set_fds_def split: prod.splits)
  have "\<exists>r s2. vfs_Close (Some a) s1 = Some (r, s2) \<and> fd_tables s2 = fd_tables s1 \<and> file_at s2 a = None"
    using s1 assms(4,6)
    by (simp add: vfs_Close_def mount_of_def ext2_ops_def ext2_close_def split: prod.split)
  note D = dup_free_dangles [OF assms(1,2) conjunct1 [OF d] conjunct2 [OF d] this]
  show "FdGet c fd2 s1 = Some a" "FdGet c fd s1 = Some a" using D by blast+
  show "\<exists>s2. FdFree c fd2 s1 = Some (0, s2) \<and> FdGet c fd s2 = Some a \<and> FdGet c fd2 s2 = None \<and>
          (\<forall>b n. n \<noteq> 0 \<longrightarrow> vfs_Read (Some a) (Some b) n s2 = None)"
    using D read_after_free by blast
next
  fix self msg r s' assume "self \<noteq> c \<and> msg_type msg = SYS_FS_DUP2 \<and> serve_request self c msg s = Some (r, s')"
  then have "s' = snd (FdDup2 self (as_int (msg_num msg 0)) (as_int (msg_num msg 1)) s)" "self \<noteq> c"
    by (auto simp: serve_request_def SYS_FS_defs apfst_def map_prod_def split: prod.splits)
  then show "fd_tables s' c = fd_tables s c" by (auto simp: FdDup2_def set_fds_def)
qed

text \<open>The file of \<open>vfs0\<close> with descriptor 5 of the process at address 7.\<close>

definition vfs2 :: "Ide Ext2World VfsTask" where
  "vfs2 = \<lparr>registered_filesystems = [], mount_points = [1], mount_at = mount_at vfs0, file_at = file_at vfs0,
     lower = lower vfs0, fd_tables = (\<lambda>_. FileDescriptorTable_Init[5 := \<lparr>fd_used = True, fd_file = Some 2, fd_flags = 0\<rparr>]),
     umem = (\<lambda>_. 0)\<rparr>"

theorem vfs_descriptors_witness:
  "\<exists>s1 s2. FdDup 7 5 vfs2 = (6, s1) \<and> FdFree 7 6 s1 = Some (0, s2) \<and> FdGet 7 5 s2 = Some 2 \<and>
     vfs_Read (Some 2) (Some 9) 1 s2 = None"
proof -
  let ?t = "FileDescriptorTable_Init[5 := \<lparr>fd_used = True, fd_file = Some 2, fd_flags = 0\<rparr>]"
  have t: "fd_tables vfs2 7 = ?t" by (simp add: vfs2_def)
  have l: "length (fd_tables vfs2 7) = MAX_FD" unfolding t by (simp add: FileDescriptorTable_Init_def Let_def)
  have g: "FdGet 7 5 vfs2 = Some 2" unfolding FdGet_def t by code_simp
  have find: "List.find (\<lambda>i. \<not> fd_used (?t ! i)) [5..<MAX_FD] = Some 6" by code_simp
  have "fst (fdt_Alloc fl flgs (fd_tables vfs2 7)) = 6" for fl flgs
    unfolding t fdt_Alloc_def find by simp
  then have "fst (FdDup 7 5 vfs2) = 6" by (simp add: FdDup_def FdAlloc_def g case_prod_beta Let_def)
  then obtain s1 where d: "FdDup 7 5 vfs2 = (6, s1)" by (cases "FdDup 7 5 vfs2") simp
  have f: "file_at vfs2 2 = Some \<lparr>file_flags = 0, file_position = 0, file_mount = Some 1\<rparr>"
    "mount_at vfs2 1 = Some \<lparr>mnt_path = [47], mnt_ops = ext2_ops ide0\<rparr>" by (simp_all add: vfs2_def vfs0_def)
  have "(6 :: int) \<noteq> -1" by simp
  moreover note vfs_descriptors [OF l g f(1) _ f(2), of ide0 None 0, simplified, THEN conjunct2, THEN conjunct1,
      rule_format, of 6 s1]
  ultimately show ?thesis using d by fastforce
qed

end
