(* ===== verification/Paging.thy ===== *)
theory Paging
  imports Frames
begin

text \<open>
  Page tables: \<^verbatim>\<open>Map\<close>, \<^verbatim>\<open>UpdateKernelPml4\<close>, \<^verbatim>\<open>ParsePTEFlags\<close> and \<^verbatim>\<open>AnalyzePageTable\<close> of
  \<^verbatim>\<open>src/mm/page.cc\<close>, and \<^verbatim>\<open>mapping\<close> with its callers of \<^verbatim>\<open>src/kernel/boot/mm.cc\<close>, which fills the first
  tables before paging is on.  Tables are pages of a memory of 64-bit words, indexed by the address
  of the word; the entry \<open>i\<close> of the table at \<open>t\<close> is the word at \<open>t + 8 * i\<close>.
\<close>

unbundle bit_operations_syntax

section \<open>Entries\<close>

definition PTE_PRESENT :: u64 where "PTE_PRESENT = push_bit 0 1"
definition PTE_WRITABLE :: u64 where "PTE_WRITABLE = push_bit 1 1"
definition PTE_USER :: u64 where "PTE_USER = push_bit 2 1"
definition PTE_WRITE_THROUGH :: u64 where "PTE_WRITE_THROUGH = push_bit 3 1"
definition PTE_CACHE_DISABLE :: u64 where "PTE_CACHE_DISABLE = push_bit 4 1"
definition PTE_ACCESSED :: u64 where "PTE_ACCESSED = push_bit 5 1"
definition PTE_DIRTY :: u64 where "PTE_DIRTY = push_bit 6 1"
definition PTE_GLOBAL :: u64 where "PTE_GLOBAL = push_bit 8 1"
definition PTE_NO_EXECUTE :: u64 where "PTE_NO_EXECUTE = push_bit 63 1"

definition PT_ENTRY_MASK :: u64 where "PT_ENTRY_MASK = 0x1ff"

definition PT_ENTRY :: "u64 \<Rightarrow> u64" where "PT_ENTRY a = drop_bit 12 a AND PT_ENTRY_MASK"
definition PD_ENTRY :: "u64 \<Rightarrow> u64" where "PD_ENTRY a = drop_bit 21 a AND PT_ENTRY_MASK"
definition PDPT_ENTRY :: "u64 \<Rightarrow> u64" where "PDPT_ENTRY a = drop_bit 30 a AND PT_ENTRY_MASK"
definition PML4_ENTRY :: "u64 \<Rightarrow> u64" where "PML4_ENTRY a = drop_bit 39 a AND PT_ENTRY_MASK"

type_synonym words = "u64 \<Rightarrow> u64"

text \<open>The address of an entry, and \<^verbatim>\<open>memset(page, 0, PAGE_SIZE)\<close>.\<close>

definition pte :: "u64 \<Rightarrow> u64 \<Rightarrow> u64" where
  "pte t i = t + 8 * i"

definition zero_page :: "u64 \<Rightarrow> words \<Rightarrow> words" where
  "zero_page a mem = (\<lambda>x. if x - a < PAGE_SIZE then 0 else mem x)"

section \<open>Mapping a page\<close>

text \<open>
  One level of \<^verbatim>\<open>Map\<close> and of \<^verbatim>\<open>mapping\<close>, for the table at \<open>t\<close>: an entry that is not present gets a new
  table, and the result is the table the entry points to.  \<open>alloc\<close> hands out the page, \<open>enc\<close> turns
  its address into the one that is stored, and \<open>dec\<close> turns a stored address into a pointer.
\<close>

definition map_level :: "(FrameMem \<Rightarrow> (u64 \<times> FrameMem) option) \<Rightarrow> (u64 \<Rightarrow> u64) \<Rightarrow> (u64 \<Rightarrow> u64) \<Rightarrow>
    u64 \<Rightarrow> u64 \<Rightarrow> u64 \<Rightarrow> FrameMem \<times> words \<Rightarrow> (u64 \<times> FrameMem \<times> words) option" where
  "map_level alloc enc dec flgs t i = (\<lambda>(f, mem). do {
     (f1, mem1) \<leftarrow>
       (if mem (pte t i) AND PTE_PRESENT = 0 then do {
          (a, f1) \<leftarrow> alloc f;
          Some (f1, (zero_page a mem)(pte t i := (enc a AND PAGE_MASK) OR PTE_PRESENT OR PTE_WRITABLE OR flgs)) }
        else Some (f, mem));
     Some (dec (mem1 (pte t i) AND PAGE_MASK), f1, mem1) })"

definition map_page :: "(FrameMem \<Rightarrow> (u64 \<times> FrameMem) option) \<Rightarrow> (u64 \<Rightarrow> u64) \<Rightarrow> (u64 \<Rightarrow> u64) \<Rightarrow>
    u64 \<Rightarrow> u64 \<Rightarrow> u64 \<Rightarrow> u64 \<Rightarrow> FrameMem \<times> words \<Rightarrow> (FrameMem \<times> words) option" where
  "map_page alloc enc dec root virt_addr phys_addr flgs s = do {
     (pdpt, s1) \<leftarrow> map_level alloc enc dec flgs root (PML4_ENTRY virt_addr) s;
     (pd, s2) \<leftarrow> map_level alloc enc dec flgs pdpt (PDPT_ENTRY virt_addr) s1;
     (pt, (f, mem)) \<leftarrow> map_level alloc enc dec flgs pd (PD_ENTRY virt_addr) s2;
     Some (f, mem(pte pt (PT_ENTRY virt_addr) := (phys_addr AND PAGE_MASK) OR flgs)) }"

text \<open>
  The kernel: pages come from \<open>AllocPages\<close>, whose null result is written through; a stored address
  below the higher half is used through the identity map.
\<close>

definition kernel_page :: "FrameMem \<Rightarrow> (u64 \<times> FrameMem) option" where
  "kernel_page f = do { (p, f1) \<leftarrow> AllocPages 1 f; a \<leftarrow> p; Some (a, f1) }"

definition table_ptr :: "u64 \<Rightarrow> u64" where
  "table_ptr p = (if p < 0xffff800000000000 then Phy2Vir p else p)"

definition Map :: "u64 \<Rightarrow> u64 \<Rightarrow> u64 \<Rightarrow> u64 \<Rightarrow> FrameMem \<times> words \<Rightarrow> (FrameMem \<times> words) option" where
  "Map = map_page kernel_page Vir2Phy table_ptr"

text \<open>Before paging: pages of the boot allocator, used by their physical addresses.\<close>

definition mapping :: "u64 \<Rightarrow> u64 \<Rightarrow> u64 \<Rightarrow> u64 \<Rightarrow> FrameMem \<times> words \<Rightarrow> (FrameMem \<times> words) option" where
  "mapping = map_page boot_Alloc (\<lambda>a. a) (\<lambda>p. p)"

text \<open>The higher half of the kernel's top table is copied into the one of a user.\<close>

definition UpdateKernelPml4 :: "u64 \<Rightarrow> u64 \<Rightarrow> words \<Rightarrow> words" where
  "UpdateKernelPml4 kernel_pml4 user_pml4 mem =
     (\<lambda>x. if x - pte user_pml4 256 < 256 * 8 then mem (pte kernel_pml4 256 + (x - pte user_pml4 256)) else mem x)"

section \<open>Walking the tables\<close>

text \<open>\<^verbatim>\<open>strncat\<close> into a buffer of which \<open>n\<close> bytes are left, the final zero not counted.\<close>

definition add_flag :: "nat \<Rightarrow> u64 \<Rightarrow> u64 \<Rightarrow> string \<Rightarrow> string \<Rightarrow> string" where
  "add_flag buf_size pte_value flag txt out =
     (if pte_value AND flag \<noteq> 0 then out @ take (buf_size - length out - 1) txt else out)"

definition ParsePTEFlags :: "u64 \<Rightarrow> nat \<Rightarrow> string" where
  "ParsePTEFlags v buf_size =
     (let out = add_flag buf_size v PTE_NO_EXECUTE ''NX(No-Execute) ''
               (add_flag buf_size v PTE_GLOBAL ''G(Global) ''
               (add_flag buf_size v PTE_DIRTY ''D(Dirty) ''
               (add_flag buf_size v PTE_ACCESSED ''A(Accessed) ''
               (add_flag buf_size v PTE_CACHE_DISABLE ''PCD(Cache-Disable) ''
               (add_flag buf_size v PTE_WRITE_THROUGH ''PWT(Write-Through) ''
               (add_flag buf_size v PTE_USER ''U(User) ''
               (add_flag buf_size v PTE_WRITABLE ''W(Writable) ''
               (add_flag buf_size v PTE_PRESENT ''P(Present) '' []))))))))
      in if out = [] then take (buf_size - 1) ''No valid flags'' else out)"

text \<open>The physical address of a virtual one, 0 when a level is not present; the messages are left out.\<close>

definition AnalyzePageTable :: "words \<Rightarrow> u64 \<Rightarrow> u64 \<Rightarrow> u64" where
  "AnalyzePageTable mem root virt_addr =
     (let va = virt_addr AND PAGE_MASK; e4 = mem (pte root (PML4_ENTRY va)) in
      if e4 AND PTE_PRESENT = 0 then 0 else
      let pdpt = table_ptr (e4 AND PAGE_MASK); e3 = mem (pte pdpt (PDPT_ENTRY va)) in
      if e3 AND PTE_PRESENT = 0 then 0 else
      let pd = table_ptr (e3 AND PAGE_MASK); e2 = mem (pte pd (PD_ENTRY va)) in
      if e2 AND PTE_PRESENT = 0 then 0 else
      let pt = table_ptr (e2 AND PAGE_MASK); e1 = mem (pte pt (PT_ENTRY va)) in
      if e1 AND PTE_PRESENT = 0 then 0 else (e1 AND PAGE_MASK) + (virt_addr AND NOT PAGE_MASK))"

section \<open>The first mappings\<close>

text \<open>The loop of the boot code over the pages of a range; \<open>cond\<close> is its condition.\<close>

definition range_body :: "(u64 \<Rightarrow> bool) \<Rightarrow> u64 \<Rightarrow> u64 \<Rightarrow> u64 \<Rightarrow> u64 \<Rightarrow> u64 \<times> FrameMem \<times> words \<Rightarrow>
    (u64 \<times> FrameMem \<times> words, FrameMem \<times> words) step option" where
  "range_body cond root virt phys flgs = (\<lambda>(a, s).
     if cond a then map_option (\<lambda>s'. Next (a + PAGE_SIZE, s')) (mapping root (virt + a) (phys + a) flgs s)
     else Some (Done s))"

definition map_range :: "(u64 \<Rightarrow> bool) \<Rightarrow> u64 \<Rightarrow> u64 \<Rightarrow> u64 \<Rightarrow> u64 \<Rightarrow> FrameMem \<times> words \<Rightarrow> (FrameMem \<times> words) option" where
  "map_range cond root virt phys flgs s = loop (range_body cond root virt phys flgs) (0, s)"

definition MappingIdentity :: "u64 \<Rightarrow> u64 \<Rightarrow> FrameMem \<times> words \<Rightarrow> (FrameMem \<times> words) option" where
  "MappingIdentity root sz s = do {
     s1 \<leftarrow> map_range (\<lambda>a. a < 0xf00000) root 0 0 (PTE_PRESENT OR PTE_WRITABLE) s;
     map_range (\<lambda>a. a < sz \<and> sz < 0xfffffffffff) root IDENTITY_BASE 0 (PTE_PRESENT OR PTE_WRITABLE) s1 }"

text \<open>The bounds of the sections of the kernel image, from the linker script.\<close>

record Image =
  img_text :: "u64 \<times> u64"
  img_rodata :: "u64 \<times> u64"
  img_data :: "u64 \<times> u64"
  img_bss :: "u64 \<times> u64"

text \<open>The number of bytes of a section of the ELF table that are mapped, if it is one of the image.\<close>

definition section_extent :: "Image \<Rightarrow> u64 \<Rightarrow> u64 option" where
  "section_extent im va =
     (if va = fst (img_text im) then Some (snd (img_text im) - fst (img_text im))
      else if va = fst (img_rodata im) then Some (snd (img_rodata im) - fst (img_rodata im))
      else if va = fst (img_data im) then Some (snd (img_data im) - fst (img_data im))
      else if va = fst (img_bss im) then Some (snd (img_bss im) - fst (img_bss im) + 0x20000)
      else None)"

text \<open>The sections are given by their virtual address and their offset in the file.\<close>

fun MappingKernel :: "Image \<Rightarrow> u64 \<Rightarrow> (u64 \<times> u64) list \<Rightarrow> FrameMem \<times> words \<Rightarrow> (FrameMem \<times> words) option" where
  "MappingKernel im root [] s = Some s"
| "MappingKernel im root ((va, offset) # sections) s = do {
     s1 \<leftarrow> (case section_extent im va of
       None \<Rightarrow> Some s
     | Some n \<Rightarrow> map_range (\<lambda>a. a \<le> n) root va (0x100000 - 0x1000 + offset) (PTE_PRESENT OR PTE_WRITABLE) s);
     MappingKernel im root sections s1 }"

section \<open>The boot information\<close>

text \<open>Little-endian numbers in the memory of bytes that the boot loader leaves.\<close>

definition peek32 :: "(u64 \<Rightarrow> byte) \<Rightarrow> u64 \<Rightarrow> u32" where
  "peek32 m a = ucast (m a) OR push_bit 8 (ucast (m (a + 1))) OR push_bit 16 (ucast (m (a + 2))) OR push_bit 24 (ucast (m (a + 3)))"

definition peek64 :: "(u64 \<Rightarrow> byte) \<Rightarrow> u64 \<Rightarrow> u64" where
  "peek64 m a = ucast (peek32 m a) OR push_bit 32 (ucast (peek32 m (a + 4)))"

definition MULTIBOOT_TAG_TYPE_END :: u32 where "MULTIBOOT_TAG_TYPE_END = 0"
definition MULTIBOOT_TAG_TYPE_MMAP :: u32 where "MULTIBOOT_TAG_TYPE_MMAP = 6"
definition MULTIBOOT_TAG_TYPE_ELF_SECTIONS :: u32 where "MULTIBOOT_TAG_TYPE_ELF_SECTIONS = 9"
definition MULTIBOOT_MEMORY_AVAILABLE :: u32 where "MULTIBOOT_MEMORY_AVAILABLE = 1"

text \<open>The tags: type and size, each rounded up to eight bytes.  The last of each kind counts.\<close>

definition tag_type :: "(u64 \<Rightarrow> byte) \<Rightarrow> u64 \<Rightarrow> u32" where "tag_type m tag = peek32 m tag"
definition tag_size :: "(u64 \<Rightarrow> byte) \<Rightarrow> u64 \<Rightarrow> u32" where "tag_size m tag = peek32 m (tag + 4)"

definition tags_body :: "(u64 \<Rightarrow> byte) \<Rightarrow> u64 \<times> ptr \<times> ptr \<Rightarrow> (u64 \<times> ptr \<times> ptr, ptr \<times> ptr) step option" where
  "tags_body m = (\<lambda>(tag, mmap_tag, elf_sections).
     if tag_type m tag = MULTIBOOT_TAG_TYPE_END then Some (Done (mmap_tag, elf_sections))
     else let next_tag = tag + ucast ((tag_size m tag + 7) AND NOT 7)
       in Some (Next (if tag_type m tag = MULTIBOOT_TAG_TYPE_MMAP then (next_tag, Some tag, elf_sections)
         else if tag_type m tag = MULTIBOOT_TAG_TYPE_ELF_SECTIONS then (next_tag, mmap_tag, Some tag)
         else (next_tag, mmap_tag, elf_sections))))"

text \<open>The first available region from 1 MiB on, as address and length.\<close>

definition mmap_entries :: "(u64 \<Rightarrow> byte) \<Rightarrow> u64 \<Rightarrow> u64 list option" where
  "mmap_entries m tag =
     (let entry_size = peek32 m (tag + 8) in
      if entry_size = 0 then None
      else Some (map (\<lambda>i. tag + 16 + of_nat i * ucast entry_size)
        [0..<unat ((ucast (tag_size m tag) - 16 :: u64) div ucast entry_size)]))"

definition usable_region :: "(u64 \<Rightarrow> byte) \<Rightarrow> u64 list \<Rightarrow> (u64 \<times> u64) option" where
  "usable_region m entries =
     map_option (\<lambda>e. (peek64 m e, peek64 m (e + 8)))
       (find (\<lambda>e. peek32 m (e + 16) = MULTIBOOT_MEMORY_AVAILABLE \<and> peek64 m e \<ge> 0x100000) entries)"

definition elf_sections_of :: "(u64 \<Rightarrow> byte) \<Rightarrow> u64 \<Rightarrow> (u64 \<times> u64) list" where
  "elf_sections_of m tag = map (\<lambda>i. let sec = tag + 20 + of_nat i * ucast (peek32 m (tag + 12))
     in (peek64 m (sec + 16), peek64 m (sec + 24))) [0..<unat (peek32 m (tag + 8))]"

text \<open>
  \<open>Init\<close>: the allocator for the first usable region, or as it was when there is none, and the tables;
  the result is what is loaded into \<^verbatim>\<open>cr3\<close>.  \<open>None\<close> is an endless loop.
\<close>

definition boot_Init :: "Image \<Rightarrow> (u64 \<Rightarrow> byte) \<Rightarrow> u64 \<Rightarrow> FrameMem \<times> words \<Rightarrow> (u64 \<times> FrameMem \<times> words) option" where
  "boot_Init im m info = (\<lambda>(pm, mem). do {
     (mmap_tag, elf_sections) \<leftarrow> loop (tags_body m) (info + 8, None, None);
     mt \<leftarrow> mmap_tag;
     et \<leftarrow> elf_sections;
     entries \<leftarrow> mmap_entries m mt;
     f \<leftarrow> (case usable_region m entries of
       None \<Rightarrow> Some pm
     | Some (a, len) \<Rightarrow> frameInit (a + 0x100000) (a + len));
     (root, f1) \<leftarrow> boot_Alloc f;
     let s1 = (f1, zero_page root mem);
     s2 \<leftarrow> MappingIdentity root (start_addr f1 + total_pages f1 * PAGE_SIZE) s1;
     s3 \<leftarrow> MappingKernel im root (elf_sections_of m et) s2;
     Some (root, s3) })"

end
