(* ===== verification/PageWalk.thy ===== *)
theory PageWalk
  imports Paging
begin

text \<open>
  What mapping a page does to the translation of all addresses.  The locale \<open>page_source\<close> is the contract
  of the page allocator and of the two address conversions; \<open>tree_ok\<close> says that the tables below a top
  table form a tree of pages that the allocator does not hand out.  Both \<open>Map\<close> and \<open>mapping\<close> are
  instances.
\<close>

unbundle bit_operations_syntax

section \<open>Addresses of entries\<close>

definition aligned :: "u64 \<Rightarrow> bool" where
  "aligned t \<longleftrightarrow> t AND PAGE_MASK = t"

lemma PAGE_MASK_eq: "PAGE_MASK = NOT (mask 12)"
  by (simp add: PAGE_MASK_def PAGE_SIZE_def mask_eq_exp_minus_1)

lemma aligned_iff: "aligned t \<longleftrightarrow> 2 ^ 12 dvd unat t"
proof -
  have "aligned t \<longleftrightarrow> take_bit 12 t = 0"
  proof
    assume "aligned t"
    then have "t = t AND NOT (mask 12)" by (simp add: aligned_def PAGE_MASK_eq)
    then have "bit t n = (bit t n \<and> \<not> bit (mask 12 :: u64) n)" if "n < 64" for n using that by (metis bit_and_iff bit_not_iff_eq)
    then show "take_bit 12 t = 0" by (intro bit_word_eqI) (auto simp: bit_simps)
  next
    assume z: "take_bit 12 t = 0"
    have "bit t n \<longrightarrow> \<not> n < 12" for n using z bit_take_bit_iff [of 12 t n] by auto
    then show "aligned t" unfolding aligned_def PAGE_MASK_eq by (intro bit_word_eqI) (auto simp: bit_simps)
  qed
  also have "\<dots> \<longleftrightarrow> unat (take_bit 12 t) = 0" by (simp add: unat_eq_0)
  also have "unat (take_bit 12 t) = take_bit 12 (unat t)" by (rule unsigned_take_bit_eq)
  finally show ?thesis unfolding take_bit_eq_mod dvd_eq_mod_eq_0 .
qed

lemma unat_pte:
  assumes "aligned t" "i < 512"
  shows "unat (pte t i) = unat t + 8 * unat i"
proof -
  have i: "unat i < 512" using assms(2) by (simp add: word_less_nat_alt)
  then have m: "unat (8 * i) = 8 * unat i" by (simp add: unat_word_ariths)
  from assms(1) obtain k where k: "unat t = 2 ^ 12 * k" unfolding aligned_iff by (rule dvdE)
  have "unat t < 2 ^ 64" using unsigned_less [of t, where ?'a = nat] by simp
  then have "k < 2 ^ 52" using k by simp
  then have "unat t + 8 * unat i < 2 ^ 64" using k i by simp
  then show ?thesis by (simp add: pte_def unat_word_ariths m)
qed

lemma pte_eq:
  assumes "aligned t" "aligned u" "i < 512" "j < 512"
  shows "pte t i = pte u j \<longleftrightarrow> t = u \<and> i = j"
proof
  assume "pte t i = pte u j"
  then have e: "unat t + 8 * unat i = unat u + 8 * unat j"
    using unat_pte [OF assms(1,3)] unat_pte [OF assms(2,4)] by metis
  have l: "8 * unat i < 2 ^ 12" "8 * unat j < 2 ^ 12" using assms(3,4) by (simp_all add: word_less_nat_alt)
  from assms(1) obtain k where k1: "unat t = 2 ^ 12 * k" unfolding aligned_iff by (rule dvdE)
  from assms(2) obtain m where "unat u = 2 ^ 12 * m" unfolding aligned_iff by (rule dvdE)
  note k = k1 this
  from e k have "(2 ^ 12 * k + 8 * unat i) div 2 ^ 12 = (2 ^ 12 * m + 8 * unat j) div 2 ^ 12" by simp
  then have "k = m" using l by simp
  then have "unat t = unat u" "unat i = unat j" using e k by simp_all
  then show "t = u \<and> i = j" by (simp add: word_unat_eq_iff)
qed auto

lemma zero_page_pte:
  assumes "aligned a" "aligned t" "i < 512"
  shows "zero_page a mem (pte t i) = (if t = a then 0 else mem (pte t i))"
proof -
  have i: "unat i < 512" using assms(3) by (simp add: word_less_nat_alt)
  note u = unat_pte [OF assms(2,3)]
  from assms(2) obtain k where k1: "unat t = 2 ^ 12 * k" unfolding aligned_iff by (rule dvdE)
  from assms(1) obtain m where "unat a = 2 ^ 12 * m" unfolding aligned_iff by (rule dvdE)
  note k = k1 this
  have ps: "x < PAGE_SIZE \<longleftrightarrow> unat x < 2 ^ 12" for x :: u64 by (simp add: PAGE_SIZE_def word_less_nat_alt)
  show ?thesis
  proof (cases "t = a")
    case True
    then have "pte t i - a = 8 * i" by (simp add: pte_def)
    moreover have "unat (8 * i) = 8 * unat i" using i by (simp add: unat_word_ariths)
    ultimately show ?thesis using True i by (simp add: zero_page_def ps)
  next
    case False
    then have ne: "k \<noteq> m" using k by (auto simp: word_unat_eq_iff)
    have "\<not> unat (pte t i - a) < 2 ^ 12"
    proof (cases "m < k")
      case True
      then have "a \<le> pte t i" using u k by (simp add: word_le_nat_alt)
      then have "unat (pte t i - a) = 2 ^ 12 * k + 8 * unat i - 2 ^ 12 * m" using u k by (simp add: unat_sub)
      moreover have "2 ^ 12 * Suc m \<le> 2 ^ 12 * k" using True by (intro mult_le_mono2) simp
      ultimately show ?thesis by simp
    next
      case False
      then have lt: "k < m" using ne by simp
      then have "2 ^ 12 * Suc k \<le> 2 ^ 12 * m" by (intro mult_le_mono2) simp
      then have b: "unat (pte t i) < unat a" using u k i by simp
      have am: "m < 2 ^ 52" using unsigned_less [of a, where ?'a = nat] k by simp
      have "unat (pte t i - a) = 2 ^ 64 - (unat a - unat (pte t i))"
        using b by (simp add: unat_sub_if_size word_size)
      moreover have "2 ^ 12 * m \<le> 2 ^ 64 - 2 ^ 12" using am by simp
      ultimately show ?thesis using u k by simp
    qed
    then show ?thesis using False by (simp add: zero_page_def ps)
  qed
qed

section \<open>The tables below a top table\<close>

text \<open>The table that a list of indices leads to, and the entry that a full list of four reaches.\<close>

fun tables :: "(u64 \<Rightarrow> u64) \<Rightarrow> words \<Rightarrow> u64 \<Rightarrow> u64 list \<Rightarrow> u64 option" where
  "tables dec mem t [] = Some t"
| "tables dec mem t (i # is) =
     (if mem (pte t i) AND PTE_PRESENT = 0 then None else tables dec mem (dec (mem (pte t i) AND PAGE_MASK)) is)"

definition leaf :: "(u64 \<Rightarrow> u64) \<Rightarrow> words \<Rightarrow> u64 \<Rightarrow> u64 list \<Rightarrow> u64 \<Rightarrow> u64" where
  "leaf dec mem root is j = (case tables dec mem root is of None \<Rightarrow> 0 | Some t \<Rightarrow> mem (pte t j))"

text \<open>The indices of an address, and the entry that translates it; 0 when a table is missing.\<close>

definition upper :: "u64 \<Rightarrow> u64 list" where
  "upper va = [PML4_ENTRY va, PDPT_ENTRY va, PD_ENTRY va]"

definition entry_of :: "(u64 \<Rightarrow> u64) \<Rightarrow> words \<Rightarrow> u64 \<Rightarrow> u64 \<Rightarrow> u64" where
  "entry_of dec mem root va = leaf dec mem root (upper va) (PT_ENTRY va)"

definition same_page :: "u64 \<Rightarrow> u64 \<Rightarrow> bool" where
  "same_page va va' \<longleftrightarrow> upper va = upper va' \<and> PT_ENTRY va = PT_ENTRY va'"

lemma tables_snoc:
  "tables dec mem t (is @ [i]) = (case tables dec mem t is of
     None \<Rightarrow> None
   | Some u \<Rightarrow> if mem (pte u i) AND PTE_PRESENT = 0 then None else Some (dec (mem (pte u i) AND PAGE_MASK)))"
  by (induction "is" arbitrary: t) simp_all

definition indices :: "u64 list \<Rightarrow> bool" where
  "indices is \<longleftrightarrow> (\<forall>i\<in>set is. i < 512)"

lemma indices_simps [simp]: "indices []" "indices (i # is) \<longleftrightarrow> i < 512 \<and> indices is" "indices (is @ js) \<longleftrightarrow> indices is \<and> indices js"
  by (auto simp: indices_def)

lemma ENTRY_less: "PT_ENTRY a < 512" "PD_ENTRY a < 512" "PDPT_ENTRY a < 512" "PML4_ENTRY a < 512"
proof -
  have "x AND PT_ENTRY_MASK < 512" for x :: u64
  proof -
    have "x AND PT_ENTRY_MASK \<le> PT_ENTRY_MASK" by (rule word_and_le1)
    then show ?thesis by (rule order_le_less_trans) (simp add: PT_ENTRY_MASK_def)
  qed
  then show "PT_ENTRY a < 512" "PD_ENTRY a < 512" "PDPT_ENTRY a < 512" "PML4_ENTRY a < 512"
    by (simp_all add: PT_ENTRY_def PD_ENTRY_def PDPT_ENTRY_def PML4_ENTRY_def)
qed

lemma upper_simps: "indices (upper va)" "length (upper va) = 3"
  by (simp_all add: upper_def ENTRY_less)

text \<open>\<open>taken\<close>: the addresses that the allocator will not hand out.\<close>

definition tree_ok :: "(u64 \<Rightarrow> u64) \<Rightarrow> u64 set \<Rightarrow> words \<Rightarrow> u64 \<Rightarrow> bool" where
  "tree_ok dec taken mem root \<longleftrightarrow>
     (\<forall>is t. length is \<le> 3 \<longrightarrow> indices is \<longrightarrow> tables dec mem root is = Some t \<longrightarrow> aligned t \<and> t \<in> taken \<and>
        (\<forall>js. length js \<le> 3 \<longrightarrow> indices js \<longrightarrow> tables dec mem root js = Some t \<longrightarrow> is = js))"

lemma tree_okD:
  assumes "tree_ok dec taken mem root" "length is \<le> 3" "indices is" "tables dec mem root is = Some t"
  shows "aligned t" "t \<in> taken" "length js \<le> 3 \<Longrightarrow> indices js \<Longrightarrow> tables dec mem root js = Some t \<Longrightarrow> is = js"
  using assms unfolding tree_ok_def by blast+

text \<open>An entry of a last table is not part of the way to any table.\<close>

lemma tables_set_entry:
  assumes "tree_ok dec taken mem root" "tables dec mem root is = Some t" "length is = 3" "indices is" "i < 512"
  shows "length js \<le> 3 \<Longrightarrow> indices js \<Longrightarrow> tables dec (mem(pte t i := v)) root js = tables dec mem root js"
proof -
  define m' where "m' = mem(pte t i := v)"
  have "length js \<le> 3 \<Longrightarrow> indices js \<Longrightarrow> tables dec m' root js = tables dec mem root js"
  proof (induction js rule: rev_induct)
    case (snoc j js)
    have IH: "tables dec m' root js = tables dec mem root js"
      by (rule snoc.IH) (use snoc.prems in simp_all)
    show ?case
    proof (cases "tables dec mem root js")
      case (Some u)
      have "u \<noteq> t" using tree_okD(3) [OF assms(1) _ assms(4,2), of js] assms(3) snoc.prems Some by auto
      moreover have "aligned u" "aligned t"
        using tree_okD(1) [OF assms(1) _ _ Some] tree_okD(1) [OF assms(1) _ assms(4,2)] assms(3) snoc.prems by simp_all
      ultimately have "m' (pte u j) = mem (pte u j)" using pte_eq assms(5) snoc.prems by (simp add: m'_def)
      then show ?thesis using IH Some by (simp add: tables_snoc)
    qed (use IH in \<open>simp add: tables_snoc\<close>)
  qed simp
  then show "length js \<le> 3 \<Longrightarrow> indices js \<Longrightarrow> tables dec (mem(pte t i := v)) root js = tables dec mem root js"
    by (simp add: m'_def)
qed

lemma PRESENT_in_entry: "(x OR PTE_PRESENT OR y OR z) AND PTE_PRESENT \<noteq> 0"
proof -
  have "bit ((x OR PTE_PRESENT OR y OR z) AND PTE_PRESENT) 0" by (simp add: bit_simps PTE_PRESENT_def)
  then show ?thesis by fastforce
qed

lemma entry_address:
  assumes "flgs AND PAGE_MASK = 0"
  shows "((p AND PAGE_MASK) OR PTE_PRESENT OR PTE_WRITABLE OR flgs) AND PAGE_MASK = p AND PAGE_MASK"
proof -
  have "PTE_PRESENT AND PAGE_MASK = 0" "PTE_WRITABLE AND PAGE_MASK = 0"
    by (simp_all add: PTE_PRESENT_def PTE_WRITABLE_def PAGE_MASK_def PAGE_SIZE_def)
  then show ?thesis using assms by (simp add: bit.conj_disj_distrib2 and.assoc)
qed

section \<open>The contract of the page source\<close>

locale page_source =
  fixes alloc :: "FrameMem \<Rightarrow> (u64 \<times> FrameMem) option"
    and enc :: "u64 \<Rightarrow> u64"
    and dec :: "u64 \<Rightarrow> u64"
    and ok :: "FrameMem \<Rightarrow> bool"
    and taken :: "FrameMem \<Rightarrow> u64 set"
    and left :: "FrameMem \<Rightarrow> nat"
  assumes alloc_law: "ok f \<Longrightarrow> 0 < left f \<Longrightarrow> \<exists>a f'. alloc f = Some (a, f') \<and> ok f' \<and> left f = left f' + 1 \<and>
      aligned a \<and> a \<notin> taken f \<and> taken f' = insert a (taken f) \<and> dec (enc a AND PAGE_MASK) = a"
begin

lemma map_level_correct:
  assumes T: "tree_ok dec (taken f) mem root" and f: "ok f" "0 < left f"
    and t: "tables dec mem root is = Some t" "length is < 3" "indices is" and i: "i < 512"
    and fl: "flgs AND PAGE_MASK = 0"
  shows "\<exists>t' f' mem'. map_level alloc enc dec flgs t i (f, mem) = Some (t', f', mem') \<and>
    tables dec mem' root (is @ [i]) = Some t' \<and> tree_ok dec (taken f') mem' root \<and> ok f' \<and> left f \<le> left f' + 1 \<and>
    (\<forall>js j. length js = 3 \<longrightarrow> indices js \<longrightarrow> j < 512 \<longrightarrow> leaf dec mem' root js j = leaf dec mem root js j)"
proof (cases "mem (pte t i) AND PTE_PRESENT = 0")
  case False
  then have "map_level alloc enc dec flgs t i (f, mem) = Some (dec (mem (pte t i) AND PAGE_MASK), f, mem)"
    by (simp add: map_level_def)
  moreover have "tables dec mem root (is @ [i]) = Some (dec (mem (pte t i) AND PAGE_MASK))"
    using False t(1) by (simp add: tables_snoc)
  ultimately show ?thesis using T f by auto
next
  case True
  from alloc_law [OF f] obtain a f' where
    a: "alloc f = Some (a, f')" "ok f'" "left f = left f' + 1" "aligned a" "a \<notin> taken f" "taken f' = insert a (taken f)"
      "dec (enc a AND PAGE_MASK) = a" by blast
  let ?e = "(enc a AND PAGE_MASK) OR PTE_PRESENT OR PTE_WRITABLE OR flgs"
  define mem' where "mem' = (zero_page a mem)(pte t i := ?e)"
  have ta: "aligned t" "t \<in> taken f" using tree_okD(1,2) [OF T _ t(3,1)] t(2) by simp_all
  have rd: "mem' (pte u j) = (if u = t \<and> j = i then ?e else if u = a then 0 else mem (pte u j))"
    if "aligned u" "j < 512" for u j
    using pte_eq [OF that(1) ta(1) that(2) i] zero_page_pte [OF a(4) that] by (auto simp: mem'_def)
  have tb: "tables dec mem' root js = (if tables dec mem root js \<noteq> None then tables dec mem root js
      else if js = is @ [i] then Some a else None)" if "length js \<le> 3" "indices js" for js
    using that
  proof (induction js rule: rev_induct)
    case (snoc j js)
    have IH: "tables dec mem' root js = (if tables dec mem root js \<noteq> None then tables dec mem root js
      else if js = is @ [i] then Some a else None)" by (rule snoc.IH) (use snoc.prems in simp_all)
    show ?case
    proof (cases "tables dec mem root js")
      case None
      have "a \<noteq> t" using a(5) ta(2) by auto
      then have "mem' (pte a j) = 0" using rd [OF a(4), of j] snoc.prems by simp
      moreover have "js \<noteq> is" using None t(1) by auto
      ultimately show ?thesis using IH None by (simp add: tables_snoc)
    next
      case (Some u)
      have u: "aligned u" "u \<in> taken f" "u = t \<longleftrightarrow> js = is"
        using tree_okD(1,2) [OF T _ _ Some] tree_okD(3) [OF T _ _ Some, of "is"] snoc.prems t Some by auto
      then have "u \<noteq> a" using a(5) by auto
      then have r: "mem' (pte u j) = (if js = is \<and> j = i then ?e else mem (pte u j))"
        using rd [OF u(1), of j] u(3) snoc.prems by simp
      show ?thesis
      proof (cases "js = is \<and> j = i")
        case True
        then have "tables dec mem root (js @ [j]) = None" using \<open>mem (pte t i) AND PTE_PRESENT = 0\<close> t(1) by (simp add: tables_snoc)
        moreover have "tables dec mem' root (js @ [j]) = Some (dec (?e AND PAGE_MASK))"
          using True IH Some r PRESENT_in_entry by (simp add: tables_snoc)
        ultimately show ?thesis using True entry_address [OF fl] a(7) by simp
      next
        case False
        then show ?thesis using IH Some r by (auto simp: tables_snoc)
      qed
    qed
  qed simp
  have new: "tables dec mem' root (is @ [i]) = Some a"
    using tb [of "is @ [i]"] t i True by (simp add: tables_snoc)
  have "tree_ok dec (taken f') mem' root"
    unfolding tree_ok_def
  proof (intro allI impI)
    fix ks u assume k: "length ks \<le> 3" "indices ks" "tables dec mem' root ks = Some u"
    from k tb [OF k(1,2)] consider "tables dec mem root ks = Some u" | "ks = is @ [i]" "u = a" "tables dec mem root ks = None"
      by (auto split: if_splits)
    then show "aligned u \<and> u \<in> taken f' \<and>
        (\<forall>js. length js \<le> 3 \<longrightarrow> indices js \<longrightarrow> tables dec mem' root js = Some u \<longrightarrow> ks = js)"
    proof cases
      case 1
      then have u: "aligned u" "u \<in> taken f" using tree_okD(1,2) [OF T k(1,2)] by simp_all
      then have "u \<noteq> a" using a(5) by auto
      then have "ks = js" if "length js \<le> 3" "indices js" "tables dec mem' root js = Some u" for js
        using that tb [OF that(1,2)] tree_okD(3) [OF T k(1,2) 1 that(1,2)] by (auto split: if_splits)
      then show ?thesis using u a(6) by simp
    next
      case 2
      have "ks = js" if j: "length js \<le> 3" "indices js" "tables dec mem' root js = Some u" for js
      proof (cases "tables dec mem root js")
        case (Some w)
        then have "w = a" using j tb [OF j(1,2)] 2(2) by simp
        then show ?thesis using tree_okD(2) [OF T j(1,2) Some] a(5) by simp
      qed (use j tb [OF j(1,2)] 2 in \<open>auto split: if_splits\<close>)
      then show ?thesis using 2(2) a(4,6) by simp
    qed
  qed
  moreover have "leaf dec mem' root js j = leaf dec mem root js j" if "length js = 3" "indices js" "j < 512" for js j
  proof (cases "tables dec mem root js")
    case None
    have "a \<noteq> t" using a(5) ta(2) by auto
    then have "mem' (pte a j) = 0" using rd [OF a(4) that(3)] by simp
    then show ?thesis using None tb [of js] that by (simp add: leaf_def)
  next
    case (Some u)
    have "aligned u" "u \<in> taken f" "u \<noteq> t"
      using tree_okD(1,2) [OF T _ that(2) Some] tree_okD(3) [OF T _ that(2) Some, of "is"] that(1) t by auto
    then have "mem' (pte u j) = mem (pte u j)" using rd [of u j] that(3) a(5) by auto
    then show ?thesis using Some tb [of js] that by (simp add: leaf_def)
  qed
  moreover have "map_level alloc enc dec flgs t i (f, mem) = Some (a, f', mem')"
    using True a(1,7) entry_address [OF fl] by (simp add: map_level_def mem'_def)
  ultimately show ?thesis using new a(2,3) by auto
qed

theorem map_page_correct:
  assumes T: "tree_ok dec (taken f) mem root" and f: "ok f" "3 \<le> left f" and fl: "flgs AND PAGE_MASK = 0"
  shows "\<exists>f' mem'. map_page alloc enc dec root virt_addr phys_addr flgs (f, mem) = Some (f', mem') \<and>
    ok f' \<and> left f \<le> left f' + 3 \<and> tree_ok dec (taken f') mem' root \<and>
    (\<forall>va. entry_of dec mem' root va =
       (if same_page va virt_addr then (phys_addr AND PAGE_MASK) OR flgs else entry_of dec mem root va))"
proof -
  let ?i4 = "PML4_ENTRY virt_addr" and ?i3 = "PDPT_ENTRY virt_addr" and ?i2 = "PD_ENTRY virt_addr" and ?i1 = "PT_ENTRY virt_addr"
  note e = ENTRY_less [of virt_addr]
  have "tables dec mem root [] = Some root" "0 < left f" using f(2) by simp_all
  from map_level_correct [OF T f(1) this(2,1) _ _ e(4) fl] obtain t1 f1 m1 where
    1: "map_level alloc enc dec flgs root ?i4 (f, mem) = Some (t1, f1, m1)" "tables dec m1 root [?i4] = Some t1"
      "tree_ok dec (taken f1) m1 root" "ok f1" "left f \<le> left f1 + 1"
      "\<forall>js j. length js = 3 \<longrightarrow> indices js \<longrightarrow> j < 512 \<longrightarrow> leaf dec m1 root js j = leaf dec mem root js j" by auto
  have "0 < left f1" using f(2) 1(5) by simp
  from map_level_correct [OF 1(3,4) this 1(2) _ _ e(3) fl] e obtain t2 f2 m2 where
    2: "map_level alloc enc dec flgs t1 ?i3 (f1, m1) = Some (t2, f2, m2)" "tables dec m2 root [?i4, ?i3] = Some t2"
      "tree_ok dec (taken f2) m2 root" "ok f2" "left f1 \<le> left f2 + 1"
      "\<forall>js j. length js = 3 \<longrightarrow> indices js \<longrightarrow> j < 512 \<longrightarrow> leaf dec m2 root js j = leaf dec m1 root js j" by auto
  have "0 < left f2" using f(2) 1(5) 2(5) by simp
  from map_level_correct [OF 2(3,4) this 2(2) _ _ e(2) fl] e obtain t3 f3 m3 where
    3: "map_level alloc enc dec flgs t2 ?i2 (f2, m2) = Some (t3, f3, m3)" "tables dec m3 root [?i4, ?i3, ?i2] = Some t3"
      "tree_ok dec (taken f3) m3 root" "ok f3" "left f2 \<le> left f3 + 1"
      "\<forall>js j. length js = 3 \<longrightarrow> indices js \<longrightarrow> j < 512 \<longrightarrow> leaf dec m3 root js j = leaf dec m2 root js j" by auto
  let ?v = "(phys_addr AND PAGE_MASK) OR flgs"
  let ?m = "m3(pte t3 ?i1 := ?v)"
  have up: "upper virt_addr = [?i4, ?i3, ?i2]" by (simp add: upper_def)
  have tb: "tables dec ?m root js = tables dec m3 root js" if "length js \<le> 3" "indices js" for js
    using tables_set_entry [OF 3(3,2) _ _ e(1) that] e by simp
  have "tree_ok dec (taken f3) ?m root" using 3(3) tb unfolding tree_ok_def by simp
  moreover have "entry_of dec ?m root va = (if same_page va virt_addr then ?v else entry_of dec mem root va)" for va
  proof (cases "tables dec m3 root (upper va)")
    case None
    then have "\<not> same_page va virt_addr" using 3(2) up by (auto simp: same_page_def)
    moreover have "leaf dec m3 root (upper va) (PT_ENTRY va) = leaf dec mem root (upper va) (PT_ENTRY va)"
      using 1(6) 2(6) 3(6) upper_simps ENTRY_less by simp
    ultimately show ?thesis using None tb [of "upper va"] upper_simps by (simp add: entry_of_def leaf_def)
  next
    case (Some u)
    have t: "tables dec m3 root (upper virt_addr) = Some t3" using 3(2) up by (simp only:)
    have "length (upper va) \<le> 3" "length (upper virt_addr) \<le> 3" by (simp_all add: upper_simps)
    note D = tree_okD [OF 3(3) this(1) upper_simps(1) Some]
    have u: "aligned u" "u = t3 \<longleftrightarrow> upper va = upper virt_addr"
      using D(1) D(3) [of "upper virt_addr"] t Some upper_simps by auto
    have t3: "aligned t3" using tree_okD(1) [OF 3(3) _ _ 3(2)] e by simp
    have "leaf dec m3 root (upper va) (PT_ENTRY va) = leaf dec mem root (upper va) (PT_ENTRY va)"
      using 1(6) 2(6) 3(6) upper_simps ENTRY_less by simp
    then have "m3 (pte u (PT_ENTRY va)) = entry_of dec mem root va" using Some by (simp add: entry_of_def leaf_def)
    moreover have "entry_of dec ?m root va = ?m (pte u (PT_ENTRY va))"
      using Some tb [of "upper va"] upper_simps by (simp add: entry_of_def leaf_def)
    ultimately show ?thesis using pte_eq [OF u(1) t3 ENTRY_less(1) ENTRY_less(1)] u(2) by (simp add: same_page_def)
  qed
  moreover have "map_page alloc enc dec root virt_addr phys_addr flgs (f, mem) = Some (f3, ?m)"
    using 1(1) 2(1) 3(1) by (simp add: map_page_def)
  ultimately show ?thesis using 3(4,5) 1(5) 2(5) by auto
qed

end

end
