(* ===== verification/PageInst.thy ===== *)
theory PageInst
  imports PageWalk
begin

text \<open>
  The two page allocators as page sources: the kernel's, whose pages are used through the identity map,
  and the boot code's, whose pages are used by their physical addresses.  Then the walk of
  \<open>AnalyzePageTable\<close>, and what the copy of the kernel's half of a top table does.
\<close>

unbundle bit_operations_syntax

section \<open>Pages of an allocator\<close>

definition frame_addr :: "FrameMem \<Rightarrow> nat \<Rightarrow> u64" where
  "frame_addr f i = start_usable f + of_nat i * PAGE_SIZE"

definition source_ok :: "FrameMem \<Rightarrow> bool" where
  "source_ok f \<longleftrightarrow> frame_ok f \<and> aligned (start_usable f) \<and> unat (start_usable f) + unat (total_pages f) * 4096 < 2 ^ 44"

text \<open>The addresses that will not be handed out, as \<open>view\<close> shows them.\<close>

definition source_taken :: "(u64 \<Rightarrow> u64) \<Rightarrow> FrameMem \<Rightarrow> u64 set" where
  "source_taken view f = - {view (frame_addr f i) |i. i < unat (total_pages f) \<and> i \<notin> used f}"

definition source_left :: "FrameMem \<Rightarrow> nat" where
  "source_left f = unat (free_pages f)"

lemma unat_frame_addr:
  assumes "source_ok f" "i < unat (total_pages f)"
  shows "unat (frame_addr f i) = unat (start_usable f) + i * 4096" "unat (frame_addr f i) < 2 ^ 44" "aligned (frame_addr f i)"
proof -
  have "i * 4096 \<le> unat (total_pages f) * 4096" using assms(2) by simp
  then have b: "unat (start_usable f) + i * 4096 < 2 ^ 44" using assms(1) by (simp add: source_ok_def)
  then have "unat (of_nat i * 4096 :: u64) = i * 4096" by (simp add: unat_word_ariths unat_of_nat)
  then show u: "unat (frame_addr f i) = unat (start_usable f) + i * 4096"
    using b by (simp add: frame_addr_def PAGE_SIZE_def unat_word_ariths)
  then show "unat (frame_addr f i) < 2 ^ 44" using b by simp
  have "2 ^ 12 dvd unat (start_usable f)" using assms(1) by (simp add: source_ok_def aligned_iff)
  then show "aligned (frame_addr f i)" unfolding aligned_iff u by (rule dvd_add) simp
qed

lemma frame_addr_eq:
  assumes "source_ok f" "i < unat (total_pages f)" "j < unat (total_pages f)"
  shows "frame_addr f i = frame_addr f j \<longleftrightarrow> i = j"
proof
  assume "frame_addr f i = frame_addr f j"
  then have "unat (start_usable f) + i * 4096 = unat (start_usable f) + j * 4096"
    using unat_frame_addr(1) [OF assms(1,2)] unat_frame_addr(1) [OF assms(1,3)] by metis
  then show "i = j" by simp
qed simp

text \<open>Taking the free page \<open>i\<close>.\<close>

lemma source_step:
  assumes ok: "source_ok f" and f': "frame_ok f'" "used f' = insert i (used f)" "i < unat (total_pages f)" "i \<notin> used f"
      "start_usable f' = start_usable f" "total_pages f' = total_pages f"
    and v: "inj view"
  shows "source_ok f'" "source_left f = source_left f' + 1" "view (frame_addr f i) \<notin> source_taken view f"
    "source_taken view f' = insert (view (frame_addr f i)) (source_taken view f)"
proof -
  show "source_ok f'" using ok f' by (simp add: source_ok_def)
  have "used f' \<subseteq> {..<unat (total_pages f')}" unfolding used_def marked_def by blast
  then have "used f' \<subseteq> {..<unat (total_pages f)}" unfolding f'(6) .
  from card_mono [OF finite_lessThan this] have "card (insert i (used f)) \<le> unat (total_pages f)"
    unfolding f'(2) card_lessThan .
  moreover have "finite (used f)" unfolding used_def marked_def by (rule finite_subset [of _ "{..<unat (total_pages f)}"]) auto
  ultimately have "Suc (card (used f)) \<le> unat (total_pages f)" using f'(4) by simp
  then show "source_left f = source_left f' + 1"
    using ok f' \<open>finite (used f)\<close> by (simp add: source_left_def source_ok_def frame_ok_def)
  show "view (frame_addr f i) \<notin> source_taken view f" using f'(3,4) by (auto simp: source_taken_def)
  have fa: "frame_addr f' = frame_addr f" using f'(5) by (simp add: frame_addr_def fun_eq_iff)
  show "source_taken view f' = insert (view (frame_addr f i)) (source_taken view f)"
    unfolding source_taken_def fa f'(2,6) using frame_addr_eq [OF ok _ f'(3)] f'(3) inj_eq [OF v] by auto
qed

lemma source_has_page:
  assumes "source_ok f" "0 < source_left f"
  shows "\<exists>i<unat (total_pages f). i \<notin> used f"
proof -
  have "card (used f) < unat (total_pages f)"
    using assms by (simp add: source_ok_def frame_ok_def source_left_def)
  then show ?thesis using card_mono [of "used f" "{..<unat (total_pages f)}"] by (fastforce simp: used_def marked_def)
qed

section \<open>The kernel\<close>

lemma aligned_Phy2Vir:
  assumes "aligned p" "unat p < 2 ^ 44"
  shows "aligned (Phy2Vir p)" "table_ptr (Vir2Phy (Phy2Vir p) AND PAGE_MASK) = Phy2Vir p"
proof -
  have "unat (Phy2Vir p) = unat p + 0xFFFFF00000000000"
    using assms(2) by (simp add: Phy2Vir_def IDENTITY_BASE_def unat_word_ariths)
  moreover have "2 ^ 12 dvd (0xFFFFF00000000000 :: nat)" by simp
  ultimately show "aligned (Phy2Vir p)" using assms(1) unfolding aligned_iff by (metis dvd_add)
  have "Vir2Phy (Phy2Vir p) AND PAGE_MASK = p" using assms(1) by (simp add: Vir2Phy_def Phy2Vir_def aligned_def)
  moreover have "p < 0xffff800000000000" using assms(2) by (simp add: word_less_nat_alt)
  ultimately show "table_ptr (Vir2Phy (Phy2Vir p) AND PAGE_MASK) = Phy2Vir p" by (simp add: table_ptr_def)
qed

lemma inj_Phy2Vir: "inj Phy2Vir"
  by (simp add: inj_def Phy2Vir_def)

lemma kernel_page_law:
  assumes "source_ok f" "0 < source_left f"
  shows "\<exists>a f'. kernel_page f = Some (a, f') \<and> source_ok f' \<and> source_left f = source_left f' + 1 \<and> aligned a \<and>
    a \<notin> source_taken Phy2Vir f \<and> source_taken Phy2Vir f' = insert a (source_taken Phy2Vir f) \<and>
    table_ptr (Vir2Phy a AND PAGE_MASK) = a"
proof -
  from source_has_page [OF assms] obtain j where j: "j < unat (total_pages f)" "j \<notin> used f" by blast
  have ok: "frame_ok f" using assms(1) by (simp add: source_ok_def)
  have one: "(1 :: u64) \<noteq> 0" "1 \<le> total_pages f" using j(1) by (simp_all add: word_le_nat_alt)
  have rf: "run_free f j (unat (1 :: u64))" using j by (auto simp: run_free_def less_Suc_eq)
  from AllocPages_correct [OF ok one] obtain r f' where r: "AllocPages 1 f = Some (r, f')" "frame_ok f'" and
    c: "case r of
        None \<Rightarrow> f' = f \<and> (\<forall>a. \<not> run_free f a (unat (1 :: u64)))
      | Some v \<Rightarrow> \<exists>a. run_free f a (unat (1 :: u64)) \<and> (\<forall>b<a. \<not> run_free f b (unat (1 :: u64))) \<and>
          used f' = used f \<union> {a..<a + unat (1 :: u64)} \<and> v = Phy2Vir (start_usable f + of_nat a * PAGE_SIZE) \<and>
          start_usable f' = start_usable f \<and> total_pages f' = total_pages f" by blast
  obtain v where v: "r = Some v" using c rf by (cases r) auto
  then obtain i where i: "run_free f i (unat (1 :: u64))" "used f' = used f \<union> {i..<i + unat (1 :: u64)}"
    "v = Phy2Vir (frame_addr f i)" "start_usable f' = start_usable f" "total_pages f' = total_pages f"
    using c by (auto simp: frame_addr_def)
  have i': "i < unat (total_pages f)" "i \<notin> used f" "used f' = insert i (used f)" using i(1,2) by (auto simp: run_free_def)
  note S = source_step [OF assms(1) r(2) i'(3,1,2) i(4,5) inj_Phy2Vir]
  note A = aligned_Phy2Vir [OF unat_frame_addr(3,2) [OF assms(1) i'(1)]]
  show ?thesis using S A r(1) v i(3) by (simp add: kernel_page_def)
qed

interpretation kernel: page_source kernel_page Vir2Phy table_ptr source_ok "source_taken Phy2Vir" source_left
  by unfold_locales (rule kernel_page_law)

section \<open>Before paging\<close>

lemma boot_page_law:
  assumes "source_ok f" "0 < source_left f"
  shows "\<exists>a f'. boot_Alloc f = Some (a, f') \<and> source_ok f' \<and> source_left f = source_left f' + 1 \<and> aligned a \<and>
    a \<notin> source_taken (\<lambda>p. p) f \<and> source_taken (\<lambda>p. p) f' = insert a (source_taken (\<lambda>p. p) f) \<and> (a AND PAGE_MASK) = a"
proof -
  have "frame_ok f" "free_pages f \<noteq> 0" using assms by (auto simp: source_ok_def source_left_def)
  from boot_Alloc_correct [OF this] obtain i f' where
    f': "boot_Alloc f = Some (frame_addr f i, f')" "frame_ok f'" "i < unat (total_pages f)" "i \<notin> used f"
      "used f' = insert i (used f)" "start_usable f' = start_usable f" "total_pages f' = total_pages f"
    by (auto simp: frame_addr_def)
  have "inj (\<lambda>p :: u64. p)" by (simp add: inj_def)
  note S = source_step [OF assms(1) f'(2,5,3,4,6,7) this]
  have "aligned (frame_addr f i)" by (rule unat_frame_addr(3) [OF assms(1) f'(3)])
  then show ?thesis using S f'(1) by (simp add: aligned_def)
qed

interpretation boot: page_source boot_Alloc "\<lambda>a. a" "\<lambda>p. p" source_ok "source_taken (\<lambda>p. p)" source_left
  by unfold_locales (rule boot_page_law)

section \<open>The walk\<close>

lemma ENTRY_masked:
  "PML4_ENTRY (a AND PAGE_MASK) = PML4_ENTRY a" "PDPT_ENTRY (a AND PAGE_MASK) = PDPT_ENTRY a"
  "PD_ENTRY (a AND PAGE_MASK) = PD_ENTRY a" "PT_ENTRY (a AND PAGE_MASK) = PT_ENTRY a"
proof -
  have "drop_bit k (a AND PAGE_MASK) = drop_bit k a" if "12 \<le> k" for k :: nat
    using that by (intro bit_word_eqI) (auto simp: PAGE_MASK_eq bit_simps dest: bit_imp_le_length)
  then show "PML4_ENTRY (a AND PAGE_MASK) = PML4_ENTRY a" "PDPT_ENTRY (a AND PAGE_MASK) = PDPT_ENTRY a"
    "PD_ENTRY (a AND PAGE_MASK) = PD_ENTRY a" "PT_ENTRY (a AND PAGE_MASK) = PT_ENTRY a"
    by (simp_all add: PML4_ENTRY_def PDPT_ENTRY_def PD_ENTRY_def PT_ENTRY_def)
qed

lemma AnalyzePageTable_entry:
  "AnalyzePageTable mem root va = (let e = entry_of table_ptr mem root va in
     if e AND PTE_PRESENT = 0 then 0 else (e AND PAGE_MASK) + (va AND NOT PAGE_MASK))"
  by (simp add: AnalyzePageTable_def ENTRY_masked entry_of_def leaf_def upper_def Let_def)

lemma entry_present: "((p AND PAGE_MASK) OR flgs) AND PTE_PRESENT = flgs AND PTE_PRESENT"
proof -
  have "PAGE_MASK AND PTE_PRESENT = 0" by (simp add: PAGE_MASK_def PAGE_SIZE_def PTE_PRESENT_def)
  then show ?thesis by (simp add: bit.conj_disj_distrib2 and.assoc)
qed

lemma leaf_address: "flgs AND PAGE_MASK = 0 \<Longrightarrow> ((p AND PAGE_MASK) OR flgs) AND PAGE_MASK = p AND PAGE_MASK"
  by (simp add: bit.conj_disj_distrib2)

text \<open>A top table without entries.\<close>

lemma tree_ok_empty:
  assumes "aligned root" "root \<in> taken" "\<forall>i<512. mem (pte root i) = 0"
  shows "tree_ok dec taken mem root"
proof -
  have "is = []" if "indices is" "tables dec mem root is = Some t" for "is" t
    using that assms(3) by (cases "is") auto
  then show ?thesis using assms(1,2) unfolding tree_ok_def by (metis option.inject tables.simps(1))
qed

section \<open>The kernel's half of a top table\<close>

lemma tables_agree:
  assumes "\<And>js u j. length js < length is \<Longrightarrow> indices js \<Longrightarrow> tables dec mem t js = Some u \<Longrightarrow> j < 512 \<Longrightarrow> mem' (pte u j) = mem (pte u j)"
  shows "indices is \<Longrightarrow> tables dec mem' t is = tables dec mem t is"
  using assms
proof (induction "is" rule: rev_induct)
  case (snoc i "is")
  have "tables dec mem' t is = tables dec mem t is"
  proof (rule snoc.IH)
    show "indices is" using snoc.prems(1) by simp
    show "mem' (pte u j) = mem (pte u j)"
      if "length js < length is" "indices js" "tables dec mem t js = Some u" "j < 512" for js u j
      by (rule snoc.prems(2) [OF _ that(2-4)]) (use that(1) in simp)
  qed
  then show ?case using snoc.prems(2) [of "is" _ i] snoc.prems(1) by (simp add: tables_snoc split: option.split)
qed simp

end
