(* ===== verification/PageProps.thy ===== *)
theory PageProps
  imports PageInst
begin

text \<open>
  The properties of the page tables, through the interpretations \<open>kernel\<close> and \<open>boot\<close> of \<open>page_source\<close>.
\<close>

unbundle bit_operations_syntax

text \<open>
  C13.  \<open>Map\<close> on a tree of tables with three free pages left returns, keeps the tree, and changes the
  translation that \<open>AnalyzePageTable\<close> computes exactly for the addresses of the mapped page: they get the
  physical page with their own offset, or nothing when the flags lack the present bit.  When a table is
  missing and no page is free, it writes through a null pointer and has no result.
\<close>

theorem Map_updates_translation:
  assumes "source_ok f" "3 \<le> source_left f" "tree_ok table_ptr (source_taken Phy2Vir f) mem root" "flgs AND PAGE_MASK = 0"
  shows "(\<exists>f' mem'. Map root virt_addr phys_addr flgs (f, mem) = Some (f', mem') \<and> source_ok f' \<and>
       source_left f \<le> source_left f' + 3 \<and> tree_ok table_ptr (source_taken Phy2Vir f') mem' root \<and>
       (\<forall>va. AnalyzePageTable mem' root va =
          (if same_page va virt_addr
           then if flgs AND PTE_PRESENT = 0 then 0 else (phys_addr AND PAGE_MASK) + (va AND NOT PAGE_MASK)
           else AnalyzePageTable mem root va))) \<and>
     (\<forall>f0. free_pages f0 = 0 \<and> mem (pte root (PML4_ENTRY virt_addr)) AND PTE_PRESENT = 0 \<longrightarrow>
        Map root virt_addr phys_addr flgs (f0, mem) = None)"
proof
  from kernel.map_page_correct [OF assms(3,1,2,4), of virt_addr phys_addr] obtain f' mem' where
    m: "Map root virt_addr phys_addr flgs (f, mem) = Some (f', mem')" "source_ok f'" "source_left f \<le> source_left f' + 3"
      "tree_ok table_ptr (source_taken Phy2Vir f') mem' root" and
    e: "\<And>va. entry_of table_ptr mem' root va =
       (if same_page va virt_addr then (phys_addr AND PAGE_MASK) OR flgs else entry_of table_ptr mem root va)"
    unfolding Map_def by blast
  have "AnalyzePageTable mem' root va = (if same_page va virt_addr
           then if flgs AND PTE_PRESENT = 0 then 0 else (phys_addr AND PAGE_MASK) + (va AND NOT PAGE_MASK)
           else AnalyzePageTable mem root va)" for va
    unfolding AnalyzePageTable_entry Let_def e by (simp add: entry_present leaf_address [OF assms(4)])
  with m show "\<exists>f' mem'. Map root virt_addr phys_addr flgs (f, mem) = Some (f', mem') \<and> source_ok f' \<and>
       source_left f \<le> source_left f' + 3 \<and> tree_ok table_ptr (source_taken Phy2Vir f') mem' root \<and>
       (\<forall>va. AnalyzePageTable mem' root va =
          (if same_page va virt_addr
           then if flgs AND PTE_PRESENT = 0 then 0 else (phys_addr AND PAGE_MASK) + (va AND NOT PAGE_MASK)
           else AnalyzePageTable mem root va))" by blast
  show "\<forall>f0. free_pages f0 = 0 \<and> mem (pte root (PML4_ENTRY virt_addr)) AND PTE_PRESENT = 0 \<longrightarrow>
        Map root virt_addr phys_addr flgs (f0, mem) = None"
    by (auto simp: Map_def map_page_def map_level_def kernel_page_def AllocPages_def)
qed

text \<open>An allocator of eight pages from 1 MiB on, all free, and a memory of zeros with a top table at 4 KiB.\<close>

definition fm8 :: FrameMem where
  "fm8 = \<lparr>total_pages = 8, free_pages = 8, bitmap_size = 1, bitmap = [0],
     pages = replicate 8 \<lparr>page_flag = PAGE_FREE, vaddr = 0, page_count = 0\<rparr>,
     start_addr = 0x100000, start_usable = 0x100000\<rparr>"

lemma fm8_ok: "source_ok fm8" "3 \<le> source_left fm8" "used fm8 = {}"
proof -
  have "filter (bm_test (bitmap fm8)) [0..<unat (total_pages fm8)] = []" by code_simp
  then show u: "used fm8 = {}" by (auto simp: used_def marked_def filter_empty_conv)
  have "frame_ok fm8" unfolding frame_ok_def u by (simp add: fm8_def)
  then show "source_ok fm8" by (simp add: source_ok_def fm8_def aligned_def PAGE_MASK_def PAGE_SIZE_def)
  show "3 \<le> source_left fm8" by (simp add: source_left_def fm8_def)
qed

lemma fm8_tree: "tree_ok table_ptr (source_taken Phy2Vir fm8) (\<lambda>_. 0) 0x1000"
proof (rule tree_ok_empty)
  show "aligned 0x1000" by (simp add: aligned_def PAGE_MASK_def PAGE_SIZE_def)
  have "(0x1000 :: u64) \<noteq> Phy2Vir (frame_addr fm8 i)" if "i < 8" for i
  proof
    assume "(0x1000 :: u64) = Phy2Vir (frame_addr fm8 i)"
    then have "frame_addr fm8 i = 0x1000 - IDENTITY_BASE" unfolding Phy2Vir_def by (metis add_diff_cancel_right')
    moreover have "unat (frame_addr fm8 i) < 2 ^ 44"
      using unat_frame_addr(2) [OF fm8_ok(1)] that by (simp add: fm8_def)
    ultimately show False by (simp add: IDENTITY_BASE_def)
  qed
  then show "0x1000 \<in> source_taken Phy2Vir fm8" by (auto simp: source_taken_def fm8_def)
qed simp

theorem Map_updates_translation_witness:
  "\<exists>f' mem'. Map 0x1000 0x400000 0x7000 7 (fm8, \<lambda>_. 0) = Some (f', mem') \<and>
     AnalyzePageTable mem' 0x1000 0x400123 = 0x7123 \<and> AnalyzePageTable mem' 0x1000 0x401000 = 0"
proof -
  have "(7 :: u64) AND PAGE_MASK = 0" by (simp add: PAGE_MASK_def PAGE_SIZE_def)
  note M = Map_updates_translation [OF fm8_ok(1,2) fm8_tree this, where virt_addr = "0x400000" and phys_addr = "0x7000"]
  have s: "same_page 0x400123 0x400000" "\<not> same_page 0x401000 0x400000" by code_simp+
  have v: "(0x7000 AND PAGE_MASK) + (0x400123 AND NOT PAGE_MASK) = 0x7123" "(7 :: u64) AND PTE_PRESENT \<noteq> 0" by code_simp+
  have z: "AnalyzePageTable (\<lambda>_. 0) 0x1000 0x401000 = 0" by (simp add: AnalyzePageTable_def Let_def)
  show ?thesis using M s v z by auto
qed

end
