(* ===== verification/LibcStr.thy ===== *)
theory LibcStr
  imports Prelude
begin

text \<open>
  The string and memory functions of the C library: \<^verbatim>\<open>lib/klibc/string.c\<close> (the file of the user library
  is the same).  They work on a memory of bytes; a function that looks for a closing zero has no
  result when there is none.
\<close>

type_synonym bytes = "u64 \<Rightarrow> byte"

section \<open>Memory\<close>

fun memchr_from :: "bytes \<Rightarrow> byte \<Rightarrow> u64 \<Rightarrow> nat \<Rightarrow> ptr" where
  "memchr_from m ch p 0 = None"
| "memchr_from m ch p (Suc n) = (if m p = ch then Some p else memchr_from m ch (p + 1) n)"

definition memchr :: "bytes \<Rightarrow> u64 \<Rightarrow> u32 \<Rightarrow> u64 \<Rightarrow> ptr" where
  "memchr m s c n = memchr_from m (ucast c) s (unat n)"

fun memcmp_from :: "bytes \<Rightarrow> u64 \<Rightarrow> u64 \<Rightarrow> nat \<Rightarrow> int" where
  "memcmp_from m s1 s2 0 = 0"
| "memcmp_from m s1 s2 (Suc n) =
     (if m s1 \<noteq> m s2 then if m s1 < m s2 then -1 else 1 else memcmp_from m (s1 + 1) (s2 + 1) n)"

definition memcmp :: "bytes \<Rightarrow> u64 \<Rightarrow> u64 \<Rightarrow> u64 \<Rightarrow> int" where
  "memcmp m s1 s2 n = memcmp_from m s1 s2 (unat n)"

fun copy_up :: "u64 \<Rightarrow> u64 \<Rightarrow> nat \<Rightarrow> bytes \<Rightarrow> bytes" where
  "copy_up d s 0 m = m"
| "copy_up d s (Suc n) m = copy_up (d + 1) (s + 1) n (m(d := m s))"

fun copy_down :: "u64 \<Rightarrow> u64 \<Rightarrow> nat \<Rightarrow> bytes \<Rightarrow> bytes" where
  "copy_down d s 0 m = m"
| "copy_down d s (Suc n) m = copy_down (d - 1) (s - 1) n (m(d := m s))"

definition memcpy :: "u64 \<Rightarrow> u64 \<Rightarrow> u64 \<Rightarrow> bytes \<Rightarrow> bytes" where
  "memcpy d s len m = copy_up d s (unat len) m"

definition memmove :: "u64 \<Rightarrow> u64 \<Rightarrow> u64 \<Rightarrow> bytes \<Rightarrow> bytes" where
  "memmove d s len m =
     (if d < s then copy_up d s (unat len) m
      else copy_down (d + (len - 1)) (s + (len - 1)) (unat len) m)"

fun fill :: "u64 \<Rightarrow> byte \<Rightarrow> nat \<Rightarrow> bytes \<Rightarrow> bytes" where
  "fill p v 0 m = m"
| "fill p v (Suc n) m = fill (p + 1) v n (m(p := v))"

definition memset :: "u64 \<Rightarrow> u32 \<Rightarrow> u64 \<Rightarrow> bytes \<Rightarrow> bytes" where
  "memset d val len m = fill d (ucast val) (unat len) m"

section \<open>Strings\<close>

definition str_end :: "bytes \<Rightarrow> u64 \<Rightarrow> u64 option" where
  "str_end m s = loop (\<lambda>p. Some (if m p \<noteq> 0 then Next (p + 1) else Done p)) s"

definition strlen :: "bytes \<Rightarrow> u64 \<Rightarrow> u64 option" where
  "strlen m s = map_option (\<lambda>p. p - s) (str_end m s)"

text \<open>The loop that copies up to and with the closing zero.\<close>

definition copy_str :: "u64 \<Rightarrow> u64 \<Rightarrow> bytes \<Rightarrow> bytes option" where
  "copy_str d s m = loop (\<lambda>(d, s, m). let v = m s; m' = m(d := v)
     in Some (if v \<noteq> 0 then Next (d + 1, s + 1, m') else Done m')) (d, s, m)"

definition strcpy :: "u64 \<Rightarrow> u64 \<Rightarrow> bytes \<Rightarrow> bytes option" where
  "strcpy d s m = copy_str d s m"

definition strcat :: "u64 \<Rightarrow> u64 \<Rightarrow> bytes \<Rightarrow> bytes option" where
  "strcat d s m = do { e \<leftarrow> str_end m d; copy_str e s m }"

definition strchr_for :: "bytes \<Rightarrow> u64 \<Rightarrow> byte \<Rightarrow> ptr option" where
  "strchr_for m s ch = loop (\<lambda>p. Some (if m p \<noteq> ch then if m p = 0 then Done None else Next (p + 1) else Done (Some p))) s"

definition strchr :: "bytes \<Rightarrow> u64 \<Rightarrow> u32 \<Rightarrow> ptr option" where
  "strchr m s c = strchr_for m s (ucast c)"

definition strcmp :: "bytes \<Rightarrow> u64 \<Rightarrow> u64 \<Rightarrow> int option" where
  "strcmp m s1 s2 = loop (\<lambda>(p1, p2). Some (
     if m p1 = m p2 then if m p1 = 0 then Done 0 else Next (p1 + 1, p2 + 1)
     else Done (uint (m p1) - uint (m p2)))) (s1, s2)"

fun strncat_from :: "u64 \<Rightarrow> u64 \<Rightarrow> nat \<Rightarrow> bytes \<Rightarrow> bytes" where
  "strncat_from d s 0 m = m(d := 0)"
| "strncat_from d s (Suc n) m = (if m s \<noteq> 0 then strncat_from (d + 1) (s + 1) n (m(d := m s)) else m(d := 0))"

definition strncat :: "u64 \<Rightarrow> u64 \<Rightarrow> u64 \<Rightarrow> bytes \<Rightarrow> bytes option" where
  "strncat d s n m = do { e \<leftarrow> str_end m d; Some (strncat_from e s (unat n) m) }"

fun strncmp_from :: "bytes \<Rightarrow> u64 \<Rightarrow> u64 \<Rightarrow> nat \<Rightarrow> int" where
  "strncmp_from m p1 p2 0 = 0"
| "strncmp_from m p1 p2 (Suc n) =
     (if m p1 \<noteq> m p2 then uint (m p1) - uint (m p2)
      else if m p1 = 0 then 0
      else strncmp_from m (p1 + 1) (p2 + 1) n)"

definition strncmp :: "bytes \<Rightarrow> u64 \<Rightarrow> u64 \<Rightarrow> u64 \<Rightarrow> int" where
  "strncmp m s1 s2 n = strncmp_from m s1 s2 (unat n)"

fun strncpy_from :: "u64 \<Rightarrow> u64 \<Rightarrow> nat \<Rightarrow> bytes \<Rightarrow> bytes" where
  "strncpy_from d s 0 m = m"
| "strncpy_from d s (Suc n) m = (if m s \<noteq> 0 then strncpy_from (d + 1) (s + 1) n (m(d := m s)) else fill d 0 (Suc n) m)"

definition strncpy :: "u64 \<Rightarrow> u64 \<Rightarrow> u64 \<Rightarrow> bytes \<Rightarrow> bytes" where
  "strncpy d s n m = strncpy_from d s (unat n) m"

fun strnlen_from :: "bytes \<Rightarrow> u64 \<Rightarrow> nat \<Rightarrow> nat" where
  "strnlen_from m s 0 = 0"
| "strnlen_from m s (Suc n) = (if m s \<noteq> 0 then Suc (strnlen_from m (s + 1) n) else 0)"

definition strnlen :: "bytes \<Rightarrow> u64 \<Rightarrow> u64 \<Rightarrow> u64" where
  "strnlen m s maxlen = of_nat (strnlen_from m s (unat maxlen))"

definition strpbrk :: "bytes \<Rightarrow> u64 \<Rightarrow> u64 \<Rightarrow> ptr option" where
  "strpbrk m s charset = loop (\<lambda>p.
     if m p \<noteq> 0 then do { r \<leftarrow> strchr_for m charset (m p); Some (if r \<noteq> None then Done (Some p) else Next (p + 1)) }
     else Some (Done None)) s"

definition strrchr :: "bytes \<Rightarrow> u64 \<Rightarrow> u32 \<Rightarrow> ptr option" where
  "strrchr m s c = (let ch = ucast c in
     loop (\<lambda>(p, last). Some (
       if m p \<noteq> 0 then Next (p + 1, if m p = ch then Some p else last)
       else Done (if ch = 0 then Some p else last))) (s, None))"

text \<open>The end of the bytes from \<open>s\<close> on that are, or are not, in a set.\<close>

definition span_end :: "bool \<Rightarrow> bytes \<Rightarrow> u64 \<Rightarrow> u64 \<Rightarrow> u64 option" where
  "span_end inside m s charset = loop (\<lambda>p.
     if m p \<noteq> 0 then do { r \<leftarrow> strchr_for m charset (m p); Some (if (r \<noteq> None) = inside then Next (p + 1) else Done p) }
     else Some (Done p)) s"

definition strspn :: "bytes \<Rightarrow> u64 \<Rightarrow> u64 \<Rightarrow> u64 option" where
  "strspn m s accept = map_option (\<lambda>p. p - s) (span_end True m s accept)"

definition strcspn :: "bytes \<Rightarrow> u64 \<Rightarrow> u64 \<Rightarrow> u64 option" where
  "strcspn m s reject = map_option (\<lambda>p. p - s) (span_end False m s reject)"

text \<open>Does the needle start at \<open>h\<close>?\<close>

definition starts_at :: "bytes \<Rightarrow> u64 \<Rightarrow> u64 \<Rightarrow> bool option" where
  "starts_at m h n = loop (\<lambda>(h, n). Some (if m n \<noteq> 0 \<and> m h = m n then Next (h + 1, n + 1) else Done (m n = 0))) (h, n)"

definition strstr :: "bytes \<Rightarrow> u64 \<Rightarrow> u64 \<Rightarrow> ptr option" where
  "strstr m haystack needle =
     (if m needle = 0 then Some (Some haystack)
      else loop (\<lambda>p. if m p \<noteq> 0 then do {
          found \<leftarrow> starts_at m p needle;
          Some (if found then Done (Some p) else Next (p + 1)) }
        else Some (Done None)) haystack)"

text \<open>\<open>saved_token\<close> is the static variable of \<open>strtok\<close>.\<close>

definition strtok :: "ptr \<Rightarrow> u64 \<Rightarrow> bytes \<times> ptr \<Rightarrow> (ptr \<times> bytes \<times> ptr) option" where
  "strtok s delim = (\<lambda>(m, saved_token).
     (case (if s = None then saved_token else s) of
        None \<Rightarrow> Some (None, m, saved_token)
      | Some p \<Rightarrow> do {
          token \<leftarrow> span_end True m p delim;
          if m token = 0 then Some (None, m, None) else do {
            e \<leftarrow> span_end False m token delim;
            Some (if m e \<noteq> 0 then (Some token, m(e := 0), Some (e + 1)) else (Some token, m, None)) } }))"

section \<open>Strings in memory\<close>

fun cstr :: "bytes \<Rightarrow> u64 \<Rightarrow> byte list \<Rightarrow> bool" where
  "cstr m p [] = (m p = 0)"
| "cstr m p (c # cs) = (m p = c \<and> c \<noteq> 0 \<and> cstr m (p + 1) cs)"

lemma cstr_nonzero: "cstr m p cs \<Longrightarrow> 0 \<notin> set cs"
  by (induction cs arbitrary: p) auto

lemma str_end_correct: "cstr m p cs \<Longrightarrow> str_end m p = Some (p + of_nat (length cs))"
proof (induction cs arbitrary: p)
  case (Cons c cs)
  have "str_end m p = str_end m (p + 1)" unfolding str_end_def by (rule loop_Next) (use Cons.prems in auto)
  with Cons show ?case by (simp add: ac_simps)
qed (simp add: str_end_def loop_Done)

lemma strlen_correct: "cstr m p cs \<Longrightarrow> strlen m p = Some (of_nat (length cs))"
  by (simp add: strlen_def str_end_correct)

text \<open>The comparison of strings as a function of the strings.\<close>

fun str_compare :: "byte list \<Rightarrow> byte list \<Rightarrow> int" where
  "str_compare [] [] = 0"
| "str_compare [] (d # ds) = - uint d"
| "str_compare (c # cs) [] = uint c"
| "str_compare (c # cs) (d # ds) = (if c = d then str_compare cs ds else uint c - uint d)"

lemma strcmp_correct: "cstr m p cs \<Longrightarrow> cstr m q ds \<Longrightarrow> strcmp m p q = Some (str_compare cs ds)"
proof (induction cs ds arbitrary: p q rule: str_compare.induct)
  case (4 c cs d ds)
  show ?case
  proof (cases "c = d")
    case True
    have "strcmp m p q = strcmp m (p + 1) (q + 1)"
      unfolding strcmp_def by (rule loop_Next) (use 4 True in auto)
    with 4 True show ?thesis by simp
  next
    case False
    with 4 show ?thesis by (simp add: strcmp_def loop_Done)
  qed
qed (auto simp: strcmp_def loop_Done)

text \<open>The position of a byte in a string; the closing zero counts.\<close>

lemma strchr_for_correct:
  "cstr m p cs \<Longrightarrow> strchr_for m p ch =
     Some (if ch \<in> set cs then Some (p + of_nat (length (takeWhile (\<lambda>c. c \<noteq> ch) cs)))
       else if ch = 0 then Some (p + of_nat (length cs)) else None)"
proof (induction cs arbitrary: p)
  case Nil
  then show ?case by (simp add: strchr_for_def loop_Done)
next
  case (Cons c cs)
  show ?case
  proof (cases "c = ch")
    case True
    with Cons.prems show ?thesis by (simp add: strchr_for_def loop_Done)
  next
    case False
    have "strchr_for m p ch = strchr_for m (p + 1) ch"
      unfolding strchr_for_def by (rule loop_Next) (use Cons.prems False in auto)
    with Cons False show ?thesis by (simp add: ac_simps)
  qed
qed

lemma starts_at_correct:
  "cstr m n ns \<Longrightarrow> cstr m h hs \<Longrightarrow> starts_at m h n = Some (take (length ns) hs = ns)"
proof (induction ns arbitrary: n h hs)
  case Nil
  then show ?case by (simp add: starts_at_def loop_Done)
next
  case (Cons c cs)
  show ?case
  proof (cases "hs \<noteq> [] \<and> hd hs = c")
    case True
    then obtain hs' where hs: "hs = c # hs'" by (cases hs) auto
    have "starts_at m h n = starts_at m (h + 1) (n + 1)"
      unfolding starts_at_def by (rule loop_Next) (use Cons.prems hs in auto)
    with Cons hs show ?thesis by simp
  next
    case False
    have "m h \<noteq> c" using Cons.prems False by (cases hs) auto
    then have "starts_at m h n = Some False" using Cons.prems by (simp add: starts_at_def loop_Done)
    moreover have "take (length (c # cs)) hs \<noteq> c # cs" using False by (cases hs) auto
    ultimately show ?thesis by simp
  qed
qed

text \<open>\<open>strstr\<close> finds the first occurrence.\<close>

fun first_occ :: "byte list \<Rightarrow> byte list \<Rightarrow> nat option" where
  "first_occ ns [] = (if ns = [] then Some 0 else None)"
| "first_occ ns (h # hs) = (if take (length ns) (h # hs) = ns then Some 0 else map_option Suc (first_occ ns hs))"

lemma strstr_correct:
  assumes n: "cstr m n ns"
  shows "cstr m h hs \<Longrightarrow> strstr m h n = Some (map_option (\<lambda>i. h + of_nat i) (first_occ ns hs))"
proof (cases "ns = []")
  case True
  then have "m n = 0" using n by simp
  then have "strstr m h n = Some (Some h)" by (simp add: strstr_def)
  moreover have "first_occ ns hs = Some 0" using True by (cases hs) simp_all
  ultimately show ?thesis by simp
next
  case False
  then have mn: "m n \<noteq> 0" using n by (cases ns) auto
  let ?body = "\<lambda>p. if m p \<noteq> 0 then do {
          found \<leftarrow> starts_at m p n;
          Some (if found then Done (Some p) else Next (p + 1)) }
        else Some (Done None)"
  have "cstr m h hs \<Longrightarrow> loop ?body h = Some (map_option (\<lambda>i. h + of_nat i) (first_occ ns hs))" for h
  proof (induction hs arbitrary: h)
    case Nil
    then show ?case using False by (simp add: loop_Done)
  next
    case (Cons c cs)
    then have s: "starts_at m h n = Some (take (length ns) (c # cs) = ns)" using starts_at_correct [OF n] by blast
    show ?case
    proof (cases "take (length ns) (c # cs) = ns")
      case True
      then have "?body h = Some (Done (Some h))" using s Cons.prems by simp
      with True show ?thesis by (simp add: loop_Done)
    next
      case no: False
      then have "?body h = Some (Next (h + 1))" using s Cons.prems by simp
      then have "loop ?body h = loop ?body (h + 1)" by (rule loop_Next)
      with Cons.IH [of "h + 1"] Cons.prems no show ?thesis by (cases "first_occ ns cs") (auto simp: ac_simps)
    qed
  qed
  then show "cstr m h hs \<Longrightarrow> strstr m h n = Some (map_option (\<lambda>i. h + of_nat i) (first_occ ns hs))"
    using mn by (simp add: strstr_def)
qed

section \<open>Copying\<close>

text \<open>
  The effect of a copy on the whole memory; the regions may overlap as long as no byte is overwritten
  before it is read.
\<close>

definition copied :: "u64 \<Rightarrow> u64 \<Rightarrow> nat \<Rightarrow> bytes \<Rightarrow> bytes" where
  "copied d s n m = (\<lambda>x. if unat (x - d) < n then m (s + (x - d)) else m x)"

lemma unat_pred: "x \<noteq> 0 \<Longrightarrow> unat (x - 1 :: u64) = unat x - 1"
  by (simp add: unat_minus_one)

lemma copy_up_spec:
  "\<forall>i j. i < j \<longrightarrow> j < n \<longrightarrow> s + of_nat j \<noteq> d + of_nat i \<Longrightarrow> n \<le> 2 ^ 64 \<Longrightarrow> copy_up d s n m = copied d s n m"
proof (induction n arbitrary: d s m)
  case (Suc n)
  let ?m = "m(d := m s)"
  have safe: "s + of_nat k \<noteq> d" if "0 < k" "k < Suc n" for k using Suc.prems(1) that by force
  have "\<forall>i j. i < j \<longrightarrow> j < n \<longrightarrow> s + 1 + of_nat j \<noteq> d + 1 + of_nat i"
  proof (intro allI impI)
    fix i j :: nat assume "i < j" "j < n"
    then have "s + of_nat (Suc j) \<noteq> d + of_nat (Suc i)" using Suc.prems(1) by blast
    then show "s + 1 + of_nat j \<noteq> d + 1 + of_nat i" by (simp add: add.assoc)
  qed
  then have IH: "copy_up (d + 1) (s + 1) n ?m = copied (d + 1) (s + 1) n ?m" using Suc.IH Suc.prems(2) by simp
  show ?case
  proof (rule ext)
    fix x
    show "copy_up d s (Suc n) m x = copied d s (Suc n) m x"
    proof (cases "x = d")
      case True
      have "x - (d + 1) = -1" using True by simp
      then have "unat (x - (d + 1)) = unat (-1 :: u64)" by (rule arg_cong)
      then have "unat (x - (d + 1)) = 2 ^ 64 - 1" by (simp add: unsigned_minus_1_eq_mask mask_eq_exp_minus_1)
      then show ?thesis using True IH Suc.prems(2) by (simp add: copied_def)
    next
      case False
      let ?k = "unat (x - d)"
      have k: "x - d \<noteq> 0" using False by simp
      have e: "x - (d + 1) = (x - d) - 1" by simp
      have u: "unat (x - (d + 1)) = ?k - 1" "0 < ?k" unfolding e using unat_pred [OF k] k by (simp_all add: unat_gt_0)
      have a: "s + 1 + (x - (d + 1)) = s + (x - d)" by simp
      have "s + (x - d) \<noteq> d" if "?k < Suc n" using safe [OF u(2) that] by simp
      then show ?thesis using IH u False unfolding copied_def a by (auto simp: a)
    qed
  qed
qed (simp add: copied_def)

lemma copy_down_spec:
  "\<forall>i j. j < i \<longrightarrow> i < n \<longrightarrow> s + of_nat j \<noteq> d + of_nat i \<Longrightarrow> n \<le> 2 ^ 64 \<Longrightarrow>
    copy_down (d + (of_nat n - 1)) (s + (of_nat n - 1)) n m = copied d s n m"
proof (induction n arbitrary: m)
  case (Suc n)
  let ?m = "m(d + of_nat n := m (s + of_nat n))"
  have un: "unat (of_nat n :: u64) = n" using Suc.prems(2) by (simp add: unat_of_nat)
  have "\<forall>i j. j < i \<longrightarrow> i < n \<longrightarrow> s + of_nat j \<noteq> d + of_nat i" using Suc.prems(1) by simp
  then have IH: "copy_down (d + (of_nat n - 1)) (s + (of_nat n - 1)) n ?m = copied d s n ?m"
    using Suc.IH Suc.prems(2) by simp
  have st: "copy_down (d + (of_nat (Suc n) - 1)) (s + (of_nat (Suc n) - 1)) (Suc n) m =
      copy_down (d + (of_nat n - 1)) (s + (of_nat n - 1)) n ?m"
    by (simp add: add_diff_eq)
  show ?case
  proof (rule ext)
    fix x
    show "copy_down (d + (of_nat (Suc n) - 1)) (s + (of_nat (Suc n) - 1)) (Suc n) m x = copied d s (Suc n) m x"
    proof (cases "x = d + of_nat n")
      case True
      then have "unat (x - d) = n" using un by simp
      then show ?thesis using True unfolding st IH by (simp add: copied_def)
    next
      case False
      have ne: "unat (x - d) \<noteq> n"
      proof
        assume "unat (x - d) = n"
        then have "x - d = of_nat n" using un by (simp add: word_unat_eq_iff)
        then show False using False by (simp add: diff_eq_eq add.commute)
      qed
      have "s + (x - d) \<noteq> d + of_nat n" if "unat (x - d) < n"
        using Suc.prems(1) [rule_format, OF that lessI] by simp
      then show ?thesis using ne False unfolding st IH by (auto simp: copied_def)
    qed
  qed
qed (simp add: copied_def)

lemma memcpy_correct:
  assumes "unat d + unat n \<le> 2 ^ 64" "unat s + unat n \<le> 2 ^ 64" "d \<le> s \<or> unat s + unat n \<le> unat d"
  shows "memcpy d s n m = copied d s (unat n) m"
  unfolding memcpy_def
proof (rule copy_up_spec)
  have u: "unat (a + of_nat i) = unat a + i" if "unat a + unat n \<le> 2 ^ 64" "i < unat n" for a :: u64 and i
  proof -
    have "unat (of_nat i :: u64) = i" using that by (simp add: unat_of_nat)
    then show ?thesis using that by (simp add: unat_word_ariths)
  qed
  show "\<forall>i j. i < j \<longrightarrow> j < unat n \<longrightarrow> s + of_nat j \<noteq> d + of_nat i"
  proof (intro allI impI notI)
    fix i j assume ij: "i < j" "j < unat n" "s + of_nat j = d + of_nat i"
    then have "unat s + j = unat d + i" using u [OF assms(2), of j] u [OF assms(1), of i] by simp
    then show False using assms(3) ij by (auto simp: word_le_nat_alt)
  qed
qed (use assms in linarith)

lemma memmove_correct:
  assumes "unat d + unat n \<le> 2 ^ 64" "unat s + unat n \<le> 2 ^ 64"
  shows "memmove d s n m = copied d s (unat n) m"
proof (cases "d < s")
  case True
  then show ?thesis using memcpy_correct [OF assms disjI1, of m] by (simp add: memmove_def memcpy_def)
next
  case False
  have u: "unat (a + of_nat i) = unat a + i" if "unat a + unat n \<le> 2 ^ 64" "i < unat n" for a :: u64 and i
  proof -
    have "unat (of_nat i :: u64) = i" using that by (simp add: unat_of_nat)
    then show ?thesis using that by (simp add: unat_word_ariths)
  qed
  have "\<forall>i j. j < i \<longrightarrow> i < unat n \<longrightarrow> s + of_nat j \<noteq> d + of_nat i"
  proof (intro allI impI notI)
    fix i j assume ij: "j < i" "i < unat n" "s + of_nat j = d + of_nat i"
    then have "unat s + j = unat d + i" using u [OF assms(2), of j] u [OF assms(1), of i] by simp
    then show False using False ij by (auto simp: word_less_nat_alt)
  qed
  moreover have "unat n \<le> 2 ^ 64" using assms by linarith
  ultimately have "copy_down (d + (of_nat (unat n) - 1)) (s + (of_nat (unat n) - 1)) (unat n) m = copied d s (unat n) m"
    by (rule copy_down_spec)
  with False show ?thesis by (simp add: memmove_def)
qed

section \<open>Tokens\<close>

lemma cstr_append:
  "cstr m p (xs @ ys) \<longleftrightarrow> (\<forall>i < length xs. m (p + of_nat i) = xs ! i \<and> xs ! i \<noteq> 0) \<and> cstr m (p + of_nat (length xs)) ys"
proof (induction xs arbitrary: p)
  case (Cons x xs)
  have "(\<forall>i < length (x # xs). m (p + of_nat i) = (x # xs) ! i \<and> (x # xs) ! i \<noteq> 0) \<longleftrightarrow>
      m p = x \<and> x \<noteq> 0 \<and> (\<forall>i < length xs. m (p + 1 + of_nat i) = xs ! i \<and> xs ! i \<noteq> 0)"
    by (auto simp: less_Suc_eq_0_disj add.assoc)
  then show ?case using Cons by (auto simp: add.assoc)
qed simp

lemma span_end_correct:
  assumes q: "cstr m q ds"
  shows "cstr m p cs \<Longrightarrow> span_end inside m p q = Some (p + of_nat (length (takeWhile (\<lambda>c. (c \<in> set ds) = inside) cs)))"
proof (induction cs arbitrary: p)
  case Nil
  then show ?case by (simp add: span_end_def loop_Done)
next
  case (Cons c cs)
  then have c: "m p = c" "c \<noteq> 0" by auto
  have r: "\<exists>x. strchr_for m q c = Some x \<and> (x \<noteq> None) = (c \<in> set ds)"
    using strchr_for_correct [OF q, of c] c(2) by auto
  show ?case
  proof (cases "(c \<in> set ds) = inside")
    case True
    have "span_end inside m p q = span_end inside m (p + 1) q"
      unfolding span_end_def by (rule loop_Next) (use c r True in auto)
    with Cons True show ?thesis by (simp add: ac_simps)
  next
    case False
    have "span_end inside m p q = Some p"
      unfolding span_end_def by (rule loop_Done) (use c r False in auto)
    with False show ?thesis by simp
  qed
qed

text \<open>
  One call of \<open>strtok\<close>: the next token, closed with a zero, and the place where the next call goes on.
\<close>

lemma strtok_correct:
  assumes p: "cstr m p cs" and q: "cstr m q ds" and len: "length cs < 2 ^ 64"
  defines "rest \<equiv> dropWhile (\<lambda>c. c \<in> set ds) cs"
  defines "token \<equiv> takeWhile (\<lambda>c. c \<notin> set ds) rest"
  defines "t \<equiv> p + of_nat (length cs - length rest)"
  shows "rest = [] \<Longrightarrow> strtok (Some p) q (m, saved) = Some (None, m, None)"
    and "rest \<noteq> [] \<Longrightarrow> \<exists>m' saved'. strtok (Some p) q (m, saved) = Some (Some t, m', saved') \<and> cstr m' t token \<and>
      (if token = rest then saved' = None \<and> m' = m
       else saved' = Some (t + of_nat (Suc (length token))) \<and> m' = m(t + of_nat (length token) := 0))"
proof -
  let ?skip = "takeWhile (\<lambda>c. c \<in> set ds) cs"
  have cs: "cs = ?skip @ rest" by (simp add: rest_def)
  have len_skip: "length ?skip = length cs - length rest" using arg_cong [OF cs, of length] by simp
  have tok: "span_end True m p q = Some t" using span_end_correct [OF q p, of True] by (simp add: t_def len_skip)
  have r: "cstr m t rest" using p cs cstr_append [of m p ?skip rest] by (simp add: t_def len_skip)
  show "strtok (Some p) q (m, saved) = Some (None, m, None)" if "rest = []"
    using r that tok by (simp add: strtok_def)
  assume ne: "rest \<noteq> []"
  then have mt: "m t \<noteq> 0" using r by (cases rest) auto
  let ?e = "t + of_nat (length token)"
  have e: "span_end False m t q = Some ?e" using span_end_correct [OF q r, of False] by (simp add: token_def)
  obtain ys where ys: "rest = token @ ys" unfolding token_def by (metis takeWhile_dropWhile_id)
  have ce: "cstr m ?e ys" "\<forall>i < length token. m (t + of_nat i) = token ! i \<and> token ! i \<noteq> 0"
    using r cstr_append [of m t token ys] ys by simp_all
  have lt: "length token < 2 ^ 64" using arg_cong [OF ys, of length] arg_cong [OF cs, of length] len by simp
  show "\<exists>m' saved'. strtok (Some p) q (m, saved) = Some (Some t, m', saved') \<and> cstr m' t token \<and>
      (if token = rest then saved' = None \<and> m' = m
       else saved' = Some (t + of_nat (Suc (length token))) \<and> m' = m(t + of_nat (length token) := 0))"
  proof (cases ys)
    case Nil
    then show ?thesis using ys ce tok e mt r by (simp add: strtok_def)
  next
    case (Cons y zs)
    then have me: "m ?e \<noteq> 0" "token \<noteq> rest" using ce(1) ys by auto
    have "(m(?e := 0)) (t + of_nat i) = token ! i" if "i < length token" for i
    proof -
      have "(of_nat i :: u64) \<noteq> of_nat (length token)"
        using that lt by (simp add: word_unat_eq_iff unat_of_nat)
      then show ?thesis using ce(2) that by simp
    qed
    then have "cstr (m(?e := 0)) t (token @ [])" unfolding cstr_append using ce(2) by simp
    then show ?thesis using me tok e mt by (simp add: strtok_def add.assoc add.commute [of 1])
  qed
qed

end
