(* ===== verification/LibcChars.thy ===== *)
theory LibcChars
  imports LibcStr "HOL-Library.Signed_Division"
begin

text \<open>
  The small functions of the C library: character classes (\<^verbatim>\<open>lib/klibc/ctype.c\<close>), conversion of
  digits (\<^verbatim>\<open>atoi.c\<close>), division with remainder (\<^verbatim>\<open>div.c\<close>), the random number generator
  (\<^verbatim>\<open>rand.c\<close>) and the environment (\<^verbatim>\<open>getenv.c\<close>, \<^verbatim>\<open>setenv.c\<close>, \<^verbatim>\<open>unsetenv.c\<close>).  Signed arithmetic
  that leaves the range of its type has no result.
\<close>

abbreviation (input) asc :: "char \<Rightarrow> byte" where "asc c \<equiv> of_char c"
abbreviation (input) asc_int :: "char \<Rightarrow> int" where "asc_int c \<equiv> of_char c"

definition c_int :: "int \<Rightarrow> int option" where
  "c_int i = (if - (2 ^ 31) \<le> i \<and> i < 2 ^ 31 then Some i else None)"

definition c_long :: "int \<Rightarrow> int option" where
  "c_long i = (if - (2 ^ 63) \<le> i \<and> i < 2 ^ 63 then Some i else None)"

section \<open>Character classes\<close>

definition isblank :: "int \<Rightarrow> bool" where
  "isblank c \<longleftrightarrow> c = asc_int CHR '' '' \<or> c = 9"

definition iscntrl :: "int \<Rightarrow> bool" where
  "iscntrl c \<longleftrightarrow> c \<ge> 0 \<and> c \<le> 0x1F \<or> c = 0x7F"

definition isdigit :: "int \<Rightarrow> bool" where
  "isdigit c \<longleftrightarrow> c \<ge> asc_int CHR ''0'' \<and> c \<le> asc_int CHR ''9''"

definition isgraph :: "int \<Rightarrow> bool" where
  "isgraph c \<longleftrightarrow> c \<ge> asc_int CHR ''!'' \<and> c \<le> asc_int CHR ''~''"

definition islower :: "int \<Rightarrow> bool" where
  "islower c \<longleftrightarrow> c \<ge> asc_int CHR ''a'' \<and> c \<le> asc_int CHR ''z''"

definition isupper :: "int \<Rightarrow> bool" where
  "isupper c \<longleftrightarrow> c \<ge> asc_int CHR ''A'' \<and> c \<le> asc_int CHR ''Z''"

definition isalpha :: "int \<Rightarrow> bool" where
  "isalpha c \<longleftrightarrow> islower c \<or> isupper c"

definition isalnum :: "int \<Rightarrow> bool" where
  "isalnum c \<longleftrightarrow> isalpha c \<or> isdigit c"

definition isprint :: "int \<Rightarrow> bool" where
  "isprint c \<longleftrightarrow> c \<ge> asc_int CHR '' '' \<and> c \<le> asc_int CHR ''~''"

definition ispunct :: "int \<Rightarrow> bool" where
  "ispunct c \<longleftrightarrow> isgraph c \<and> \<not> isalnum c"

definition isspace :: "int \<Rightarrow> bool" where
  "isspace c \<longleftrightarrow> c = asc_int CHR '' '' \<or> c = 9 \<or> c = 10 \<or> c = 13 \<or> c = 11 \<or> c = 12"

definition isxdigit :: "int \<Rightarrow> bool" where
  "isxdigit c \<longleftrightarrow> isdigit c \<or> c \<ge> asc_int CHR ''a'' \<and> c \<le> asc_int CHR ''f'' \<or> c \<ge> asc_int CHR ''A'' \<and> c \<le> asc_int CHR ''F''"

definition tolower :: "int \<Rightarrow> int" where
  "tolower c = (if isupper c then c + 32 else c)"

definition toupper :: "int \<Rightarrow> int" where
  "toupper c = (if islower c then c - 32 else c)"

lemmas ctype_defs = isblank_def iscntrl_def isdigit_def isgraph_def islower_def isupper_def
  isalpha_def isalnum_def isprint_def ispunct_def isspace_def isxdigit_def tolower_def toupper_def

text \<open>The classes divide the 128 characters: a character is printable or a control character, never
  both, and what is printable is a blank, a letter or digit, or punctuation.\<close>

lemma isprint_cntrl: "0 \<le> c \<Longrightarrow> c \<le> 127 \<Longrightarrow> isprint c \<longleftrightarrow> \<not> iscntrl c"
  by (auto simp: ctype_defs)

lemma isprint_cases: "isprint c \<longleftrightarrow> c = 32 \<or> isalnum c \<or> ispunct c"
  by (auto simp: ctype_defs)

lemma case_roundtrip: "isalpha c \<Longrightarrow> isupper (toupper c) \<and> islower (tolower c) \<and> tolower (toupper c) = tolower c"
  by (auto simp: ctype_defs)

section \<open>Digits to numbers\<close>

definition skip_space :: "bytes \<Rightarrow> u64 \<Rightarrow> u64 option" where
  "skip_space m p = loop (\<lambda>p. Some (if isspace (uint (m p)) then Next (p + 1) else Done p)) p"

definition digits_body :: "(int \<Rightarrow> int option) \<Rightarrow> bytes \<Rightarrow> u64 \<times> int \<Rightarrow> (u64 \<times> int, int) step option" where
  "digits_body chk m = (\<lambda>(p, result).
     if isdigit (uint (m p)) then do {
       result' \<leftarrow> chk (result * 10 + (uint (m p) - asc_int CHR ''0''));
       Some (Next (p + 1, result')) }
     else Some (Done result))"

definition take_digits :: "(int \<Rightarrow> int option) \<Rightarrow> bytes \<Rightarrow> u64 \<Rightarrow> int option" where
  "take_digits chk m p = loop (digits_body chk m) (p, 0)"

text \<open>What the three functions share; they differ in the type of the result.\<close>

definition ato :: "(int \<Rightarrow> int option) \<Rightarrow> bytes \<Rightarrow> u64 \<Rightarrow> int option" where
  "ato chk m nptr = do {
     p \<leftarrow> skip_space m nptr;
     let signed = (m p = asc CHR ''-'' \<or> m p = asc CHR ''+'');
     let sign = (if signed \<and> m p = asc CHR ''-'' then -1 else 1);
     let p = (if signed then p + 1 else p);
     result \<leftarrow> take_digits chk m p;
     Some (sign * result) }"

definition atoi :: "bytes \<Rightarrow> u64 \<Rightarrow> int option" where
  "atoi m nptr = ato c_int m nptr"

definition atol :: "bytes \<Rightarrow> u64 \<Rightarrow> int option" where
  "atol m nptr = ato c_long m nptr"

definition atoll :: "bytes \<Rightarrow> u64 \<Rightarrow> int option" where
  "atoll m nptr = ato c_long m nptr"

text \<open>\<open>bytes_at m p cs\<close>: the bytes \<open>cs\<close> stand in memory from \<open>p\<close> on.\<close>

fun bytes_at :: "bytes \<Rightarrow> u64 \<Rightarrow> byte list \<Rightarrow> bool" where
  "bytes_at m p [] \<longleftrightarrow> True"
| "bytes_at m p (c # cs) \<longleftrightarrow> m p = c \<and> bytes_at m (p + 1) cs"

lemma bytes_at_append [simp]: "bytes_at m p (xs @ ys) \<longleftrightarrow> bytes_at m p xs \<and> bytes_at m (p + of_nat (length xs)) ys"
  by (induction xs arbitrary: p) (auto simp: algebra_simps)

definition decimal :: "byte list \<Rightarrow> int \<Rightarrow> int" where
  "decimal ds acc = foldl (\<lambda>r c. r * 10 + (uint c - 48)) acc ds"

lemma decimal_simps [simp]: "decimal [] acc = acc" "decimal (c # ds) acc = decimal ds (acc * 10 + (uint c - 48))"
  by (simp_all add: decimal_def)

lemma decimal_append: "decimal (ds @ es) acc = decimal es (decimal ds acc)"
  by (simp add: decimal_def)

definition digits :: "byte list \<Rightarrow> bool" where
  "digits ds \<longleftrightarrow> (\<forall>c \<in> set ds. isdigit (uint c))"

lemma decimal_ge: "digits ds \<Longrightarrow> 0 \<le> acc \<Longrightarrow> acc \<le> decimal ds acc"
proof (induction ds arbitrary: acc)
  case (Cons c ds)
  then have "0 \<le> acc * 10 + (uint c - 48)" "acc \<le> acc * 10 + (uint c - 48)" by (auto simp: digits_def isdigit_def)
  moreover have "digits ds" using Cons.prems by (simp add: digits_def)
  ultimately show ?case using Cons.IH [of "acc * 10 + (uint c - 48)"] by simp
qed simp

lemma skip_space_correct:
  assumes "bytes_at m p ws" "\<And>w. w \<in> set ws \<Longrightarrow> isspace (uint w)" "\<not> isspace (uint (m (p + of_nat (length ws))))"
  shows "skip_space m p = Some (p + of_nat (length ws))"
  using assms
proof (induction ws arbitrary: p)
  case Nil
  then show ?case by (simp add: skip_space_def loop_Done)
next
  case (Cons w ws)
  have "skip_space m p = skip_space m (p + 1)"
    using Cons.prems(1,2) unfolding skip_space_def by (subst loop_Next [where s' = "p + 1"]) auto
  also have "\<dots> = Some (p + 1 + of_nat (length ws))"
    using Cons.prems by (intro Cons.IH) (auto simp: algebra_simps)
  finally show ?case by (simp add: algebra_simps)
qed

lemma take_digits_loop:
  assumes "bytes_at m p ds" "digits ds" "\<not> isdigit (uint (m (p + of_nat (length ds))))" "0 \<le> acc"
    "\<And>i. 0 \<le> i \<Longrightarrow> i \<le> decimal ds acc \<Longrightarrow> chk i = Some i"
  shows "loop (digits_body chk m) (p, acc) = Some (decimal ds acc)"
  using assms
proof (induction ds arbitrary: p acc)
  case Nil
  then show ?case by (simp add: loop_Done digits_body_def)
next
  case (Cons c ds)
  let ?acc = "acc * 10 + (uint c - 48)"
  have c: "isdigit (uint c)" "m p = c" and ds: "digits ds" using Cons.prems(1,2) by (auto simp: digits_def)
  have pos: "0 \<le> ?acc" using c(1) Cons.prems(4) by (simp add: isdigit_def)
  have "chk ?acc = Some ?acc" using decimal_ge [OF ds pos] pos Cons.prems(5) by simp
  then have body: "digits_body chk m (p, acc) = Some (Next (p + 1, ?acc))"
    using c by (simp add: digits_body_def)
  show ?case unfolding loop_Next [of "digits_body chk m" "(p, acc)", OF body]
    using Cons.IH [of "p + 1" ?acc] Cons.prems pos ds by (simp add: algebra_simps)
qed

lemma take_digits_correct:
  assumes "bytes_at m p ds" "digits ds" "\<not> isdigit (uint (m (p + of_nat (length ds))))"
    "\<And>i. 0 \<le> i \<Longrightarrow> i \<le> decimal ds 0 \<Longrightarrow> chk i = Some i"
  shows "take_digits chk m p = Some (decimal ds 0)"
  unfolding take_digits_def by (rule take_digits_loop) (use assms in auto)

text \<open>What the conversion makes of blanks, an optional sign, and digits.\<close>

lemma ato_correct:
  assumes at: "bytes_at m p (ws @ sg @ ds)" and ws: "\<And>w. w \<in> set ws \<Longrightarrow> isspace (uint w)"
    and sg: "sg = [] \<or> sg = [0x2D] \<or> sg = [0x2B]" and ds: "digits ds" "ds \<noteq> []"
    and stop: "\<not> isdigit (uint (m (p + of_nat (length (ws @ sg @ ds)))))"
    and chk: "\<And>i. 0 \<le> i \<Longrightarrow> i \<le> decimal ds 0 \<Longrightarrow> chk i = Some i"
  shows "ato chk m p = Some ((if sg = [0x2D] then -1 else 1) * decimal ds 0)"
proof -
  let ?p = "p + of_nat (length ws)"
  have d: "isdigit (uint (hd ds))" using ds by (cases ds) (auto simp: digits_def)
  have first: "m ?p = hd (sg @ ds)" using at sg ds(2) by (cases ds) auto
  then have "\<not> isspace (uint (m ?p))" using sg d by (auto simp: isspace_def isdigit_def)
  then have "skip_space m p = Some ?p" using at ws by (intro skip_space_correct) auto
  moreover have "take_digits chk m (if sg = [] then ?p else ?p + 1) = Some (decimal ds 0)"
    using at ds stop chk sg by (intro take_digits_correct) (auto simp: algebra_simps)
  moreover have "m ?p = 0x2D \<longleftrightarrow> sg = [0x2D]" "m ?p = 0x2B \<longleftrightarrow> sg = [0x2B]"
    using first sg d by (auto simp: isdigit_def)
  ultimately show ?thesis using sg by (auto simp: ato_def Let_def)
qed

section \<open>Division\<close>

text \<open>The three functions share their body; the types of the numbers differ.\<close>

definition div_body :: "(int \<Rightarrow> int option) \<Rightarrow> int \<Rightarrow> int \<Rightarrow> (int \<times> int) option" where
  "div_body chk numerator denominator =
     (if denominator = 0 then Some (0, 0)
      else do {
        q \<leftarrow> chk (numerator sdiv denominator);
        let r = numerator smod denominator;
        Some (if r < 0 \<and> numerator > 0 then (q - 1, r + denominator)
              else if r > 0 \<and> numerator < 0 then (q + 1, r - denominator)
              else (q, r)) })"

definition div_int :: "int \<Rightarrow> int \<Rightarrow> (int \<times> int) option" where
  "div_int numerator denominator = div_body c_int numerator denominator"

definition ldiv :: "int \<Rightarrow> int \<Rightarrow> (int \<times> int) option" where
  "ldiv numerator denominator = div_body c_long numerator denominator"

definition lldiv :: "int \<Rightarrow> int \<Rightarrow> (int \<times> int) option" where
  "lldiv numerator denominator = div_body c_long numerator denominator"

text \<open>The quotient is rounded towards zero, so that neither correction is ever made.\<close>

lemma div_body_correct:
  assumes "d \<noteq> 0" "chk (n sdiv d) = Some (n sdiv d)"
  shows "div_body chk n d = Some (n sdiv d, n smod d)" "n = (n sdiv d) * d + n smod d" "\<bar>n smod d\<bar> < \<bar>d\<bar>"
proof -
  have "0 \<le> \<bar>n\<bar> mod \<bar>d\<bar>" using assms(1) by simp
  then have "\<not> (n smod d < 0 \<and> n > 0)" "\<not> (n smod d > 0 \<and> n < 0)"
    by (auto simp: smod_int_alt_def)
  then show "div_body chk n d = Some (n sdiv d, n smod d)" using assms by (simp add: div_body_def Let_def)
  show "n = (n sdiv d) * d + n smod d" by (simp add: sdiv_mult_smod_eq)
  show "\<bar>n smod d\<bar> < \<bar>d\<bar>" using smod_int_range [OF assms(1), of n] by auto
qed

section \<open>Random numbers\<close>

definition RAND_MAX :: u32 where
  "RAND_MAX = 32767"

definition rand :: "u64 \<Rightarrow> u32 \<times> u64" where
  "rand seed = (let seed' = seed * 1103515245 + 12345
     in (ucast (seed' div 65536) mod (RAND_MAX + 1), seed'))"

definition srand :: "u32 \<Rightarrow> u64" where
  "srand seed = ucast seed"

lemma rand_bounds: "fst (rand seed) \<le> RAND_MAX"
proof -
  have "unat (x mod 32768 :: u32) < 32768" for x by (simp add: unat_mod)
  then show ?thesis by (simp add: rand_def Let_def RAND_MAX_def word_le_nat_alt less_Suc_eq_le [symmetric])
qed

end
