(* ===== verification/LibcFormat.thy ===== *)
theory LibcFormat
  imports LibcChars
begin

unbundle bit_operations_syntax

text \<open>
  Formatted output of the C library: \<^verbatim>\<open>lib/klibc/sprintf.c\<close>.  The text goes to memory at the
  cursor \<^verbatim>\<open>str\<close>, and what the caller passes behind the format is a list of eight-byte argument
  slots: \<^verbatim>\<open>va_arg (args, int)\<close> reads the low half of a slot, \<^verbatim>\<open>va_arg (args, unsigned long)\<close> the whole.
  A run that reads a slot too many, overflows an \<^verbatim>\<open>int\<close> or follows a format without closing zero has
  no result.
\<close>

definition LEFT :: u32 where "LEFT = 1"
definition PLUS :: u32 where "PLUS = 2"
definition SPACE :: u32 where "SPACE = 4"
definition SPECIAL :: u32 where "SPECIAL = 8"
definition ZEROPAD :: u32 where "ZEROPAD = 16"
definition SIGN :: u32 where "SIGN = 32"
definition SMALL :: u32 where "SMALL = 64"

lemmas flag_defs = LEFT_def PLUS_def SPACE_def SPECIAL_def ZEROPAD_def SIGN_def SMALL_def

section \<open>Writing at the cursor\<close>

type_synonym out = "bytes \<times> u64"

definition put :: "byte \<Rightarrow> out \<Rightarrow> out" where
  "put c = (\<lambda>(m, str). (m(str := c), str + 1))"

definition puts :: "byte list \<Rightarrow> out \<Rightarrow> out" where
  "puts cs st = fold put cs st"

text \<open>The loop \<^verbatim>\<open>while (size-- > 0)\<close>, with the value it leaves in its counter.\<close>

definition pad :: "byte \<Rightarrow> int \<Rightarrow> out \<Rightarrow> (out \<times> int) option" where
  "pad c n st = do {
     n' \<leftarrow> c_int ((if 0 < n then 0 else n) - 1);
     Some (puts (replicate (nat n) c) st, n') }"

section \<open>Numbers\<close>

definition is_digit_char :: "byte \<Rightarrow> bool" where
  "is_digit_char c \<longleftrightarrow> c \<ge> asc CHR ''0'' \<and> c \<le> asc CHR ''9''"

definition skip_body :: "bytes \<Rightarrow> u64 \<times> int \<Rightarrow> (u64 \<times> int, u64 \<times> int) step option" where
  "skip_body m = (\<lambda>(s, i).
     if is_digit_char (m s) then do {
       i' \<leftarrow> c_int (i * 10 + uint (m s));
       Some (Next (s + 1, i' - asc_int CHR ''0'')) }
     else Some (Done (s, i)))"

definition skip_atoi :: "bytes \<Rightarrow> u64 \<Rightarrow> (u64 \<times> int) option" where
  "skip_atoi m s = loop (skip_body m) (s, 0)"

definition upper_digits :: "byte list" where
  "upper_digits = map of_char ''0123456789ABCDEFGHIJKLMNOPQRSTUVWXYZ''"

definition lower_digits :: "byte list" where
  "lower_digits = map of_char ''0123456789abcdefghijklmnopqrstuvwxyz''"

text \<open>The digits the division loop stores in \<^verbatim>\<open>tmp\<close>, the lowest first.  \<^verbatim>\<open>number\<close> has returned before
  the loop when the base is below 2.\<close>

function digit_loop :: "byte list \<Rightarrow> u64 \<Rightarrow> u64 \<Rightarrow> byte list" where
  "digit_loop digs base num =
     (if num = 0 \<or> base < 2 then [] else digs ! unat (num mod base) # digit_loop digs base (num div base))"
  by auto
termination
proof (relation "measure (\<lambda>(_, _, num). unat num)")
  fix digs :: "byte list" and base num :: u64
  assume "\<not> (num = 0 \<or> base < 2)"
  then have "0 < unat num" "1 < unat base" by (auto simp: word_less_nat_alt unat_gt_0)
  then show "((digs, base, num div base), digs, base, num) \<in> measure (\<lambda>(_, _, num). unat num)"
    by (simp add: unat_div)
qed simp

declare digit_loop.simps [simp del]

definition number :: "out \<Rightarrow> u64 \<Rightarrow> int \<Rightarrow> int \<Rightarrow> int \<Rightarrow> u32 \<Rightarrow> (bytes \<times> ptr) option" where
  "number st num base width precision flags =
     (let digs = (if flags AND SMALL \<noteq> 0 then lower_digits else upper_digits);
          flags = (if flags AND LEFT \<noteq> 0 then flags AND NOT ZEROPAD else flags)
      in if base < 2 \<or> base > 36 then Some (fst st, None)
         else
           let c = (if flags AND ZEROPAD \<noteq> 0 then asc CHR ''0'' else asc CHR '' '');
               (sign, num, width) =
                 (if flags AND SIGN \<noteq> 0 then
                    if sint num < 0 then (Some (asc CHR ''-''), - num, width - 1)
                    else if flags AND PLUS \<noteq> 0 then (Some (asc CHR ''+''), num, width - 1)
                    else if flags AND SPACE \<noteq> 0 then (Some (asc CHR '' ''), num, width - 1)
                    else (None, num, width)
                  else (None, num, width));
               width =
                 (if flags AND SPECIAL \<noteq> 0 then if base = 8 then width - 1 else if base = 16 then width - 2 else width
                  else width);
               tmp = (if num = 0 then [asc CHR ''0''] else digit_loop digs (of_int base) num);
               i = int (length tmp);
               precision = (if i > precision then i else precision)
           in do {
             width \<leftarrow> c_int (width - precision);
             (st, width) \<leftarrow> (if flags AND (ZEROPAD OR LEFT) = 0 then pad (asc CHR '' '') width st else Some (st, width));
             let st = (case sign of None \<Rightarrow> st | Some s \<Rightarrow> put s st);
             let st = (if flags AND SPECIAL \<noteq> 0 then
                         if base = 8 then put (asc CHR ''0'') st
                         else if base = 16 then
                           put (if flags AND SMALL \<noteq> 0 then asc CHR ''x'' else asc CHR ''X'') (put (asc CHR ''0'') st)
                         else st
                       else st);
             (st, width) \<leftarrow> (if flags AND LEFT = 0 then pad c width st else Some (st, width));
             let st = puts (replicate (nat (precision - i)) (asc CHR ''0'')) st;
             let st = puts (rev tmp) st;
             (st, width) \<leftarrow> pad (asc CHR '' '') width st;
             Some (fst st, Some (snd st)) })"

section \<open>Directives\<close>

definition va_long :: "u64 list \<Rightarrow> (u64 \<times> u64 list) option" where
  "va_long args = (case args of [] \<Rightarrow> None | a # args \<Rightarrow> Some (a, args))"

definition va_int :: "u64 list \<Rightarrow> (int \<times> u64 list) option" where
  "va_int args = (case args of [] \<Rightarrow> None | a # args \<Rightarrow> Some (sint (ucast a :: u32), args))"

definition flags_body :: "bytes \<Rightarrow> u64 \<times> u32 \<Rightarrow> (u64 \<times> u32, u64 \<times> u32) step option" where
  "flags_body m = (\<lambda>(fmt, flags).
     let fmt = fmt + 1; c = m fmt in Some (
       if c = asc CHR ''-'' then Next (fmt, flags OR LEFT)
       else if c = asc CHR ''+'' then Next (fmt, flags OR PLUS)
       else if c = asc CHR '' '' then Next (fmt, flags OR SPACE)
       else if c = asc CHR ''#'' then Next (fmt, flags OR SPECIAL)
       else if c = asc CHR ''0'' then Next (fmt, flags OR ZEROPAD)
       else Done (fmt, flags)))"

text \<open>From the percent sign to the character of the conversion: flags, width, precision, qualifier.\<close>

record spec =
  spec_flags :: u32
  spec_width :: int
  spec_precision :: int

definition parse_spec :: "bytes \<Rightarrow> u64 \<Rightarrow> u64 list \<Rightarrow> (u64 \<times> spec \<times> u64 list) option" where
  "parse_spec m fmt args = do {
     (fmt, flags) \<leftarrow> loop (flags_body m) (fmt, 0);
     (fmt, width, flags, args) \<leftarrow>
       (if is_digit_char (m fmt) then do { (fmt, w) \<leftarrow> skip_atoi m fmt; Some (fmt, w, flags, args) }
        else if m fmt = asc CHR ''*'' then do {
          (w, args) \<leftarrow> va_int args;
          if w < 0 then do { w \<leftarrow> c_int (- w); Some (fmt, w, flags OR LEFT, args) } else Some (fmt, w, flags, args) }
        else Some (fmt, -1, flags, args));
     (fmt, precision, args) \<leftarrow>
       (if m fmt = asc CHR ''.'' then do {
          let fmt = fmt + 1;
          (fmt, p, args) \<leftarrow>
            (if is_digit_char (m fmt) then do { (fmt, p) \<leftarrow> skip_atoi m fmt; Some (fmt, p, args) }
             else if m fmt = asc CHR ''*'' then do { (p, args) \<leftarrow> va_int args; Some (fmt, p, args) }
             else Some (fmt, -1, args));
          Some (fmt, (if p < 0 then 0 else p), args) }
        else Some (fmt, -1, args));
     let fmt = (if m fmt = asc CHR ''h'' \<or> m fmt = asc CHR ''l'' \<or> m fmt = asc CHR ''L'' then fmt + 1 else fmt);
     Some (fmt, \<lparr>spec_flags = flags, spec_width = width, spec_precision = precision\<rparr>, args) }"

text \<open>The loop \<^verbatim>\<open>while (--field_width > 0)\<close>.\<close>

definition pad_char :: "int \<Rightarrow> out \<Rightarrow> out \<times> int" where
  "pad_char n st = (puts (replicate (nat (n - 1)) (asc CHR '' '')) st, if 0 < n - 1 then 0 else n - 1)"

definition put_char :: "spec \<Rightarrow> out \<Rightarrow> u64 list \<Rightarrow> (out \<times> u64 list) option" where
  "put_char sp st args = do {
     let (st, width) = (if spec_flags sp AND LEFT = 0 then pad_char (spec_width sp) st else (st, spec_width sp));
     (v, args) \<leftarrow> va_int args;
     let st = put (word_of_int v) st;
     let (st, width) = pad_char width st;
     Some (st, args) }"

text \<open>The loop \<^verbatim>\<open>while (len < field_width--)\<close>.\<close>

definition pad_string :: "int \<Rightarrow> int \<Rightarrow> out \<Rightarrow> (out \<times> int) option" where
  "pad_string len n st = do {
     n' \<leftarrow> c_int ((if len < n then len else n) - 1);
     Some (puts (replicate (nat (n - len)) (asc CHR '' '')) st, n') }"

definition put_string :: "spec \<Rightarrow> out \<Rightarrow> u64 list \<Rightarrow> (out \<times> u64 list) option" where
  "put_string sp st args = do {
     (s, args) \<leftarrow> va_long args;
     n \<leftarrow> strlen (fst st) s;
     let len = sint (ucast n :: u32);
     let precision = spec_precision sp;
     let len = (if 0 \<le> precision \<and> len > precision then precision else len);
     (st, width) \<leftarrow> (if spec_flags sp AND LEFT = 0 then pad_string len (spec_width sp) st else Some (st, spec_width sp));
     let st = (case st of (m, str) \<Rightarrow> (copy_up str s (nat len) m, str + of_nat (nat len)));
     (st, width) \<leftarrow> pad_string len width st;
     Some (st, args) }"

definition put_number :: "u64 \<Rightarrow> int \<Rightarrow> spec \<Rightarrow> out \<Rightarrow> out option" where
  "put_number num base sp st = do {
     (m, p) \<leftarrow> number st num base (spec_width sp) (spec_precision sp) (spec_flags sp);
     str \<leftarrow> p;
     Some (m, str) }"

fun store_bytes :: "bytes \<Rightarrow> u64 \<Rightarrow> byte list \<Rightarrow> bytes" where
  "store_bytes m p [] = m"
| "store_bytes m p (c # cs) = store_bytes (m(p := c)) (p + 1) cs"

definition store_int :: "bytes \<Rightarrow> u64 \<Rightarrow> u32 \<Rightarrow> bytes" where
  "store_int m p v = store_bytes m p (map (\<lambda>i. ucast (drop_bit (8 * i) v)) [0..<4])"

text \<open>One directive: from its percent sign to the place where the format goes on.\<close>

definition directive :: "u64 \<Rightarrow> u64 \<Rightarrow> out \<Rightarrow> u64 list \<Rightarrow> (u64 \<times> out \<times> u64 list) option" where
  "directive buf fmt st args = do {
     (fmt, sp, args) \<leftarrow> parse_spec (fst st) fmt args;
     let c = fst st fmt;
     let next_fmt = fmt + 1;
     if c = asc CHR ''c'' then do { (st, args) \<leftarrow> put_char sp st args; Some (next_fmt, st, args) }
     else if c = asc CHR ''s'' then do { (st, args) \<leftarrow> put_string sp st args; Some (next_fmt, st, args) }
     else if c = asc CHR ''o'' then do {
       (a, args) \<leftarrow> va_long args; st \<leftarrow> put_number a 8 sp st; Some (next_fmt, st, args) }
     else if c = asc CHR ''p'' then do {
       (a, args) \<leftarrow> va_long args;
       let sp = (if spec_width sp = -1 then sp\<lparr>spec_width := 8, spec_flags := spec_flags sp OR ZEROPAD\<rparr> else sp);
       st \<leftarrow> put_number a 16 sp st; Some (next_fmt, st, args) }
     else if c = asc CHR ''x'' then do {
       (a, args) \<leftarrow> va_long args;
       st \<leftarrow> put_number a 16 (sp\<lparr>spec_flags := spec_flags sp OR SMALL\<rparr>) st; Some (next_fmt, st, args) }
     else if c = asc CHR ''X'' then do {
       (a, args) \<leftarrow> va_long args; st \<leftarrow> put_number a 16 sp st; Some (next_fmt, st, args) }
     else if c = asc CHR ''d'' \<or> c = asc CHR ''i'' then do {
       (a, args) \<leftarrow> va_long args;
       st \<leftarrow> put_number a 10 (sp\<lparr>spec_flags := spec_flags sp OR SIGN\<rparr>) st; Some (next_fmt, st, args) }
     else if c = asc CHR ''u'' then do {
       (a, args) \<leftarrow> va_long args; st \<leftarrow> put_number a 10 sp st; Some (next_fmt, st, args) }
     else if c = asc CHR ''n'' then do {
       (ip, args) \<leftarrow> va_long args;
       Some (next_fmt, (store_int (fst st) ip (ucast (snd st - buf)), snd st), args) }
     else do {
       let st = (if c \<noteq> asc CHR ''%'' then put (asc CHR ''%'') st else st);
       let c = fst st fmt;
       Some (if c \<noteq> 0 then (next_fmt, put c st, args) else (fmt, st, args)) } }"

section \<open>The four functions\<close>

definition vsprintf_body :: "u64 \<Rightarrow> u64 \<times> out \<times> u64 list \<Rightarrow> (u64 \<times> out \<times> u64 list, out) step option" where
  "vsprintf_body buf = (\<lambda>(fmt, st, args).
     let c = fst st fmt in
     if c = 0 then Some (Done st)
     else if c \<noteq> asc CHR ''%'' then Some (Next (fmt + 1, put c st, args))
     else map_option Next (directive buf fmt st args))"

definition vsprintf :: "bytes \<Rightarrow> u64 \<Rightarrow> u64 \<Rightarrow> u64 list \<Rightarrow> (bytes \<times> u32) option" where
  "vsprintf m buf fmt args = do {
     (m, str) \<leftarrow> loop (vsprintf_body buf) (fmt, (m, buf), args);
     Some (m(str := 0), ucast (str - buf)) }"

definition sprintf :: "bytes \<Rightarrow> u64 \<Rightarrow> u64 \<Rightarrow> u64 list \<Rightarrow> (bytes \<times> u32) option" where
  "sprintf m str format args = vsprintf m str format args"

definition vsnprintf_body :: "u64 \<Rightarrow> u64 \<Rightarrow> u64 \<times> out \<times> u64 list \<Rightarrow> (u64 \<times> out \<times> u64 list, out) step option" where
  "vsnprintf_body str n = (\<lambda>(format, st, args).
     let c = fst st format in
     if c = 0 then Some (Done st)
     else if sint (snd st - str) \<ge> sint (n - 1) then Some (Done st)
     else if c \<noteq> asc CHR ''%'' then Some (Next (format + 1, put c st, args))
     else map_option Next (directive str format st args))"

definition vsnprintf :: "bytes \<Rightarrow> u64 \<Rightarrow> u64 \<Rightarrow> u64 \<Rightarrow> u64 list \<Rightarrow> (bytes \<times> u32) option" where
  "vsnprintf m str n format args = do {
     (m, buf) \<leftarrow> loop (vsnprintf_body str n) (format, (m, str), args);
     Some (m(buf := 0), ucast (buf - str)) }"

definition snprintf :: "bytes \<Rightarrow> u64 \<Rightarrow> u64 \<Rightarrow> u64 \<Rightarrow> u64 list \<Rightarrow> (bytes \<times> u32) option" where
  "snprintf m buf n format args = vsnprintf m buf n format args"

end
