(* ===== verification/LibcNumber.thy ===== *)
theory LibcNumber
  imports LibcFormat
begin

text \<open>
  What \<open>number\<close> writes, as a list of bytes, and the proof that \<open>atol\<close> reads the number back whatever
  the width, the precision and the padding.
\<close>

section \<open>Writing bytes\<close>

lemma put_eq: "put c st = ((fst st)(snd st := c), snd st + 1)"
  by (simp add: put_def split: prod.splits)

lemma puts_Nil [simp]: "puts [] st = st"
  by (simp add: puts_def)

lemma puts_Cons: "puts (c # cs) st = puts cs (put c st)"
  by (simp add: puts_def)

lemma puts_one [simp]: "put c st = puts [c] st"
  by (simp add: puts_def)

lemma puts_append [simp]: "puts ys (puts xs st) = puts (xs @ ys) st"
  by (simp add: puts_def)

lemma snd_puts [simp]: "snd (puts cs st) = snd st + of_nat (length cs)"
  by (induction cs arbitrary: st) (auto simp: puts_Cons put_def algebra_simps simp del: puts_one split: prod.splits)

lemma puts_other: "(\<And>i. i < length cs \<Longrightarrow> a \<noteq> snd st + of_nat i) \<Longrightarrow> fst (puts cs st) a = fst st a"
proof (induction cs arbitrary: st)
  case (Cons c cs)
  have "fst (puts cs (put c st)) a = fst (put c st) a"
  proof (rule Cons.IH)
    fix i assume "i < length cs"
    then show "a \<noteq> snd (put c st) + of_nat i" using Cons.prems [of "Suc i"] by (simp add: put_eq algebra_simps)
  qed
  also have "\<dots> = fst st a" using Cons.prems [of 0] by (simp add: put_eq del: puts_one)
  finally show ?case by (simp add: puts_Cons del: puts_one)
qed simp

lemma bytes_at_cong: "(\<And>i. i < length cs \<Longrightarrow> m (p + of_nat i) = m' (p + of_nat i)) \<Longrightarrow> bytes_at m p cs = bytes_at m' p cs"
proof (induction cs arbitrary: p)
  case (Cons c cs)
  have "bytes_at m (p + 1) cs = bytes_at m' (p + 1) cs"
    using Cons.prems [of "Suc i" for i] by (intro Cons.IH) (simp add: algebra_simps)
  moreover have "m p = m' p" using Cons.prems [of 0] by simp
  ultimately show ?case by simp
qed simp

lemma offset_neq: "i < 2 ^ 64 \<Longrightarrow> j < 2 ^ 64 \<Longrightarrow> i \<noteq> j \<Longrightarrow> p + of_nat i \<noteq> (p + of_nat j :: u64)"
  using of_nat_inverse [where 'a = 64] by (auto dest: arg_cong [where f = unat])

lemma bytes_at_snoc:
  assumes "bytes_at m p cs" "length cs < 2 ^ 64"
  shows "bytes_at (m(p + of_nat (length cs) := c)) p (cs @ [c])"
proof -
  let ?q = "p + of_nat (length cs)"
  define m' where "m' = m(?q := c)"
  have "bytes_at m' p cs = bytes_at m p cs"
  proof (rule bytes_at_cong)
    fix i assume i: "i < length cs"
    then have "p + of_nat i \<noteq> ?q" using assms(2) by (intro offset_neq) simp_all
    then show "m' (p + of_nat i) = m (p + of_nat i)" by (simp add: m'_def)
  qed
  moreover have "m' ?q = c" by (simp add: m'_def)
  ultimately show ?thesis using assms(1) unfolding m'_def [symmetric] by simp
qed

lemma puts_bytes_at:
  assumes "length cs \<le> 2 ^ 64"
  shows "bytes_at (fst (puts cs st)) (snd st) cs"
  using assms
proof (induction cs arbitrary: st rule: rev_induct)
  case (snoc c cs)
  have "puts (cs @ [c]) st = put c (puts cs st)" by (simp add: puts_def del: puts_one)
  then have new: "fst (puts (cs @ [c]) st) = (fst (puts cs st))(snd st + of_nat (length cs) := c)"
    by (simp only: put_eq fst_conv snd_puts)
  show ?case unfolding new by (rule bytes_at_snoc) (use snoc in simp_all)
qed simp

section \<open>Digits\<close>

lemma uint_div_mod_10: "uint (num :: u64) = uint (num div 10) * 10 + uint (num mod 10)"
  by (simp add: uint_div uint_mod)

lemma ten_digits: "unat d < 10 \<Longrightarrow> digs = upper_digits \<or> digs = lower_digits \<Longrightarrow> uint (digs ! unat (d :: u64)) = uint d + 48"
proof -
  have "list_all (\<lambda>n. uint (upper_digits ! n) = int n + 48 \<and> uint (lower_digits ! n) = int n + 48) [0..<10]"
    by code_simp
  then show "unat d < 10 \<Longrightarrow> digs = upper_digits \<or> digs = lower_digits \<Longrightarrow> uint (digs ! unat d) = uint d + 48"
    by (auto simp: list_all_iff)
qed

lemma digit_loop_decimal:
  assumes "digs = upper_digits \<or> digs = lower_digits"
  shows "decimal (rev (digit_loop digs 10 num)) 0 = uint num \<and> digits (digit_loop digs 10 num)"
proof (induction "unat num" arbitrary: num rule: less_induct)
  case less
  show ?case
  proof (cases "num = 0")
    case True
    then show ?thesis by (simp add: digit_loop.simps digits_def)
  next
    case False
    then have "0 < unat num" by (simp add: unat_gt_0)
    then have lt: "unat (num div 10) < unat num" by (simp add: unat_div)
    have "unat (num mod 10) < 10" by (simp add: unat_mod)
    then have d: "uint (digs ! unat (num mod 10)) = uint (num mod 10) + 48" using assms by (rule ten_digits)
    have "uint (num mod 10) < 10" by (simp add: uint_mod)
    then have dig: "isdigit (uint (digs ! unat (num mod 10)))" unfolding d isdigit_def by simp
    have "digit_loop digs 10 num = digs ! unat (num mod 10) # digit_loop digs 10 (num div 10)"
      using False by (subst digit_loop.simps) simp
    then show ?thesis using less [OF lt] d dig uint_div_mod_10 [of num]
      by (simp add: decimal_append digits_def)
  qed
qed

lemma length_digit_loop: "2 \<le> base \<Longrightarrow> unat num < 2 ^ n \<Longrightarrow> length (digit_loop digs base num) \<le> n"
proof (induction n arbitrary: num)
  case 0
  then have "num = 0" by (simp add: unat_eq_zero)
  then show ?case by (simp add: digit_loop.simps)
next
  case (Suc n)
  have "2 \<le> unat base" using Suc.prems(1) by (simp add: word_le_nat_alt)
  then have "unat num div unat base \<le> unat num div 2" by (simp add: div_le_mono2)
  also have "\<dots> < 2 ^ n" using Suc.prems(2) by simp
  finally have "length (digit_loop digs base (num div base)) \<le> n" using Suc by (simp add: unat_div)
  then show ?case by (subst digit_loop.simps) simp
qed

section \<open>The text of a number\<close>

definition magnitude :: "byte list \<Rightarrow> u64 \<Rightarrow> u64 \<Rightarrow> byte list" where
  "magnitude digs base num = (if num = 0 then [0x30] else rev (digit_loop digs base num))"

definition sign_text :: "u64 \<Rightarrow> u32 \<Rightarrow> byte list" where
  "sign_text num flags =
     (if flags AND SIGN = 0 then []
      else if sint num < 0 then [0x2D]
      else if flags AND PLUS \<noteq> 0 then [0x2B]
      else if flags AND SPACE \<noteq> 0 then [0x20] else [])"

definition prefix_text :: "int \<Rightarrow> u32 \<Rightarrow> byte list" where
  "prefix_text base flags =
     (if flags AND SPECIAL = 0 then []
      else if base = 8 then [0x30]
      else if base = 16 then [0x30, if flags AND SMALL \<noteq> 0 then 0x78 else 0x58] else [])"

text \<open>A field: its text padded to a width on the left, on the right, or between sign and digits.\<close>

definition field :: "int \<Rightarrow> u32 \<Rightarrow> byte list \<Rightarrow> byte list \<Rightarrow> byte list" where
  "field width flags sg ds =
     (let n = nat (width - int (length sg) - int (length ds)) in
      if flags AND LEFT \<noteq> 0 then sg @ ds @ replicate n 0x20
      else if flags AND ZEROPAD \<noteq> 0 then sg @ replicate n 0x30 @ ds
      else replicate n 0x20 @ sg @ ds)"

definition number_text :: "u64 \<Rightarrow> int \<Rightarrow> int \<Rightarrow> int \<Rightarrow> u32 \<Rightarrow> byte list" where
  "number_text num base width precision flags =
     (let digs = (if flags AND SMALL \<noteq> 0 then lower_digits else upper_digits);
          mag = magnitude digs (of_int base) (if flags AND SIGN \<noteq> 0 \<and> sint num < 0 then - num else num)
      in field width flags (sign_text num flags @ prefix_text base flags)
           (replicate (nat precision - length mag) 0x30 @ mag))"

lemma flag_bits:
  "flags AND LEFT = 0 \<longleftrightarrow> \<not> bit flags 0" "flags AND PLUS = 0 \<longleftrightarrow> \<not> bit flags 1"
  "flags AND SPACE = 0 \<longleftrightarrow> \<not> bit flags 2" "flags AND SPECIAL = 0 \<longleftrightarrow> \<not> bit flags 3"
  "flags AND ZEROPAD = 0 \<longleftrightarrow> \<not> bit flags 4" "flags AND SIGN = 0 \<longleftrightarrow> \<not> bit flags 5"
  "flags AND SMALL = 0 \<longleftrightarrow> \<not> bit flags 6"
  using and_exp_eq_0_iff_not_bit [of flags 0] and_exp_eq_0_iff_not_bit [of flags 1] and_exp_eq_0_iff_not_bit [of flags 2]
    and_exp_eq_0_iff_not_bit [of flags 3] and_exp_eq_0_iff_not_bit [of flags 4] and_exp_eq_0_iff_not_bit [of flags 5]
    and_exp_eq_0_iff_not_bit [of flags 6]
  by (simp_all add: flag_defs)

lemma bit_ZEROPAD: "bit (NOT ZEROPAD) n \<longleftrightarrow> n < 32 \<and> n \<noteq> 4"
proof -
  have "bit (2 ^ 4 :: u32) n \<longleftrightarrow> n = 4" unfolding bit_exp_iff by auto
  then have "bit ZEROPAD n \<longleftrightarrow> n = 4" by (simp add: ZEROPAD_def)
  then show ?thesis by (auto simp: bit_not_iff)
qed

lemma pad_flags: "flags AND (ZEROPAD OR LEFT) = 0 \<longleftrightarrow> \<not> bit flags 4 \<and> \<not> bit flags 0"
  by (simp add: bit.conj_disj_distrib or_eq_0_iff flag_bits)

lemma pad_correct:
  "- (2 ^ 31) < n \<Longrightarrow> n < 2 ^ 31 \<Longrightarrow>
    pad c n st = Some (puts (replicate (nat n) c) st, (if 0 < n then 0 else n) - 1)"
  by (simp add: pad_def c_int_def)

text \<open>The last part of \<open>number\<close>: fill, sign and prefix, fill, digits, fill.\<close>

lemma layout:
  assumes "- (2 ^ 31) + 4 < w" "w < 2 ^ 31"
  shows "do {
      (st, w) \<leftarrow> (if A then pad 0x20 w st else Some (st, w));
      let st = puts sg st;
      (st, w) \<leftarrow> (if B then pad c w st else Some (st, w));
      let st = puts zs st;
      let st = puts ds st;
      (st, w) \<leftarrow> pad 0x20 w st;
      Some (fst st, Some (snd st)) } =
    (let t = puts (if A then replicate (nat w) 0x20 @ sg @ zs @ ds
                   else if B then sg @ replicate (nat w) c @ zs @ ds
                   else sg @ zs @ ds @ replicate (nat w) 0x20) st
     in Some (fst t, Some (snd t)))"
proof -
  have "pad x ((if 0 < v then 0 else v) - 1) st = Some (st, (if 0 < v then 0 else v) - 2)"
    if "- (2 ^ 31) + 2 < v" "v < 2 ^ 31" for x v st
    using that by (subst pad_correct) auto
  note after = this
  have after2: "pad x ((if 0 < w then 0 else w) - 2) st = Some (st, (if 0 < w then 0 else w) - 3)" for x st
    using assms by (subst pad_correct) auto
  show ?thesis
    using assms by (cases A; cases B) (simp_all add: pad_correct [of w] after after2 Let_def)
qed

lemma sign_put: "(case (if s then Some c else None) of None \<Rightarrow> st | Some c \<Rightarrow> put c st) = puts (if s then [c] else []) st"
  by simp

lemma magnitude_length:
  assumes "2 \<le> base"
  shows "1 \<le> length (magnitude digs base num)" "length (magnitude digs base num) \<le> 64"
proof -
  show "length (magnitude digs base num) \<le> 64"
    using length_digit_loop [of base num 64 digs] unsigned_less [of num] assms by (auto simp: magnitude_def)
  have "num \<noteq> 0 \<Longrightarrow> digit_loop digs base num \<noteq> []" using assms by (subst digit_loop.simps) (auto simp: not_less)
  then show "1 \<le> length (magnitude digs base num)" by (auto simp: magnitude_def Suc_le_eq)
qed

theorem number_correct:
  fixes st :: out and num :: u64 and flags :: u32
  assumes "base = 8 \<or> base = 10 \<or> base = 16" "-1 \<le> width" "width < 2 ^ 31" "precision < 2 ^ 31 - 10"
  defines "t \<equiv> puts (number_text num base width precision flags) st"
  shows "number st num base width precision flags = Some (fst t, Some (snd t))"
proof -
  let ?fl = "if flags AND LEFT \<noteq> 0 then flags AND NOT ZEROPAD else flags"
  have fl: "?fl AND LEFT = 0 \<longleftrightarrow> \<not> bit flags 0" "?fl AND PLUS = 0 \<longleftrightarrow> \<not> bit flags 1"
    "?fl AND SPACE = 0 \<longleftrightarrow> \<not> bit flags 2" "?fl AND SPECIAL = 0 \<longleftrightarrow> \<not> bit flags 3"
    "?fl AND ZEROPAD = 0 \<longleftrightarrow> bit flags 0 \<or> \<not> bit flags 4" "?fl AND SIGN = 0 \<longleftrightarrow> \<not> bit flags 5"
    "?fl AND SMALL = 0 \<longleftrightarrow> \<not> bit flags 6" "?fl AND (ZEROPAD OR LEFT) = 0 \<longleftrightarrow> \<not> bit flags 4 \<and> \<not> bit flags 0"
    by (auto simp: flag_bits pad_flags bit_and_iff bit_ZEROPAD)
  define digs where "digs = (if bit flags 6 then lower_digits else upper_digits)"
  define num' where "num' = (if bit flags 5 \<and> sint num < 0 then - num else num)"
  define mag where "mag = magnitude digs (of_int base) num'"
  define sg where "sg = sign_text num flags @ prefix_text base flags"
  have base2: "2 \<le> (of_int base :: u64)" using assms(1) by auto
  have mag: "1 \<le> length mag" "length mag \<le> 64" unfolding mag_def by (rule magnitude_length [OF base2])+
  have sg3: "length sg \<le> 3" by (auto simp: sg_def sign_text_def prefix_text_def)
  define P where "P = (if int (length mag) > precision then int (length mag) else precision)"
  define w where "w = width - int (length sg) - P"
  have w: "- (2 ^ 31) + 4 < w" "w < 2 ^ 31" using mag sg3 assms(2-4) by (auto simp: w_def P_def)
  have zeros: "nat precision - length mag = nat (P - int (length mag))" using mag by (auto simp: P_def)
  have count: "nat (width - int (length sg) - int (length (replicate (nat (P - int (length mag))) (0x30 :: byte) @ mag))) = nat w"
    using mag by (simp add: w_def P_def)
  have "number st num base width precision flags = do {
      (st, w) \<leftarrow> (if \<not> bit flags 4 \<and> \<not> bit flags 0 then pad 0x20 w st else Some (st, w));
      let st = puts sg st;
      (st, w) \<leftarrow> (if \<not> bit flags 0 then pad (if \<not> bit flags 0 \<and> bit flags 4 then 0x30 else 0x20) w st else Some (st, w));
      let st = puts (replicate (nat (P - int (length mag))) 0x30) st;
      let st = puts mag st;
      (st, w) \<leftarrow> pad 0x20 w st;
      Some (fst st, Some (snd st)) }"
  proof -
    let ?s = "sign_text num flags"
    have m: "(if num' = 0 then [asc CHR ''0''] else digit_loop digs (of_int base) num') = rev mag"
      by (simp add: mag_def magnitude_def)
    have triple: "(if bit flags 5 then
        if sint num < 0 then (Some (asc CHR ''-''), - num, width - 1)
        else if bit flags 1 then (Some (asc CHR ''+''), num, width - 1)
        else if bit flags 2 then (Some (asc CHR '' ''), num, width - 1)
        else (None, num, width)
      else (None, num, width)) = (case ?s of [] \<Rightarrow> None | c # _ \<Rightarrow> Some c, num', width - int (length ?s))"
      by (simp add: sign_text_def flag_bits num'_def)
    have pre_width: "(if bit flags 3 then if base = 8 then v - 1 else if base = 16 then v - 2 else v else v) =
        v - int (length (prefix_text base flags))" for v
      by (simp add: prefix_text_def flag_bits)
    have sign_out: "(case (case ?s of [] \<Rightarrow> None | c # _ \<Rightarrow> Some c) of None \<Rightarrow> st | Some c \<Rightarrow> put c st) = puts ?s st" for st
      by (simp add: sign_text_def)
    have pre_out: "(if bit flags 3 then if base = 8 then put (asc CHR ''0'') st
        else if base = 16 then put (if bit flags 6 then asc CHR ''x'' else asc CHR ''X'') (put (asc CHR ''0'') st) else st
      else st) = puts (prefix_text base flags) st" for st
      by (simp add: prefix_text_def flag_bits)
    have ascii: "asc CHR '' '' = 0x20" "asc CHR ''0'' = 0x30" by simp_all
    have b: "\<not> (base < 2 \<or> base > 36)" using assms(1) by auto
    have c: "width - int (length ?s) - int (length (prefix_text base flags)) - P = w" by (simp add: w_def sg_def)
    have cw: "c_int w = Some w" using w by (simp add: c_int_def)
    have lr: "int (length (rev mag)) = int (length mag)" "rev (rev mag) = mag" by simp_all
    show ?thesis
      unfolding number_def Let_def fl
      unfolding flag_bits not_not
      unfolding digs_def [symmetric] triple if_not_P [OF b]
      unfolding prod.case
      unfolding pre_width pre_out sign_out m lr P_def [symmetric] c cw bind.bind_lunit
      by (simp only: ascii de_Morgan_disj not_not puts_append sg_def)
  qed
  also have "\<dots> = Some (fst t, Some (snd t))"
    unfolding layout [OF w]
    unfolding t_def number_text_def field_def Let_def flag_bits not_not
      digs_def [symmetric] num'_def [symmetric] mag_def [symmetric] sg_def [symmetric] count zeros
    by (cases "bit flags 0"; cases "bit flags 4") simp_all
  finally show ?thesis .
qed

section \<open>Reading a number back\<close>

lemma digits_append [simp]: "digits (xs @ ys) \<longleftrightarrow> digits xs \<and> digits ys"
  by (auto simp: digits_def)

lemma digits_zeros [simp]: "digits (replicate n 0x30)"
  by (auto simp: digits_def isdigit_def)

lemma decimal_zeros: "decimal (replicate n 0x30 @ ds) 0 = decimal ds 0"
  by (induction n) simp_all

lemma magnitude_10:
  assumes "digs = upper_digits \<or> digs = lower_digits"
  shows "decimal (magnitude digs 10 num) 0 = uint num" "digits (magnitude digs 10 num)" "magnitude digs 10 num \<noteq> []"
proof -
  show "decimal (magnitude digs 10 num) 0 = uint num" "digits (magnitude digs 10 num)"
    using digit_loop_decimal [OF assms, of num] by (auto simp: magnitude_def digits_def isdigit_def)
  show "magnitude digs 10 num \<noteq> []" using magnitude_length(1) [of 10 digs num] by auto
qed

text \<open>In base ten with a sign, whatever the rest: blanks, at most one sign, digits, blanks.\<close>

lemma number_text_10:
  fixes num :: u64
  assumes "flags AND SIGN \<noteq> 0"
  defines "neg \<equiv> sint num < 0"
  shows "\<exists>ws sg ds n. number_text num 10 width precision flags = ws @ sg @ ds @ replicate n 0x20 \<and>
     (\<forall>w \<in> set ws. isspace (uint w)) \<and> (sg = [] \<or> sg = [0x2D] \<or> sg = [0x2B]) \<and>
     (sg = [0x2D] \<longleftrightarrow> neg) \<and> digits ds \<and> ds \<noteq> [] \<and> decimal ds 0 = uint (if neg then - num else num)"
proof -
  let ?digs = "if flags AND SMALL \<noteq> 0 then lower_digits else upper_digits"
  define mag where "mag = magnitude ?digs 10 (if neg then - num else num)"
  have mag: "decimal mag 0 = uint (if neg then - num else num)" "digits mag" "mag \<noteq> []"
    unfolding mag_def by (rule magnitude_10; simp)+
  define zs where "zs = replicate (nat precision - length mag) (0x30 :: byte)"
  have zmag: "decimal (zs @ mag) 0 = decimal mag 0" "digits (zs @ mag)" "zs @ mag \<noteq> []"
    using mag by (simp_all add: zs_def decimal_zeros)
  let ?S = "sign_text num flags"
  obtain ws sg where S: "?S = ws @ sg" "\<forall>w \<in> set ws. w = 0x20" "sg = [] \<or> sg = [0x2D] \<or> sg = [0x2B]" "sg = [0x2D] \<longleftrightarrow> neg"
  proof (cases "neg \<or> flags AND PLUS \<noteq> 0")
    case True
    then show ?thesis using assms(1) by (intro that [of "[]" ?S]) (auto simp: sign_text_def neg_def)
  next
    case False
    then show ?thesis using assms(1) by (intro that [of ?S "[]"]) (auto simp: sign_text_def neg_def)
  qed
  define n where "n = nat (width - int (length ?S) - int (length (zs @ mag)))"
  have shape: "number_text num 10 width precision flags =
     (if flags AND LEFT \<noteq> 0 then ws @ sg @ (zs @ mag) @ replicate n 0x20
      else if flags AND ZEROPAD \<noteq> 0 then ws @ sg @ (replicate n 0x30 @ zs @ mag) @ replicate 0 0x20
      else (replicate n 0x20 @ ws) @ sg @ (zs @ mag) @ replicate 0 0x20)"
    using assms(1) S(1) by (simp add: number_text_def field_def Let_def n_def zs_def mag_def neg_def prefix_text_def)
  have blank: "isspace (uint w)" if "w \<in> set (replicate k 0x20 @ ws)" for w :: byte and k
    using that S(2) by (auto simp: isspace_def)
  consider "flags AND LEFT \<noteq> 0" | "flags AND LEFT = 0" "flags AND ZEROPAD \<noteq> 0" | "flags AND LEFT = 0" "flags AND ZEROPAD = 0"
    by blast
  then show ?thesis
  proof cases
    case 1
    then show ?thesis using shape S(3,4) blank [of _ 0] zmag mag(1)
      by (intro exI [of _ ws] exI [of _ sg] exI [of _ "zs @ mag"] exI [of _ n]) simp
  next
    case 2
    then show ?thesis using shape S(3,4) blank [of _ 0] zmag mag(1)
      by (intro exI [of _ ws] exI [of _ sg] exI [of _ "replicate n 0x30 @ zs @ mag"] exI [of _ 0]) (simp add: decimal_zeros)
  next
    case 3
    then show ?thesis using shape S(3,4) blank [of _ n] zmag mag(1)
      by (intro exI [of _ "replicate n 0x20 @ ws"] exI [of _ sg] exI [of _ "zs @ mag"] exI [of _ 0]) simp
  qed
qed

lemma abs_sint: "num \<noteq> 0x8000000000000000 \<Longrightarrow>
    uint (if sint num < 0 then - num else num :: u64) = \<bar>sint num\<bar> \<and> \<bar>sint num\<bar> < 2 ^ 63"
proof -
  assume n: "num \<noteq> 0x8000000000000000"
  have w: "num = word_of_int (sint num)" by simp
  have "sint num \<noteq> - (2 ^ 63)"
  proof
    assume "sint num = - (2 ^ 63)"
    then have "num = word_of_int (- (2 ^ 63))" using w by simp
    with n show False by simp
  qed
  then have b: "- (2 ^ 63) < sint num" "sint num < 2 ^ 63" using sint_ge [of num] sint_lt [of num] by simp_all
  have "uint num = sint num mod 2 ^ 64" by (simp add: uint_sint take_bit_eq_mod)
  moreover have "- num = word_of_int (- sint num)" by simp
  then have "uint (- num) = (- sint num) mod 2 ^ 64" using uint_word_of_int [of "- sint num", where 'a = 64] by simp
  ultimately show ?thesis using b by auto
qed

text \<open>\<open>atol\<close> reads back what \<open>number\<close> wrote.\<close>

lemma atol_number_text:
  assumes "bytes_at m p (number_text num 10 width precision flags)"
    "\<not> isdigit (uint (m (p + of_nat (length (number_text num 10 width precision flags)))))"
    "flags AND SIGN \<noteq> 0" "num \<noteq> 0x8000000000000000"
  shows "atol m p = Some (sint num)"
proof -
  let ?neg = "sint num < 0"
  obtain ws sg ds n where t: "number_text num 10 width precision flags = ws @ sg @ ds @ replicate n 0x20"
     "\<forall>w \<in> set ws. isspace (uint w)" "sg = [] \<or> sg = [0x2D] \<or> sg = [0x2B]"
     "sg = [0x2D] \<longleftrightarrow> ?neg" "digits ds" "ds \<noteq> []" "decimal ds 0 = uint (if ?neg then - num else num)"
    using number_text_10 [OF assms(3), of num width precision] by auto
  have val: "decimal ds 0 = \<bar>sint num\<bar>" "\<bar>sint num\<bar> < 2 ^ 63" using t(7) abs_sint [OF assms(4)] by auto
  have stop: "\<not> isdigit (uint (m (p + of_nat (length (ws @ sg @ ds)))))"
  proof (cases n)
    case 0
    then show ?thesis using assms(2) t(1) by simp
  next
    case (Suc k)
    have "bytes_at m p ((ws @ sg @ ds) @ replicate n 0x20)" using assms(1) t(1) by simp
    then have "m (p + of_nat (length (ws @ sg @ ds))) = 0x20" unfolding bytes_at_append by (simp add: Suc)
    then show ?thesis by (simp add: isdigit_def)
  qed
  have "ato c_long m p = Some ((if sg = [0x2D] then -1 else 1) * decimal ds 0)"
  proof (rule ato_correct)
    have "bytes_at m p ((ws @ sg @ ds) @ replicate n 0x20)" using assms(1) t(1) by simp
    then show "bytes_at m p (ws @ sg @ ds)" unfolding bytes_at_append [of m p "ws @ sg @ ds"] by blast
  qed (use t(2-6) stop val in \<open>auto simp: c_long_def\<close>)
  then show ?thesis using t(4) val(1) by (auto simp: atol_def)
qed

end
