(* ===== verification/LibcSort.thy ===== *)
theory LibcSort
  imports LibcStr "HOL-Library.Multiset"
begin

text \<open>
  Sorting and searching of the C library: \<^verbatim>\<open>lib/klibc/qsort.c\<close> and \<^verbatim>\<open>bsearch.c\<close>.  An array of elements of
  \<^verbatim>\<open>size\<close> bytes is a list; the pointer \<^verbatim>\<open>base + i * size\<close> is the index \<open>i\<close>.  The locale \<open>comparison\<close> is what
  both demand of the function that compares elements.
\<close>

section \<open>Quick sort\<close>

definition swap_elems :: "nat \<Rightarrow> nat \<Rightarrow> 'a list \<Rightarrow> 'a list" where
  "swap_elems i j xs = xs[i := xs ! j, j := xs ! i]"

text \<open>The partition of \<open>n\<close> elements from \<open>base\<close> on, with the pivot at their end.\<close>

definition partition_step :: "('a \<Rightarrow> 'a \<Rightarrow> int) \<Rightarrow> nat \<Rightarrow> nat \<Rightarrow> nat \<Rightarrow> nat \<times> 'a list \<Rightarrow> nat \<times> 'a list" where
  "partition_step compar base pivot i = (\<lambda>(j, xs).
     if compar (xs ! (base + i)) (xs ! pivot) \<le> 0 then (j + 1, swap_elems (base + i) (base + j) xs) else (j, xs))"

definition quick_partition :: "('a \<Rightarrow> 'a \<Rightarrow> int) \<Rightarrow> nat \<Rightarrow> nat \<Rightarrow> 'a list \<Rightarrow> nat \<times> 'a list" where
  "quick_partition compar base n xs = fold (partition_step compar base (base + (n - 1))) [0..<n - 1] (0, xs)"

lemma fold_partition_le: "fst (fold (partition_step compar base p) [0..<k] (0, xs)) \<le> k"
  by (induction k) (auto simp: partition_step_def split: prod.splits)

lemma quick_partition_le: "(j, ys) = quick_partition compar base n xs \<Longrightarrow> j \<le> n - 1"
  using fold_partition_le [of compar base "base + (n - 1)" "n - 1" xs] by (simp add: quick_partition_def split: prod.splits) (metis fst_conv)

function quick_sort :: "('a \<Rightarrow> 'a \<Rightarrow> int) \<Rightarrow> nat \<Rightarrow> nat \<Rightarrow> 'a list \<Rightarrow> 'a list" where
  "quick_sort compar base n xs =
     (if n \<le> 1 then xs
      else let xs1 = swap_elems (base + n div 2) (base + (n - 1)) xs;
               (j, xs2) = quick_partition compar base n xs1;
               xs3 = swap_elems (base + j) (base + (n - 1)) xs2
           in quick_sort compar (base + (j + 1)) (n - j - 1) (quick_sort compar base j xs3))"
  by auto
termination
  by (relation "measure (\<lambda>(_, _, n, _). n)") (auto dest: quick_partition_le)

declare quick_sort.simps [simp del]

definition qsort :: "('a \<Rightarrow> 'a \<Rightarrow> int) option \<Rightarrow> 'a list option \<Rightarrow> nat \<Rightarrow> 'a list option" where
  "qsort compar base nmemb =
     (case (base, compar) of
        (Some xs, Some cmp) \<Rightarrow> if nmemb \<le> 1 then base else Some (quick_sort cmp 0 nmemb xs)
      | _ \<Rightarrow> base)"

section \<open>Binary search\<close>

definition bsearch_body :: "('a \<Rightarrow> 'a \<Rightarrow> int) \<Rightarrow> 'a \<Rightarrow> 'a list \<Rightarrow> u64 \<times> u64 \<Rightarrow> (u64 \<times> u64, u64 option) step option" where
  "bsearch_body compar key xs = (\<lambda>(low, high).
     if low \<le> high then
       let mid = (low + high) div 2 in
       if unat mid \<ge> length xs then None
       else let c = compar key (xs ! unat mid) in
         Some (if c < 0 then if mid = 0 then Done None else Next (low, mid - 1)
               else if c > 0 then Next (mid + 1, high)
               else Done (Some mid))
     else Some (Done None))"

definition bsearch :: "('a \<Rightarrow> 'a \<Rightarrow> int) \<Rightarrow> 'a \<Rightarrow> 'a list \<Rightarrow> u64 \<Rightarrow> u64 option option" where
  "bsearch compar key xs nmemb =
     (if nmemb = 0 then Some None else loop (bsearch_body compar key xs) (0, nmemb - 1))"

section \<open>Rearranging a segment\<close>

text \<open>\<open>ys\<close> is \<open>xs\<close> with the \<open>n\<close> elements from \<open>a\<close> on rearranged.\<close>

definition rearranged :: "nat \<Rightarrow> nat \<Rightarrow> 'a list \<Rightarrow> 'a list \<Rightarrow> bool" where
  "rearranged a n xs ys \<longleftrightarrow> length ys = length xs \<and> mset ys = mset xs \<and>
     (\<forall>i < length xs. i < a \<or> a + n \<le> i \<longrightarrow> ys ! i = xs ! i)"

lemma rearranged_refl [simp]: "rearranged a n xs xs"
  by (simp add: rearranged_def)

lemma rearranged_trans: "rearranged a n xs ys \<Longrightarrow> rearranged a n ys zs \<Longrightarrow> rearranged a n xs zs"
  by (simp add: rearranged_def)

lemma rearranged_mono: "rearranged b m xs ys \<Longrightarrow> a \<le> b \<Longrightarrow> b + m \<le> a + n \<Longrightarrow> rearranged a n xs ys"
  by (auto simp: rearranged_def)

lemma rearranged_swap:
  assumes "a + n \<le> length xs" "a \<le> i" "i < a + n" "a \<le> j" "j < a + n"
  shows "rearranged a n xs (swap_elems i j xs)"
  using assms by (auto simp: rearranged_def swap_elems_def mset_swap nth_list_update)

lemma swap_nth:
  assumes "i < length xs" "j < length xs" "k < length xs"
  shows "swap_elems i j xs ! k = (if k = j then xs ! i else if k = i then xs ! j else xs ! k)"
  using assms by (auto simp: swap_elems_def nth_list_update)

lemma length_swap [simp]: "length (swap_elems i j xs) = length xs"
  by (simp add: swap_elems_def)

text \<open>The elements of the segment stay the same.\<close>

lemma rearranged_seg:
  assumes r: "rearranged a n xs ys" and l: "a + n \<le> length xs" and i: "a \<le> i" "i < a + n"
  shows "\<exists>k. a \<le> k \<and> k < a + n \<and> ys ! i = xs ! k"
proof -
  let ?seg = "\<lambda>zs. take n (drop a zs)"
  have dec: "mset zs = mset (take a zs) + mset (?seg zs) + mset (drop (a + n) zs)" for zs :: "'a list"
    by (metis append_take_drop_id add.commute drop_drop mset_append add.assoc)
  have len: "length ys = length xs" using r by (simp add: rearranged_def)
  have "take a ys = take a xs"
    using r l by (intro nth_take_lemma) (auto simp: rearranged_def)
  moreover have "drop (a + n) ys = drop (a + n) xs"
    using r l by (intro nth_equalityI) (auto simp: rearranged_def)
  moreover have "mset ys = mset xs" using r by (simp add: rearranged_def)
  ultimately have "mset (?seg ys) = mset (?seg xs)" using dec [of ys] dec [of xs] by simp
  then have s: "set (?seg ys) = set (?seg xs)" by (rule mset_eq_setD)
  have "ys ! i = ?seg ys ! (i - a)" using i l len by simp
  moreover have "i - a < length (?seg ys)" using i l len by simp
  ultimately have "ys ! i \<in> set (?seg ys)" by (metis nth_mem)
  then obtain k where "k < length (?seg xs)" "ys ! i = ?seg xs ! k" unfolding s by (metis in_set_conv_nth)
  then show ?thesis using l by (intro exI [of _ "a + k"]) auto
qed

section \<open>What a comparison function has to satisfy\<close>

locale comparison =
  fixes compar :: "'a \<Rightarrow> 'a \<Rightarrow> int"
  assumes swapped: "compar x y < 0 \<longleftrightarrow> compar y x > 0"
    and trans_le: "compar x y \<le> 0 \<Longrightarrow> compar y z \<le> 0 \<Longrightarrow> compar x z \<le> 0"
begin

definition ordered :: "nat \<Rightarrow> nat \<Rightarrow> 'a list \<Rightarrow> bool" where
  "ordered a n xs \<longleftrightarrow> (\<forall>i j. a \<le> i \<longrightarrow> i < j \<longrightarrow> j < a + n \<longrightarrow> compar (xs ! i) (xs ! j) \<le> 0)"

lemma total_le: "compar x y \<le> 0 \<or> compar y x \<le> 0"
  using swapped [of x y] swapped [of y x] by linarith

lemma refl_le: "compar x x \<le> 0"
  using total_le [of x x] by simp

text \<open>After the partition: the first \<open>j\<close> elements are not above the pivot, the others are.\<close>

definition parted :: "nat \<Rightarrow> nat \<Rightarrow> nat \<Rightarrow> nat \<Rightarrow> 'a list \<Rightarrow> bool" where
  "parted base p i j xs \<longleftrightarrow> j \<le> i \<and> (\<forall>k < j. compar (xs ! (base + k)) (xs ! p) \<le> 0) \<and>
     (\<forall>k. j \<le> k \<longrightarrow> k < i \<longrightarrow> \<not> compar (xs ! (base + k)) (xs ! p) \<le> 0)"

lemma fold_partition:
  assumes "base + n \<le> length xs" "0 < n" "k \<le> n - 1"
  shows "case fold (partition_step compar base (base + (n - 1))) [0..<k] (0, xs) of
    (j, ys) \<Rightarrow> parted base (base + (n - 1)) k j ys \<and> rearranged base (n - 1) xs ys"
  using assms(3)
proof (induction k)
  case 0
  then show ?case by (simp add: parted_def)
next
  case (Suc k)
  let ?p = "base + (n - 1)"
  obtain j ys where e: "fold (partition_step compar base ?p) [0..<k] (0, xs) = (j, ys)" by fastforce
  with Suc have I: "parted base ?p k j ys" "rearranged base (n - 1) xs ys" by auto
  then have len: "length ys = length xs" "j \<le> k" by (auto simp: rearranged_def parted_def)
  have f: "fold (partition_step compar base ?p) [0..<Suc k] (0, xs) = partition_step compar base ?p k (j, ys)" using e by simp
  show ?case
  proof (cases "compar (ys ! (base + k)) (ys ! ?p) \<le> 0")
    case False
    then show ?thesis unfolding f using I by (auto simp: partition_step_def parted_def less_Suc_eq)
  next
    case True
    let ?ys = "swap_elems (base + k) (base + j) ys"
    have b: "base + k < length ys" "base + j < length ys" "?p < length ys" using assms Suc.prems len by simp_all
    have nth: "?ys ! (base + i) = (if i = j then ys ! (base + k) else if i = k then ys ! (base + j) else ys ! (base + i))"
      if "i \<le> k" for i using swap_nth [OF b(1,2), of "base + i"] that b(1) by simp
    have ne: "?p \<noteq> base + j" "?p \<noteq> base + k" using Suc.prems len(2) by linarith+
    have piv: "?ys ! ?p = ys ! ?p" unfolding swap_nth [OF b] using ne by (simp only: if_False)
    have "parted base ?p (Suc k) (Suc j) ?ys"
      unfolding parted_def piv
    proof (intro conjI allI impI)
      show "Suc j \<le> Suc k" using len(2) by simp
      fix m assume "m < Suc j"
      then show "compar (?ys ! (base + m)) (ys ! ?p) \<le> 0"
        using nth [of m] I(1) True len(2) by (cases "m = j") (auto simp: parted_def)
    next
      fix m assume "Suc j \<le> m" "m < Suc k"
      then show "\<not> compar (?ys ! (base + m)) (ys ! ?p) \<le> 0"
        using nth [of m] I(1) by (cases "m = k") (auto simp: parted_def)
    qed
    moreover have "rearranged base (n - 1) ys ?ys"
      using b Suc.prems assms(2) len by (intro rearranged_swap) simp_all
    ultimately show ?thesis unfolding f using True rearranged_trans [OF I(2)] by (simp add: partition_step_def)
  qed
qed

text \<open>One level of the sort: the pivot stands between the elements not above it and the others.\<close>

lemma partition_correct:
  assumes "base + n \<le> length xs" "1 < n" "quick_partition compar base n (swap_elems (base + n div 2) (base + (n - 1)) xs) = (j, ys)"
  defines "zs \<equiv> swap_elems (base + j) (base + (n - 1)) ys"
  shows "j < n" "rearranged base n xs zs" "\<And>k. k < j \<Longrightarrow> compar (zs ! (base + k)) (zs ! (base + j)) \<le> 0"
    "\<And>k. j < k \<Longrightarrow> k < n \<Longrightarrow> compar (zs ! (base + j)) (zs ! (base + k)) \<le> 0"
proof -
  let ?xs = "swap_elems (base + n div 2) (base + (n - 1)) xs" and ?p = "base + (n - 1)"
  have x: "rearranged base n xs ?xs" by (rule rearranged_swap) (use assms(1,2) in auto)
  have "parted base ?p (n - 1) j ys \<and> rearranged base (n - 1) ?xs ys"
    using fold_partition [of base n ?xs "n - 1"] assms(1-3) by (simp add: quick_partition_def)
  then have P: "parted base ?p (n - 1) j ys" "rearranged base (n - 1) ?xs ys" by simp_all
  have len: "length ys = length xs" using P(2) by (simp add: rearranged_def)
  have j: "j \<le> n - 1" using P(1) by (simp add: parted_def)
  then show "j < n" using assms(2) by simp
  have b: "base + j < length ys" "?p < length ys" using j len assms(1,2) by simp_all
  have "rearranged base n ys zs"
    unfolding zs_def by (rule rearranged_swap) (use j len assms(1,2) in auto)
  then show "rearranged base n xs zs"
    using rearranged_trans [OF x rearranged_trans [OF rearranged_mono [OF P(2)]]] by simp
  have nth: "zs ! (base + k) = (if k = n - 1 then ys ! (base + j) else if k = j then ys ! ?p else ys ! (base + k))"
    if "k < n" for k using swap_nth [OF b, of "base + k"] that len assms(1,2) unfolding zs_def by auto
  have pj: "zs ! (base + j) = ys ! ?p" using nth [of j] j assms(2) by auto
  show "compar (zs ! (base + k)) (zs ! (base + j)) \<le> 0" if "k < j" for k
    using nth [of k] that j P(1) unfolding pj by (auto simp: parted_def)
  show "compar (zs ! (base + j)) (zs ! (base + k)) \<le> 0" if "j < k" "k < n" for k
  proof -
    have "\<not> compar (zs ! (base + k)) (ys ! ?p) \<le> 0"
      using nth [of k] that j P(1) by (cases "k = n - 1") (auto simp: parted_def)
    then show ?thesis using total_le unfolding pj by blast
  qed
qed

lemma quick_sort_correct:
  "base + n \<le> length xs \<Longrightarrow> rearranged base n xs (quick_sort compar base n xs) \<and> ordered base n (quick_sort compar base n xs)"
proof (induction n arbitrary: base xs rule: less_induct)
  case (less n)
  show ?case
  proof (cases "n \<le> 1")
    case True
    then show ?thesis by (simp add: quick_sort.simps ordered_def)
  next
    case False
    obtain j ys where q: "quick_partition compar base n (swap_elems (base + n div 2) (base + (n - 1)) xs) = (j, ys)" by fastforce
    let ?zs = "swap_elems (base + j) (base + (n - 1)) ys"
    from False have n1: "1 < n" by simp
    note P = partition_correct [OF less.prems n1 q]
    let ?l = "quick_sort compar base j ?zs"
    let ?r = "quick_sort compar (base + (j + 1)) (n - j - 1) ?l"
    have len: "length ?zs = length xs" using P(2) by (simp add: rearranged_def)
    have L: "rearranged base j ?zs ?l" "ordered base j ?l"
      using less.IH [OF P(1), of base ?zs] less.prems P(1) len by simp_all
    then have len2: "length ?l = length xs" using len by (simp add: rearranged_def)
    have R: "rearranged (base + (j + 1)) (n - j - 1) ?l ?r" "ordered (base + (j + 1)) (n - j - 1) ?r"
      using less.IH [of "n - j - 1" "base + (j + 1)" ?l] less.prems P(1) len2 by simp_all
    have step: "quick_sort compar base n xs = ?r" using False q by (subst quick_sort.simps) (simp add: Let_def)
    have all: "rearranged base n xs ?r"
      using rearranged_trans [OF P(2)] rearranged_trans [OF rearranged_mono [OF L(1)] rearranged_mono [OF R(1)]] P(1) by simp
    have same: "?r ! i = ?l ! i" if "i < base + (j + 1)" for i
      using R(1) that len2 less.prems P(1) by (simp add: rearranged_def)
    have same2: "?l ! i = ?zs ! i" if "base + j \<le> i" "i < base + n" for i
      using L(1) that len less.prems by (simp add: rearranged_def)
    have pv: "?r ! (base + j) = ?zs ! (base + j)" using same [of "base + j"] same2 [of "base + j"] P(1) by simp
    have low: "compar (?r ! i) (?r ! (base + j)) \<le> 0" if i: "base \<le> i" "i < base + j" for i
    proof -
      obtain k where "base \<le> k" "k < base + j" "?l ! i = ?zs ! k"
        using rearranged_seg [OF L(1) _ i] len less.prems P(1) by auto
      then show ?thesis using P(3) [of "k - base"] same [of i] i pv by simp
    qed
    have high: "compar (?r ! (base + j)) (?r ! i) \<le> 0" if i: "base + j < i" "i < base + n" for i
    proof -
      obtain k where "base + (j + 1) \<le> k" "k < base + n" "?r ! i = ?l ! k"
        using rearranged_seg [OF R(1), of i] i len2 less.prems P(1) by auto
      then show ?thesis using P(4) [of "k - base"] same2 [of k] pv by simp
    qed
    have "compar (?r ! i) (?r ! k) \<le> 0" if ik: "base \<le> i" "i < k" "k < base + n" for i k
    proof -
      consider "k < base + j" | "k = base + j" | "i < base + j" "base + j < k" | "i = base + j" | "base + j < i" using ik by linarith
      then show ?thesis
      proof cases
        case 1
        then show ?thesis using L(2) ik same by (simp add: ordered_def)
      next
        case 3
        then show ?thesis using trans_le [OF low high] ik by simp
      next
        case 5
        then show ?thesis using R(2) ik P(1) by (simp add: ordered_def)
      qed (use low high ik in simp_all)
    qed
    then show ?thesis unfolding step using all by (simp add: ordered_def)
  qed
qed

lemma bsearch_correct:
  assumes s: "ordered 0 (length xs) xs" and n: "unat n = length xs" "unat n < 2 ^ 63"
  shows "\<exists>r. bsearch compar key xs n = Some r \<and> (case r of
      None \<Rightarrow> \<forall>x\<in>set xs. compar key x \<noteq> 0
    | Some i \<Rightarrow> unat i < length xs \<and> compar key (xs ! unat i) = 0)"
    (is "\<exists>r. _ \<and> ?Q r")
proof (cases "n = 0")
  case True
  then show ?thesis using n by (simp add: bsearch_def)
next
  case False
  let ?I = "\<lambda>(low, high). unat high < length xs \<and> unat low \<le> length xs \<and>
     (\<forall>i < unat low. compar key (xs ! i) > 0) \<and> (\<forall>i < length xs. unat high < i \<longrightarrow> compar key (xs ! i) < 0)"
  have mono: "compar key (xs ! i) > 0" if "compar key (xs ! j) > 0" "i \<le> j" "j < length xs" for i j
  proof (cases "i = j")
    case False
    then have "compar (xs ! i) (xs ! j) \<le> 0" using s that by (simp add: ordered_def)
    moreover have "\<not> compar key (xs ! j) \<le> 0" using that by simp
    ultimately show ?thesis using trans_le [of key "xs ! i" "xs ! j"] by linarith
  qed (use that in simp)
  have mono2: "compar key (xs ! j) < 0" if "compar key (xs ! i) < 0" "i \<le> j" "j < length xs" for i j
  proof (cases "i = j")
    case False
    then have le: "compar (xs ! i) (xs ! j) \<le> 0" using s that by (simp add: ordered_def)
    have "\<not> compar (xs ! j) key \<le> 0"
    proof
      assume "compar (xs ! j) key \<le> 0"
      then have "compar (xs ! i) key \<le> 0" using trans_le le by blast
      then show False using that(1) swapped [of key "xs ! i"] by simp
    qed
    then show ?thesis using swapped [of key "xs ! j"] by simp
  qed (use that in simp)
  have "\<exists>r. loop (bsearch_body compar key xs) (0, n - 1) = Some r \<and> ?Q r"
  proof (rule loop_total [where I = ?I and m = "\<lambda>(low, high). unat high + 1 - unat low"])
    have "unat (n - 1) = unat n - 1" using False by (simp add: unat_minus_one)
    then show "?I (0, n - 1)" using n False by (auto simp: unat_gt_0 simp flip: unat_gt_0)
    fix st :: "u64 \<times> u64" assume "?I st"
    then obtain low high where st: "st = (low, high)" and I: "?I (low, high)" by (cases st) auto
    show "(\<exists>st'. bsearch_body compar key xs st = Some (Next st') \<and> ?I st' \<and>
            (case st' of (low, high) \<Rightarrow> unat high + 1 - unat low) < (case st of (low, high) \<Rightarrow> unat high + 1 - unat low)) \<or>
          (\<exists>r. bsearch_body compar key xs st = Some (Done r) \<and> ?Q r)"
    proof (cases "low \<le> high")
      case False
      have "compar key x \<noteq> 0" if "x \<in> set xs" for x
      proof -
        from that obtain i where i: "i < length xs" "x = xs ! i" by (metis in_set_conv_nth)
        have "i < unat low \<or> unat high < i" using False by (auto simp: word_le_nat_alt)
        then show ?thesis using I i by auto
      qed
      then show ?thesis using False by (simp add: st bsearch_body_def)
    next
      case True
      let ?mid = "(low + high) div 2"
      have lh: "unat low \<le> unat high" using True by (simp add: word_le_nat_alt)
      then have "unat (low + high) = unat low + unat high" using I n by (simp add: unat_word_ariths)
      then have mid: "unat ?mid = (unat low + unat high) div 2" by (simp add: unat_div)
      then have m: "unat low \<le> unat ?mid" "unat ?mid \<le> unat high" "unat ?mid < length xs" using lh I by auto
      let ?c = "compar key (xs ! unat ?mid)"
      consider "?c < 0" "?mid = 0" | "?c < 0" "?mid \<noteq> 0" | "?c > 0" | "?c = 0" by linarith
      then show ?thesis
      proof cases
        case 1
        then have "bsearch_body compar key xs st = Some (Done None)" using True m(3) by (simp add: st bsearch_body_def Let_def)
        moreover have "compar key x \<noteq> 0" if "x \<in> set xs" for x
          using that mono2 [of "unat ?mid"] 1 by (metis in_set_conv_nth le0 less_irrefl unat_0)
        ultimately show ?thesis by simp
      next
        case 2
        have u: "unat (?mid - 1) = unat ?mid - 1" "0 < unat ?mid" using 2 by (simp_all add: unat_minus_one unat_gt_0)
        have "bsearch_body compar key xs st = Some (Next (low, ?mid - 1))"
          using True m(3) 2 by (simp add: st bsearch_body_def Let_def)
        moreover have "?I (low, ?mid - 1)" using I m u mono2 [of "unat ?mid"] 2 by auto
        ultimately show ?thesis using u m lh by (auto simp: st)
      next
        case 3
        have u: "unat (?mid + 1) = unat ?mid + 1" using m(3) n by (simp add: unat_word_ariths)
        have "bsearch_body compar key xs st = Some (Next (?mid + 1, high))"
          using True m(3) 3 by (simp add: st bsearch_body_def Let_def)
        moreover have "?I (?mid + 1, high)" using I m u mono [of "unat ?mid"] 3 by (auto simp: less_Suc_eq_le)
        ultimately show ?thesis using u m lh by (auto simp: st)
      next
        case 4
        then show ?thesis using True m(3) by (simp add: st bsearch_body_def Let_def)
      qed
    qed
  qed
  with False show ?thesis by (simp add: bsearch_def)
qed

end

section \<open>Strings in dictionary order\<close>

text \<open>The strings that a C pointer can stand for, with the order of \<open>strcmp\<close>.\<close>

typedef cstring = "{s :: byte list. 0 \<notin> set s}"
  by (rule exI [of _ "[]"]) simp

setup_lifting type_definition_cstring

lemma str_compare_swapped: "str_compare xs ys = - str_compare ys xs"
  by (induction xs ys rule: str_compare.induct) auto

lemma uint_nonzero: "(c :: byte) \<noteq> 0 \<Longrightarrow> 0 < uint c"
  by (simp add: word_neq_0_conv word_less_def)

lemma str_compare_trans:
  "0 \<notin> set xs \<Longrightarrow> 0 \<notin> set ys \<Longrightarrow> 0 \<notin> set zs \<Longrightarrow>
    str_compare xs ys \<le> 0 \<Longrightarrow> str_compare ys zs \<le> 0 \<Longrightarrow> str_compare xs zs \<le> 0"
proof (induction xs arbitrary: ys zs)
  case Nil
  then show ?case by (cases zs) simp_all
next
  case (Cons x xs)
  then obtain y ys' where y: "ys = y # ys'" using uint_nonzero [of x] by (cases ys) auto
  with Cons.prems obtain z zs' where z: "zs = z # zs'" using uint_nonzero [of y] by (cases zs) auto
  show ?case
  proof (cases "x = y \<and> y = z")
    case True
    then show ?thesis using Cons.IH [of ys' zs'] Cons.prems unfolding y z by simp
  next
    case False
    have xy: "uint x \<le> uint y" using Cons.prems(4) unfolding y by (simp split: if_splits)
    have yz: "uint y \<le> uint z" using Cons.prems(5) unfolding y z by (simp split: if_splits)
    have "uint x \<noteq> uint y \<or> uint y \<noteq> uint z" using False by (auto simp: word_uint_eq_iff)
    with xy yz have lt: "uint x < uint z" by linarith
    then have "x \<noteq> z" by auto
    with lt show ?thesis unfolding z by simp
  qed
qed

lemma str_compare_eq: "0 \<notin> set xs \<Longrightarrow> 0 \<notin> set ys \<Longrightarrow> str_compare xs ys = 0 \<Longrightarrow> xs = ys"
proof (induction xs ys rule: str_compare.induct)
  case (4 c cs d ds)
  then show ?case by (cases "c = d") (auto simp: word_uint_eq_iff)
qed (use uint_nonzero in \<open>fastforce\<close>)+

lift_definition cstring_compare :: "cstring \<Rightarrow> cstring \<Rightarrow> int" is str_compare .

instantiation cstring :: linorder
begin

definition less_eq_cstring :: "cstring \<Rightarrow> cstring \<Rightarrow> bool" where
  "less_eq_cstring a b \<longleftrightarrow> cstring_compare a b \<le> 0"

definition less_cstring :: "cstring \<Rightarrow> cstring \<Rightarrow> bool" where
  "less_cstring a b \<longleftrightarrow> cstring_compare a b < 0"

instance
proof
  fix x y z :: cstring
  have sw: "cstring_compare x y = - cstring_compare y x" by transfer (rule str_compare_swapped)
  show "x < y \<longleftrightarrow> x \<le> y \<and> \<not> y \<le> x" using sw by (auto simp: less_eq_cstring_def less_cstring_def)
  have "cstring_compare x x = - cstring_compare x x" by transfer (rule str_compare_swapped)
  then show "x \<le> x" by (simp add: less_eq_cstring_def)
  show "x \<le> y \<or> y \<le> x" using sw by (auto simp: less_eq_cstring_def)
  show "x \<le> z" if "x \<le> y" "y \<le> z"
    using that unfolding less_eq_cstring_def by transfer (rule str_compare_trans)
  show "x = y" if "x \<le> y" "y \<le> x"
  proof -
    have "cstring_compare x y = 0" using that sw by (simp add: less_eq_cstring_def)
    then show ?thesis by transfer (rule str_compare_eq)
  qed
qed

end

interpretation cstring: comparison cstring_compare
proof
  show "cstring_compare x y < 0 \<longleftrightarrow> cstring_compare y x > 0" for x y
  proof -
    have "cstring_compare x y = - cstring_compare y x" by transfer (rule str_compare_swapped)
    then show ?thesis by simp
  qed
  show "cstring_compare x z \<le> 0" if "cstring_compare x y \<le> 0" "cstring_compare y z \<le> 0" for x y z
    using that by transfer (rule str_compare_trans)
qed

end
