(* ===== verification/LibcProps.thy ===== *)
theory LibcProps
  imports LibcNumber LibcSort
begin

text \<open>
  The properties of the C library: sorting and searching an array of strings, and the round trip of
  a number through \<open>sprintf\<close> and \<open>atol\<close>.
\<close>

section \<open>Formats of one number\<close>

definition flag_of :: "byte \<Rightarrow> u32" where
  "flag_of c = (if c = asc CHR ''-'' then LEFT else if c = asc CHR ''+'' then PLUS else if c = asc CHR '' '' then SPACE
     else if c = asc CHR ''#'' then SPECIAL else ZEROPAD)"

definition flag_chars :: "byte set" where
  "flag_chars = asc ` set ''-+ #0''"

lemma flag_chars_simps: "c \<in> flag_chars \<longleftrightarrow> c = 0x2D \<or> c = 0x2B \<or> c = 0x20 \<or> c = 0x23 \<or> c = 0x30"
  by (auto simp: flag_chars_def)

lemma flags_loop:
  assumes "bytes_at m (fmt + 1) fs" "set fs \<subseteq> flag_chars" "m (fmt + 1 + of_nat (length fs)) \<notin> flag_chars"
  shows "loop (flags_body m) (fmt, fl) = Some (fmt + 1 + of_nat (length fs), fold (\<lambda>c fl. fl OR flag_of c) fs fl)"
  using assms
proof (induction fs arbitrary: fmt fl)
  case Nil
  then have "flags_body m (fmt, fl) = Some (Done (fmt + 1, fl))"
    by (simp add: flags_body_def flag_chars_simps Let_def)
  then show ?case by (simp add: loop_Done)
next
  case (Cons c fs)
  then have "flags_body m (fmt, fl) = Some (Next (fmt + 1, fl OR flag_of c))"
    by (auto simp: flags_body_def flag_chars_simps Let_def flag_of_def)
  then have "loop (flags_body m) (fmt, fl) = loop (flags_body m) (fmt + 1, fl OR flag_of c)" by (rule loop_Next)
  also have "\<dots> = Some (fmt + 1 + 1 + of_nat (length fs), fold (\<lambda>c fl. fl OR flag_of c) fs (fl OR flag_of c))"
    using Cons.prems by (intro Cons.IH) (auto simp: algebra_simps)
  finally show ?case by (simp add: algebra_simps)
qed

lemma is_digit_char_iff: "is_digit_char c \<longleftrightarrow> isdigit (uint c)"
  by (simp add: is_digit_char_def isdigit_def word_le_def)

lemma skip_atoi_loop:
  assumes "bytes_at m s ds" "digits ds" "\<not> is_digit_char (m (s + of_nat (length ds)))" "0 \<le> acc" "decimal ds acc < 2 ^ 31 - 48"
  shows "loop (skip_body m) (s, acc) = Some (s + of_nat (length ds), decimal ds acc)"
  using assms
proof (induction ds arbitrary: s acc)
  case Nil
  then show ?case by (simp add: loop_Done skip_body_def)
next
  case (Cons c ds)
  let ?acc = "acc * 10 + (uint c - 48)"
  have c: "isdigit (uint c)" "m s = c" and ds: "digits ds" using Cons.prems(1,2) by (auto simp: digits_def)
  have pos: "0 \<le> ?acc" using c(1) Cons.prems(4) by (simp add: isdigit_def)
  have "?acc \<le> decimal ds ?acc" using decimal_ge [OF ds pos] .
  then have "c_int (acc * 10 + uint c) = Some (acc * 10 + uint c)" using Cons.prems(5) pos by (simp add: c_int_def)
  then have "skip_body m (s, acc) = Some (Next (s + 1, ?acc))" using c by (simp add: skip_body_def is_digit_char_iff)
  then have "loop (skip_body m) (s, acc) = loop (skip_body m) (s + 1, ?acc)" by (rule loop_Next)
  also have "\<dots> = Some (s + 1 + of_nat (length ds), decimal ds ?acc)"
    using Cons.prems pos ds by (intro Cons.IH) (auto simp: algebra_simps)
  finally show ?case by (simp add: algebra_simps)
qed

text \<open>A format for one signed \<^verbatim>\<open>long\<close>: flags and the digits of a width.\<close>

definition long_format :: "byte list \<Rightarrow> byte list \<Rightarrow> byte list" where
  "long_format fs ds = [asc CHR ''%''] @ fs @ ds @ [asc CHR ''l'', asc CHR ''d'', 0]"

definition format_width :: "byte list \<Rightarrow> int" where
  "format_width ds = (if ds = [] then -1 else decimal ds 0)"

definition format_flags :: "byte list \<Rightarrow> u32" where
  "format_flags fs = fold (\<lambda>c fl. fl OR flag_of c) fs 0"

definition long_format_ok :: "byte list \<Rightarrow> byte list \<Rightarrow> bool" where
  "long_format_ok fs ds \<longleftrightarrow> set fs \<subseteq> flag_chars \<and> digits ds \<and> (ds \<noteq> [] \<longrightarrow> hd ds \<noteq> 0x30) \<and> decimal ds 0 < 2 ^ 31 - 48"

lemma parse_long_format:
  assumes "bytes_at m fmt (long_format fs ds)" "long_format_ok fs ds"
  shows "parse_spec m fmt args = Some (fmt + of_nat (length fs + length ds + 2),
    \<lparr>spec_flags = format_flags fs, spec_width = format_width ds, spec_precision = -1\<rparr>, args)"
proof -
  let ?p = "fmt + 1 + of_nat (length fs)"
  have at: "bytes_at m (fmt + 1) fs" "bytes_at m ?p ds"
    "m (?p + of_nat (length ds)) = 0x6C" "m (?p + of_nat (length ds) + 1) = 0x64"
    using assms(1) by (simp_all add: long_format_def algebra_simps)
  define q where "q = ?p + of_nat (length ds)"
  have q: "m q = 0x6C" "m (q + 1) = 0x64" "q + 1 = fmt + of_nat (length fs + length ds + 2)"
    using at(3,4) by (simp_all add: q_def)
  have ok: "set fs \<subseteq> flag_chars" "digits ds" "ds \<noteq> [] \<Longrightarrow> hd ds \<noteq> 0x30" "decimal ds 0 < 2 ^ 31 - 48"
    using assms(2) by (auto simp: long_format_ok_def)
  have first: "m ?p = hd (ds @ [0x6C])" using at(2,3) by (cases ds) auto
  have "hd (ds @ [0x6C]) \<notin> flag_chars"
    using ok(2,3) by (cases ds) (auto simp: flag_chars_simps digits_def isdigit_def)
  then have flags: "loop (flags_body m) (fmt, 0) = Some (?p, format_flags fs)"
    using flags_loop [OF at(1) ok(1), of 0] first by (simp add: format_flags_def)
  have nd: "\<not> is_digit_char (0x6C :: byte)" by (simp add: is_digit_char_def)
  have width: "(if is_digit_char (m ?p) then do { (f, w) \<leftarrow> skip_atoi m ?p; Some (f, w, format_flags fs, args) }
      else if m ?p = asc CHR ''*'' then do {
        (w, args) \<leftarrow> va_int args;
        if w < 0 then do { w \<leftarrow> c_int (- w); Some (?p, w, format_flags fs OR LEFT, args) }
        else Some (?p, w, format_flags fs, args) }
      else Some (?p, -1, format_flags fs, args)) = Some (q, format_width ds, format_flags fs, args)"
  proof (cases ds)
    case Nil
    then show ?thesis using first nd by (simp add: format_width_def q_def)
  next
    case (Cons d ds')
    have "is_digit_char (m ?p)" using first ok(2) Cons by (simp add: is_digit_char_iff digits_def)
    moreover have "skip_atoi m ?p = Some (?p + of_nat (length ds), decimal ds 0)"
      unfolding skip_atoi_def using at ok nd by (intro skip_atoi_loop) simp_all
    ultimately show ?thesis using Cons by (simp add: format_width_def q_def)
  qed
  show ?thesis unfolding parse_spec_def flags bind.bind_lunit prod.case width
    unfolding q(3) [symmetric] using q(1,2) by simp
qed

lemma length_field: "length (field width flags sg ds) \<le> nat width + length sg + length ds"
proof -
  have "nat (width - int (length sg) - int (length ds)) \<le> nat width" by simp
  then show ?thesis by (simp add: field_def Let_def)
qed

lemma length_number_text: "length (number_text num 10 width (-1) flags) \<le> nat width + 68"
proof -
  let ?digs = "if flags AND SMALL \<noteq> 0 then lower_digits else upper_digits"
  define mag where "mag = magnitude ?digs 10 (if flags AND SIGN \<noteq> 0 \<and> sint num < 0 then - num else num)"
  have "length mag \<le> 64" unfolding mag_def by (rule magnitude_length) simp
  moreover have "length (sign_text num flags @ prefix_text 10 flags) \<le> 3" by (simp add: sign_text_def prefix_text_def)
  moreover have "number_text num 10 width (-1) flags = field width flags (sign_text num flags @ prefix_text 10 flags) mag"
    by (simp add: number_text_def Let_def mag_def)
  ultimately show ?thesis
    using length_field [of width flags "sign_text num flags @ prefix_text 10 flags" mag] by simp
qed

lemma digit_loop_nonzero:
  assumes "digs = upper_digits \<or> digs = lower_digits" shows "0 \<notin> set (digit_loop digs 10 num)"
proof -
  have "digits (digit_loop digs 10 num)" using digit_loop_decimal [OF assms] by blast
  then show ?thesis by (auto simp: digits_def isdigit_def)
qed

lemma number_text_nonzero: "0 \<notin> set (number_text num 10 width precision flags)"
proof -
  have "0 \<notin> set (magnitude (if flags AND SMALL \<noteq> 0 then lower_digits else upper_digits) 10 n)" for n
    using digit_loop_nonzero [of upper_digits n] digit_loop_nonzero [of lower_digits n] by (simp add: magnitude_def)
  then show ?thesis
    by (auto simp: number_text_def field_def Let_def sign_text_def prefix_text_def split: if_splits)
qed

lemma bytes_at_cstr: "bytes_at m p (cs @ [0]) \<Longrightarrow> 0 \<notin> set cs \<Longrightarrow> cstr m p cs"
  by (induction cs arbitrary: p) auto

lemma SIGN_set: "(flags OR SIGN) AND SIGN \<noteq> 0"
  by (simp add: flag_bits bit_or_iff) (simp add: SIGN_def bit_numeral_rec)

lemma directive_ld:
  fixes n :: u64
  assumes at: "bytes_at m fmt (long_format fs ds)" and ok: "long_format_ok fs ds"
  defines "t \<equiv> number_text n 10 (format_width ds) (-1) (format_flags fs OR SIGN)"
  shows "directive buf fmt (m, p) (n # args) =
    Some (fmt + of_nat (length (long_format fs ds)) - 1, puts t (m, p), args)"
proof -
  have w: "-1 \<le> format_width ds" "format_width ds < 2 ^ 31"
    using ok decimal_ge [of ds 0] by (auto simp: long_format_ok_def format_width_def)
  have num: "number (m, p) n 10 (format_width ds) (-1) (format_flags fs OR SIGN) =
      Some (fst (puts t (m, p)), Some (snd (puts t (m, p))))"
    unfolding t_def by (rule number_correct) (use w in simp_all)
  have c: "m (fmt + of_nat (length fs + length ds + 2)) = 0x64"
    using at by (simp add: long_format_def algebra_simps)
  have other: "(0x64 :: byte) \<noteq> asc CHR ''c''" "(0x64 :: byte) \<noteq> asc CHR ''s''" "(0x64 :: byte) \<noteq> asc CHR ''o''"
      "(0x64 :: byte) \<noteq> asc CHR ''p''" "(0x64 :: byte) \<noteq> asc CHR ''x''" "(0x64 :: byte) \<noteq> asc CHR ''X''"
    and d: "(0x64 :: byte) = asc CHR ''d''"
    by simp_all
  have put: "put_number n 10 \<lparr>spec_flags = format_flags fs OR SIGN, spec_width = format_width ds, spec_precision = -1\<rparr> (m, p) =
      Some (puts t (m, p))"
    by (simp add: put_number_def num prod_eq_iff)
  show ?thesis
    unfolding directive_def fst_conv parse_long_format [OF at ok] bind.bind_lunit prod.case Let_def c
      if_not_P [OF other(1)] if_not_P [OF other(2)] if_not_P [OF other(3)] if_not_P [OF other(4)]
      if_not_P [OF other(5)] if_not_P [OF other(6)]
    by (simp add: va_long_def put long_format_def)
qed

lemma sprintf_ld:
  fixes n :: u64 and m :: bytes and buf fmt :: u64
  assumes at: "bytes_at m fmt (long_format fs ds)" and ok: "long_format_ok fs ds"
    and room: "\<And>i j. i < nat (format_width ds) + 69 \<Longrightarrow> j < length (long_format fs ds) \<Longrightarrow>
        buf + of_nat i \<noteq> fmt + of_nat j"
  defines "t \<equiv> number_text n 10 (format_width ds) (-1) (format_flags fs OR SIGN)"
  shows "\<exists>m'. sprintf m buf fmt (n # args) = Some (m', of_nat (length t)) \<and> bytes_at m' buf (t @ [0]) \<and>
     (\<forall>a. (\<forall>i < nat (format_width ds) + 69. a \<noteq> buf + of_nat i) \<longrightarrow> m' a = m a)"
proof -
  let ?f = "long_format fs ds"
  define m1 where "m1 = fst (puts t (m, buf))"
  have len: "length t \<le> nat (format_width ds) + 68" unfolding t_def by (rule length_number_text)
  have w: "format_width ds < 2 ^ 31" using ok by (auto simp: long_format_ok_def format_width_def)
  then have "nat (format_width ds) < 2 ^ 31" by simp
  with len have len64: "length t < 2 ^ 64" by simp
  have other: "m1 a = m a" if "\<forall>i < nat (format_width ds) + 69. a \<noteq> buf + of_nat i" for a
    unfolding m1_def using that len by (subst puts_other) auto
  let ?stop = "fmt + of_nat (length ?f) - 1"
  have e: "?stop = fmt + of_nat (length ?f - 1)" by (simp add: long_format_def)
  have "m ?stop = 0" using at unfolding e by (simp add: long_format_def algebra_simps)
  moreover have "m1 ?stop = m ?stop"
    unfolding e by (rule other) (use room [of _ "length ?f - 1"] in \<open>force simp: long_format_def\<close>)
  ultimately have stop: "m1 ?stop = 0" by simp
  have start: "m fmt = 0x25" using at by (simp add: long_format_def)
  have st: "puts t (m, buf) = (m1, buf + of_nat (length t))"
    by (simp add: m1_def prod_eq_iff)
  have "vsprintf_body buf (fmt, (m, buf), n # args) = Some (Next (?stop, (m1, buf + of_nat (length t)), args))"
    using start directive_ld [OF at ok, of buf buf n args] by (simp add: vsprintf_body_def t_def [symmetric] st)
  then have "loop (vsprintf_body buf) (fmt, (m, buf), n # args) = loop (vsprintf_body buf) (?stop, (m1, buf + of_nat (length t)), args)"
    by (rule loop_Next)
  also have "\<dots> = Some (m1, buf + of_nat (length t))"
    using stop by (intro loop_Done) (simp add: vsprintf_body_def)
  finally have run: "sprintf m buf fmt (n # args) = Some (m1(buf + of_nat (length t) := 0), of_nat (length t))"
    using len64 by (simp add: sprintf_def vsprintf_def unsigned_of_nat take_bit_eq_mod)
  have "bytes_at m1 buf t" using puts_bytes_at [of t "(m, buf)"] len64 by (simp add: m1_def)
  then have "bytes_at (m1(buf + of_nat (length t) := 0)) buf (t @ [0])" by (rule bytes_at_snoc) (rule len64)
  moreover have "(m1(buf + of_nat (length t) := 0)) a = m a"
    if "\<forall>i < nat (format_width ds) + 69. a \<noteq> buf + of_nat i" for a
    using that other [OF that] len by auto
  ultimately show ?thesis using run by blast
qed

text \<open>C11. A number survives \<^verbatim>\<open>sprintf\<close> and \<open>atol\<close>.  With a format of a percent sign, any flags, any width and
  \<^verbatim>\<open>ld\<close>, and a buffer that does not overlap the format, \<open>sprintf\<close> returns the length of the text it
  wrote, \<open>strlen\<close> finds that length, no byte outside the field is touched, and \<open>atol\<close> gives the number
  back: whatever the padding, the side it stands on and the sign that is shown.  The one exception is
  the smallest number, whose absolute value \<open>atol\<close> cannot hold.\<close>

theorem sprintf_atol:
  assumes "bytes_at m fmt (long_format fs ds)" "long_format_ok fs ds" "n \<noteq> 0x8000000000000000"
    and "\<And>i j. i < nat (format_width ds) + 69 \<Longrightarrow> j < length (long_format fs ds) \<Longrightarrow>
        buf + of_nat i \<noteq> fmt + of_nat j"
  shows "\<exists>m' len. sprintf m buf fmt [n] = Some (m', of_nat len) \<and> strlen m' buf = Some (of_nat len) \<and>
     len \<le> nat (format_width ds) + 68 \<and> atol m' buf = Some (sint n) \<and>
     (\<forall>a. (\<forall>i < nat (format_width ds) + 69. a \<noteq> buf + of_nat i) \<longrightarrow> m' a = m a)"
proof -
  let ?t = "number_text n 10 (format_width ds) (-1) (format_flags fs OR SIGN)"
  obtain m' where m': "sprintf m buf fmt [n] = Some (m', of_nat (length ?t))" "bytes_at m' buf (?t @ [0])"
     "\<forall>a. (\<forall>i < nat (format_width ds) + 69. a \<noteq> buf + of_nat i) \<longrightarrow> m' a = m a"
    using sprintf_ld [OF assms(1,2,4), of n "[]"] by auto
  have z: "m' (buf + of_nat (length ?t)) = 0" and bt: "bytes_at m' buf ?t" using m'(2) by simp_all
  have "\<not> isdigit (uint (m' (buf + of_nat (length ?t))))" unfolding z by (simp add: isdigit_def)
  then have "atol m' buf = Some (sint n)" by (rule atol_number_text [OF bt _ SIGN_set assms(3)])
  moreover have "strlen m' buf = Some (of_nat (length ?t))"
    using m'(2) number_text_nonzero by (intro strlen_correct bytes_at_cstr)
  ultimately show ?thesis using m'(1,3) length_number_text by blast
qed

theorem sprintf_atol_witness:
  "\<exists>m' len. sprintf (store_bytes (\<lambda>_. 0) 0x1000 (long_format [asc CHR ''-''] [asc CHR ''2'', asc CHR ''0'']))
      0x2000 0x1000 [-42] = Some (m', of_nat len) \<and> atol m' 0x2000 = Some (-42)"
proof -
  let ?fs = "[asc CHR ''-'']" and ?ds = "[asc CHR ''2'', asc CHR ''0'']"
  have f: "long_format ?fs ?ds = [0x25, 0x2D, 0x32, 0x30, 0x6C, 0x64, 0]" by (simp add: long_format_def)
  have w: "format_width ?ds = 20" by (simp add: format_width_def)
  have ok: "long_format_ok ?fs ?ds" by (simp add: long_format_ok_def flag_chars_simps digits_def isdigit_def)
  have at: "bytes_at (store_bytes (\<lambda>_. 0) 0x1000 (long_format ?fs ?ds)) 0x1000 (long_format ?fs ?ds)" unfolding f by simp
  have room: "(0x2000 :: u64) + of_nat i \<noteq> 0x1000 + of_nat j"
    if "i < nat (format_width ?ds) + 69" "j < length (long_format ?fs ?ds)" for i j
  proof -
    have b: "i < 89" "j < 7" using that unfolding f w by simp_all
    then have "0x2000 + of_nat i = (of_nat (0x2000 + i) :: u64)" "0x1000 + of_nat j = (of_nat (0x1000 + j) :: u64)" by simp_all
    then show ?thesis using b offset_neq [of "0x2000 + i" "0x1000 + j" 0] by simp
  qed
  have n: "(-42 :: u64) \<noteq> 0x8000000000000000" by simp
  have "sint (-42 :: u64) = -42" by simp
  then show ?thesis using sprintf_atol [OF at ok n room] by auto
qed

section \<open>Sorting and searching\<close>

lemma ordered_sorted: "cstring.ordered 0 (length xs) xs \<longleftrightarrow> sorted xs"
  by (auto simp: cstring.ordered_def sorted_iff_nth_mono_less less_eq_cstring_def)

lemma qsort_sorts: "qsort (Some cstring_compare) (Some xs) (length xs) = Some (sort xs)"
proof -
  let ?ys = "quick_sort cstring_compare 0 (length xs) xs"
  have "rearranged 0 (length xs) xs ?ys" "cstring.ordered 0 (length xs) ?ys"
    using cstring.quick_sort_correct [of 0 "length xs" xs] by simp_all
  then have "mset ?ys = mset xs" "sorted ?ys" using ordered_sorted [of ?ys] by (simp_all add: rearranged_def)
  then have "sort xs = ?ys" by (rule properties_for_sort)
  moreover have "length xs \<le> 1 \<Longrightarrow> ?ys = xs" by (simp add: quick_sort.simps)
  ultimately show ?thesis by (auto simp: qsort_def)
qed

lemma bsearch_sorted:
  assumes "length xs < 2 ^ 63"
  shows "\<exists>r. bsearch cstring_compare key (sort xs) (of_nat (length xs)) = Some r \<and> (case r of
      None \<Rightarrow> key \<notin> set xs | Some i \<Rightarrow> unat i < length xs \<and> sort xs ! unat i = key)"
proof -
  have len: "unat (of_nat (length xs) :: u64) = length xs" using assms by (intro of_nat_inverse) simp_all
  have eq: "cstring_compare x y = 0 \<longleftrightarrow> x = y" for x y
    by (metis less_eq_cstring_def order.refl order_antisym cstring.swapped linorder_neq_iff not_less)
  show ?thesis
    using cstring.bsearch_correct [of "sort xs" "of_nat (length xs)" key] assms ordered_sorted [of "sort xs"]
    by (auto simp: len eq split: option.splits)
qed

text \<open>C15. Sorting and searching strings.  \<open>strcmp\<close> on two strings in memory is the comparison of the strings;
  \<open>qsort\<close> with it gives the sorted array of the same strings, however they stood; and \<open>bsearch\<close> in the
  sorted array ends, with the place of the key when it is there and with nothing when it is not.\<close>

theorem qsort_bsearch_strings:
  "qsort (Some cstring_compare) (Some xs) (length xs) = Some (sort xs) \<and>
   (length xs < 2 ^ 63 \<longrightarrow>
     (\<exists>r. bsearch cstring_compare key (sort xs) (of_nat (length xs)) = Some r \<and> (case r of
        None \<Rightarrow> key \<notin> set xs | Some i \<Rightarrow> unat i < length xs \<and> sort xs ! unat i = key))) \<and>
   (cstr m p (Rep_cstring x) \<longrightarrow> cstr m q (Rep_cstring y) \<longrightarrow> strcmp m p q = Some (cstring_compare x y))"
  using qsort_sorts bsearch_sorted strcmp_correct by (simp add: cstring_compare.rep_eq)

lemma small_cstrings: "cstr m p (Rep_cstring (Abs_cstring [0x62])) \<longleftrightarrow> cstr m p [0x62]"
  "cstr m p (Rep_cstring (Abs_cstring [0x61])) \<longleftrightarrow> cstr m p [0x61]"
  by (simp_all add: Abs_cstring_inverse)

theorem qsort_bsearch_strings_witness:
  "(let a = Abs_cstring [0x61]; b = Abs_cstring [0x62]
    in qsort (Some cstring_compare) (Some [b, a]) 2 = Some (sort [b, a]) \<and>
       (\<exists>i. bsearch cstring_compare a (sort [b, a]) 2 = Some (Some i) \<and> sort [b, a] ! unat i = a)) \<and>
   strcmp (store_bytes (\<lambda>_. 0) 0x1000 [0x61, 0, 0x62, 0]) 0x1000 0x1002 = Some (-1)"
proof -
  let ?a = "Abs_cstring [0x61]" and ?b = "Abs_cstring [0x62]"
  let ?m = "store_bytes (\<lambda>_. 0) 0x1000 [0x61, 0, 0x62, 0]"
  have at: "cstr ?m 0x1000 (Rep_cstring ?a)" "cstr ?m 0x1002 (Rep_cstring ?b)"
    unfolding small_cstrings by simp_all
  have cmp: "cstring_compare ?a ?b = -1" by (simp add: cstring_compare.rep_eq Abs_cstring_inverse)
  note C = qsort_bsearch_strings [of "[?b, ?a]" ?a ?m "0x1000" ?a "0x1002" ?b]
  have "strcmp ?m 0x1000 0x1002 = Some (-1)" using C at cmp by simp
  moreover have "\<exists>i. bsearch cstring_compare ?a (sort [?b, ?a]) 2 = Some (Some i) \<and> sort [?b, ?a] ! unat i = ?a"
    using C by (auto split: option.splits)
  moreover have "qsort (Some cstring_compare) (Some [?b, ?a]) 2 = Some (sort [?b, ?a])"
    using C by (simp add: numeral_2_eq_2 del: sort_key_simps)
  ultimately show ?thesis by (simp add: Let_def del: sort_key_simps)
qed

end
