(* ===== verification/Threads.thy ===== *)
theory Threads
  imports Ipc Vfs Paging LibcFormat
begin

unbundle bit_operations_syntax

text \<open>
  The life of a task: \<^verbatim>\<open>thread.cc\<close>, \<^verbatim>\<open>fork.cc\<close>, \<^verbatim>\<open>exit.cc\<close>, \<^verbatim>\<open>sys.cc\<close> and \<^verbatim>\<open>syscall.cc\<close> of
  \<^verbatim>\<open>src/task\<close>.  Control blocks and saved registers are kept by their addresses, strings and the arrays
  of pointers to them are in a memory of bytes, and all memory comes from the page allocator.
\<close>

section \<open>State\<close>

record Registers =
  reg_r15 :: u64
  reg_r14 :: u64
  reg_r13 :: u64
  reg_r12 :: u64
  reg_r11 :: u64
  reg_r10 :: u64
  reg_r9 :: u64
  reg_r8 :: u64
  reg_rbx :: u64
  reg_rcx :: u64
  reg_rdx :: u64
  reg_rsi :: u64
  reg_rdi :: u64
  reg_rbp :: u64
  reg_ds :: u64
  reg_es :: u64
  reg_rax :: u64
  reg_rip :: u64
  reg_cs :: u64
  reg_rflags :: u64
  reg_rsp :: u64
  reg_ss :: u64

record Kernel = Ipc +
  k_frames :: FrameMem
  kmem :: bytes
  regs_at :: "addr \<Rightarrow> Registers"
  pid_counter :: u64
  kernel_pml4 :: u64
  msr :: "u32 \<Rightarrow> u64"

definition STACK_SIZE :: u64 where "STACK_SIZE = 0x8000"
definition KERNEL_CS :: u64 where "KERNEL_CS = 8"
definition KERNEL_DS :: u64 where "KERNEL_DS = 0x10"
definition IDLE_NICE :: int where "IDLE_NICE = 19"

definition sizeof_Pcb :: u64 where "sizeof_Pcb = 1784"
definition sizeof_Tcb :: u64 where "sizeof_Tcb = 56"
definition sizeof_Registers :: u64 where "sizeof_Registers = 176"

definition zero_Registers :: Registers where
  "zero_Registers = \<lparr>reg_r15 = 0, reg_r14 = 0, reg_r13 = 0, reg_r12 = 0, reg_r11 = 0, reg_r10 = 0, reg_r9 = 0,
     reg_r8 = 0, reg_rbx = 0, reg_rcx = 0, reg_rdx = 0, reg_rsi = 0, reg_rdi = 0, reg_rbp = 0, reg_ds = 0,
     reg_es = 0, reg_rax = 0, reg_rip = 0, reg_cs = 0, reg_rflags = 0, reg_rsp = 0, reg_ss = 0\<rparr>"

definition zero_Tcb :: Tcb where
  "zero_Tcb = \<lparr>rsp0 = 0, rip = 0, rsp = 0, fs = 0, gs = 0, cr2 = 0, trap_nr = 0, error_code = 0\<rparr>"

definition zero_Pcb :: Pcb where
  "zero_Pcb = \<lparr>pid = 0, stat = Running, flags = 0, parent = None, thread = None,
     mm = \<lparr>pml4 = 0, text_start = 0, text_end = 0, data_start = 0, data_end = 0, rodata_start = 0, rodata_end = 0,
       bss_start = 0, bss_end = 0, heap_start = 0, heap_end = 0, stack_base = 0\<rparr>,
     argv = 0, msg = None, tty = 0, time_used = 0, exit_code = 0,
     files = replicate 64 \<lparr>fd_used = False, fd_file = None, fd_flags = 0\<rparr>,
     se = \<lparr>vruntime = 0, sum_exec_runtime = 0, weight = 0, se_min_vruntime = 0, rb_left = None, rb_right = None,
       rb_parent = None, rb_is_red = False\<rparr>\<rparr>"

section \<open>Pages\<close>

text \<open>\<open>Alloc\<close> and \<open>Free\<close> of \<^verbatim>\<open>mm/page.cc\<close> on the memory of bytes: the number of pages is in the first word.\<close>

definition store64 :: "bytes \<Rightarrow> u64 \<Rightarrow> u64 \<Rightarrow> bytes" where
  "store64 m a v = store_bytes m a (le64 v)"

definition page_alloc :: "u64 \<Rightarrow> FrameMem \<times> bytes \<Rightarrow> (u64 option \<times> FrameMem \<times> bytes) option" where
  "page_alloc sz0 = (\<lambda>(f, m). do {
     let sz = (if sz0 = 0 then 1 else sz0);
     let npages = (sz + 8 + PAGE_SIZE - 1) div PAGE_SIZE;
     (base, f1) \<leftarrow> AllocPages npages f;
     Some (case base of None \<Rightarrow> (None, f1, m) | Some b \<Rightarrow> (Some b, f1, store64 m b npages)) })"

definition page_free :: "u64 \<Rightarrow> FrameMem \<times> bytes \<Rightarrow> FrameMem \<times> bytes" where
  "page_free a = (\<lambda>(f, m).
     if a = 0 then (f, m) else (FreePages a (peek64 m ((a - 8) AND PAGE_MASK)) f, m))"

definition k_alloc :: "u64 \<Rightarrow> Kernel \<Rightarrow> (u64 option \<times> Kernel) option" where
  "k_alloc sz s = do {
     (p, f, m) \<leftarrow> page_alloc sz (k_frames s, kmem s);
     Some (p, s\<lparr>k_frames := f, kmem := m\<rparr>) }"

definition k_free :: "u64 \<Rightarrow> Kernel \<Rightarrow> Kernel" where
  "k_free a s = (let (f, m) = page_free a (k_frames s, kmem s) in s\<lparr>k_frames := f, kmem := m\<rparr>)"

section \<open>Command lines\<close>

text \<open>The first pass counts the words.\<close>

definition count_body :: "bytes \<Rightarrow> u64 \<times> bool \<times> u64 \<Rightarrow> (u64 \<times> bool \<times> u64, u64) step option" where
  "count_body m = (\<lambda>(p, in_arg, argc). Some (
     if m p = 0 then Done argc
     else if m p = asc CHR '' '' then Next (p + 1, False, argc)
     else if \<not> in_arg then Next (p + 1, True, argc + 1)
     else Next (p + 1, in_arg, argc)))"

text \<open>A word of \<open>len\<close> bytes at \<open>start\<close> becomes the argument \<open>idx\<close>.\<close>

definition save_arg :: "u64 \<Rightarrow> u64 \<Rightarrow> u64 \<Rightarrow> u64 \<times> FrameMem \<times> bytes \<Rightarrow> (u64 \<times> FrameMem \<times> bytes) option" where
  "save_arg av start len = (\<lambda>(idx, w). do {
     (p, f, m) \<leftarrow> page_alloc (len + 1) w;
     Some (case p of
       None \<Rightarrow> (idx, f, store64 m (av + 8 * idx) 0)
     | Some a \<Rightarrow> (idx + 1, f, (memcpy a start len (store64 m (av + 8 * idx) a))(a + len := 0))) })"

definition copy_body :: "u64 \<Rightarrow> u64 \<Rightarrow> u64 \<times> bool \<times> u64 \<times> u64 \<times> FrameMem \<times> bytes \<Rightarrow>
    (u64 \<times> bool \<times> u64 \<times> u64 \<times> FrameMem \<times> bytes, u64 \<times> bool \<times> u64 \<times> u64 \<times> FrameMem \<times> bytes) step option" where
  "copy_body av argc = (\<lambda>(p, in_arg, start, idx, f, m).
     if m p \<noteq> 0 \<and> idx < argc then
       if m p = asc CHR '' '' then
         if in_arg then do { w \<leftarrow> save_arg av start (p - start) (idx, f, m); Some (Next (p + 1, False, start, w)) }
         else Some (Next (p + 1, in_arg, start, idx, f, m))
       else if \<not> in_arg then Some (Next (p + 1, True, p, idx, f, m))
       else Some (Next (p + 1, in_arg, start, idx, f, m))
     else Some (Done (p, in_arg, start, idx, f, m)))"

text \<open>The second pass, with the last word.\<close>

definition copy_all :: "u64 \<Rightarrow> u64 \<Rightarrow> u64 \<times> bool \<times> u64 \<times> u64 \<times> FrameMem \<times> bytes \<Rightarrow> (u64 \<times> FrameMem \<times> bytes) option" where
  "copy_all av argc st = do {
     (p, in_arg, start, idx, f, m) \<leftarrow> loop (copy_body av argc) st;
     if in_arg \<and> idx < argc then save_arg av start (p - start) (idx, f, m) else Some (idx, f, m) }"

text \<open>The number of arguments and their array; without arguments the array stays as it was.\<close>

definition ParseArgs :: "ptr \<Rightarrow> u64 \<Rightarrow> FrameMem \<times> bytes \<Rightarrow> (u64 \<times> u64 \<times> FrameMem \<times> bytes) option" where
  "ParseArgs a av0 = (\<lambda>(f, m).
     (case a of None \<Rightarrow> Some (0, av0, f, m) | Some a \<Rightarrow>
      if m a = 0 then Some (0, av0, f, m) else do {
      argc \<leftarrow> loop (count_body m) (a, False, 0);
      if argc = 0 then Some (0, av0, f, m) else do {
      (av, f, m) \<leftarrow> page_alloc ((argc + 1) * 8) (f, m);
      (case av of None \<Rightarrow> Some (0, 0, f, m) | Some av \<Rightarrow> do {
         (idx, f, m) \<leftarrow> copy_all av argc (a, False, 0, 0, f, m);
         Some (idx, av, f, store64 m (av + 8 * idx) 0) }) }}))"

section \<open>Creation\<close>

definition NewPid :: "Kernel \<Rightarrow> u64 \<times> Kernel" where
  "NewPid s = (pid_counter s, s\<lparr>pid_counter := pid_counter s + 1\<rparr>)"

text \<open>
  \<open>Fork\<close>: the block and its stack are one allocation, zeroed and then overwritten with the block of the
  running task.  \<open>entry\<close> is the address of \<^verbatim>\<open>kernel_thread_entry\<close>.
\<close>

definition Fork :: "u64 \<Rightarrow> Registers option \<Rightarrow> u64 \<Rightarrow> u64 \<Rightarrow> int \<Rightarrow> Kernel \<Rightarrow> (int \<times> Kernel) option" where
  "Fork entry regs flgs stack_size nice s = do {
     (p, s) \<leftarrow> k_alloc (sizeof_Pcb + stack_size) s;
     (case p of None \<Rightarrow> Some (-1, s) | Some nb \<Rightarrow> do {
     let s = s\<lparr>kmem := memset nb 0 (sizeof_Pcb + stack_size) (kmem s)\<rparr>;
     let s = upd_pcb nb (\<lambda>_. (case current_proc s of
               None \<Rightarrow> zero_Pcb\<lparr>parent := None\<rparr>
             | Some c \<Rightarrow> (pcbs s c)\<lparr>parent := Some c\<rparr>)) s;
     let (i, s) = NewPid s;
     let s = upd_pcb nb (\<lambda>b. b\<lparr>pid := i, stat := Blocked, flags := flgs\<rparr>) s;
     let s = upd_se nb (\<lambda>e. e\<lparr>weight := ucast (Nice2Weight nice), vruntime := 0, sum_exec_runtime := 0,
               se_min_vruntime := 0\<rparr>) s;
     (p, s) \<leftarrow> k_alloc sizeof_Tcb s;
     (case p of None \<Rightarrow> Some (-1, k_free nb s) | Some t \<Rightarrow> do {
     let s = s\<lparr>tcbs := (tcbs s)(t := zero_Tcb)\<rparr>;
     let s = upd_pcb nb (\<lambda>b. b\<lparr>thread := Some t\<rparr>) s;
     let top = nb + sizeof_Pcb + STACK_SIZE;
     s \<leftarrow> (case regs of
       Some r \<Rightarrow> do {
         let sp = top - sizeof_Registers;
         let s = s\<lparr>regs_at := (regs_at s)(sp := r), tcbs := (tcbs s)(t := zero_Tcb\<lparr>rsp0 := top, rsp := sp, rip := reg_rip r\<rparr>)\<rparr>;
         if flgs AND THREAD_NO_ARGS \<noteq> 0 then do {
           c \<leftarrow> current_proc s; Some (upd_pcb nb (\<lambda>b. b\<lparr>argv := argv (pcbs s c)\<rparr>) s) }
         else Some (upd_pcb nb (\<lambda>b. b\<lparr>argv := reg_rcx r\<rparr>) s) }
     | None \<Rightarrow> Some (s\<lparr>tcbs := (tcbs s)(t := zero_Tcb\<lparr>rsp0 := top, rsp := top, rip := entry\<rparr>)\<rparr>));
     let s = upd_pcb nb (\<lambda>b. b\<lparr>mm := (mm b)\<lparr>pml4 := kernel_pml4 s\<rparr>, stat := Ready\<rparr>) s;
     s \<leftarrow> Enqueue (Some nb) s;
     Some (sint (pid (pcbs s nb)), s) }) }) }"

definition KernelThread :: "u64 \<Rightarrow> u64 \<Rightarrow> ptr \<Rightarrow> int \<Rightarrow> u64 \<Rightarrow> Kernel \<Rightarrow> (int \<times> Kernel) option" where
  "KernelThread entry fn a nice flgs s = do {
     (argc, av, f, m) \<leftarrow> ParseArgs a 0 (k_frames s, kmem s);
     let s = s\<lparr>k_frames := f, kmem := m\<rparr>;
     let regs = zero_Registers\<lparr>reg_rbx := fn, reg_rdx := argc, reg_rcx := av, reg_ds := KERNEL_DS, reg_es := KERNEL_DS,
           reg_cs := KERNEL_CS, reg_ss := KERNEL_DS, reg_rflags := push_bit 9 1, reg_rip := entry\<rparr>;
     Fork entry (Some regs) (flgs OR THREAD_KERNEL) STACK_SIZE nice s }"

text \<open>The idle task; a panic has no result.\<close>

definition InitIdle :: "u64 \<Rightarrow> Kernel \<Rightarrow> Kernel option" where
  "InitIdle entry s = do {
     (p, s) \<leftarrow> k_alloc (sizeof_Pcb + STACK_SIZE) s;
     idle \<leftarrow> p;
     let s = s\<lparr>kmem := memset idle 0 (sizeof_Pcb + STACK_SIZE) (kmem s)\<rparr>;
     let (i, s) = NewPid s;
     let s = upd_pcb idle (\<lambda>_. zero_Pcb\<lparr>parent := None, pid := i, stat := Blocked\<rparr>) s;
     (p, s) \<leftarrow> k_alloc sizeof_Tcb s;
     t \<leftarrow> p;
     let top = idle + sizeof_Pcb + STACK_SIZE;
     let s = s\<lparr>tcbs := (tcbs s)(t := zero_Tcb\<lparr>rsp0 := top, rip := entry, rsp := top\<rparr>)\<rparr>;
     let s = upd_pcb idle (\<lambda>b. b\<lparr>thread := Some t, mm := (mm b)\<lparr>pml4 := kernel_pml4 s\<rparr>, stat := Ready,
               flags := THREAD_KERNEL\<rparr>) s;
     let s = upd_se idle (\<lambda>e. e\<lparr>weight := ucast (Nice2Weight IDLE_NICE), vruntime := 0, sum_exec_runtime := 0,
               se_min_vruntime := 0\<rparr>) s;
     s \<leftarrow> Enqueue (Some idle) s;
     Some (s\<lparr>current_proc := Some idle\<rparr>) }"

definition wrmsr :: "u32 \<Rightarrow> u64 \<Rightarrow> Kernel \<Rightarrow> Kernel" where
  "wrmsr i v s = (if i = 0x175 then s\<lparr>msr_175 := v\<rparr> else s\<lparr>msr := (msr s)(i := v)\<rparr>)"

text \<open>
  \<open>Init\<close> up to the first call of the scheduler.  The services are given by the addresses of their functions
  and of their names, with their nice values, in the order of the calls.
\<close>

primrec start_all :: "u64 \<Rightarrow> (u64 \<times> addr \<times> int) list \<Rightarrow> Kernel \<Rightarrow> Kernel option" where
  "start_all entry [] s = Some s"
| "start_all entry (t # ts) s = do {
     (_, s) \<leftarrow> (case t of (fn, name, nice) \<Rightarrow> KernelThread entry fn (Some name) nice 0 s);
     start_all entry ts s }"

definition service_nice :: "int list" where
  "service_nice = [0, -10, -5, -5, 0, 0]"

definition Init_threads :: "u64 \<Rightarrow> u64 \<Rightarrow> (u64 \<times> addr) list \<Rightarrow> Kernel \<Rightarrow> Kernel option" where
  "Init_threads entry syscall_entry services s = do {
     let s = s\<lparr>pid_counter := 0\<rparr>;
     let s = wrmsr 0x174 KERNEL_CS s;
     s \<leftarrow> InitIdle entry s;
     c \<leftarrow> current_proc s;
     t \<leftarrow> thread (pcbs s c);
     let s = wrmsr 0x175 (rsp0 (tcbs s t)) s;
     let s = wrmsr 0x176 syscall_entry s;
     start_all entry (map (\<lambda>((fn, name), nice). (fn, name, nice)) (zip services service_nice)) s }"

definition Init :: "u64 \<Rightarrow> u64 \<Rightarrow> (u64 \<times> addr) list \<Rightarrow> u64 \<Rightarrow> Kernel \<Rightarrow> (sched_outcome \<times> Kernel) option" where
  "Init entry syscall_entry services resume s = do {
     s \<leftarrow> Init_threads entry syscall_entry services s;
     Schedule resume s }"

section \<open>The end of a task\<close>

definition free_args_body :: "u64 \<Rightarrow> u64 \<times> FrameMem \<times> bytes \<Rightarrow> (u64 \<times> FrameMem \<times> bytes, FrameMem \<times> bytes) step option" where
  "free_args_body av = (\<lambda>(i, f, m). let a = peek64 m (av + 8 * i) in
     Some (if a \<noteq> 0 then Next (i + 1, page_free a (f, m)) else Done (f, m)))"

definition Kill :: "addr \<Rightarrow> u64 \<Rightarrow> Kernel \<Rightarrow> Kernel option" where
  "Kill proc code s = do {
     let s = upd_pcb proc (\<lambda>b. b\<lparr>exit_code := code, stat := Dead\<rparr>) s;
     let av = argv (pcbs s proc);
     s \<leftarrow> (if av \<noteq> 0 then do {
           (f, m) \<leftarrow> loop (free_args_body av) (0, k_frames s, kmem s);
           Some (k_free av (s\<lparr>k_frames := f, kmem := m\<rparr>)) }
         else Some s);
     Some (if flags (pcbs s proc) AND THREAD_KERNEL = 0 then k_free (pml4 (mm (pcbs s proc))) s else s) }"

definition Exit :: "u64 \<Rightarrow> u64 \<Rightarrow> Kernel \<Rightarrow> (sched_outcome \<times> Kernel) option" where
  "Exit resume code s = do {
     c \<leftarrow> current_proc s;
     s \<leftarrow> Kill c code s;
     Schedule resume s }"

section \<open>System calls\<close>

definition SYS_SEND :: u64 where "SYS_SEND = 0"
definition SYS_RECEIVE :: u64 where "SYS_RECEIVE = 1"
definition SYS_BLOCK :: u64 where "SYS_BLOCK = 2"
definition SYS_FS :: u64 where "SYS_FS = 3"
definition SYS_CHAR :: u64 where "SYS_CHAR = 4"
definition SYS_MM :: u64 where "SYS_MM = 5"
definition SYS_TASK :: u64 where "SYS_TASK = 6"
definition SYS_TASK_EXIT :: u64 where "SYS_TASK_EXIT = 0x30"
definition SYS_TASK_KILL :: u64 where "SYS_TASK_KILL = 0x31"
definition SYS_TASK_EXECVE :: u64 where "SYS_TASK_EXECVE = 0x32"

text \<open>
  \<open>SyscallMain\<close>: \<open>r\<close> is the address of the saved registers, \<open>m\<close> that of the message on the stack.  The
  end of a receive runs when \<open>Receive\<close> has returned, at once or after the task was switched to again.
\<close>

definition receive_end :: "Registers \<Rightarrow> addr \<Rightarrow> Kernel \<Rightarrow> Kernel option" where
  "receive_end r m s = do {
     let s = s\<lparr>kmem := mem_store (reg_r8 r) (payload (msgs s m)) (kmem s)\<rparr>;
     if reg_rdi r \<noteq> 0 then do {
       c \<leftarrow> sender (msgs s m);
       Some (s\<lparr>kmem := store64 (kmem s) (reg_rdi r) (pid (pcbs s c))\<rparr>) }
     else Some s }"

definition SyscallMain :: "u64 \<Rightarrow> addr \<Rightarrow> addr \<Rightarrow> Kernel \<Rightarrow> (int call \<times> Kernel) option" where
  "SyscallMain resume m r s = (let regs = regs_at s r in
     if reg_rax regs = SYS_SEND then
       Send resume m (set_msg m ((msgs s m)\<lparr>dst_pid := reg_rdi regs, msg_type := reg_rsi regs,
         payload := mem_bytes (kmem s) (reg_r8 regs) 256\<rparr>) s)
     else if reg_rax regs = SYS_RECEIVE then do {
       (ret, s) \<leftarrow> Receive resume m (set_msg m ((msgs s m)\<lparr>msg_type := reg_rdi regs\<rparr>) s);
       (case ret of
          Suspends out \<Rightarrow> Some (Suspends out, s)
        | Returns v \<Rightarrow> do { s \<leftarrow> receive_end regs m s; Some (Returns v, s) }) }
     else Some (Returns (-1), s))"

text \<open>
  The service of the tasks: what it does with a message it has received.  \<open>exec\<close> is \<^verbatim>\<open>Execve\<close>.
\<close>

definition task_serve :: "(u64 \<Rightarrow> u64 \<Rightarrow> u64 \<Rightarrow> Kernel \<Rightarrow> Kernel option) \<Rightarrow> Message \<Rightarrow> Kernel \<Rightarrow> Kernel option" where
  "task_serve exec m s =
     (if msg_type m = SYS_TASK_EXIT then do { c \<leftarrow> sender m; Kill c (msg_num m 0) s }
      else if msg_type m = SYS_TASK_KILL then do { c \<leftarrow> as_ptr (msg_num m 0); Kill c (msg_num m 1) s }
      else if msg_type m = SYS_TASK_EXECVE then exec (msg_num m 0) (msg_num m 1) (msg_num m 2) s
      else Some s)"

end
