(* ===== verification/ThreadRun.thy ===== *)
theory ThreadRun
  imports Threads
begin

text \<open>
  Task creation when nothing has been released: where the pages come from, what \<open>ParseArgs\<close> returns,
  and what \<open>Fork\<close> and \<open>KernelThread\<close> do to the run queue and to the control blocks.
\<close>

section \<open>Pages in sequence\<close>

text \<open>The pages below \<open>k\<close> are in use; \<open>page_at\<close> is the address of a page, \<open>page_area\<close> all their bytes.\<close>

definition frames_at :: "u64 \<Rightarrow> u64 \<Rightarrow> nat \<Rightarrow> FrameMem \<Rightarrow> bool" where
  "frames_at su tp k f \<longleftrightarrow> frame_ok f \<and> used f = {..<k} \<and> start_usable f = su \<and> total_pages f = tp"

definition page_at :: "u64 \<Rightarrow> nat \<Rightarrow> addr" where
  "page_at su k = Phy2Vir (su + of_nat k * PAGE_SIZE)"

definition page_area :: "u64 \<Rightarrow> u64 \<Rightarrow> addr set" where
  "page_area su tp = {a. unat (a - page_at su 0) < unat tp * 4096}"

definition same_outside :: "addr set \<Rightarrow> bytes \<Rightarrow> bytes \<Rightarrow> bool" where
  "same_outside A m m' \<longleftrightarrow> (\<forall>a. a \<notin> A \<longrightarrow> m' a = m a)"

lemma same_outside_refl [simp]: "same_outside A m m"
  by (simp add: same_outside_def)

lemma same_outside_trans [trans]: "same_outside A m m' \<Longrightarrow> same_outside A m' m'' \<Longrightarrow> same_outside A m m''"
  by (simp add: same_outside_def)

definition pages_of :: "nat \<Rightarrow> nat" where
  "pages_of n = (n + 4103) div 4096"

lemma pages_of_pos: "0 < n \<Longrightarrow> 0 < pages_of n"
  by (simp add: pages_of_def div_greater_zero_iff)

lemma pages_cover: "n \<le> pages_of n * 4096"
proof -
  have "(n + 4103) div 4096 * 4096 + (n + 4103) mod 4096 = n + 4103" by (rule div_mult_mod_eq)
  moreover have "(n + 4103) mod 4096 < 4096" by (rule mod_less_divisor) simp
  ultimately show ?thesis unfolding pages_of_def by linarith
qed

lemma unat_small: "n < 2 ^ 63 \<Longrightarrow> unat (of_nat n :: u64) = n"
  by (simp add: unat_of_nat)

lemma page_in_area:
  assumes "k < unat tp" "unat tp < 2 ^ 51" "k * 4096 + i < unat tp * 4096"
  shows "page_at su k + of_nat i \<in> page_area su tp"
proof -
  have "page_at su k + of_nat i - page_at su 0 = of_nat (k * 4096 + i)"
    by (simp add: page_at_def Phy2Vir_def PAGE_SIZE_def)
  moreover have "unat (of_nat (k * 4096 + i) :: u64) = k * 4096 + i"
    using assms(2,3) by (intro unat_small) simp
  ultimately have "unat (page_at su k + of_nat i - page_at su 0) = k * 4096 + i" by presburger
  with assms(3) show ?thesis by (simp add: page_area_def)
qed

lemma store_bytes_outside:
  "(\<And>i. i < length bs \<Longrightarrow> a + of_nat i \<in> A) \<Longrightarrow> same_outside A m (store_bytes m a bs)"
proof (induction bs arbitrary: m a)
  case (Cons b bs)
  have "same_outside A (m(a := b)) (store_bytes (m(a := b)) (a + 1) bs)"
  proof (rule Cons.IH)
    fix i assume "i < length bs"
    then show "a + 1 + of_nat i \<in> A" using Cons.prems [of "Suc i"] by (simp add: algebra_simps)
  qed
  moreover have "a \<in> A" using Cons.prems [of 0] by simp
  ultimately show ?case by (auto simp: same_outside_def)
qed simp

lemma length_le64 [simp]: "length (le64 v) = 8"
  by (simp add: le64_def)

lemma page_alloc_seq:
  assumes F: "frames_at su tp k f" and n: "0 < n" "n < 2 ^ 62" "k + pages_of n \<le> unat tp"
  shows "\<exists>f' m'. page_alloc (of_nat n) (f, m) = Some (Some (page_at su k), f', m') \<and>
    frames_at su tp (k + pages_of n) f' \<and> same_outside (page_area su tp) m m'"
proof -
  have tp: "unat tp < 2 ^ 51" using F by (auto simp: frames_at_def frame_ok_def)
  have u: "unat (of_nat n :: u64) = n" using n by (intro unat_small) simp
  have n0: "(of_nat n :: u64) \<noteq> 0" using n(1) u by force
  define np :: u64 where "np = (of_nat n + 8 + PAGE_SIZE - 1) div PAGE_SIZE"
  have "unat (of_nat (n + 4103) :: u64) = n + 4103" using n(2) by (intro unat_small) simp
  moreover have "of_nat n + 8 + PAGE_SIZE - 1 = (of_nat (n + 4103) :: u64)" by (simp add: PAGE_SIZE_def)
  ultimately have "unat (of_nat n + 8 + PAGE_SIZE - 1 :: u64) = n + 4103" by presburger
  then have np: "unat np = pages_of n" by (simp add: np_def unat_div pages_of_def) (simp add: PAGE_SIZE_def)
  then have np0: "np \<noteq> 0" using pages_of_pos [OF n(1)] by auto
  have f: "frame_ok f" "used f = {..<k}" "start_usable f = su" "total_pages f = tp"
    using F by (auto simp: frames_at_def)
  have "unat (free_pages f) = unat tp - k" using f by (simp add: frame_ok_def)
  then have "np \<le> free_pages f" using n(3) np by (simp add: word_le_nat_alt)
  from AllocPages_prefix [OF f(1,2) np0 this] obtain f' where
    f': "AllocPages np f = Some (Some (page_at su k), f')" "frames_at su tp (k + pages_of n) f'"
    unfolding frames_at_def page_at_def f np by blast
  have "same_outside (page_area su tp) m (store64 m (page_at su k) np)"
    unfolding store64_def
  proof (rule store_bytes_outside)
    fix i assume "i < length (le64 np)"
    then show "page_at su k + of_nat i \<in> page_area su tp"
      using n(3) pages_of_pos [OF n(1)] by (intro page_in_area [OF _ tp]) auto
  qed
  moreover have "page_alloc (of_nat n) (f, m) = Some (Some (page_at su k), f', store64 m (page_at su k) np)"
    unfolding page_alloc_def Let_def if_not_P [OF n0] prod.case np_def [symmetric] using f'(1) by simp
  ultimately show ?thesis using f'(2) by blast
qed

section \<open>Command lines\<close>

text \<open>The words of a string; \<open>cur\<close> is the word that has begun.\<close>

fun args_from :: "byte list \<Rightarrow> byte list \<Rightarrow> byte list list" where
  "args_from cur [] = (if cur = [] then [] else [cur])"
| "args_from cur (c # cs) =
     (if c = 0x20 then if cur = [] then args_from [] cs else cur # args_from [] cs else args_from (cur @ [c]) cs)"

lemma args_from_nonempty: "cur \<noteq> [] \<Longrightarrow> args_from cur cs \<noteq> []"
  by (induction cs arbitrary: cur) auto

lemma length_args_from: "length (args_from cur cs) \<le> length cs + (if cur = [] then 0 else 1)"
  by (induction cur cs rule: args_from.induct) auto

lemma args_from_words: "w \<in> set (args_from cur cs) \<Longrightarrow> 0x20 \<notin> set cur \<Longrightarrow> w \<noteq> [] \<and> 0x20 \<notin> set w"
  by (induction cur cs rule: args_from.induct) (auto split: if_splits)

lemma args_from_length: "w \<in> set (args_from cur cs) \<Longrightarrow> length w \<le> length cur + length cs"
  by (induction cur cs rule: args_from.induct) (fastforce split: if_splits)+

lemma args_from_concat: "concat (args_from cur cs) = cur @ filter (\<lambda>c. c \<noteq> 0x20) cs"
  by (induction cur cs rule: args_from.induct) auto

lemma count_loop:
  assumes "cstr m p cs"
  shows "loop (count_body m) (p, cur \<noteq> [], n) =
    Some (n + of_nat (length (args_from cur cs)) - (if cur = [] then 0 else 1))"
  using assms
proof (induction cs arbitrary: p cur n)
  case Nil
  then have "count_body m (p, cur \<noteq> [], n) = Some (Done n)" by (simp add: count_body_def)
  then show ?case by (simp add: loop_Done)
next
  case (Cons c cs)
  then have m: "m p = c" "c \<noteq> 0" "cstr m (p + 1) cs" by auto
  consider "c = 0x20" | "c \<noteq> 0x20" "cur = []" | "c \<noteq> 0x20" "cur \<noteq> []" by blast
  then show ?case
  proof cases
    case 1
    then have "count_body m (p, cur \<noteq> [], n) = Some (Next (p + 1, False, n))" using m by (simp add: count_body_def)
    then have "loop (count_body m) (p, cur \<noteq> [], n) = loop (count_body m) (p + 1, False, n)" by (rule loop_Next)
    then show ?thesis using Cons.IH [OF m(3), of "[]" "n"] 1 by simp
  next
    case 2
    then have "count_body m (p, cur \<noteq> [], n) = Some (Next (p + 1, True, n + 1))" using m by (simp add: count_body_def)
    then have "loop (count_body m) (p, cur \<noteq> [], n) = loop (count_body m) (p + 1, True, n + 1)" by (rule loop_Next)
    then show ?thesis using Cons.IH [OF m(3), of "[c]" "n + 1"] 2 by simp
  next
    case 3
    then have "count_body m (p, cur \<noteq> [], n) = Some (Next (p + 1, True, n))" using m by (simp add: count_body_def)
    then have "loop (count_body m) (p, cur \<noteq> [], n) = loop (count_body m) (p + 1, True, n)" by (rule loop_Next)
    then show ?thesis using Cons.IH [OF m(3), of "cur @ [c]" "n"] 3 by simp
  qed
qed

text \<open>The pages the words need.\<close>

definition need :: "byte list list \<Rightarrow> nat" where
  "need ws = sum_list (map (\<lambda>w. pages_of (length w + 1)) ws)"

lemma need_simps [simp]: "need [] = 0" "need (w # ws) = pages_of (length w + 1) + need ws"
  by (simp_all add: need_def)

definition slots :: "addr set \<Rightarrow> u64 \<Rightarrow> nat \<Rightarrow> bool" where
  "slots A av n \<longleftrightarrow> (\<forall>i \<le> n. \<forall>b < 8. av + 8 * of_nat i + of_nat b \<in> A)"

lemma store64_outside: "slots A av n \<Longrightarrow> j \<le> n \<Longrightarrow> same_outside A m (store64 m (av + 8 * of_nat j) v)"
  unfolding store64_def by (rule store_bytes_outside) (simp add: slots_def)

lemma copy_up_outside:
  "(\<And>i. i < n \<Longrightarrow> d + of_nat i \<in> A) \<Longrightarrow> same_outside A m (copy_up d s n m)"
proof (induction n arbitrary: d s m)
  case (Suc n)
  have "same_outside A (m(d := m s)) (copy_up (d + 1) (s + 1) n (m(d := m s)))"
  proof (rule Suc.IH)
    fix i assume "i < n"
    then show "d + 1 + of_nat i \<in> A" using Suc.prems [of "Suc i"] by (simp add: algebra_simps)
  qed
  moreover have "d \<in> A" using Suc.prems [of 0] by simp
  ultimately show ?case by (auto simp: same_outside_def)
qed simp

lemma save_arg_seq:
  assumes F: "frames_at su tp k f" and n: "n < 2 ^ 61" "k + pages_of (n + 1) \<le> unat tp"
    and sl: "slots (page_area su tp) av c" "j \<le> c"
  shows "\<exists>f' m'. save_arg av start (of_nat n) (of_nat j, f, m) = Some (of_nat j + 1, f', m') \<and>
    frames_at su tp (k + pages_of (n + 1)) f' \<and> same_outside (page_area su tp) m m'"
proof -
  let ?A = "page_area su tp" and ?a = "page_at su k"
  have tp: "unat tp < 2 ^ 51" using F by (auto simp: frames_at_def frame_ok_def)
  have "\<exists>f' m'. page_alloc (of_nat (n + 1)) (f, m) = Some (Some ?a, f', m') \<and>
    frames_at su tp (k + pages_of (n + 1)) f' \<and> same_outside ?A m m'"
    by (rule page_alloc_seq [OF F]) (use n in simp_all)
  then obtain f' m1 where p: "page_alloc (of_nat n + 1) (f, m) = Some (Some ?a, f', m1)"
    "frames_at su tp (k + pages_of (n + 1)) f'" "same_outside ?A m m1" by (auto simp: add.commute)
  have len: "n + 1 \<le> pages_of (n + 1) * 4096" by (rule pages_cover)
  have inA: "?a + of_nat i \<in> ?A" if "i \<le> n" for i
    using that len n(2) pages_of_pos [of "n + 1"] by (intro page_in_area [OF _ tp]) simp_all
  let ?m2 = "store64 m1 (av + 8 * of_nat j) ?a"
  have u: "unat (of_nat n :: u64) = n" using n(1) by (intro unat_small) simp
  have "same_outside ?A m1 ?m2" by (rule store64_outside [OF sl])
  moreover have "same_outside ?A ?m2 (memcpy ?a start (of_nat n) ?m2)"
    unfolding memcpy_def u by (rule copy_up_outside) (simp add: inA)
  moreover have "same_outside ?A (memcpy ?a start (of_nat n) ?m2) ((memcpy ?a start (of_nat n) ?m2)(?a + of_nat n := 0))"
    using inA [of n] by (auto simp: same_outside_def)
  ultimately have "same_outside ?A m ((memcpy ?a start (of_nat n) ?m2)(?a + of_nat n := 0))"
    using p(3) by (meson same_outside_trans)
  then show ?thesis using p(1,2) by (simp add: save_arg_def)
qed

text \<open>The loop over the words with what follows it.\<close>

lemma of_nat_mono: "j < c \<Longrightarrow> c < 2 ^ 60 \<Longrightarrow> of_nat j < (of_nat c :: u64)"
  by (simp add: word_less_nat_alt unat_small)

lemma copy_all_Next: "copy_body av argc st = Some (Next st') \<Longrightarrow> copy_all av argc st = copy_all av argc st'"
  using loop_Next [of "copy_body av argc" st st'] by (simp add: copy_all_def)

lemma copy_all_Done: "copy_body av argc st = Some (Done st') \<Longrightarrow>
    copy_all av argc st = (case st' of (p, in_arg, start, idx, f, m) \<Rightarrow>
      if in_arg \<and> idx < argc then save_arg av start (p - start) (idx, f, m) else Some (idx, f, m))"
  using loop_Done [of "copy_body av argc" st st'] by (simp add: copy_all_def split: prod.splits)

lemma copy_all_correct:
  assumes "cstr m0 p cs" "\<And>i. i \<le> length cs \<Longrightarrow> p + of_nat i \<notin> page_area su tp"
    and "same_outside (page_area su tp) m0 m" "frames_at su tp k f"
    and "slots (page_area su tp) av c" "j + length (args_from cur cs) = c" "c < 2 ^ 60" "length cur + length cs < 2 ^ 60"
    and "cur \<noteq> [] \<Longrightarrow> start + of_nat (length cur) = p" "k + need (args_from cur cs) \<le> unat tp"
  shows "\<exists>f' m'. copy_all av (of_nat c) (p, cur \<noteq> [], start, of_nat j, f, m) = Some (of_nat c, f', m') \<and>
     frames_at su tp (k + need (args_from cur cs)) f' \<and> same_outside (page_area su tp) m0 m'"
  using assms
proof (induction cs arbitrary: p m k f j cur start)
  case Nil
  let ?A = "page_area su tp"
  have mp: "m p = 0" using Nil.prems(1,2,3) by (force simp: same_outside_def)
  have done_eq: "copy_all av (of_nat c) (p, cur \<noteq> [], start, of_nat j, f, m) =
      (if cur \<noteq> [] \<and> of_nat j < (of_nat c :: u64) then save_arg av start (p - start) (of_nat j, f, m) else Some (of_nat j, f, m))"
    using copy_all_Done [of av "of_nat c" "(p, cur \<noteq> [], start, of_nat j, f, m)" "(p, cur \<noteq> [], start, of_nat j, f, m)"]
    unfolding prod.case by (simp add: copy_body_def mp)
  show ?case
  proof (cases "cur = []")
    case True
    then show ?thesis using Nil.prems(3,4,6) done_eq by simp
  next
    case False
    have jc: "c = j + 1" using Nil.prems(6) False by simp
    then have "of_nat j < (of_nat c :: u64)" using Nil.prems(7) by (intro of_nat_mono) simp_all
    moreover have ps: "p - start = of_nat (length cur)" using Nil.prems(9) [OF False] by (metis add_diff_cancel_left')
    moreover have "\<exists>f' m'. save_arg av start (of_nat (length cur)) (of_nat j, f, m) = Some (of_nat j + 1, f', m') \<and>
        frames_at su tp (k + pages_of (length cur + 1)) f' \<and> same_outside ?A m m'"
      by (rule save_arg_seq [OF Nil.prems(4) _ _ Nil.prems(5)]) (use Nil.prems(8,10) jc False in simp_all)
    ultimately show ?thesis using False done_eq jc same_outside_trans [OF Nil.prems(3)] by (auto simp: add.commute)
  qed
next
  case (Cons ch cs)
  let ?A = "page_area su tp"
  have mp: "m p = ch" "ch \<noteq> 0" using Cons.prems(1,2,3) Cons.prems(2) [of 0] by (auto simp: same_outside_def)
  have next_str: "cstr m0 (p + 1) cs" using Cons.prems(1) by simp
  have out: "p + 1 + of_nat i \<notin> ?A" if "i \<le> length cs" for i
    using Cons.prems(2) [of "Suc i"] that by (simp add: algebra_simps)
  have "args_from cur (ch # cs) \<noteq> [] \<or> cur = [] \<and> args_from [] cs = []"
    using args_from_nonempty [of "cur @ [ch]" cs] by auto
  then consider "ch = 0x20" "cur \<noteq> []" | "ch = 0x20" "cur = []" "args_from [] cs \<noteq> []"
    | "ch = 0x20" "cur = []" "args_from [] cs = []" | "ch \<noteq> 0x20" "cur = []" | "ch \<noteq> 0x20" "cur \<noteq> []" by blast
  then show ?case
  proof cases
    case 1
    have jc: "j < c" using Cons.prems(6) 1 by simp
    then have lt: "of_nat j < (of_nat c :: u64)" using Cons.prems(7) by (rule of_nat_mono)
    have ps: "p - start = of_nat (length cur)" using Cons.prems(9) [OF 1(2)] by (metis add_diff_cancel_left')
    have "\<exists>f' m'. save_arg av start (of_nat (length cur)) (of_nat j, f, m) = Some (of_nat j + 1, f', m') \<and>
        frames_at su tp (k + pages_of (length cur + 1)) f' \<and> same_outside ?A m m'"
      by (rule save_arg_seq [OF Cons.prems(4) _ _ Cons.prems(5)]) (use Cons.prems(8,10) jc 1 in simp_all)
    then obtain f1 m1 where s1: "save_arg av start (of_nat (length cur)) (of_nat j, f, m) = Some (of_nat j + 1, f1, m1)"
      "frames_at su tp (k + pages_of (length cur + 1)) f1" "same_outside ?A m m1" by blast
    have "copy_body av (of_nat c) (p, cur \<noteq> [], start, of_nat j, f, m) = Some (Next (p + 1, False, start, of_nat (Suc j), f1, m1))"
      using s1(1) 1 mp lt ps by (simp add: copy_body_def add.commute)
    then have "copy_all av (of_nat c) (p, cur \<noteq> [], start, of_nat j, f, m) =
        copy_all av (of_nat c) (p + 1, False, start, of_nat (Suc j), f1, m1)" by (rule copy_all_Next)
    moreover have "\<exists>f' m'. copy_all av (of_nat c) (p + 1, [] \<noteq> [], start, of_nat (Suc j), f1, m1) = Some (of_nat c, f', m') \<and>
        frames_at su tp (k + pages_of (length cur + 1) + need (args_from [] cs)) f' \<and> same_outside ?A m0 m'"
      using Cons.IH [OF next_str out same_outside_trans [OF Cons.prems(3) s1(3)] s1(2) Cons.prems(5), of "Suc j" "[]" start]
        Cons.prems(6,7,8,10) 1 by (simp add: add.assoc)
    ultimately show ?thesis using 1 by (simp add: add.assoc)
  next
    case 2
    have "j < c" using Cons.prems(6) 2 by (cases "args_from [] cs") auto
    then have lt: "of_nat j < (of_nat c :: u64)" using Cons.prems(7) by (rule of_nat_mono)
    have "copy_body av (of_nat c) (p, cur \<noteq> [], start, of_nat j, f, m) = Some (Next (p + 1, [] \<noteq> [], start, of_nat j, f, m))"
      using 2 mp lt by (simp add: copy_body_def)
    then have eq: "copy_all av (of_nat c) (p, cur \<noteq> [], start, of_nat j, f, m) =
        copy_all av (of_nat c) (p + 1, [] \<noteq> [], start, of_nat j, f, m)" by (rule copy_all_Next)
    have "args_from cur (ch # cs) = args_from [] cs" using 2 by simp
    then show ?thesis
      using eq Cons.IH [OF next_str out Cons.prems(3,4,5), of j "[]" start] Cons.prems(6,7,8,10) 2 by simp
  next
    case 3
    then have jc: "j = c" "args_from cur (ch # cs) = []" using Cons.prems(6) by simp_all
    have "copy_body av (of_nat c) (p, cur \<noteq> [], start, of_nat j, f, m) = Some (Done (p, False, start, of_nat j, f, m))"
      using 3 jc by (simp add: copy_body_def)
    then have "copy_all av (of_nat c) (p, cur \<noteq> [], start, of_nat j, f, m) = Some (of_nat j, f, m)"
      using copy_all_Done [of av "of_nat c" "(p, cur \<noteq> [], start, of_nat j, f, m)" "(p, False, start, of_nat j, f, m)"]
      unfolding prod.case by simp
    then show ?thesis using jc Cons.prems(3,4) by simp
  next
    case 4
    have "j < c" using Cons.prems(6) 4 args_from_nonempty [of "[ch]" cs] by (cases "args_from [ch] cs") auto
    then have lt: "of_nat j < (of_nat c :: u64)" using Cons.prems(7) by (rule of_nat_mono)
    have "copy_body av (of_nat c) (p, cur \<noteq> [], start, of_nat j, f, m) = Some (Next (p + 1, [ch] \<noteq> [], p, of_nat j, f, m))"
      using 4 mp lt by (simp add: copy_body_def)
    then have eq: "copy_all av (of_nat c) (p, cur \<noteq> [], start, of_nat j, f, m) =
        copy_all av (of_nat c) (p + 1, [ch] \<noteq> [], p, of_nat j, f, m)" by (rule copy_all_Next)
    have "args_from cur (ch # cs) = args_from [ch] cs" using 4 by simp
    then show ?thesis unfolding eq
      using Cons.IH [OF next_str out Cons.prems(3,4,5), of j "[ch]" p] Cons.prems(6,7,8,10) 4 by simp
  next
    case 5
    have "j < c" using Cons.prems(6) 5 args_from_nonempty [of "cur @ [ch]" cs] by (cases "args_from (cur @ [ch]) cs") auto
    then have lt: "of_nat j < (of_nat c :: u64)" using Cons.prems(7) by (rule of_nat_mono)
    have "copy_body av (of_nat c) (p, cur \<noteq> [], start, of_nat j, f, m) = Some (Next (p + 1, cur @ [ch] \<noteq> [], start, of_nat j, f, m))"
      using 5 mp lt by (simp add: copy_body_def)
    then have eq: "copy_all av (of_nat c) (p, cur \<noteq> [], start, of_nat j, f, m) =
        copy_all av (of_nat c) (p + 1, cur @ [ch] \<noteq> [], start, of_nat j, f, m)" by (rule copy_all_Next)
    have "args_from cur (ch # cs) = args_from (cur @ [ch]) cs" using 5 by simp
    then show ?thesis unfolding eq
      using Cons.IH [OF next_str out Cons.prems(3,4,5), of j "cur @ [ch]" start] Cons.prems(6,7,8,9,10) 5
      by (simp add: algebra_simps)
  qed
qed

text \<open>The whole function: the number of words, and memory outside the pages left alone.\<close>

lemma ParseArgs_correct:
  assumes "cstr m a cs" "\<And>i. i \<le> length cs \<Longrightarrow> a + of_nat i \<notin> page_area su tp" "length cs < 2 ^ 56"
    and F: "frames_at su tp k f" and "args_from [] cs \<noteq> []"
    and room: "k + pages_of (8 * (length (args_from [] cs) + 1)) + need (args_from [] cs) \<le> unat tp"
  shows "\<exists>f' m'. ParseArgs (Some a) 0 (f, m) = Some (of_nat (length (args_from [] cs)), page_at su k, f', m') \<and>
     frames_at su tp (k + pages_of (8 * (length (args_from [] cs) + 1)) + need (args_from [] cs)) f' \<and>
     same_outside (page_area su tp) m m'"
proof -
  let ?A = "page_area su tp" and ?c = "length (args_from [] cs)"
  have tp: "unat tp < 2 ^ 51" using F by (auto simp: frames_at_def frame_ok_def)
  have cl: "?c < 2 ^ 56" using length_args_from [of "[]" cs] assms(3) by simp
  have ma: "m a \<noteq> 0" using assms(1,5) by (cases cs) auto
  have count: "loop (count_body m) (a, False, 0) = Some (of_nat ?c)" using count_loop [OF assms(1), of "[]" 0] by simp
  have c0: "(of_nat ?c :: u64) \<noteq> 0"
  proof
    assume "(of_nat ?c :: u64) = 0"
    then have "?c = 0" using unat_small [of ?c] cl by simp
    with assms(5) show False by simp
  qed
  let ?n = "8 * (?c + 1)"
  have "\<exists>f' m'. page_alloc (of_nat ?n) (f, m) = Some (Some (page_at su k), f', m') \<and>
    frames_at su tp (k + pages_of ?n) f' \<and> same_outside ?A m m'"
    by (rule page_alloc_seq [OF F]) (use cl room in simp_all)
  then obtain f1 m1 where p: "page_alloc (of_nat ?n) (f, m) = Some (Some (page_at su k), f1, m1)"
    "frames_at su tp (k + pages_of ?n) f1" "same_outside ?A m m1" by blast
  have n: "(of_nat ?c + 1) * 8 = (of_nat ?n :: u64)" by (simp add: algebra_simps)
  have sl: "slots ?A (page_at su k) ?c"
    unfolding slots_def
  proof (intro allI impI)
    fix i b :: nat assume ib: "i \<le> ?c" "b < 8"
    have "?n \<le> pages_of ?n * 4096" by (rule pages_cover)
    moreover have "k + pages_of ?n \<le> unat tp" using room by simp
    moreover have "0 < pages_of ?n" by (rule pages_of_pos) simp
    ultimately have "page_at su k + of_nat (8 * i + b) \<in> ?A" using ib by (intro page_in_area [OF _ tp]) simp_all
    then show "page_at su k + 8 * of_nat i + of_nat b \<in> ?A" by (simp add: add.assoc)
  qed
  have "\<exists>f' m'. copy_all (page_at su k) (of_nat ?c) (a, [] \<noteq> [], 0, of_nat 0, f1, m1) = Some (of_nat ?c, f', m') \<and>
     frames_at su tp (k + pages_of ?n + need (args_from [] cs)) f' \<and> same_outside ?A m m'"
    using copy_all_correct [OF assms(1,2) p(3,2) sl, of 0 "[]" 0] cl assms(3) room by simp
  then obtain f2 m2 where c: "copy_all (page_at su k) (of_nat ?c) (a, False, 0, 0, f1, m1) = Some (of_nat ?c, f2, m2)"
     "frames_at su tp (k + pages_of ?n + need (args_from [] cs)) f2" "same_outside ?A m m2" by auto
  have "same_outside ?A m2 (store64 m2 (page_at su k + 8 * of_nat ?c) 0)" by (rule store64_outside [OF sl]) simp
  then have so: "same_outside ?A m (store64 m2 (page_at su k + 8 * of_nat ?c) 0)" using c(3) same_outside_trans by blast
  have "ParseArgs (Some a) 0 (f, m) = Some (of_nat ?c, page_at su k, f2, store64 m2 (page_at su k + 8 * of_nat ?c) 0)"
    unfolding ParseArgs_def prod.case option.case if_not_P [OF ma] count bind.bind_lunit if_not_P [OF c0] n p(1) c(1) by (rule refl)
  with c(2) so show ?thesis by blast
qed

end
