(* ===== verification/ThreadInit.thy ===== *)
theory ThreadInit
  imports ThreadRun
begin

text \<open>
  Creation of tasks: what \<open>Fork\<close> and \<open>KernelThread\<close> do to the run queue, and the state in which
  \<open>Init\<close> leaves the system.
\<close>

section \<open>Changes outside the queue\<close>

definition same_queue :: "addr list \<Rightarrow> 'a Sched_scheme \<Rightarrow> 'a Sched_scheme \<Rightarrow> bool" where
  "same_queue xs s s' \<longleftrightarrow> (\<forall>a\<in>set xs. pcbs s' a = pcbs s a) \<and> rb_root s' = rb_root s \<and>
     leftmost s' = leftmost s \<and> min_vruntime s' = min_vruntime s \<and> nr_running s' = nr_running s \<and>
     total_weight s' = total_weight s \<and> sched_current s' = sched_current s"

lemma rootred_eq: "(\<And>a. a \<in> set_tree t \<Longrightarrow> col' a = col a) \<Longrightarrow> rootred col' t = rootred col t"
  by (cases t) auto

lemma rbh_eq: "(\<And>a. a \<in> set_tree t \<Longrightarrow> col' a = col a) \<Longrightarrow> rbh col' t h = rbh col t h"
proof (induction t arbitrary: h)
  case (Node l a r)
  then have "rbh col' l i = rbh col l i" "rbh col' r i = rbh col r i" for i by auto
  moreover have "rootred col' l = rootred col l" "rootred col' r = rootred col r"
    using Node.prems by (auto intro!: rootred_eq)
  ultimately show ?case using Node.prems by simp
qed simp

lemma rbt_ok_eq: "(\<And>a. a \<in> set_tree t \<Longrightarrow> col' a = col a) \<Longrightarrow> rbt_ok col' t = rbt_ok col t"
  using rootred_eq [of t col' col] rbh_eq [of t col' col] by (simp add: rbt_ok_def)

lemma same_queue_tree:
  assumes "same_queue xs s s'" "inorder t = xs" "rb_tree s t"
  shows "rb_tree s' t \<and> rbt_ok (red s') t = rbt_ok (red s) t"
proof -
  have q: "pcbs s' a = pcbs s a" if "a \<in> set_tree t" for a
    using assms(1,2) that by (auto simp: same_queue_def)
  have "rep s' (rb_root s') None t = rep s (rb_root s) None t"
    using rep_cong [of t s' s "rb_root s" None] q assms(1) by (simp add: acc_defs same_queue_def)
  moreover have "rbt_ok (red s') t = rbt_ok (red s) t" by (rule rbt_ok_eq) (simp add: q red_def)
  ultimately show ?thesis using assms(3) by (simp add: rb_tree_def)
qed

lemma same_queue_ok:
  assumes S: "same_queue xs s s'" and ok: "rq_ok s xs"
  shows "rq_ok s' xs" and "balanced s \<Longrightarrow> balanced s'"
proof -
  from ok obtain t where t: "rb_tree s t" "inorder t = xs" by (auto simp: rq_ok_def rq_acc_def rq_def)
  note T = same_queue_tree [OF S t(2,1)]
  have "map (key s') xs = map (key s) xs" "map (wt s') xs = map (wt s) xs"
    using S by (auto simp: same_queue_def key_def wt_def)
  moreover have "rq s' xs" using T t ok S by (auto simp: rq_ok_def rq_acc_def rq_def same_queue_def)
  ultimately show "rq_ok s' xs" using ok S unfolding rq_ok_def rq_acc_def same_queue_def by presburger
  show "balanced s'" if b: "balanced s"
  proof -
    from b obtain u where u: "rb_tree s u" "rbt_ok (red s) u" by (auto simp: balanced_def)
    then have "u = t" using t(1) by (simp add: rb_tree_unique)
    then show ?thesis using T u by (auto simp: balanced_def)
  qed
qed

section \<open>Fork\<close>

lemma k_alloc_seq:
  assumes "frames_at su tp k (k_frames s)" "0 < n" "n < 2 ^ 62" "k + pages_of n \<le> unat tp"
  shows "\<exists>f' m'. k_alloc (of_nat n) s = Some (Some (page_at su k), s\<lparr>k_frames := f', kmem := m'\<rparr>) \<and>
    frames_at su tp (k + pages_of n) f' \<and> same_outside (page_area su tp) (kmem s) m'"
proof -
  from page_alloc_seq [OF assms, of "kmem s"] obtain f' m' where
    a: "page_alloc (of_nat n) (k_frames s, kmem s) = Some (Some (page_at su k), f', m')"
    "frames_at su tp (k + pages_of n) f'" "same_outside (page_area su tp) (kmem s) m'" by blast
  have "k_alloc (of_nat n) s = Some (Some (page_at su k), s\<lparr>k_frames := f', kmem := m'\<rparr>)"
    by (simp add: k_alloc_def a(1))
  with a(2,3) show ?thesis by blast
qed

lemma fill_outside:
  "(\<And>i. i < n \<Longrightarrow> d + of_nat i \<in> A) \<Longrightarrow> same_outside A m (fill d v n m)"
proof (induction n arbitrary: d m)
  case (Suc n)
  have "same_outside A (m(d := v)) (fill (d + 1) v n (m(d := v)))"
  proof (rule Suc.IH)
    fix i assume "i < n"
    then show "d + 1 + of_nat i \<in> A" using Suc.prems [of "Suc i"] by (simp add: algebra_simps)
  qed
  moreover have "d \<in> A" using Suc.prems [of 0] by simp
  ultimately show ?case by (auto simp: same_outside_def)
qed simp

text \<open>The block and the stack of a task take nine pages, the thread block one.\<close>

lemma task_pages:
  assumes "frames_at su tp k (k_frames s)" "k + 10 \<le> unat tp"
  shows "\<exists>f m. k_alloc (sizeof_Pcb + STACK_SIZE) s = Some (Some (page_at su k), s\<lparr>k_frames := f, kmem := m\<rparr>) \<and>
    frames_at su tp (k + 9) f \<and>
    same_outside (page_area su tp) (kmem s) (memset (page_at su k) 0 (sizeof_Pcb + STACK_SIZE) m)"
    (is "\<exists>f m. ?P f m")
proof -
  have n: "sizeof_Pcb + STACK_SIZE = of_nat 34552" "pages_of 34552 = 9"
    by (simp_all add: sizeof_Pcb_def STACK_SIZE_def pages_of_def)
  have tp: "unat tp < 2 ^ 51" using assms(1) by (auto simp: frames_at_def frame_ok_def)
  from k_alloc_seq [OF assms(1), of 34552] assms(2) obtain f m where
    a: "k_alloc (of_nat 34552) s = Some (Some (page_at su k), s\<lparr>k_frames := f, kmem := m\<rparr>)"
    "frames_at su tp (k + 9) f" "same_outside (page_area su tp) (kmem s) m" unfolding n by auto
  have "same_outside (page_area su tp) m (memset (page_at su k) 0 (of_nat 34552) m)"
    unfolding memset_def
  proof (rule fill_outside)
    fix i assume "i < unat (of_nat 34552 :: u64)"
    then have "i < 34552" by simp
    then show "page_at su k + of_nat i \<in> page_area su tp"
      using assms(2) by (intro page_in_area [OF _ tp]) simp_all
  qed
  with a(3) have "same_outside (page_area su tp) (kmem s) (memset (page_at su k) 0 (of_nat 34552) m)"
    by (rule same_outside_trans)
  with a(1,2) show ?thesis unfolding n(1) by blast
qed

lemma thread_page:
  assumes "frames_at su tp k (k_frames s)" "k + 1 \<le> unat tp"
  shows "\<exists>f m. k_alloc sizeof_Tcb s = Some (Some (page_at su k), s\<lparr>k_frames := f, kmem := m\<rparr>) \<and>
    frames_at su tp (k + 1) f \<and> same_outside (page_area su tp) (kmem s) m"
proof -
  have "sizeof_Tcb = of_nat 56" "pages_of 56 = 1" by (simp_all add: sizeof_Tcb_def pages_of_def)
  then show ?thesis using k_alloc_seq [OF assms(1), of 56] assms(2) by simp
qed

text \<open>The block of the child, and the state that \<open>Fork\<close> hands to \<open>Enqueue\<close>.\<close>

definition forked :: "addr \<Rightarrow> addr \<Rightarrow> u64 \<Rightarrow> int \<Rightarrow> u64 \<Rightarrow> Kernel \<Rightarrow> Pcb" where
  "forked c t fl nice av s = (pcbs s c)\<lparr>parent := Some c, pid := pid_counter s, stat := Ready, flags := fl,
     thread := Some t, argv := av, mm := (mm (pcbs s c))\<lparr>pml4 := kernel_pml4 s\<rparr>,
     se := (se (pcbs s c))\<lparr>weight := ucast (Nice2Weight nice), vruntime := 0, sum_exec_runtime := 0, se_min_vruntime := 0\<rparr>\<rparr>"

definition stack_top :: "addr \<Rightarrow> u64" where
  "stack_top nb = nb + sizeof_Pcb + STACK_SIZE"

definition fork_mid :: "addr \<Rightarrow> addr \<Rightarrow> addr \<Rightarrow> u64 \<Rightarrow> int \<Rightarrow> Registers \<Rightarrow> FrameMem \<Rightarrow> bytes \<Rightarrow> Kernel \<Rightarrow> Kernel" where
  "fork_mid nb c t fl nice r f m s = s\<lparr>
     pcbs := (pcbs s)(nb := forked c t fl nice (reg_rcx r) s),
     tcbs := (tcbs s)(t := zero_Tcb\<lparr>rsp0 := stack_top nb, rsp := stack_top nb - sizeof_Registers, rip := reg_rip r\<rparr>),
     regs_at := (regs_at s)(stack_top nb - sizeof_Registers := r),
     pid_counter := pid_counter s + 1, k_frames := f, kmem := m\<rparr>"

lemma Fork_mid:
  assumes F: "frames_at su tp k (k_frames s)" "k + 10 \<le> unat tp" and c: "current_proc s = Some c"
    and fl: "fl AND THREAD_NO_ARGS = 0"
  shows "\<exists>f m. Fork entry (Some r) fl STACK_SIZE nice s = do {
       s' \<leftarrow> Enqueue (Some (page_at su k)) (fork_mid (page_at su k) c (page_at su (k + 9)) fl nice r f m s);
       Some (sint (pid (pcbs s' (page_at su k))), s') } \<and>
     frames_at su tp (k + 10) f \<and> same_outside (page_area su tp) (kmem s) m"
proof -
  let ?nb = "page_at su k" and ?t = "page_at su (k + 9)"
  from task_pages [OF F] obtain f m where
    a: "k_alloc (sizeof_Pcb + STACK_SIZE) s = Some (Some ?nb, s\<lparr>k_frames := f, kmem := m\<rparr>)"
    "frames_at su tp (k + 9) f"
    "same_outside (page_area su tp) (kmem s) (memset ?nb 0 (sizeof_Pcb + STACK_SIZE) m)" by blast
  define s1 where "s1 = s\<lparr>k_frames := f, kmem := memset ?nb 0 (sizeof_Pcb + STACK_SIZE) m,
     pid_counter := pid_counter s + 1,
     pcbs := (pcbs s)(?nb := (pcbs s c)\<lparr>parent := Some c, pid := pid_counter s, stat := Blocked, flags := fl,
       se := (se (pcbs s c))\<lparr>weight := ucast (Nice2Weight nice), vruntime := 0, sum_exec_runtime := 0, se_min_vruntime := 0\<rparr>\<rparr>)\<rparr>"
  have "frames_at su tp (k + 9) (k_frames s1)" using a(2) by (simp add: s1_def)
  from thread_page [OF this] F(2) obtain f2 m2 where
    b: "k_alloc sizeof_Tcb s1 = Some (Some ?t, s1\<lparr>k_frames := f2, kmem := m2\<rparr>)"
    "frames_at su tp (k + 9 + 1) f2" "same_outside (page_area su tp) (kmem s1) m2" by auto
  have "same_outside (page_area su tp) (kmem s) m2"
    using same_outside_trans [OF a(3)] b(3) by (simp add: s1_def)
  moreover have "Fork entry (Some r) fl STACK_SIZE nice s = do {
       s' \<leftarrow> Enqueue (Some ?nb) (fork_mid ?nb c ?t fl nice r f2 m2 s);
       Some (sint (pid (pcbs s' ?nb)), s') }"
    using b(1) c fl unfolding Fork_def a(1)
    by (simp add: NewPid_def upd_pcb_def upd_se_def s1_def fork_mid_def forked_def stack_top_def Let_def)
      (rule arg_cong [of _ _ "\<lambda>s :: Kernel. Enqueue (Some ?nb) s \<bind> (\<lambda>s'. Some (sint (pid (pcbs s' ?nb)), s'))"],
        cases s, cases "pcbs s c", simp)
  moreover have "k + 9 + 1 = k + 10" by simp
  then have "frames_at su tp (k + 10) f2" using b(2) by (simp only:)
  ultimately show ?thesis by blast
qed

text \<open>The child starts at the minimal virtual run time of the queue, behind the tasks that have it.\<close>

definition fork_key :: "addr \<Rightarrow> addr list \<Rightarrow> Kernel \<Rightarrow> addr \<Rightarrow> u64" where
  "fork_key nb xs s = (key s)(nb := if xs = [] then 0 else min_vruntime s)"

lemma Fork_correct:
  assumes F: "frames_at su tp k (k_frames s)" "k + 10 \<le> unat tp" and c: "current_proc s = Some c"
    and fl: "fl AND THREAD_NO_ARGS = 0" and ok: "rq_ok s xs" and n: "page_at su k \<notin> set xs"
  shows "\<exists>f m s'. Fork entry (Some r) fl STACK_SIZE nice s = Some (sint (pid_counter s), s') \<and>
     frame (fork_mid (page_at su k) c (page_at su (k + 9)) fl nice r f m s) s' \<and>
     frames_at su tp (k + 10) f \<and> same_outside (page_area su tp) (kmem s) m \<and>
     rq_ok s' (ins_after (fork_key (page_at su k) xs s) (page_at su k) xs) \<and>
     key s' = fork_key (page_at su k) xs s \<and>
     min_vruntime s' = fork_key (page_at su k) xs s (hd (ins_after (fork_key (page_at su k) xs s) (page_at su k) xs)) \<and>
     (balanced s \<longrightarrow> balanced s')"
proof -
  let ?nb = "page_at su k" and ?t = "page_at su (k + 9)"
  from Fork_mid [OF F c fl, of entry r nice] obtain f m where
    e: "Fork entry (Some r) fl STACK_SIZE nice s = do {
       s' \<leftarrow> Enqueue (Some ?nb) (fork_mid ?nb c ?t fl nice r f m s); Some (sint (pid (pcbs s' ?nb)), s') }"
    "frames_at su tp (k + 10) f" "same_outside (page_area su tp) (kmem s) m" by blast
  define s1 where "s1 = fork_mid ?nb c ?t fl nice r f m s"
  have q: "same_queue xs s s1" using n by (auto simp: same_queue_def s1_def fork_mid_def)
  note ok1 = same_queue_ok(1) [OF q ok]
  have st: "stat (pcbs s1 ?nb) = Running \<or> stat (pcbs s1 ?nb) = Ready"
    and pid1: "pid (pcbs s1 ?nb) = pid_counter s" by (simp_all add: s1_def fork_mid_def forked_def)
  have k: "(key s1)(?nb := if xs = [] then key s1 ?nb else max (key s1 ?nb) (min_vruntime s1)) = fork_key ?nb xs s"
    by (auto simp: s1_def fork_mid_def forked_def fork_key_def key_def fun_eq_iff max_def)
  from Enqueue_correct [OF ok1 n st, unfolded k] obtain s' where
    s': "Enqueue (Some ?nb) s1 = Some s'" "rq_ok s' (ins_after (fork_key ?nb xs s) ?nb xs)" "key s' = fork_key ?nb xs s"
      "min_vruntime s' = fork_key ?nb xs s (hd (ins_after (fork_key ?nb xs s) ?nb xs))" "balanced s1 \<longrightarrow> balanced s'"
    by blast
  have fr: "frame s1 s'" by (rule Enqueue_frame [OF ok1 n s'(1)])
  have "Fork entry (Some r) fl STACK_SIZE nice s = Some (sint (pid_counter s), s')"
    unfolding e(1) s1_def [symmetric] s'(1) bind.bind_lunit frameD(5) [OF fr] pid1 by (rule refl)
  with fr show ?thesis using e(2,3) s' same_queue_ok(2) [OF q ok] unfolding s1_def by blast
qed

lemma ins_after_equal: "(\<And>x. x \<in> set xs \<Longrightarrow> f x = f n) \<Longrightarrow> ins_after f n xs = xs @ [n]"
  by (simp add: ins_after_def)

section \<open>Starting the system\<close>

text \<open>
  The task \<open>i\<close> of a system whose first free page is \<open>k\<close>: it has its block and stack on nine pages, its
  thread block on the next one, and two pages before it hold its arguments.
\<close>

definition task_at :: "u64 \<Rightarrow> nat \<Rightarrow> nat \<Rightarrow> addr" where
  "task_at su k i = page_at su (k + 12 * i)"

definition thread_at :: "u64 \<Rightarrow> nat \<Rightarrow> nat \<Rightarrow> addr" where
  "thread_at su k i = page_at su (k + 12 * i + 9)"

definition task_started :: "u64 \<Rightarrow> nat \<Rightarrow> u64 \<Rightarrow> Kernel \<Rightarrow> nat \<Rightarrow> u64 \<times> int \<Rightarrow> bool" where
  "task_started su k entry s i t \<longleftrightarrow> (let b = pcbs s (task_at su k i); tc = tcbs s (thread_at su k i) in
     pid b = of_nat i \<and> stat b = Ready \<and> flags b = THREAD_KERNEL \<and> thread b = Some (thread_at su k i) \<and>
     pml4 (mm b) = kernel_pml4 s \<and> vruntime (se b) = 0 \<and>
     rip tc = entry \<and> rsp0 tc = stack_top (task_at su k i) \<and>
     (0 < i \<longrightarrow> rsp tc = stack_top (task_at su k i) - sizeof_Registers \<and> reg_rbx (regs_at s (rsp tc)) = fst t))"

definition booted :: "u64 \<Rightarrow> u64 \<Rightarrow> nat \<Rightarrow> u64 \<Rightarrow> (u64 \<times> int) list \<Rightarrow> Kernel \<Rightarrow> bool" where
  "booted su tp k entry ts s \<longleftrightarrow> frames_at su tp (k + 12 * length ts - 2) (k_frames s) \<and>
     rq_ok s (map (task_at su k) [0..<length ts]) \<and> balanced s \<and> min_vruntime s = 0 \<and>
     current_proc s = Some (task_at su k 0) \<and> pid_counter s = of_nat (length ts) \<and>
     (\<forall>i<length ts. task_started su k entry s i (ts ! i))"

lemma page_at_eq:
  assumes "i < 2 ^ 51" "j < 2 ^ 51"
  shows "page_at su i = page_at su j \<longleftrightarrow> i = j"
proof
  assume "page_at su i = page_at su j"
  then have "(of_nat (i * 4096) :: u64) = of_nat (j * 4096)" by (simp add: page_at_def Phy2Vir_def PAGE_SIZE_def)
  then have "unat (of_nat (i * 4096) :: u64) = unat (of_nat (j * 4096) :: u64)" by (rule arg_cong)
  moreover have "i * 4096 < 2 ^ 63" "j * 4096 < 2 ^ 63" using assms by simp_all
  ultimately have "i * 4096 = j * 4096" by (simp only: unat_small)
  then show "i = j" by simp
qed simp

text \<open>A name of one word outside the pages.\<close>

definition name_ok :: "addr set \<Rightarrow> bytes \<Rightarrow> addr \<Rightarrow> bool" where
  "name_ok A m a \<longleftrightarrow> (\<exists>cs w. cstr m a cs \<and> args_from [] cs = [w] \<and> length cs < 4000 \<and> (\<forall>i \<le> length cs. a + of_nat i \<notin> A))"

lemma cstr_outside:
  "same_outside A m m' \<Longrightarrow> (\<And>i. i \<le> length cs \<Longrightarrow> a + of_nat i \<notin> A) \<Longrightarrow> cstr m a cs \<Longrightarrow> cstr m' a cs"
proof (induction cs arbitrary: a)
  case Nil
  then show ?case using Nil.prems(2) [of 0] by (simp add: same_outside_def)
next
  case (Cons c cs)
  have "a + 1 + of_nat i \<notin> A" if "i \<le> length cs" for i
    using Cons.prems(2) [of "Suc i"] that by (simp add: algebra_simps)
  then show ?case using Cons.IH [of "a + 1"] Cons.prems(1,3) Cons.prems(2) [of 0] by (simp add: same_outside_def)
qed

lemma name_ok_outside: "same_outside A m m' \<Longrightarrow> name_ok A m a \<Longrightarrow> name_ok A m' a"
  unfolding name_ok_def using cstr_outside [of A m m' _ a] by blast

lemma name_args:
  assumes "name_ok (page_area su tp) m a" "frames_at su tp k f" "k + 2 \<le> unat tp"
  shows "\<exists>f' m'. ParseArgs (Some a) 0 (f, m) = Some (1, page_at su k, f', m') \<and> frames_at su tp (k + 2) f' \<and>
     same_outside (page_area su tp) m m'"
proof -
  from assms(1) obtain cs w where cs: "cstr m a cs" "args_from [] cs = [w]" "length cs < 4000"
    "\<And>i. i \<le> length cs \<Longrightarrow> a + of_nat i \<notin> page_area su tp" by (auto simp: name_ok_def)
  have "length w \<le> length cs" using args_from_length [of w "[]" cs] cs(2) by simp
  then have "pages_of (length w + 1) = 1" using cs(3) unfolding pages_of_def by (intro div_nat_eqI) simp_all
  moreover have "pages_of 16 = 1" by (simp add: pages_of_def)
  ultimately show ?thesis using ParseArgs_correct [OF cs(1,4) _ assms(2)] cs(2,3) assms(3) by simp
qed

lemma frame_kernel:
  fixes s s' :: Kernel
  assumes "frame s s'"
  shows "k_frames s' = k_frames s" "kmem s' = kmem s" "regs_at s' = regs_at s" "pid_counter s' = pid_counter s"
    "kernel_pml4 s' = kernel_pml4 s"
  using assms by (cases s; cases s'; simp add: frame_def)+

text \<open>\<open>KernelThread\<close> with a name of one word adds one task to a system that has been started.\<close>

lemma KernelThread_booted:
  assumes B: "booted su tp k entry ts s" and ne: "ts \<noteq> []" and nm: "name_ok (page_area su tp) (kmem s) a"
    and room: "k + 12 * (length ts + 1) \<le> unat tp"
  shows "\<exists>s'. KernelThread entry fn (Some a) nice 0 s = Some (sint (pid_counter s), s') \<and>
     booted su tp k entry (ts @ [(fn, nice)]) s' \<and> same_outside (page_area su tp) (kmem s) (kmem s')"
proof -
  let ?j = "length ts" and ?xs = "map (task_at su k) [0..<length ts]"
  let ?nb = "task_at su k ?j" and ?t = "thread_at su k ?j" and ?c = "task_at su k 0"
  have F: "frames_at su tp (k + 12 * ?j - 2) (k_frames s)" and ok: "rq_ok s ?xs" and bal: "balanced s"
    and mv: "min_vruntime s = 0" and cur: "current_proc s = Some ?c" and pc: "pid_counter s = of_nat ?j"
    and st: "\<And>i. i < ?j \<Longrightarrow> task_started su k entry s i (ts ! i)"
    using B by (simp_all add: booted_def)
  have tp: "unat tp < 2 ^ 51" using F by (auto simp: frames_at_def frame_ok_def)
  have j: "0 < ?j" using ne by simp
  have "k + 12 * ?j - 2 + 2 \<le> unat tp" using room by simp
  from name_args [OF nm F this] obtain f0 m0 where
    a: "ParseArgs (Some a) 0 (k_frames s, kmem s) = Some (1, page_at su (k + 12 * ?j - 2), f0, m0)"
    "frames_at su tp (k + 12 * ?j - 2 + 2) f0" "same_outside (page_area su tp) (kmem s) m0" by blast
  define s0 where "s0 = s\<lparr>k_frames := f0, kmem := m0\<rparr>"
  define r where "r = zero_Registers\<lparr>reg_rbx := fn, reg_rdx := 1, reg_rcx := page_at su (k + 12 * ?j - 2),
     reg_ds := KERNEL_DS, reg_es := KERNEL_DS, reg_cs := KERNEL_CS, reg_ss := KERNEL_DS,
     reg_rflags := push_bit 9 1, reg_rip := entry\<rparr>"
  have e: "KernelThread entry fn (Some a) nice 0 s = Fork entry (Some r) THREAD_KERNEL STACK_SIZE nice s0"
    by (simp add: KernelThread_def a(1) s0_def r_def)
  have q0: "same_queue ?xs s s0" by (simp add: same_queue_def s0_def)
  note ok0 = same_queue_ok(1) [OF q0 ok] and bal0 = same_queue_ok(2) [OF q0 ok bal]
  have pgs: "page_at su (k + 12 * ?j) = ?nb" "page_at su (k + 12 * ?j + 9) = ?t"
    by (simp_all add: task_at_def thread_at_def)
  have dif: "task_at su k i \<noteq> ?nb" "thread_at su k i \<noteq> ?t" if "i < ?j" for i
    using that room tp by (simp_all add: task_at_def thread_at_def page_at_eq)
  have "k + 12 * ?j - 2 + 2 = k + 12 * ?j" using j by linarith
  with a(2) have "frames_at su tp (k + 12 * ?j) f0" by (simp only:)
  then have F0: "frames_at su tp (k + 12 * ?j) (k_frames s0)" by (simp add: s0_def)
  have "?nb \<notin> set ?xs" using dif(1) by fastforce
  moreover have "THREAD_KERNEL AND THREAD_NO_ARGS = 0" by simp
  moreover note F0
  ultimately obtain f m s' where
    s': "Fork entry (Some r) THREAD_KERNEL STACK_SIZE nice s0 = Some (sint (pid_counter s0), s')"
      "frame (fork_mid ?nb ?c ?t THREAD_KERNEL nice r f m s0) s'"
      "frames_at su tp (k + 12 * ?j + 10) f" "same_outside (page_area su tp) (kmem s0) m"
      "rq_ok s' (ins_after (fork_key ?nb ?xs s0) ?nb ?xs)" "key s' = fork_key ?nb ?xs s0"
      "min_vruntime s' = fork_key ?nb ?xs s0 (hd (ins_after (fork_key ?nb ?xs s0) ?nb ?xs))"
      "balanced s0 \<longrightarrow> balanced s'"
    using Fork_correct [OF F0 _ _ _ ok0, of ?c THREAD_KERNEL entry r nice] room cur unfolding pgs by (auto simp: s0_def)
  note K = frame_kernel [OF s'(2)] frame_cpu [OF s'(2)]
  have key: "key s' b = (if b = ?nb then 0 else key s b)" for b
    using s'(6) mv by (simp add: fork_key_def s0_def key_def)
  have z: "key s (task_at su k i) = 0" if "i < ?j" for i
    using st [OF that] by (simp add: task_started_def Let_def key_def)
  have fz: "fork_key ?nb ?xs s0 x = 0" if "x \<in> set ?xs \<union> {?nb}" for x
    using that key [of x] s'(6) z by auto
  have "ins_after (fork_key ?nb ?xs s0) ?nb ?xs = ?xs @ [?nb]" by (rule ins_after_equal) (use fz in simp)
  then have ins: "ins_after (fork_key ?nb ?xs s0) ?nb ?xs = map (task_at su k) [0..<?j + 1]" by simp
  have started: "task_started su k entry s' i ((ts @ [(fn, nice)]) ! i)" if i: "i < ?j + 1" for i
  proof (cases "i = ?j")
    case True
    then show ?thesis using frameD [OF s'(2), of ?nb] K key [of ?nb] pc unfolding key_def
      by (simp add: task_started_def Let_def fork_mid_def forked_def r_def s0_def)
  next
    case False
    then have ij: "i < ?j" using i by simp
    have "stack_top (task_at su k i) - sizeof_Registers \<noteq> stack_top ?nb - sizeof_Registers"
      using dif(1) [OF ij] by (simp add: stack_top_def)
    then show ?thesis using st [OF ij] frameD [OF s'(2), of "task_at su k i"] K key [of "task_at su k i"] dif [OF ij] ij
      unfolding key_def by (auto simp: task_started_def Let_def fork_mid_def s0_def nth_append)
  qed
  have "booted su tp k entry (ts @ [(fn, nice)]) s'"
    unfolding booted_def
  proof (intro conjI allI impI)
    show "frames_at su tp (k + 12 * length (ts @ [(fn, nice)]) - 2) (k_frames s')"
      using s'(3) K(1) by (simp add: fork_mid_def add.commute)
    show "rq_ok s' (map (task_at su k) [0..<length (ts @ [(fn, nice)])])" using s'(5) ins by simp
    show "balanced s'" using s'(8) bal0 by blast
    have "hd (map (task_at su k) [0..<?j + 1]) = task_at su k 0" by (simp add: hd_map del: upt_Suc)
    then show "min_vruntime s' = 0" using s'(7) ins fz [of "task_at su k 0"] j by simp
    show "current_proc s' = Some (task_at su k 0)" using K cur by (simp add: fork_mid_def s0_def)
    show "pid_counter s' = of_nat (length (ts @ [(fn, nice)]))" using K pc by (simp add: fork_mid_def s0_def)
    show "task_started su k entry s' i ((ts @ [(fn, nice)]) ! i)" if "i < length (ts @ [(fn, nice)])" for i
      using started that by simp
  qed
  moreover have "same_outside (page_area su tp) (kmem s) (kmem s')"
    using same_outside_trans [OF a(3)] s'(4) K by (simp add: fork_mid_def s0_def)
  moreover have "pid_counter s0 = pid_counter s" by (simp add: s0_def)
  ultimately show ?thesis using e s'(1) by auto
qed

lemma empty_queue:
  assumes "rq_ok s []"
  shows "balanced s"
  using assms by (auto simp: rq_ok_def rq_acc_def rq_def balanced_def rbt_ok_def)

lemma InitIdle_booted:
  assumes F: "frames_at su tp k (k_frames s)" "k + 12 \<le> unat tp" and ok: "rq_ok s []" and pc: "pid_counter s = 0"
  shows "\<exists>s'. InitIdle entry s = Some s' \<and> booted su tp k entry [(0, IDLE_NICE)] s' \<and>
     same_outside (page_area su tp) (kmem s) (kmem s')"
proof -
  let ?nb = "page_at su k" and ?t = "page_at su (k + 9)"
  have room: "k + 10 \<le> unat tp" using F(2) by simp
  from task_pages [OF F(1) room] obtain f m where
    a: "k_alloc (sizeof_Pcb + STACK_SIZE) s = Some (Some ?nb, s\<lparr>k_frames := f, kmem := m\<rparr>)"
    "frames_at su tp (k + 9) f"
    "same_outside (page_area su tp) (kmem s) (memset ?nb 0 (sizeof_Pcb + STACK_SIZE) m)" by blast
  define s1 where "s1 = s\<lparr>k_frames := f, kmem := memset ?nb 0 (sizeof_Pcb + STACK_SIZE) m, pid_counter := pid_counter s + 1,
     pcbs := (pcbs s)(?nb := zero_Pcb\<lparr>parent := None, pid := pid_counter s, stat := Blocked\<rparr>)\<rparr>"
  have "frames_at su tp (k + 9) (k_frames s1)" using a(2) by (simp add: s1_def)
  from thread_page [OF this] room obtain f2 m2 where
    b: "k_alloc sizeof_Tcb s1 = Some (Some ?t, s1\<lparr>k_frames := f2, kmem := m2\<rparr>)"
    "frames_at su tp (k + 9 + 1) f2" "same_outside (page_area su tp) (kmem s1) m2" by auto
  define s2 where "s2 = s1\<lparr>k_frames := f2, kmem := m2,
     tcbs := (tcbs s)(?t := zero_Tcb\<lparr>rsp0 := stack_top ?nb, rip := entry, rsp := stack_top ?nb\<rparr>),
     pcbs := (pcbs s)(?nb := zero_Pcb\<lparr>parent := None, pid := pid_counter s, thread := Some ?t,
       mm := (mm zero_Pcb)\<lparr>pml4 := kernel_pml4 s\<rparr>, stat := Ready, flags := THREAD_KERNEL,
       se := (se zero_Pcb)\<lparr>weight := ucast (Nice2Weight IDLE_NICE), vruntime := 0, sum_exec_runtime := 0, se_min_vruntime := 0\<rparr>\<rparr>)\<rparr>"
  have e: "InitIdle entry s = do { s' \<leftarrow> Enqueue (Some ?nb) s2; Some (s'\<lparr>current_proc := Some ?nb\<rparr>) }"
    using b(1) unfolding InitIdle_def a(1)
    by (simp add: NewPid_def upd_pcb_def upd_se_def s1_def s2_def stack_top_def Let_def)
  have "same_queue [] s s2" by (simp add: same_queue_def s1_def s2_def)
  then have ok2: "rq_ok s2 []" and bal: "balanced s2"
    using ok by (auto intro: same_queue_ok dest: empty_queue)
  have st: "stat (pcbs s2 ?nb) = Running \<or> stat (pcbs s2 ?nb) = Ready" by (simp add: s2_def)
  have z: "key s2 ?nb = 0" by (simp add: s2_def key_def)
  have n: "?nb \<notin> set []" by simp
  from Enqueue_correct [OF ok2 n st] bal obtain s' where
    s': "Enqueue (Some ?nb) s2 = Some s'" "rq_ok s' [?nb]" "key s' ?nb = 0" "min_vruntime s' = 0" "balanced s'"
    by (auto simp: z ins_after_def)
  note fr = Enqueue_frame [OF ok2 n s'(1)]
  note K = frame_kernel [OF fr] frame_cpu [OF fr] frameD [OF fr, of ?nb]
  let ?s3 = "s'\<lparr>current_proc := Some ?nb\<rparr>"
  have "same_sched s' ?s3" by (simp add: same_sched_def)
  then have ok3: "rq_ok ?s3 [?nb]" "balanced ?s3"
    using s'(2,5) same_sched_ok same_sched_acc(1) same_tree_balanced by blast+
  have "k + 9 + 1 = k + 10" by simp
  with b(2) have "frames_at su tp (k + 10) f2" by (simp only:)
  then have "frames_at su tp (10 + k) f2" by (simp only: add.commute [of 10 k])
  then have "booted su tp k entry [(0, IDLE_NICE)] ?s3"
    using ok3 s'(3,4) K pc by (simp add: booted_def task_started_def task_at_def thread_at_def Let_def s1_def s2_def key_def)
  moreover have "same_outside (page_area su tp) (kmem s) (kmem ?s3)"
    using same_outside_trans [OF a(3)] b(3) K by (simp add: s1_def s2_def)
  ultimately show ?thesis using e s'(1) by auto
qed

text \<open>The services in order.\<close>

lemma start_all_booted:
  assumes "booted su tp k entry ts s" "ts \<noteq> []" "\<And>fn a nice. (fn, a, nice) \<in> set us \<Longrightarrow> name_ok (page_area su tp) (kmem s) a"
    and "k + 12 * (length ts + length us) \<le> unat tp"
  shows "\<exists>s'. start_all entry us s = Some s' \<and> booted su tp k entry (ts @ map (\<lambda>(fn, a, nice). (fn, nice)) us) s'"
  using assms
proof (induction us arbitrary: s ts)
  case (Cons u us)
  obtain fn a nice where u: "u = (fn, a, nice)" by (cases u)
  have nm: "name_ok (page_area su tp) (kmem s) a" using Cons.prems(3) u by auto
  have "k + 12 * (length ts + 1) \<le> unat tp" using Cons.prems(4) by simp
  from KernelThread_booted [OF Cons.prems(1,2) nm this, of fn nice] obtain s1 where
    s1: "KernelThread entry fn (Some a) nice 0 s = Some (sint (pid_counter s), s1)"
      "booted su tp k entry (ts @ [(fn, nice)]) s1" "same_outside (page_area su tp) (kmem s) (kmem s1)" by blast
  have "name_ok (page_area su tp) (kmem s1) a'" if "(fn', a', nice') \<in> set us" for fn' a' nice'
    using Cons.prems(3) that name_ok_outside [OF s1(3)] by (meson list.set_intros(2))
  moreover have "k + 12 * (length (ts @ [(fn, nice)]) + length us) \<le> unat tp" using Cons.prems(4) by simp
  ultimately have "\<exists>s'. start_all entry us s1 = Some s' \<and>
      booted su tp k entry ((ts @ [(fn, nice)]) @ map (\<lambda>(fn, a, nice). (fn, nice)) us) s'"
    using Cons.IH [OF s1(2)] by blast
  then show ?case using s1(1) u by simp
qed simp

section \<open>The first choice of the scheduler\<close>

text \<open>When all tasks have the same virtual run time, the task that leaves the processor goes to the end of the queue.\<close>

lemma requeue_prev_equal:
  assumes st: "sched_state s p xs" and p: "stat (pcbs s p) \<noteq> Dead" "stat (pcbs s p) \<noteq> Blocked"
    and eq: "\<And>a. a \<in> set xs \<Longrightarrow> key s a = v"
  shows "\<exists>s1. requeue_prev p s = Some s1 \<and> rq_ok s1 (remove1 p xs @ [p]) \<and>
     frame (upd_pcb p (\<lambda>b. b\<lparr>stat := Ready\<rparr>) s) s1"
proof -
  let ?s0 = "upd_pcb p (\<lambda>b. b\<lparr>stat := Ready\<rparr>) s" and ?r = "remove1 p xs"
  from requeue_prev_runnable [OF st p] obtain s2 where
    s2: "requeue_prev p s = Some s2" "frame ?s0 s2" by blast
  then obtain s1 where s1: "Dequeue (Some p) ?s0 = Some s1" "Enqueue (Some p) s1 = Some s2"
    using p by (auto simp: requeue_prev_def split: bind_splits)
  have acc: "rq_acc ?s0 xs" using st by (simp add: sched_state_def upd_pcb_rq_acc)
  have pm: "p \<in> set xs" and dx: "distinct xs"
    using st by (auto simp: sched_state_def rq_acc_def dest: rq_distinct)
  have rdy: "stat (pcbs ?s0 p) = Ready" and k0: "key ?s0 = key s"
    by (simp_all add: upd_pcb_same_tree) (simp add: upd_pcb_def)
  from Dequeue_correct [OF acc pm _ s1(1)] rdy k0 have
    D: "rq_acc s1 ?r" "key s1 = key s" "stat (pcbs s1 p) = Ready" "min_vruntime s1 = min_key (key s) ?r" by auto
  then have ok1: "rq_ok s1 ?r" using st by (simp add: rq_ok_def sched_state_def)
  have np: "p \<notin> set ?r" using dx by simp
  define k where "k = (key s1)(p := if ?r = [] then key s1 p else max (key s1 p) (min_vruntime s1))"
  have "rq_ok s2 (ins_after k p ?r)"
    using Enqueue_correct [OF ok1 np] D(3) s1(2) unfolding k_def by auto
  moreover have "k x = v" if "x \<in> insert p (set xs)" for x
    using that eq pm D(2,4) set_remove1_subset [of p xs]
    by (auto simp: k_def min_key_def split: list.splits)
  then have "ins_after k p ?r = ?r @ [p]"
    using set_remove1_subset [of p xs] by (intro ins_after_equal) auto
  ultimately show ?thesis using s2 by auto
qed

lemma booted_sched_state:
  assumes B: "booted su tp k entry ts s" and ne: "ts \<noteq> []" and room: "k + 12 * length ts \<le> unat tp" and n: "length ts < 2 ^ 32"
  shows "sched_state s (task_at su k 0) (map (task_at su k) [0..<length ts])"
proof -
  let ?xs = "map (task_at su k) [0..<length ts]"
  have tp: "unat tp < 2 ^ 51" using B by (auto simp: booted_def frames_at_def frame_ok_def)
  have st: "task_started su k entry s i (ts ! i)" if "i < length ts" for i
    using B that by (simp add: booted_def)
  have ok: "rq_ok s ?xs" using B by (simp add: booted_def)
  have "task_at su k 0 \<in> set ?xs" using ne by simp
  moreover have "sorted (map (key s) (remove1 (task_at su k 0) ?xs))"
    using ok by (auto simp: rq_ok_def intro: sorted_map_remove1)
  moreover have "inj_on (\<lambda>a. thread (pcbs s a)) (set ?xs)"
  proof (rule inj_onI)
    fix a b assume ab: "a \<in> set ?xs" "b \<in> set ?xs" "thread (pcbs s a) = thread (pcbs s b)"
    then obtain i j where ij: "i < length ts" "j < length ts" "a = task_at su k i" "b = task_at su k j" by auto
    with ab(3) have "thread_at su k i = thread_at su k j"
      using st [OF ij(1)] st [OF ij(2)] by (simp add: task_started_def Let_def)
    then have "i = j" using ij(1,2) room tp by (simp add: thread_at_def page_at_eq)
    then show "a = b" using ij by simp
  qed
  moreover have "\<forall>a\<in>set ?xs. stat (pcbs s a) \<noteq> Dead \<and> thread (pcbs s a) \<noteq> None"
    using st by (auto simp: task_started_def Let_def)
  ultimately show ?thesis using B ok n by (simp add: sched_state_def booted_def rq_ok_def)
qed

lemma Schedule_booted:
  assumes B: "booted su tp k entry ts s" and ne: "2 \<le> length ts" and room: "k + 12 * length ts \<le> unat tp" and n: "length ts < 2 ^ 32"
  shows "\<exists>s'. Schedule resume s = Some (Switched, s') \<and> current_proc s' = Some (task_at su k 1) \<and>
     sched_current s' = Some (task_at su k 1) \<and> sched_lock s' = 0 \<and>
     rq_ok s' (map (task_at su k) [1..<length ts] @ [task_at su k 0]) \<and>
     cpu_rsp s' = stack_top (task_at su k 1) - sizeof_Registers"
proof -
  let ?xs = "map (task_at su k) [0..<length ts]" and ?p = "task_at su k 0" and ?n = "task_at su k 1"
  let ?ys = "map (task_at su k) [1..<length ts] @ [?p]"
  have tp: "unat tp < 2 ^ 51" using B by (auto simp: booted_def frames_at_def frame_ok_def)
  have ne0: "0 < length ts" "ts \<noteq> []" using ne by auto
  have S: "sched_state s ?p ?xs" by (rule booted_sched_state [OF B ne0(2) room n])
  have st: "task_started su k entry s i (ts ! i)" if "i < length ts" for i
    using B that by (simp add: booted_def)
  have p: "stat (pcbs s ?p) \<noteq> Dead" "stat (pcbs s ?p) \<noteq> Blocked"
    using st [of 0] ne0 by (simp_all add: task_started_def Let_def)
  have eq: "key s a = 0" if "a \<in> set ?xs" for a
    using that st by (auto simp: task_started_def Let_def key_def)
  have "[0..<length ts] = 0 # [1..<length ts]" using upt_conv_Cons [OF ne0(1)] by simp
  then have xs: "?xs = ?p # map (task_at su k) [1..<length ts]" by (simp only: list.map)
  from requeue_prev_equal [OF S p eq] obtain s1 where
    s1: "requeue_prev ?p s = Some s1" "rq_ok s1 ?ys" "frame (upd_pcb ?p (\<lambda>b. b\<lparr>stat := Ready\<rparr>) s) s1"
    unfolding xs by auto
  have st1: "stat (pcbs s1 a) = (if a = ?p then Ready else stat (pcbs s a))" "thread (pcbs s1 a) = thread (pcbs s a)" for a
    using frameD [OF s1(3), of a] by (simp_all add: upd_pcb_def)
  have cp: "current_proc s1 = current_proc s" "tcbs s1 = tcbs s" using frame_cpu [OF s1(3)] by (simp_all add: upd_pcb_def)
  have set: "set ?ys = set ?xs" unfolding xs by auto
  then have ins: "insert ?p (set ?ys) = set ?xs" using ne by auto
  have hd: "hd ?ys = ?n" using ne by (simp add: upt_conv_Cons)
  have np: "?n \<noteq> ?p" using room ne tp by (simp add: task_at_def page_at_eq)
  have "\<exists>out s'. Schedule resume s = Some (out, s') \<and> rq_ok s' ?ys \<and> key s' = key s1 \<and>
     current_proc s' = Some (hd ?ys) \<and> sched_current s' = Some (hd ?ys) \<and> sched_lock s' = 0 \<and>
     out = (if hd ?ys = ?p then Stayed else Switched) \<and>
     (hd ?ys \<noteq> ?p \<longrightarrow> cpu_rsp s' = rsp (tcbs s1 (the (thread (pcbs s1 (hd ?ys))))))"
  proof (rule Schedule_rest [OF _ s1(1,2) _ _ cp(1)])
    show "current_proc s = Some ?p" using S by (simp add: sched_state_def)
    show "length ?ys < 2 ^ 32" using n by simp
    show "\<forall>a\<in>set ?ys. stat (pcbs s1 a) \<noteq> Dead" "stat (pcbs s1 ?p) \<noteq> Dead"
      using S unfolding set by (simp_all add: sched_state_def st1)
    show "\<forall>a\<in>insert ?p (set ?ys). thread (pcbs s1 a) \<noteq> None" "inj_on (\<lambda>a. thread (pcbs s1 a)) (insert ?p (set ?ys))"
      using S unfolding ins by (simp_all add: sched_state_def st1)
  qed simp
  then show ?thesis using st [of 1] ne np cp(2) unfolding hd by (auto simp: st1 task_started_def Let_def)
qed

text \<open>\<open>Init\<close> up to the scheduler.\<close>

lemma wrmsr_frame:
  fixes s :: Kernel
  shows "k_frames (wrmsr i v s) = k_frames s" "kmem (wrmsr i v s) = kmem s" "pid_counter (wrmsr i v s) = pid_counter s"
    "kernel_pml4 (wrmsr i v s) = kernel_pml4 s" "current_proc (wrmsr i v s) = current_proc s" "tcbs (wrmsr i v s) = tcbs s"
    "regs_at (wrmsr i v s) = regs_at s" "same_sched s (wrmsr i v s)"
  by (simp_all add: wrmsr_def same_sched_def)

lemma booted_wrmsr: "booted su tp k entry ts s \<Longrightarrow> booted su tp k entry ts (wrmsr i v s)"
  using wrmsr_frame(1-7) [of i v s] same_sched_ok(2) [OF wrmsr_frame(8), of i v s]
    same_tree_balanced [OF same_sched_acc(1) [OF wrmsr_frame(8)], of i v s] wrmsr_frame(8) [of s i v]
  by (simp add: booted_def task_started_def same_sched_def)

lemma Init_threads_booted:
  assumes F: "frames_at su tp k (k_frames s)" "k + 84 \<le> unat tp" and ok: "rq_ok s []" and n: "length services = 6"
    and nm: "\<And>fn a. (fn, a) \<in> set services \<Longrightarrow> name_ok (page_area su tp) (kmem s) a"
  shows "\<exists>s'. Init_threads entry sys services s = Some s' \<and>
     booted su tp k entry ((0, IDLE_NICE) # zip (map fst services) service_nice) s'"
proof -
  let ?us = "map (\<lambda>((fn, name), nice). (fn, name, nice)) (zip services service_nice)"
  define s0 where "s0 = wrmsr 0x174 KERNEL_CS (s\<lparr>pid_counter := 0\<rparr>)"
  have F0: "frames_at su tp k (k_frames s0)" "pid_counter s0 = 0" "kmem s0 = kmem s"
    using F by (simp_all add: s0_def wrmsr_frame)
  have "same_sched s s0" by (simp add: s0_def wrmsr_def same_sched_def)
  then have "rq_ok s0 []" using ok same_sched_ok(2) by blast
  from InitIdle_booted [OF F0(1) _ this F0(2), of entry] F(2) F0(3) obtain s1 where
    s1: "InitIdle entry s0 = Some s1" "booted su tp k entry [(0, IDLE_NICE)] s1"
      "same_outside (page_area su tp) (kmem s) (kmem s1)" by auto
  obtain t where c: "current_proc s1 = Some (task_at su k 0)" "thread (pcbs s1 (task_at su k 0)) = Some t"
    using s1(2) by (auto simp: booted_def task_started_def Let_def)
  define s2 where "s2 = wrmsr 0x176 sys (wrmsr 0x175 (rsp0 (tcbs s1 t)) s1)"
  have B2: "booted su tp k entry [(0, IDLE_NICE)] s2" using s1(2) by (simp add: s2_def booted_wrmsr)
  have len: "length ?us = 6" using n by (simp add: service_nice_def)
  have nm2: "name_ok (page_area su tp) (kmem s2) a" if "(fn, a, nice) \<in> set ?us" for fn a nice
  proof -
    from that have "(fn, a) \<in> set services" by (auto dest: set_zip_leftD)
    then show ?thesis using nm name_ok_outside [OF s1(3)] by (simp add: s2_def wrmsr_frame)
  qed
  have "\<exists>s'. start_all entry ?us s2 = Some s' \<and>
      booted su tp k entry ([(0, IDLE_NICE)] @ map (\<lambda>(fn, a, nice). (fn, nice)) ?us) s'"
  proof (rule start_all_booted [OF B2 _ nm2])
    show "k + 12 * (length [(0 :: u64, IDLE_NICE)] + length ?us) \<le> unat tp" using F(2) unfolding len by simp
  qed simp_all
  then obtain s3 where s3: "start_all entry ?us s2 = Some s3"
    "booted su tp k entry ([(0, IDLE_NICE)] @ map (\<lambda>(fn, a, nice). (fn, nice)) ?us) s3" by blast
  have "Init_threads entry sys services s = Some s3"
    using s1(1) c s3(1) by (simp add: Init_threads_def s0_def s2_def Let_def)
  moreover have "map (\<lambda>(fn, a, nice). (fn, nice)) ?us = zip (map fst services) service_nice"
    by (simp add: zip_map1 case_prod_unfold comp_def)
  ultimately show ?thesis using s3(2) by simp
qed

end
