(* ===== verification/ThreadProps.thy ===== *)
theory ThreadProps
  imports ThreadInit
begin

text \<open>
  The start of the system: from an empty run queue, \<open>Init\<close> creates the idle task and six services and
  hands the processor to the first of them.
\<close>

section \<open>A machine before the start\<close>

text \<open>256 free pages from one megabyte on, and the names of the services at addresses below.\<close>

definition frames256 :: FrameMem where
  "frames256 = \<lparr>total_pages = 256, free_pages = 256, bitmap_size = 32, bitmap = replicate 32 0,
     pages = replicate 256 \<lparr>page_flag = PAGE_FREE, vaddr = 0, page_count = 0\<rparr>,
     start_addr = 0x100000, start_usable = 0x100000\<rparr>"

definition names0 :: bytes where
  "names0 = store_bytes (store_bytes (store_bytes (store_bytes (store_bytes (store_bytes (\<lambda>_. 0)
     0x100 [105, 110, 105, 116]) 0x110 [98, 108, 111, 99, 107]) 0x120 [118, 102, 115]) 0x130 [116, 116, 121])
     0x140 [109, 109]) 0x150 [116, 97, 115, 107]"

definition services0 :: "(u64 \<times> addr) list" where
  "services0 = [(0x1000, 0x100), (0x2000, 0x110), (0x3000, 0x120), (0x4000, 0x130), (0x5000, 0x140), (0x6000, 0x150)]"

definition machine0 :: Kernel where
  "machine0 = \<lparr>pcbs = (\<lambda>_. zero_Pcb), rb_root = None, leftmost = None, min_vruntime = 0, nr_running = 0,
     total_weight = 0, sched_current = None, clock = 0, sched_lock = 0, current_proc = None, tcbs = (\<lambda>_. zero_Tcb),
     cpu_rsp = 0, cpu_rip = 0, cpu_fs = 0, cpu_gs = 0, cr3 = 0, tss_rsp0 = 0, msr_175 = 0, int_on = False,
     pit_ticks = 0, msgs = (\<lambda>_. undefined), msg_queues = [], k_frames = frames256, kmem = names0,
     regs_at = (\<lambda>_. zero_Registers), pid_counter = 0, kernel_pml4 = 0xFFFFF00000050000, msr = (\<lambda>_. 0)\<rparr>"

lemma frames256_ok: "frames_at 0x100000 256 0 frames256"
proof -
  have "\<not> bm_test (replicate 32 0) i" if "i < 256" for i
    using that by (simp add: bm_test_def)
  then have u: "used frames256 = {}" by (simp add: used_def marked_def frames256_def)
  then have "frame_ok frames256" by (simp add: frame_ok_def) (simp add: frames256_def)
  with u show ?thesis by (auto simp: frames_at_def frames256_def)
qed

lemma low_outside: "b < 0x1000 \<Longrightarrow> b \<notin> page_area 0x100000 256"
proof -
  assume "b < 0x1000"
  then have b: "unat b < 4096" by (simp add: word_less_nat_alt)
  have "b - page_at 0x100000 0 = b + 0xFFFFFF00000" by (simp add: page_at_def Phy2Vir_def IDENTITY_BASE_def)
  moreover have "unat (b + 0xFFFFFF00000) = unat b + 0xFFFFFF00000" using b by (simp add: unat_word_ariths)
  ultimately have "unat (b - page_at 0x100000 0) = unat b + 0xFFFFFF00000" by (simp only:)
  then show ?thesis by (simp add: page_area_def)
qed

text \<open>A name that occupies the bytes of \<open>cs\<close> at a low address.\<close>

lemma low_name:
  assumes "cstr names0 a cs" "args_from [] cs = [w]" "length cs < 100" "a < 0x200"
  shows "name_ok (page_area 0x100000 256) names0 a"
proof -
  have "a + of_nat i < 0x1000" if "i \<le> length cs" for i
  proof -
    have i: "unat (of_nat i :: u64) = i" using that assms(3) by (intro unat_small) simp
    have "unat a < 512" using assms(4) by (simp add: word_less_nat_alt)
    then show ?thesis using that assms(3) i by (simp add: word_less_nat_alt unat_word_ariths)
  qed
  then have "\<forall>i \<le> length cs. a + of_nat i \<notin> page_area 0x100000 256" using low_outside by blast
  moreover have "length cs < 4000" using assms(3) by simp
  ultimately show ?thesis using assms(1,2) unfolding name_ok_def by blast
qed

lemma names0_ok: "(fn, a) \<in> set services0 \<Longrightarrow> name_ok (page_area 0x100000 256) names0 a"
proof -
  have "name_ok (page_area 0x100000 256) names0 0x100"
    by (rule low_name [of _ "[105, 110, 105, 116]"]) (code_simp+)
  moreover have "name_ok (page_area 0x100000 256) names0 0x110"
    by (rule low_name [of _ "[98, 108, 111, 99, 107]"]) (code_simp+)
  moreover have "name_ok (page_area 0x100000 256) names0 0x120"
    by (rule low_name [of _ "[118, 102, 115]"]) (code_simp+)
  moreover have "name_ok (page_area 0x100000 256) names0 0x130"
    by (rule low_name [of _ "[116, 116, 121]"]) (code_simp+)
  moreover have "name_ok (page_area 0x100000 256) names0 0x140"
    by (rule low_name [of _ "[109, 109]"]) (code_simp+)
  moreover have "name_ok (page_area 0x100000 256) names0 0x150"
    by (rule low_name [of _ "[116, 97, 115, 107]"]) (code_simp+)
  ultimately show "(fn, a) \<in> set services0 \<Longrightarrow> name_ok (page_area 0x100000 256) names0 a"
    by (auto simp: services0_def)
qed

text \<open>
  C14.  The start of the system.  When no task exists, no page from \<open>k\<close> on is in use and there are 84 of
  them, and the six names are words outside these pages, \<open>Init\<close> creates seven tasks, all runnable, with the
  process ids 0 to 6, each with its own stack, thread block and entry point, and with the function of its
  service saved in \<^verbatim>\<open>rbx\<close>; the services for blocks, files, terminals, memory and tasks get the very
  process ids that the programs use as the destinations of their messages.  Then the scheduler hands
  the processor to the task of \<^verbatim>\<open>SysInit\<close>, with the other six waiting in the queue in order.
\<close>

theorem Init_starts_services:
  fixes s :: Kernel
  assumes "frames_at su tp k (k_frames s)" "k + 84 \<le> unat tp" "rq_ok s []" "length services = 6"
    "\<And>fn a. (fn, a) \<in> set services \<Longrightarrow> name_ok (page_area su tp) (kmem s) a"
  shows "\<exists>s0 s'. Init_threads entry sys services s = Some s0 \<and>
     Init entry sys services resume s = Some (Switched, s') \<and>
     (\<forall>i<7. pid (pcbs s0 (task_at su k i)) = of_nat i \<and> stat (pcbs s0 (task_at su k i)) = Ready \<and>
        thread (pcbs s0 (task_at su k i)) = Some (thread_at su k i) \<and>
        rip (tcbs s0 (thread_at su k i)) = entry \<and> rsp0 (tcbs s0 (thread_at su k i)) = stack_top (task_at su k i)) \<and>
     (\<forall>i<6. reg_rbx (regs_at s0 (rsp (tcbs s0 (thread_at su k (i + 1))))) = fst (services ! i)) \<and>
     map (\<lambda>i. pid (pcbs s0 (task_at su k i))) [2..<7] = [SYS_BLOCK, SYS_FS, SYS_CHAR, SYS_MM, SYS_TASK] \<and>
     rq_ok s0 (map (task_at su k) [0..<7]) \<and>
     rq_ok s' (map (task_at su k) [1..<7] @ [task_at su k 0]) \<and>
     current_proc s' = Some (task_at su k 1) \<and> cpu_rsp s' = stack_top (task_at su k 1) - sizeof_Registers"
proof -
  let ?ts = "(0, IDLE_NICE) # zip (map fst services) service_nice"
  have len: "length ?ts = 7" using assms(4) by (simp add: service_nice_def)
  have "\<exists>s'. Init_threads entry sys services s = Some s' \<and> booted su tp k entry ?ts s'"
    by (rule Init_threads_booted [OF assms(1-4)]) (rule assms(5))
  then obtain s0 where
    s0: "Init_threads entry sys services s = Some s0" "booted su tp k entry ?ts s0" by blast
  have st: "task_started su k entry s0 i (?ts ! i)" if "i < 7" for i using s0(2) that len by (simp add: booted_def)
  have "\<exists>s'. Schedule resume s0 = Some (Switched, s') \<and> current_proc s' = Some (task_at su k 1) \<and>
     sched_current s' = Some (task_at su k 1) \<and> sched_lock s' = 0 \<and>
     rq_ok s' (map (task_at su k) [1..<length ?ts] @ [task_at su k 0]) \<and>
     cpu_rsp s' = stack_top (task_at su k 1) - sizeof_Registers"
    by (rule Schedule_booted [OF s0(2)]) (use len assms(2) in simp_all)
  then obtain s' where s': "Schedule resume s0 = Some (Switched, s')" "current_proc s' = Some (task_at su k 1)"
    "rq_ok s' (map (task_at su k) [1..<7] @ [task_at su k 0])"
    "cpu_rsp s' = stack_top (task_at su k 1) - sizeof_Registers" unfolding len by blast
  have "Init entry sys services resume s = Some (Switched, s')" using s0(1) s'(1) by (simp add: Init_def)
  moreover have "\<forall>i<7. pid (pcbs s0 (task_at su k i)) = of_nat i \<and> stat (pcbs s0 (task_at su k i)) = Ready \<and>
        thread (pcbs s0 (task_at su k i)) = Some (thread_at su k i) \<and>
        rip (tcbs s0 (thread_at su k i)) = entry \<and> rsp0 (tcbs s0 (thread_at su k i)) = stack_top (task_at su k i)"
    using st by (simp add: task_started_def Let_def)
  moreover have "\<forall>i<6. reg_rbx (regs_at s0 (rsp (tcbs s0 (thread_at su k (i + 1))))) = fst (services ! i)"
  proof (intro allI impI)
    fix i :: nat assume i: "i < 6"
    then show "reg_rbx (regs_at s0 (rsp (tcbs s0 (thread_at su k (i + 1))))) = fst (services ! i)"
      using st [of "i + 1"] assms(4) by (auto simp: task_started_def Let_def service_nice_def)
  qed
  moreover have "map (\<lambda>i. pid (pcbs s0 (task_at su k i))) [2..<7] = [SYS_BLOCK, SYS_FS, SYS_CHAR, SYS_MM, SYS_TASK]"
  proof -
    have "map (\<lambda>i. pid (pcbs s0 (task_at su k i))) [2..<7] = map of_nat [2..<7]"
      using st by (intro map_cong refl) (auto simp: task_started_def Let_def)
    also have "\<dots> = [SYS_BLOCK, SYS_FS, SYS_CHAR, SYS_MM, SYS_TASK]" by code_simp
    finally show ?thesis .
  qed
  moreover have "rq_ok s0 (map (task_at su k) [0..<7])" using s0(2) unfolding booted_def len by blast
  ultimately show ?thesis using s0(1) s'(2-4) by (intro exI [of _ s0] exI [of _ s'] conjI)
qed

theorem Init_starts_services_witness:
  "\<exists>s'. Init 0x9000 0x9100 services0 0x9200 machine0 = Some (Switched, s') \<and>
     current_proc s' = Some (task_at 0x100000 0 1) \<and>
     rq_ok s' (map (task_at 0x100000 0) [1..<7] @ [task_at 0x100000 0 0])"
proof -
  have "frames_at 0x100000 256 0 (k_frames machine0)" using frames256_ok by (simp add: machine0_def)
  moreover have "0 + 84 \<le> unat (256 :: u64)" by simp
  moreover have "rq_ok machine0 []"
    by (simp add: machine0_def rq_ok_def rq_acc_def rq_def rb_tree_def first_of_def)
  moreover have "length services0 = 6" by (simp add: services0_def)
  moreover have "name_ok (page_area 0x100000 256) (kmem machine0) a" if "(fn, a) \<in> set services0" for fn a
    using names0_ok [OF that] by (simp add: machine0_def)
  ultimately show ?thesis using Init_starts_services [of "0x100000" 256 0 machine0 services0] by blast
qed

end
