(* ===== verification/Console.thy ===== *)
theory Console
  imports Keyboard Vfs
begin

text \<open>
  The terminals: the console of \<^verbatim>\<open>src/drivers/tty/console.cc\<close> with the class of
  \<^verbatim>\<open>include/kernel/tty.h\<close>, the text screen of \<^verbatim>\<open>src/drivers/tty/video.cc\<close>, and the service that
  tasks send characters to.  A screen buffer and the frame buffer are arrays of pixels; a write outside
  an array has no result.
\<close>

unbundle bit_operations_syntax

section \<open>State\<close>

text \<open>The header and the bitmaps of a font.\<close>

record FontData =
  font_width :: u32
  font_height :: u32
  font_data :: "byte list"

record TTYState =
  xpos :: u32
  ypos :: u32
  screen_buffer :: "u32 list option"
  need_redraw :: bool

record Console =
  ttys :: "TTYState list"
  current_tty :: int
  con_alt_pressed :: bool
  fontdata :: "FontData option"
  g_console :: bool
  tty_lock :: u32
  v_width :: u32
  v_height :: u32
  v_size :: u32
  v_type :: u32
  framebuffer :: "u32 list"

definition FRAMEBUFFER_TYPE_INDEXED :: u32 where "FRAMEBUFFER_TYPE_INDEXED = 1"
definition FRAMEBUFFER_TYPE_RGB :: u32 where "FRAMEBUFFER_TYPE_RGB = 2"
definition FRAMEBUFFER_TYPE_EGA_TEXT :: u32 where "FRAMEBUFFER_TYPE_EGA_TEXT = 4"
definition DEFAULT_COLOR :: u32 where "DEFAULT_COLOR = 0x8f8f8f"
definition DEFAULT_BG_COLOR :: u32 where "DEFAULT_BG_COLOR = 0x121212"
definition TTYS :: nat where "TTYS = 6"

definition bg_pixel :: u32 where "bg_pixel = push_bit 24 0xff OR DEFAULT_BG_COLOR"

section \<open>Arrays of pixels\<close>

definition set_at :: "'a list \<Rightarrow> nat \<Rightarrow> 'a \<Rightarrow> 'a list option" where
  "set_at xs i x = (if i < length xs then Some (xs[i := x]) else None)"

primrec fold_opt :: "('x \<Rightarrow> 's \<Rightarrow> 's option) \<Rightarrow> 'x list \<Rightarrow> 's \<Rightarrow> 's option" where
  "fold_opt f [] s = Some s"
| "fold_opt f (x # xs) s = do { s' \<leftarrow> f x s; fold_opt f xs s' }"

text \<open>The loops that paint a whole buffer and that copy one to the frame buffer.\<close>

definition paint :: "nat \<Rightarrow> u32 \<Rightarrow> u32 list \<Rightarrow> u32 list option" where
  "paint n p = fold_opt (\<lambda>i buf. set_at buf i p) [0..<n]"

definition copy_screen :: "nat \<Rightarrow> u32 list \<Rightarrow> u32 list \<Rightarrow> u32 list option" where
  "copy_screen n buf = fold_opt (\<lambda>i fb. if i < length buf then set_at fb i (buf ! i) else None) [0..<n]"

section \<open>The console\<close>

definition con_acquire :: "Console \<Rightarrow> Console option" where
  "con_acquire con = do { l \<leftarrow> lock (tty_lock con); Some (con\<lparr>tty_lock := l\<rparr>) }"

definition con_release :: "Console \<Rightarrow> Console" where
  "con_release con = con\<lparr>tty_lock := unlock (tty_lock con)\<rparr>"

text \<open>
  The constructor, with the six buffers that the page allocator returned, of
  \<^verbatim>\<open>width * height * size\<close> bytes each, or null pointers.
\<close>

definition con_new :: "u32 list option list \<Rightarrow> Console \<Rightarrow> Console" where
  "con_new bufs con = con\<lparr>ttys := map (\<lambda>b. \<lparr>xpos = 0, ypos = 0, screen_buffer = b, need_redraw = False\<rparr>) bufs,
     current_tty := 1, con_alt_pressed := False, fontdata := None\<rparr>"

definition Redraw :: "Console \<Rightarrow> Console option" where
  "Redraw con = do {
     con \<leftarrow> con_acquire con;
     let i = nat (current_tty con - 1);
     let t = ttys con ! i;
     fb \<leftarrow> (case screen_buffer t of
         None \<Rightarrow> Some (framebuffer con)
       | Some buf \<Rightarrow> copy_screen (unat (v_width con * v_height con)) buf (framebuffer con));
     Some (con_release (con\<lparr>framebuffer := fb, ttys := (ttys con)[i := t\<lparr>need_redraw := False\<rparr>]\<rparr>)) }"

definition paint_tty :: "nat \<Rightarrow> Console \<Rightarrow> Console option" where
  "paint_tty i con = (case screen_buffer (ttys con ! i) of
       None \<Rightarrow> Some con
     | Some buf \<Rightarrow> do {
         buf \<leftarrow> paint (unat (v_height con * v_width con)) bg_pixel buf;
         Some (con\<lparr>ttys := (ttys con)[i := (ttys con ! i)\<lparr>screen_buffer := Some buf\<rparr>]\<rparr>) })"

definition con_Init :: "Console \<Rightarrow> Console option" where
  "con_Init con = do {
     con \<leftarrow> con_acquire con;
     let con = con\<lparr>g_console := True\<rparr>;
     con \<leftarrow> (if v_type con = FRAMEBUFFER_TYPE_RGB then fold_opt paint_tty [0..<TTYS] con else Some con);
     Redraw (con_release con) }"

definition SetFont :: "FontData option \<Rightarrow> Console \<Rightarrow> Console" where
  "SetFont f con = con\<lparr>fontdata := f\<rparr>"

definition SetAltPressed :: "bool \<Rightarrow> Console \<Rightarrow> Console" where
  "SetAltPressed b con = con\<lparr>con_alt_pressed := b\<rparr>"

text \<open>The two early returns leave the lock taken.\<close>

definition SwitchTTY :: "int \<Rightarrow> Console \<Rightarrow> Console option" where
  "SwitchTTY n con = do {
     con \<leftarrow> con_acquire con;
     if n < 1 \<or> n > int TTYS then Some con
     else if n = current_tty con then Some con
     else do {
       let i = nat (current_tty con - 1);
       let con = con\<lparr>ttys := (ttys con)[i := (ttys con ! i)\<lparr>need_redraw := True\<rparr>]\<rparr>;
       let con = con\<lparr>current_tty := n\<rparr>;
       let j = nat (n - 1);
       let con = con\<lparr>ttys := (ttys con)[j := (ttys con ! j)\<lparr>need_redraw := True\<rparr>]\<rparr>;
       Redraw (con_release con) } }"

definition TTYSwitchCallbackImpl :: "int \<Rightarrow> Console \<Rightarrow> Console option" where
  "TTYSwitchCallbackImpl n con = (if g_console con then SwitchTTY n con else Some con)"

text \<open>
  A cell of the screen: \<open>pix y x\<close> is its pixel in row \<open>y\<close> and column \<open>x\<close>.  The index is computed in 32
  bits.
\<close>

definition cell_index :: "u32 \<Rightarrow> u32 \<Rightarrow> u32 \<Rightarrow> nat \<times> nat \<Rightarrow> nat" where
  "cell_index w xp yp = (\<lambda>(y, x). unat ((yp + of_nat y) * w + (xp + of_nat x)))"

definition cell_body :: "u32 \<Rightarrow> u32 \<Rightarrow> u32 \<Rightarrow> bool \<Rightarrow> (nat \<Rightarrow> nat \<Rightarrow> u32 option) \<Rightarrow> nat \<times> nat \<Rightarrow>
    u32 list \<times> u32 list \<Rightarrow> (u32 list \<times> u32 list) option" where
  "cell_body w xp yp shown pix p = (\<lambda>(buf, fb). do {
     px \<leftarrow> pix (fst p) (snd p);
     buf \<leftarrow> set_at buf (cell_index w xp yp p) px;
     fb \<leftarrow> (if shown then set_at fb (cell_index w xp yp p) px else Some fb);
     Some (buf, fb) })"

definition draw_cell :: "Console \<Rightarrow> FontData \<Rightarrow> u32 \<Rightarrow> u32 \<Rightarrow> bool \<Rightarrow> (nat \<Rightarrow> nat \<Rightarrow> u32 option) \<Rightarrow>
    u32 list \<times> u32 list \<Rightarrow> (u32 list \<times> u32 list) option" where
  "draw_cell con f xp yp shown pix =
     fold_opt (cell_body (v_width con) xp yp shown pix)
       (List.product [0..<unat (font_height f)] [0..<unat (font_width f)])"

text \<open>
  The pixel of a character: its bitmap row is read at an index computed in 32 bits from the signed
  character; a column from 8 on would shift by a negative amount.
\<close>

definition glyph_pixel :: "FontData \<Rightarrow> byte \<Rightarrow> u32 \<Rightarrow> nat \<Rightarrow> nat \<Rightarrow> u32 option" where
  "glyph_pixel f c color y x =
     (let i = unat (scast c * font_height f + of_nat y) in
      if i < length (font_data f) \<and> x < 8
      then Some (push_bit 24 0xff OR (if bit (font_data f ! i) (7 - x) then color else DEFAULT_BG_COLOR))
      else None)"

text \<open>The cursor at the start of the next character.\<close>

definition wrap_cursor :: "Console \<Rightarrow> FontData \<Rightarrow> TTYState \<Rightarrow> TTYState" where
  "wrap_cursor con f t =
     (let t1 = (if xpos t \<ge> v_width con then t\<lparr>xpos := 0, ypos := ypos t + font_height f\<rparr> else t)
      in if ypos t1 \<ge> v_height con then t1\<lparr>ypos := 0\<rparr> else t1)"

text \<open>The switch on the character; \<open>shown\<close> when the terminal is the current one.\<close>

definition put_switch :: "Console \<Rightarrow> FontData \<Rightarrow> byte \<Rightarrow> u32 \<Rightarrow> bool \<Rightarrow> TTYState \<Rightarrow> u32 list \<Rightarrow>
    (TTYState \<times> u32 list \<times> u32 list) option" where
  "put_switch con f c color shown t buf =
     (if c = 10 then Some (t\<lparr>xpos := 0, ypos := ypos t + font_height f\<rparr>, buf, framebuffer con)
      else if c = 13 then Some (t, buf, framebuffer con)
      else if c = 8 then do {
        let t = t\<lparr>xpos := xpos t - font_width f\<rparr>;
        let t = (if sint (xpos t) < 0 then t\<lparr>xpos := 0\<rparr> else t);
        (buf, fb) \<leftarrow> draw_cell con f (xpos t) (ypos t) shown (\<lambda>_ _. Some bg_pixel) (buf, framebuffer con);
        Some (t, buf, fb) }
      else do {
        (buf, fb) \<leftarrow> draw_cell con f (xpos t) (ypos t) shown (glyph_pixel f c color) (buf, framebuffer con);
        Some (t\<lparr>xpos := xpos t + font_width f\<rparr>, buf, fb) })"

definition PutChar :: "int \<Rightarrow> byte \<Rightarrow> u32 \<Rightarrow> Console \<Rightarrow> Console option" where
  "PutChar n c color con = do {
     con \<leftarrow> con_acquire con;
     if n < 1 \<or> n > int TTYS then Some (con_release con)
     else
       let i = nat (n - 1) in
       (case (screen_buffer (ttys con ! i), fontdata con) of
          (Some buf, Some f) \<Rightarrow> do {
            (t, buf, fb) \<leftarrow> put_switch con f c color (n = current_tty con) (wrap_cursor con f (ttys con ! i)) buf;
            Some (con_release (con\<lparr>ttys := (ttys con)[i := t\<lparr>screen_buffer := Some buf\<rparr>], framebuffer := fb\<rparr>)) }
        | _ \<Rightarrow> Some con) }"

text \<open>The characters of a string up to its zero; a string that is not closed is read beyond its end.\<close>

fun con_Puts :: "int \<Rightarrow> byte list \<Rightarrow> u32 \<Rightarrow> Console \<Rightarrow> Console option" where
  "con_Puts n [] color con = None"
| "con_Puts n (c # cs) color con =
     (if c = 0 then Some con else do { con \<leftarrow> PutChar n c color con; con_Puts n cs color con })"

section \<open>The service\<close>

definition SYS_CHAR_PUTCHAR :: u64 where "SYS_CHAR_PUTCHAR = 0x40"
definition SYS_CHAR_GETCHAR :: u64 where "SYS_CHAR_GETCHAR = 0x41"
definition SYS_CHAR_PUTS :: u64 where "SYS_CHAR_PUTS = 0x42"

text \<open>The title of terminal \<open>t\<close>: \<^verbatim>\<open>[ TTY t ]\<close> and a newline.\<close>

definition tty_title :: "nat \<Rightarrow> byte list" where
  "tty_title t = map of_char ''[ TTY '' @ [48 + of_nat t] @ map of_char '' ]'' @ [10, 0]"

definition tty_start :: "FontData \<Rightarrow> Console \<Rightarrow> Kbd \<Rightarrow> (Console \<times> Kbd) option" where
  "tty_start f con k = do {
     con \<leftarrow> con_Init con;
     let k = InputQueue_Init (SetTTYSwitchCallback True k);
     con \<leftarrow> fold_opt (\<lambda>t. con_Puts (int t) (tty_title t) DEFAULT_COLOR) [1..<TTYS + 1] (SetFont (Some f) con);
     Some (con, k) }"

text \<open>The loop that asks the input queue until it has a character.\<close>

definition wait_key :: "Kbd \<Rightarrow> (byte \<times> Kbd) option" where
  "wait_key = loop (\<lambda>k. do {
     (c, k) \<leftarrow> Peek k;
     Some (case c of None \<Rightarrow> Next k | Some c \<Rightarrow> Done (c, k)) })"

text \<open>
  One request of a task on terminal \<open>n\<close>: the character to reply with, if there is a reply.  An unknown
  request is a panic.
\<close>

definition char_serve :: "int \<Rightarrow> Message \<Rightarrow> Console \<times> Kbd \<Rightarrow> (byte option \<times> Console \<times> Kbd) option" where
  "char_serve n m = (\<lambda>(con, k).
     if msg_type m = SYS_CHAR_PUTCHAR then do {
       con \<leftarrow> PutChar n (ucast (msg_num m 0)) DEFAULT_COLOR con; Some (None, con, k) }
     else if msg_type m = SYS_CHAR_PUTS then do {
       con \<leftarrow> con_Puts n (payload m) DEFAULT_COLOR con; Some (None, con, k) }
     else if msg_type m = SYS_CHAR_GETCHAR then do {
       (c, k) \<leftarrow> wait_key k; Some (Some c, con, k) }
     else None)"

section \<open>The text screen\<close>

text \<open>The screen of 25 rows of 80 characters, two bytes each, that \<^verbatim>\<open>video::Putchar\<close> writes to.\<close>

record TextScreen =
  txt_x :: int
  txt_y :: int
  txt_mem :: "byte list"

definition VIDEO_WIDTH :: nat where "VIDEO_WIDTH = 80"
definition VIDEO_HEIGHT :: nat where "VIDEO_HEIGHT = 25"

definition scroll_row :: "nat \<Rightarrow> byte list \<Rightarrow> byte list" where
  "scroll_row y = fold (\<lambda>x b. b[(y - 1) * VIDEO_WIDTH * 2 + x := b ! (y * VIDEO_WIDTH * 2 + x)]) [0..<VIDEO_WIDTH * 2]"

definition scroll :: "byte list \<Rightarrow> byte list" where
  "scroll b = fold (\<lambda>x b. b[(VIDEO_HEIGHT - 1) * VIDEO_WIDTH * 2 + x := 0]) [0..<VIDEO_WIDTH * 2]
     (fold scroll_row [1..<VIDEO_HEIGHT] b)"

definition txt_newline :: "TextScreen \<Rightarrow> TextScreen" where
  "txt_newline s = (let s1 = s\<lparr>txt_x := 0, txt_y := txt_y s + 1\<rparr> in
     if txt_y s1 \<ge> int VIDEO_HEIGHT then s1\<lparr>txt_mem := scroll (txt_mem s1), txt_y := int VIDEO_HEIGHT - 1\<rparr> else s1)"

definition video_Putchar :: "u32 \<Rightarrow> u32 \<Rightarrow> byte \<Rightarrow> byte \<Rightarrow> TextScreen \<Rightarrow> TextScreen option" where
  "video_Putchar vtype w c color s =
     (if c = 10 \<or> c = 13 then Some (txt_newline s)
      else if vtype = FRAMEBUFFER_TYPE_EGA_TEXT then do {
        let i = unat ((of_int (txt_x s) + of_int (txt_y s) * w) * 2);
        b \<leftarrow> set_at (txt_mem s) i c;
        b \<leftarrow> set_at b (i + 1) color;
        let s = s\<lparr>txt_mem := b, txt_x := txt_x s + 1\<rparr>;
        Some (if of_int (txt_x s) \<ge> w then txt_newline s else s) }
      else Some s)"

end
