(* ===== verification/ConsoleProps.thy ===== *)
theory ConsoleProps
  imports Console
begin

text \<open>
  The consistency of the console: whatever is printed on whatever terminal, and however the user
  switches, the frame buffer shows the current terminal, every pixel is written inside its array, and
  a character changes its own cell and nothing else.
\<close>

section \<open>Painting a cell\<close>

definition painted :: "(nat \<times> nat \<Rightarrow> nat) \<Rightarrow> (nat \<times> nat \<Rightarrow> u32) \<Rightarrow> (nat \<times> nat) set \<Rightarrow> u32 list \<Rightarrow> u32 list \<Rightarrow> bool" where
  "painted idx v P b b' \<longleftrightarrow> length b' = length b \<and> (\<forall>p\<in>P. b' ! idx p = v p) \<and>
     (\<forall>j. j \<notin> idx ` P \<longrightarrow> b' ! j = b ! j)"

lemma painted_step:
  assumes "painted idx v (set ps) (b[idx p := v p]) b'" "idx p < length b" "inj_on idx (set (p # ps))"
  shows "painted idx v (set (p # ps)) b b'"
proof -
  have "b' ! idx p = v p"
  proof (cases "p \<in> set ps")
    case True
    then show ?thesis using assms(1) by (simp add: painted_def)
  next
    case False
    then have "idx p \<notin> idx ` set ps" using assms(3) by (auto simp: inj_on_def)
    then show ?thesis using assms(1,2) by (simp add: painted_def)
  qed
  then show ?thesis using assms(1) by (auto simp: painted_def)
qed

lemma fold_cell:
  assumes "\<And>p. p \<in> set ps \<Longrightarrow> pix (fst p) (snd p) = Some (v p) \<and> cell_index w xp yp p < length buf \<and>
      (shown \<longrightarrow> cell_index w xp yp p < length fb)"
    and "inj_on (cell_index w xp yp) (set ps)"
  shows "\<exists>buf' fb'. fold_opt (cell_body w xp yp shown pix) ps (buf, fb) = Some (buf', fb') \<and>
     painted (cell_index w xp yp) v (set ps) buf buf' \<and>
     (if shown then painted (cell_index w xp yp) v (set ps) fb fb' else fb' = fb)"
  using assms
proof (induction ps arbitrary: buf fb)
  case Nil
  then show ?case by (simp add: painted_def)
next
  case (Cons p ps)
  let ?i = "cell_index w xp yp" and ?fb = "if shown then fb[cell_index w xp yp p := v p] else fb"
  have p: "pix (fst p) (snd p) = Some (v p)" "?i p < length buf" "shown \<Longrightarrow> ?i p < length fb"
    using Cons.prems(1) [of p] by auto
  then have step: "cell_body w xp yp shown pix p (buf, fb) = Some (buf[?i p := v p], ?fb)"
    by (simp add: cell_body_def set_at_def)
  have inj: "inj_on ?i (set ps)" using Cons.prems(2) by (rule inj_on_subset) auto
  have "\<exists>buf' fb'. fold_opt (cell_body w xp yp shown pix) ps (buf[?i p := v p], ?fb) = Some (buf', fb') \<and>
     painted ?i v (set ps) (buf[?i p := v p]) buf' \<and>
     (if shown then painted ?i v (set ps) ?fb fb' else fb' = ?fb)"
    using Cons.prems(1) by (intro Cons.IH inj) auto
  then obtain buf' fb' where r: "fold_opt (cell_body w xp yp shown pix) ps (buf[?i p := v p], ?fb) = Some (buf', fb')"
    "painted ?i v (set ps) (buf[?i p := v p]) buf'"
    "if shown then painted ?i v (set ps) ?fb fb' else fb' = ?fb" by blast
  have "painted ?i v (set (p # ps)) buf buf'" by (rule painted_step [OF r(2) p(2) Cons.prems(2)])
  moreover have "if shown then painted ?i v (set (p # ps)) fb fb' else fb' = fb"
    using r(3) painted_step [OF _ p(3) Cons.prems(2), of v fb'] by (simp split: if_splits)
  ultimately show ?case using step r(1) by simp
qed

section \<open>The invariant\<close>

text \<open>The font divides the screen into whole cells and has a bitmap for every seven-bit character.\<close>

definition font_fits :: "FontData \<Rightarrow> u32 \<Rightarrow> u32 \<Rightarrow> bool" where
  "font_fits f w h \<longleftrightarrow> 0 < unat (font_width f) \<and> unat (font_width f) \<le> 8 \<and> 0 < unat (font_height f) \<and>
     unat (font_width f) dvd unat w \<and> unat (font_height f) dvd unat h \<and> 0 < unat w \<and> 0 < unat h \<and>
     unat w * unat h < 2 ^ 31 \<and> 128 * unat (font_height f) \<le> length (font_data f) \<and>
     128 * unat (font_height f) < 2 ^ 32"

definition cursor_ok :: "FontData \<Rightarrow> u32 \<Rightarrow> u32 \<Rightarrow> TTYState \<Rightarrow> bool" where
  "cursor_ok f w h t \<longleftrightarrow> unat (font_width f) dvd unat (xpos t) \<and> unat (xpos t) \<le> unat w \<and>
     unat (font_height f) dvd unat (ypos t) \<and> unat (ypos t) \<le> unat h"

definition screen :: "Console \<Rightarrow> nat \<Rightarrow> u32 list" where
  "screen con i = the (screen_buffer (ttys con ! i))"

definition area :: "Console \<Rightarrow> nat" where
  "area con = unat (v_width con) * unat (v_height con)"

definition console_wf :: "FontData \<Rightarrow> Console \<Rightarrow> bool" where
  "console_wf f con \<longleftrightarrow> fontdata con = Some f \<and> font_fits f (v_width con) (v_height con) \<and>
     length (ttys con) = TTYS \<and> 1 \<le> current_tty con \<and> current_tty con \<le> int TTYS \<and>
     area con \<le> length (framebuffer con) \<and>
     (\<forall>i<TTYS. screen_buffer (ttys con ! i) \<noteq> None \<and> length (screen con i) = area con \<and>
        cursor_ok f (v_width con) (v_height con) (ttys con ! i))"

text \<open>The user sees the current terminal.\<close>

definition console_ok :: "FontData \<Rightarrow> Console \<Rightarrow> bool" where
  "console_ok f con \<longleftrightarrow> console_wf f con \<and>
     take (area con) (framebuffer con) = screen con (nat (current_tty con - 1))"

lemmas console_ok_defs = console_ok_def console_wf_def

lemma dvd_step: "(d :: nat) dvd x \<Longrightarrow> d dvd m \<Longrightarrow> x < m \<Longrightarrow> x + d \<le> m"
proof -
  assume "d dvd x" "d dvd m" "x < m"
  then have "d dvd m - x" "0 < m - x" by simp_all
  then have "d \<le> m - x" by (simp add: dvd_imp_le)
  then show ?thesis using \<open>x < m\<close> by simp
qed

lemma fits_bounds:
  assumes "font_fits f w h"
  shows "unat w < 2 ^ 31" "unat h < 2 ^ 31" "unat (font_width f) \<le> unat w" "unat (font_height f) \<le> unat h"
proof -
  have "unat w * 1 \<le> unat w * unat h" "1 * unat h \<le> unat w * unat h"
    using assms unfolding font_fits_def by (intro mult_le_mono; simp)+
  moreover have "unat w * unat h < 2 ^ 31" using assms by (simp add: font_fits_def)
  ultimately show "unat w < 2 ^ 31" "unat h < 2 ^ 31" by linarith+
  show "unat (font_width f) \<le> unat w" "unat (font_height f) \<le> unat h"
    using assms by (auto simp: font_fits_def intro: dvd_imp_le)
qed

lemma cell_index_nat:
  assumes "font_fits f w h" "unat xp + x < unat w" "unat yp + y < unat h"
  shows "cell_index w xp yp (y, x) = (unat yp + y) * unat w + (unat xp + x)"
    and "(unat yp + y) * unat w + (unat xp + x) < unat w * unat h"
proof -
  note B = fits_bounds [OF assms(1)]
  have "Suc (unat yp + y) * unat w \<le> unat h * unat w" using assms(3) by (intro mult_le_mono) simp_all
  then show lt: "(unat yp + y) * unat w + (unat xp + x) < unat w * unat h" using assms(2) by (simp add: mult.commute)
  have area31: "unat w * unat h < 2 ^ 31" using assms(1) by (simp add: font_fits_def)
  have x: "unat (xp + of_nat x) = unat xp + x" and y: "unat (yp + of_nat y) = unat yp + y"
    using assms(2,3) B(1,2) by (simp_all add: unat_word_ariths unat_of_nat)
  have m: "unat ((yp + of_nat y) * w) = (unat yp + y) * unat w"
    using lt area31 by (simp add: unat_word_ariths(2) y)
  show "cell_index w xp yp (y, x) = (unat yp + y) * unat w + (unat xp + x)"
    unfolding cell_index_def prod.case by (subst unat_word_ariths(1)) (use lt area31 m x in simp)
qed

text \<open>The pixels of a cell at a position inside the screen.\<close>

definition in_cell :: "FontData \<Rightarrow> u32 \<Rightarrow> u32 \<Rightarrow> nat \<Rightarrow> nat \<Rightarrow> bool" where
  "in_cell f xp yp x y \<longleftrightarrow> unat xp \<le> x \<and> x < unat xp + unat (font_width f) \<and>
     unat yp \<le> y \<and> y < unat yp + unat (font_height f)"

text \<open>\<open>b'\<close> is \<open>b\<close> with the pixels of one cell replaced.\<close>

definition cell_drawn :: "FontData \<Rightarrow> u32 \<Rightarrow> u32 \<Rightarrow> nat \<Rightarrow> nat \<Rightarrow> (nat \<Rightarrow> nat \<Rightarrow> u32) \<Rightarrow> u32 list \<Rightarrow> u32 list \<Rightarrow> bool" where
  "cell_drawn f xp yp w h px b b' \<longleftrightarrow> length b' = length b \<and>
     (\<forall>x<w. \<forall>y<h. b' ! (y * w + x) = (if in_cell f xp yp x y then px (y - unat yp) (x - unat xp) else b ! (y * w + x)))"

lemma index_inj:
  assumes "y * w + x = y' * w + x'" "x < w" "x' < (w :: nat)"
  shows "y = y' \<and> x = x'"
proof -
  have "(y * w + x) div w = y" "(y' * w + x') div w = y'" using assms(2,3) by simp_all
  then have "y = y'" using assms(1) by simp
  then show ?thesis using assms(1) by simp
qed

lemma draw_cell_correct:
  assumes fit: "font_fits f (v_width con) (v_height con)"
    and pos: "unat xp + unat (font_width f) \<le> unat (v_width con)" "unat yp + unat (font_height f) \<le> unat (v_height con)"
    and len: "length buf = area con" "area con \<le> length fb" and same: "shown \<Longrightarrow> take (area con) fb = buf"
    and pix: "\<And>y x. y < unat (font_height f) \<Longrightarrow> x < unat (font_width f) \<Longrightarrow> pix y x = Some (px y x)"
  shows "\<exists>buf' fb'. draw_cell con f xp yp shown pix (buf, fb) = Some (buf', fb') \<and>
     cell_drawn f xp yp (unat (v_width con)) (unat (v_height con)) px buf buf' \<and> length fb' = length fb \<and>
     (if shown then take (area con) fb' = buf' else fb' = fb)"
proof -
  let ?w = "v_width con" and ?h = "v_height con"
  let ?i = "cell_index ?w xp yp" and ?ps = "List.product [0..<unat (font_height f)] [0..<unat (font_width f)]"
  let ?v = "\<lambda>(y, x). px y x"
  have ix: "?i (y, x) = (unat yp + y) * unat ?w + (unat xp + x) \<and> ?i (y, x) < area con"
    if "y < unat (font_height f)" "x < unat (font_width f)" for y x
    using cell_index_nat [OF fit, of xp x yp y] that pos by (simp add: area_def)
  have inj: "inj_on ?i (set ?ps)"
  proof (rule inj_onI)
    fix p q assume pq: "p \<in> set ?ps" "q \<in> set ?ps" "?i p = ?i q"
    obtain y x y' x' where e: "p = (y, x)" "q = (y', x')" by (cases p; cases q)
    have b: "y < unat (font_height f)" "x < unat (font_width f)" "y' < unat (font_height f)" "x' < unat (font_width f)"
      using pq(1,2) by (auto simp: e)
    then have "(unat yp + y) * unat ?w + (unat xp + x) = (unat yp + y') * unat ?w + (unat xp + x')"
      using pq(3) ix [OF b(1,2)] ix [OF b(3,4)] by (simp add: e)
    then have "unat yp + y = unat yp + y' \<and> unat xp + x = unat xp + x'"
      by (rule index_inj) (use b pos in simp_all)
    then show "p = q" by (simp add: e)
  qed
  have "pix (fst p) (snd p) = Some (?v p) \<and> ?i p < length buf \<and> (shown \<longrightarrow> ?i p < length fb)" if pm: "p \<in> set ?ps" for p
  proof -
    obtain y x where yx: "p = (y, x)" by (cases p)
    then have p: "p = (y, x)" "y < unat (font_height f)" "x < unat (font_width f)" using pm by auto
    have "?i p < area con" using ix [OF p(2,3)] p(1) by simp
    then show ?thesis using pix [OF p(2,3)] len p(1) by simp
  qed
  from fold_cell [OF this inj] obtain buf' fb' where
    r: "draw_cell con f xp yp shown pix (buf, fb) = Some (buf', fb')" "painted ?i ?v (set ?ps) buf buf'"
      "if shown then painted ?i ?v (set ?ps) fb fb' else fb' = fb" by (auto simp: draw_cell_def)
  have mem: "j \<in> ?i ` set ?ps \<longleftrightarrow> in_cell f xp yp x y" if j: "j = y * unat ?w + x" "x < unat ?w" for j x y
  proof
    assume "j \<in> ?i ` set ?ps"
    then obtain y' x' where b: "y' < unat (font_height f)" "x' < unat (font_width f)" "j = ?i (y', x')" by auto
    then have "y * unat ?w + x = (unat yp + y') * unat ?w + (unat xp + x')" using ix [OF b(1,2)] j(1) by simp
    then have "y = unat yp + y' \<and> x = unat xp + x'" by (rule index_inj) (use b pos j in simp_all)
    then show "in_cell f xp yp x y" using b by (simp add: in_cell_def)
  next
    assume c: "in_cell f xp yp x y"
    then have b: "y - unat yp < unat (font_height f)" "x - unat xp < unat (font_width f)" by (auto simp: in_cell_def)
    have "?i (y - unat yp, x - unat xp) = j" using ix [OF b] c j(1) by (simp add: in_cell_def)
    moreover have "(y - unat yp, x - unat xp) \<in> set ?ps" using b by simp
    ultimately show "j \<in> ?i ` set ?ps" by force
  qed
  have drawn: "cell_drawn f xp yp (unat ?w) (unat ?h) px buf buf'"
    unfolding cell_drawn_def
  proof (intro conjI allI impI)
    show "length buf' = length buf" using r(2) by (simp add: painted_def)
    fix x y assume x: "x < unat ?w" and y: "y < unat ?h"
    show "buf' ! (y * unat ?w + x) = (if in_cell f xp yp x y then px (y - unat yp) (x - unat xp) else buf ! (y * unat ?w + x))"
    proof (cases "in_cell f xp yp x y")
      case True
      then have b: "y - unat yp < unat (font_height f)" "x - unat xp < unat (font_width f)" by (auto simp: in_cell_def)
      have e: "?i (y - unat yp, x - unat xp) = y * unat ?w + x" using ix [OF b] True by (simp add: in_cell_def)
      have "(y - unat yp, x - unat xp) \<in> set ?ps" using b by simp
      then have "buf' ! ?i (y - unat yp, x - unat xp) = ?v (y - unat yp, x - unat xp)"
        using r(2) unfolding painted_def by blast
      then show ?thesis using True unfolding e by simp
    next
      case False
      then have "y * unat ?w + x \<notin> ?i ` set ?ps" using mem x by blast
      then show ?thesis using False r(2) by (simp add: painted_def)
    qed
  qed
  moreover have "length fb' = length fb" using r(3) by (auto simp: painted_def split: if_splits)
  moreover have "if shown then take (area con) fb' = buf' else fb' = fb"
  proof (cases shown)
    case True
    have "take (area con) fb' ! j = buf' ! j" if "j < area con" for j
    proof (cases "j \<in> ?i ` set ?ps")
      case jn: True
      then show ?thesis using that r(2,3) True by (auto simp: painted_def)
    next
      case jn: False
      then have "fb' ! j = fb ! j" "buf' ! j = buf ! j" using r(2,3) True by (auto simp: painted_def)
      moreover have "fb ! j = buf ! j" using that same [OF True] by (metis nth_take)
      ultimately show ?thesis using that by simp
    qed
    moreover have "length (take (area con) fb') = length buf'" "length buf' = area con"
      using r(2,3) True len by (simp_all add: painted_def)
    ultimately have "take (area con) fb' = buf'" by (intro nth_equalityI) simp_all
    then show ?thesis using True by simp
  next
    case False
    then show ?thesis using r(3) by simp
  qed
  ultimately show ?thesis using r(1) by blast
qed

section \<open>Characters\<close>

lemma wrap_cursor_ok:
  assumes fit: "font_fits f (v_width con) (v_height con)" and ok: "cursor_ok f (v_width con) (v_height con) t"
  defines "t' \<equiv> wrap_cursor con f t"
  shows "unat (xpos t') + unat (font_width f) \<le> unat (v_width con)" "unat (ypos t') + unat (font_height f) \<le> unat (v_height con)"
    "unat (font_width f) dvd unat (xpos t')" "unat (font_height f) dvd unat (ypos t')" "screen_buffer t' = screen_buffer t"
proof -
  note B = fits_bounds [OF fit]
  have h: "unat (ypos t + font_height f) = unat (ypos t) + unat (font_height f)"
    using B ok by (simp add: unat_word_ariths cursor_ok_def)
  have d: "unat (font_width f) dvd unat (v_width con)" "unat (font_height f) dvd unat (v_height con)"
    "0 < unat (v_width con)" "0 < unat (v_height con)" using fit by (simp_all add: font_fits_def)
  have t': "unat (font_width f) dvd unat (xpos t')" "unat (font_height f) dvd unat (ypos t')"
    "unat (xpos t') < unat (v_width con)" "unat (ypos t') < unat (v_height con)"
    using ok d h by (auto simp: t'_def wrap_cursor_def Let_def cursor_ok_def word_le_nat_alt)
  then show "unat (font_width f) dvd unat (xpos t')" "unat (font_height f) dvd unat (ypos t')" by simp_all
  show "unat (xpos t') + unat (font_width f) \<le> unat (v_width con)" "unat (ypos t') + unat (font_height f) \<le> unat (v_height con)"
    using t' d by (simp_all add: dvd_step)
  show "screen_buffer t' = screen_buffer t" by (simp add: t'_def wrap_cursor_def Let_def)
qed

lemma console_okD:
  assumes "console_ok f con" "i < TTYS"
  shows "\<exists>buf. screen_buffer (ttys con ! i) = Some buf \<and> length buf = area con \<and> screen con i = buf"
    "cursor_ok f (v_width con) (v_height con) (ttys con ! i)"
  using assms by (auto simp: console_ok_defs screen_def)

lemma console_ok_upd:
  assumes ok: "console_ok f con" and i: "i < TTYS" and buf: "length buf' = area con"
    and t: "cursor_ok f (v_width con) (v_height con) t'" and fb: "length fb' = length (framebuffer con)"
    and eq: "if int i + 1 = current_tty con then take (area con) fb' = buf' else fb' = framebuffer con"
  shows "console_ok f (con\<lparr>tty_lock := l, ttys := (ttys con)[i := t'\<lparr>screen_buffer := Some buf'\<rparr>], framebuffer := fb'\<rparr>)"
    (is "console_ok f ?con")
proof -
  have c: "1 \<le> current_tty con" "current_tty con \<le> int TTYS" "length (ttys con) = TTYS" using ok by (simp_all add: console_ok_defs)
  have s: "screen ?con j = (if j = i then buf' else screen con j)" if "j < TTYS" for j
    using that c by (simp add: screen_def nth_list_update)
  have cur: "nat (current_tty con - 1) < TTYS" "nat (current_tty con - 1) = i \<longleftrightarrow> int i + 1 = current_tty con"
    using c by auto
  have "take (area con) fb' = screen ?con (nat (current_tty con - 1))"
    using eq s [OF cur(1)] cur(2) ok by (auto simp: console_ok_defs split: if_splits)
  moreover have "screen_buffer (ttys ?con ! j) \<noteq> None \<and> length (screen ?con j) = area con \<and>
      cursor_ok f (v_width con) (v_height con) (ttys ?con ! j)" if j: "j < TTYS" for j
  proof (cases "j = i")
    case True
    then show ?thesis using s [OF j] i c buf t by (simp add: cursor_ok_def)
  next
    case False
    then show ?thesis using s [OF j] j ok by (simp add: console_ok_defs)
  qed
  ultimately show ?thesis using ok fb by (simp add: console_ok_defs area_def)
qed

text \<open>What a character does to the terminal: the cursor and the screen.\<close>

definition char_done :: "FontData \<Rightarrow> byte \<Rightarrow> u32 \<Rightarrow> Console \<Rightarrow> nat \<Rightarrow> Console \<Rightarrow> bool" where
  "char_done f c color con i con' \<longleftrightarrow> (let t = wrap_cursor con f (ttys con ! i); t' = ttys con' ! i in
     if c = 10 then screen con' i = screen con i \<and> xpos t' = 0 \<and> ypos t' = ypos t + font_height f
     else if c = 13 then screen con' i = screen con i \<and> xpos t' = xpos t \<and> ypos t' = ypos t
     else if c = 8 then xpos t' = (if unat (xpos t) = 0 then 0 else xpos t - font_width f) \<and> ypos t' = ypos t \<and>
       cell_drawn f (xpos t') (ypos t') (unat (v_width con)) (unat (v_height con)) (\<lambda>_ _. bg_pixel) (screen con i) (screen con' i)
     else xpos t' = xpos t + font_width f \<and> ypos t' = ypos t \<and>
       cell_drawn f (xpos t) (ypos t) (unat (v_width con)) (unat (v_height con))
         (\<lambda>y x. the (glyph_pixel f c color y x)) (screen con i) (screen con' i))"

definition others_same :: "nat \<Rightarrow> Console \<Rightarrow> Console \<Rightarrow> bool" where
  "others_same i con con' \<longleftrightarrow> (\<forall>j<TTYS. j \<noteq> i \<longrightarrow> ttys con' ! j = ttys con ! j) \<and> current_tty con' = current_tty con \<and>
     v_width con' = v_width con \<and> v_height con' = v_height con \<and> tty_lock con' = 0 \<and> fontdata con' = fontdata con \<and>
     (int i + 1 \<noteq> current_tty con \<longrightarrow> framebuffer con' = framebuffer con)"

lemma glyph_defined:
  assumes "font_fits f w h" "c < 128" "y < unat (font_height f)" "x < unat (font_width f)"
  shows "\<exists>p. glyph_pixel f c color y x = Some p"
proof -
  have c: "unat c < 128" using assms(2) by (simp add: word_less_nat_alt)
  have h: "128 * unat (font_height f) \<le> length (font_data f)" "128 * unat (font_height f) < 2 ^ 32" "unat (font_width f) \<le> 8"
    using assms(1) by (simp_all add: font_fits_def)
  have u: "uint c < 128" "0 \<le> uint c" using assms(2) by (simp_all add: word_less_def)
  have "sint c = uint c"
    unfolding sint_uint by (rule signed_take_bit_int_eq_self) (rule order_trans [OF _ u(2)], simp, use u(1) in simp)
  then have "scast c = (ucast c :: u32)" by (simp only: scast_eq ucast_eq)
  moreover have "unat (ucast c :: u32) = unat c" using c by (simp add: unsigned_ucast_eq take_bit_eq_mod)
  ultimately have s: "unat (scast c :: u32) = unat c" by (rule ssubst)
  have le: "unat c * unat (font_height f) + y < 128 * unat (font_height f)"
  proof -
    have "Suc (unat c) * unat (font_height f) \<le> 128 * unat (font_height f)" using c by (intro mult_le_mono) simp_all
    then have "unat (font_height f) + unat c * unat (font_height f) \<le> 128 * unat (font_height f)" unfolding mult_Suc .
    then show ?thesis using assms(3) by linarith
  qed
  have m: "unat (scast c * font_height f) = unat c * unat (font_height f)"
    using le h(2) by (simp add: unat_word_ariths(2) s)
  have y: "unat (of_nat y :: u32) = y" using le h(2) by (simp add: unat_of_nat)
  have "unat (scast c * font_height f + of_nat y) = unat c * unat (font_height f) + y"
    by (subst unat_word_ariths(1)) (use le h(2) in \<open>simp add: m y\<close>)
  then show ?thesis using le h assms(4) by (simp add: glyph_pixel_def Let_def)
qed

lemma sint_not_neg: "unat (y :: u32) < 2 ^ 31 \<Longrightarrow> \<not> sint y < 0"
proof -
  assume "unat y < 2 ^ 31"
  then have "unat y < 2147483648" by simp
  moreover have "int (unat y) = uint y" by simp
  ultimately have "uint y < 2147483648" by linarith
  then have "sint y = uint y"
    unfolding sint_uint by (intro signed_take_bit_int_eq_self) (simp_all add: order_trans [OF _ uint_ge_0])
  then show ?thesis by simp
qed

lemma sint_neg: "0 < unat (y :: u32) \<Longrightarrow> unat y \<le> 8 \<Longrightarrow> sint (0 - y) < 0"
proof -
  assume y: "0 < unat y" "unat y \<le> 8"
  moreover have "int (unat y) = uint y" by simp
  ultimately have u: "0 < uint y" "uint y \<le> 8" by linarith+
  have "0 - y = word_of_int (- uint y)" by simp
  then have "sint (0 - y) = (- uint y + 2 ^ 31) mod 2 ^ 32 - 2 ^ 31" by (simp only: int_word_sint) simp
  also have "(- uint y + 2 ^ 31) mod 2 ^ 32 = - uint y + 2 ^ 31" using u by (intro mod_pos_pos_trivial) simp_all
  finally show ?thesis using u by simp
qed

lemma PutChar_ok:
  assumes ok: "console_ok f con" and n: "1 \<le> n" "n \<le> int TTYS" and c: "c < 128"
  defines "i \<equiv> nat (n - 1)"
  shows "\<exists>con'. PutChar n c color con = Some con' \<and> console_ok f con' \<and> char_done f c color con i con' \<and> others_same i con con'"
proof -
  have i: "i < TTYS" "int i + 1 = n" using n by (auto simp: i_def)
  have fit: "font_fits f (v_width con) (v_height con)" and fd: "fontdata con = Some f" and len: "length (ttys con) = TTYS"
    and fbl: "area con \<le> length (framebuffer con)"
    using ok by (simp_all add: console_ok_defs)
  from console_okD [OF ok i(1)] obtain buf where
    b: "screen_buffer (ttys con ! i) = Some buf" "length buf = area con" "screen con i = buf"
      "cursor_ok f (v_width con) (v_height con) (ttys con ! i)" by blast
  let ?con = "con\<lparr>tty_lock := 1\<rparr>" and ?t = "wrap_cursor con f (ttys con ! i)" and ?shown = "n = current_tty con"
  note W = wrap_cursor_ok [OF fit b(4)] and B = fits_bounds [OF fit]
  have same: "take (area con) (framebuffer con) = buf" if ?shown
    using ok that b(3) by (simp add: console_ok_defs i_def)
  have wc: "wrap_cursor ?con f = wrap_cursor con f" by (simp add: wrap_cursor_def fun_eq_iff)
  have dc: "draw_cell ?con = draw_cell con" by (simp add: draw_cell_def fun_eq_iff)
  have "n - 1 = int i" using i(2) by simp
  then have idx: "nat (n - 1) = i" by simp
  have finish: ?thesis
    if r: "put_switch con f c color ?shown ?t buf = Some (t', buf', fb')"
      and t': "cursor_ok f (v_width con) (v_height con) t'" and l: "length buf' = area con" "length fb' = length (framebuffer con)"
      and eq: "if ?shown then take (area con) fb' = buf' else fb' = framebuffer con"
      and d: "char_done f c color con i (con\<lparr>tty_lock := 0, ttys := (ttys con)[i := t'\<lparr>screen_buffer := Some buf'\<rparr>], framebuffer := fb'\<rparr>)"
    for t' buf' fb'
  proof -
    let ?con' = "con\<lparr>tty_lock := 0, ttys := (ttys con)[i := t'\<lparr>screen_buffer := Some buf'\<rparr>], framebuffer := fb'\<rparr>"
    have "put_switch ?con f c color ?shown ?t buf = put_switch con f c color ?shown ?t buf"
      by (simp add: put_switch_def dc)
    then have "PutChar n c color con = Some ?con'"
      using n fd b(1) r unfolding PutChar_def idx con_acquire_def lock_returns bind.bind_lunit
      by (simp add: wc con_release_def unlock_def)
    moreover have "console_ok f ?con'" by (rule console_ok_upd [OF ok i(1) l(1) t' l(2)]) (use eq i(2) in simp)
    moreover have "others_same i con ?con'" using eq i(2) by (auto simp: others_same_def)
    ultimately show ?thesis using d by blast
  qed
  have nx: "unat (xpos ?t + font_width f) = unat (xpos ?t) + unat (font_width f)"
    and ny: "unat (ypos ?t + font_height f) = unat (ypos ?t) + unat (font_height f)"
    using W(1,2) B(1,2) by (simp_all add: unat_word_ariths)
  have dx: "unat (font_width f) dvd unat (xpos ?t + font_width f)" "unat (font_height f) dvd unat (ypos ?t + font_height f)"
    using W(3,4) by (simp_all add: nx ny)
  have t_ok: "cursor_ok f (v_width con) (v_height con) ?t" using W by (simp add: cursor_ok_def)
  have eq0: "if ?shown then take (area con) (framebuffer con) = buf else framebuffer con = framebuffer con"
    using same by simp
  consider "c = 10" | "c = 13" | "c = 8" | "c \<noteq> 10" "c \<noteq> 13" "c \<noteq> 8" by blast
  then show ?thesis
  proof cases
    case 1
    show ?thesis
      by (rule finish [of "?t\<lparr>xpos := 0, ypos := ypos ?t + font_height f\<rparr>" buf "framebuffer con"])
        (use 1 W(2) dx(2) ny b(1,2) eq0 i(1) len in
          \<open>simp_all add: put_switch_def cursor_ok_def char_done_def screen_def Let_def\<close>)
  next
    case 2
    show ?thesis
      by (rule finish [of ?t buf "framebuffer con"])
        (use 2 t_ok b(1,2) eq0 i(1) len in \<open>simp_all add: put_switch_def char_done_def screen_def Let_def\<close>)
  next
    case 3
    let ?x = "if unat (xpos ?t) = 0 then 0 else xpos ?t - font_width f"
    have x: "unat ?x + unat (font_width f) \<le> unat (v_width con)" "unat (font_width f) dvd unat ?x"
      "(if sint (xpos ?t - font_width f) < 0 then 0 else xpos ?t - font_width f) = ?x"
    proof -
      have fw: "0 < unat (font_width f)" "unat (font_width f) \<le> 8" using fit by (simp_all add: font_fits_def)
      consider "unat (xpos ?t) = 0" | "unat (font_width f) \<le> unat (xpos ?t)" "unat (xpos ?t) \<noteq> 0"
        using W(3) by (auto dest: dvd_imp_le)
      then have "unat ?x + unat (font_width f) \<le> unat (v_width con) \<and> unat (font_width f) dvd unat ?x \<and>
          (if sint (xpos ?t - font_width f) < 0 then 0 else xpos ?t - font_width f) = ?x"
      proof cases
        case 1
        then have "xpos ?t = 0" by (simp add: unat_eq_0)
        then show ?thesis using sint_neg [OF fw] W(1) by simp
      next
        case 2
        then have u: "unat (xpos ?t - font_width f) = unat (xpos ?t) - unat (font_width f)"
          by (simp add: unat_sub word_le_nat_alt)
        then have "\<not> sint (xpos ?t - font_width f) < 0" using W(1) B(1) by (intro sint_not_neg) simp
        then show ?thesis using 2 u W(1,3) by simp
      qed
      then show "unat ?x + unat (font_width f) \<le> unat (v_width con)" "unat (font_width f) dvd unat ?x"
        "(if sint (xpos ?t - font_width f) < 0 then 0 else xpos ?t - font_width f) = ?x" by blast+
    qed
    obtain b' fb' where
      d: "draw_cell con f ?x (ypos ?t) ?shown (\<lambda>_ _. Some bg_pixel) (buf, framebuffer con) = Some (b', fb')"
        "cell_drawn f ?x (ypos ?t) (unat (v_width con)) (unat (v_height con)) (\<lambda>_ _. bg_pixel) buf b'"
        "length fb' = length (framebuffer con)" "if ?shown then take (area con) fb' = b' else fb' = framebuffer con"
      using draw_cell_correct [OF fit x(1) W(2) b(2) fbl same, of ?shown "\<lambda>_ _. Some bg_pixel" "\<lambda>_ _. bg_pixel"] by blast
    have t: "(if sint (xpos (?t\<lparr>xpos := xpos ?t - font_width f\<rparr>)) < 0 then ?t\<lparr>xpos := xpos ?t - font_width f\<rparr>\<lparr>xpos := 0\<rparr>
        else ?t\<lparr>xpos := xpos ?t - font_width f\<rparr>) = ?t\<lparr>xpos := ?x\<rparr>"
      using x(3) by (simp split: if_splits)
    have r: "put_switch con f c color ?shown ?t buf = Some (?t\<lparr>xpos := ?x\<rparr>, b', fb')"
      using 3 d(1) unfolding put_switch_def Let_def t by simp
    show ?thesis
      by (rule finish [OF r _ _ d(3,4)])
        (use 3 x W(2,4) d(2) b(1,2) i(1) len in
          \<open>simp_all add: cursor_ok_def char_done_def cell_drawn_def screen_def Let_def\<close>)
  next
    case 4
    have px: "glyph_pixel f c color y x = Some (the (glyph_pixel f c color y x))"
      if "y < unat (font_height f)" "x < unat (font_width f)" for y x
      using glyph_defined [OF fit c that, of color] by auto
    have "\<exists>b' fb'. draw_cell con f (xpos ?t) (ypos ?t) ?shown (glyph_pixel f c color) (buf, framebuffer con) = Some (b', fb') \<and>
        cell_drawn f (xpos ?t) (ypos ?t) (unat (v_width con)) (unat (v_height con)) (\<lambda>y x. the (glyph_pixel f c color y x)) buf b' \<and>
        length fb' = length (framebuffer con) \<and> (if ?shown then take (area con) fb' = b' else fb' = framebuffer con)"
      by (rule draw_cell_correct [OF fit W(1,2) b(2) fbl same]) (use px in blast)+
    then obtain b' fb' where
      d: "draw_cell con f (xpos ?t) (ypos ?t) ?shown (glyph_pixel f c color) (buf, framebuffer con) = Some (b', fb')"
        "cell_drawn f (xpos ?t) (ypos ?t) (unat (v_width con)) (unat (v_height con)) (\<lambda>y x. the (glyph_pixel f c color y x)) buf b'"
        "length fb' = length (framebuffer con)" "if ?shown then take (area con) fb' = b' else fb' = framebuffer con"
      by blast
    have r: "put_switch con f c color ?shown ?t buf = Some (?t\<lparr>xpos := xpos ?t + font_width f\<rparr>, b', fb')"
      using 4 d(1) by (simp add: put_switch_def)
    show ?thesis
      by (rule finish [OF r _ _ d(3,4)])
        (use 4 nx dx(1) W(1,2,4) d(2) b(1,2) i(1) len in
          \<open>simp_all add: cursor_ok_def char_done_def cell_drawn_def screen_def Let_def\<close>)
  qed
qed

section \<open>Switching\<close>

lemma fold_opt_append: "fold_opt g (xs @ ys) s = do { s' \<leftarrow> fold_opt g xs s; fold_opt g ys s' }"
  by (induction xs arbitrary: s) (simp_all split: Option.bind_split)

lemma copy_screen_correct:
  assumes "n \<le> length buf" "n \<le> length fb"
  shows "copy_screen n buf fb = Some (take n buf @ drop n fb)"
  using assms
proof (induction n)
  case 0
  then show ?case by (simp add: copy_screen_def)
next
  case (Suc n)
  then have IH: "copy_screen n buf fb = Some (take n buf @ drop n fb)" by simp
  have "(take n buf @ drop n fb)[n := buf ! n] = take (Suc n) buf @ drop (Suc n) fb"
  proof -
    have "drop n fb = fb ! n # drop (Suc n) fb" using Suc.prems by (simp add: Cons_nth_drop_Suc)
    moreover have "length (take n buf) = n" using Suc.prems by simp
    ultimately show ?thesis using Suc.prems list_update_length [of "take n buf" "fb ! n" "drop (Suc n) fb" "buf ! n"]
      by (simp add: take_Suc_conv_app_nth)
  qed
  then show ?case using IH Suc.prems by (simp add: copy_screen_def fold_opt_append set_at_def)
qed

lemma area_word:
  assumes "font_fits f (v_width con) (v_height con)"
  shows "unat (v_width con * v_height con) = area con"
  unfolding unat_word_ariths(2) area_def by (rule mod_less) (use assms in \<open>simp add: font_fits_def\<close>)

lemma mark_simps [simp]:
  "screen_buffer (xs[i := (xs ! i)\<lparr>need_redraw := b\<rparr>] ! j) = screen_buffer (xs ! j)"
  "xpos (xs[i := (xs ! i)\<lparr>need_redraw := b\<rparr>] ! j) = xpos (xs ! j)"
  "ypos (xs[i := (xs ! i)\<lparr>need_redraw := b\<rparr>] ! j) = ypos (xs ! j)"
proof -
  have "xs[i := (xs ! i)\<lparr>need_redraw := b\<rparr>] ! j = (if i = j \<and> i < length xs then (xs ! j)\<lparr>need_redraw := b\<rparr> else xs ! j)"
    by (cases "i < length xs") (auto simp: nth_list_update not_less list_update_beyond)
  then show "screen_buffer (xs[i := (xs ! i)\<lparr>need_redraw := b\<rparr>] ! j) = screen_buffer (xs ! j)"
    "xpos (xs[i := (xs ! i)\<lparr>need_redraw := b\<rparr>] ! j) = xpos (xs ! j)"
    "ypos (xs[i := (xs ! i)\<lparr>need_redraw := b\<rparr>] ! j) = ypos (xs ! j)" by simp_all
qed

lemma Redraw_ok:
  assumes wf: "console_wf f con"
  shows "\<exists>con'. Redraw con = Some con' \<and> console_ok f con' \<and> current_tty con' = current_tty con \<and>
     tty_lock con' = 0 \<and> area con' = area con \<and> (\<forall>i<TTYS. screen con' i = screen con i)"
proof -
  let ?i = "nat (current_tty con - 1)" and ?n = "area con"
  have i: "?i < TTYS" "length (ttys con) = TTYS" using wf by (auto simp: console_wf_def)
  then obtain buf where b: "screen_buffer (ttys con ! ?i) = Some buf" "length buf = ?n"
    using wf by (auto simp: console_wf_def screen_def)
  have n: "unat (v_width con * v_height con) = ?n" using area_word [of f con] wf by (simp add: console_wf_def)
  have fb: "?n \<le> length (framebuffer con)" using wf by (simp add: console_wf_def)
  let ?con = "con\<lparr>framebuffer := buf @ drop ?n (framebuffer con),
      ttys := (ttys con)[?i := (ttys con ! ?i)\<lparr>need_redraw := False\<rparr>], tty_lock := 0\<rparr>"
  have "copy_screen ?n buf (framebuffer con) = Some (buf @ drop ?n (framebuffer con))"
    using copy_screen_correct [of ?n buf "framebuffer con"] b(2) fb by simp
  then have "Redraw con = Some ?con"
    using b(1) n by (simp add: Redraw_def con_acquire_def con_release_def unlock_def Let_def)
  moreover have s: "screen ?con j = screen con j" if "j < TTYS" for j
    by (simp add: screen_def)
  moreover have "console_ok f ?con"
    using wf b fb by (simp add: console_ok_defs area_def cursor_ok_def screen_def)
  moreover have "area ?con = ?n" by (simp add: area_def)
  ultimately show ?thesis by (intro exI [of _ ?con]) simp
qed

lemma console_wf_marks:
  assumes "console_wf f con" "1 \<le> n" "n \<le> int TTYS"
  shows "console_wf f (con\<lparr>tty_lock := l, ttys := (ttys con)[i := (ttys con ! i)\<lparr>need_redraw := b\<rparr>], current_tty := n\<rparr>)"
  using assms by (simp add: console_wf_def area_def screen_def cursor_ok_def)

lemma SwitchTTY_ok:
  assumes ok: "console_ok f con"
  shows "\<exists>con'. SwitchTTY n con = Some con' \<and> console_ok f con' \<and> (\<forall>i<TTYS. screen con' i = screen con i) \<and>
     area con' = area con \<and> current_tty con' = (if 1 \<le> n \<and> n \<le> int TTYS then n else current_tty con)"
proof (cases "n < 1 \<or> n > int TTYS \<or> n = current_tty con")
  case True
  then have "SwitchTTY n con = Some (con\<lparr>tty_lock := 1\<rparr>)" by (auto simp: SwitchTTY_def con_acquire_def)
  moreover have "console_ok f (con\<lparr>tty_lock := 1\<rparr>)" using ok by (simp add: console_ok_defs area_def screen_def)
  ultimately show ?thesis using True by (auto simp: screen_def area_def)
next
  case False
  let ?i = "nat (current_tty con - 1)" and ?j = "nat (n - 1)"
  let ?c1 = "con\<lparr>tty_lock := 1, ttys := (ttys con)[?i := (ttys con ! ?i)\<lparr>need_redraw := True\<rparr>], current_tty := n\<rparr>"
  let ?c2 = "?c1\<lparr>tty_lock := 0, ttys := (ttys ?c1)[?j := (ttys ?c1 ! ?j)\<lparr>need_redraw := True\<rparr>], current_tty := n\<rparr>"
  have n: "1 \<le> n" "n \<le> int TTYS" using False by auto
  have "console_wf f ?c1" using ok n by (intro console_wf_marks) (simp_all add: console_ok_def)
  then have wf: "console_wf f ?c2" using n by (rule console_wf_marks)
  have "SwitchTTY n con = Redraw ?c2"
    using False by (simp add: SwitchTTY_def con_acquire_def con_release_def unlock_def Let_def)
      (rule arg_cong [of _ _ Redraw], cases con, simp)
  moreover have "screen ?c2 i = screen con i" if "i < TTYS" for i
    using that ok by (auto simp: screen_def console_ok_defs nth_list_update)
  moreover have "area ?c2 = area con" by (simp add: area_def)
  ultimately show ?thesis using Redraw_ok [OF wf] n by auto
qed

section \<open>Sequences of operations\<close>

datatype con_op = Con_Put int byte u32 | Con_Puts int "byte list" u32 | Con_Switch int

fun con_step :: "con_op \<Rightarrow> Console \<Rightarrow> Console option" where
  "con_step (Con_Put n c color) con = PutChar n c color con"
| "con_step (Con_Puts n cs color) con = con_Puts n cs color con"
| "con_step (Con_Switch n) con = SwitchTTY n con"

fun seven_bit :: "con_op \<Rightarrow> bool" where
  "seven_bit (Con_Put n c color) \<longleftrightarrow> c < 128"
| "seven_bit (Con_Puts n cs color) \<longleftrightarrow> 0 \<in> set cs \<and> (\<forall>c\<in>set cs. c < 128)"
| "seven_bit (Con_Switch n) \<longleftrightarrow> True"

lemma PutChar_keeps:
  assumes ok: "console_ok f con" and c: "c < 128"
  shows "\<exists>con'. PutChar n c color con = Some con' \<and> console_ok f con'"
proof (cases "1 \<le> n \<and> n \<le> int TTYS")
  case True
  then show ?thesis using PutChar_ok [OF ok _ _ c] by blast
next
  case False
  then have "PutChar n c color con = Some (con\<lparr>tty_lock := 0\<rparr>)"
    by (auto simp: PutChar_def con_acquire_def con_release_def unlock_def)
  moreover have "console_ok f (con\<lparr>tty_lock := 0\<rparr>)" using ok by (simp add: console_ok_defs area_def screen_def)
  ultimately show ?thesis by blast
qed

lemma con_Puts_keeps:
  "console_ok f con \<Longrightarrow> 0 \<in> set cs \<Longrightarrow> \<forall>c\<in>set cs. c < 128 \<Longrightarrow> \<exists>con'. con_Puts n cs color con = Some con' \<and> console_ok f con'"
proof (induction cs arbitrary: con)
  case (Cons c cs)
  from PutChar_keeps [OF Cons.prems(1), of c n color] Cons.prems(3) obtain con1 where
    1: "PutChar n c color con = Some con1" "console_ok f con1" by auto
  show ?case
  proof (cases "c = 0")
    case True
    then show ?thesis using Cons.prems(1) by simp
  next
    case False
    then show ?thesis using Cons.IH [OF 1(2)] Cons.prems(2,3) 1(1) by simp
  qed
qed simp

lemma con_step_keeps: "console_ok f con \<Longrightarrow> seven_bit p \<Longrightarrow> \<exists>con'. con_step p con = Some con' \<and> console_ok f con'"
proof (cases p)
  case (Con_Put n c color)
  assume "console_ok f con" "seven_bit p"
  then show ?thesis using PutChar_keeps Con_Put by simp
next
  case (Con_Puts n cs color)
  assume "console_ok f con" "seven_bit p"
  then show ?thesis using con_Puts_keeps Con_Puts by simp
next
  case (Con_Switch n)
  assume "console_ok f con"
  then show ?thesis using SwitchTTY_ok Con_Switch by fastforce
qed

lemma con_run_keeps:
  "console_ok f con \<Longrightarrow> \<forall>p\<in>set ps. seven_bit p \<Longrightarrow> \<exists>con'. fold_opt con_step ps con = Some con' \<and> console_ok f con'"
proof (induction ps arbitrary: con)
  case (Cons p ps)
  from con_step_keeps [OF Cons.prems(1), of p] Cons.prems(2) obtain con1 where
    "con_step p con = Some con1" "console_ok f con1" by auto
  then show ?case using Cons.IH Cons.prems(2) by simp
qed simp

section \<open>The start of the service\<close>

lemma paint_correct: "n \<le> length b \<Longrightarrow> \<exists>b'. paint n p b = Some b' \<and> length b' = length b"
proof (induction n)
  case 0
  then show ?case by (simp add: paint_def)
next
  case (Suc n)
  then obtain b' where "paint n p b = Some b'" "length b' = length b" by auto
  then show ?case using Suc.prems by (simp add: paint_def fold_opt_append set_at_def)
qed

text \<open>A console as the constructor makes it when all six allocations succeed, in a graphics mode.\<close>

definition console_fresh :: "FontData \<Rightarrow> Console \<Rightarrow> bool" where
  "console_fresh f con \<longleftrightarrow> font_fits f (v_width con) (v_height con) \<and> v_type con = FRAMEBUFFER_TYPE_RGB \<and>
     (\<exists>bufs con0. con = con_new (map Some bufs) con0 \<and> length bufs = TTYS \<and> (\<forall>b\<in>set bufs. length b = area con)) \<and>
     area con \<le> length (framebuffer con)"

lemma paint_all:
  assumes "console_wf f con" "\<forall>i\<in>set js. i < TTYS"
  shows "\<exists>con'. fold_opt paint_tty js con = Some con' \<and> console_wf f con' \<and> fontdata con' = fontdata con \<and> current_tty con' = current_tty con"
  using assms
proof (induction js arbitrary: con)
  case (Cons i js)
  have i: "i < TTYS" using Cons.prems(2) by simp
  then obtain buf where b: "screen_buffer (ttys con ! i) = Some buf" "length buf = area con"
    using Cons.prems(1) by (auto simp: console_wf_def screen_def)
  have "unat (v_height con * v_width con) = area con"
    using area_word [of f con] Cons.prems(1) by (simp add: console_wf_def mult.commute)
  then obtain b' where b': "paint (unat (v_height con * v_width con)) bg_pixel buf = Some b'" "length b' = area con"
    using paint_correct [of "area con" buf bg_pixel] b(2) by auto
  let ?con = "con\<lparr>ttys := (ttys con)[i := (ttys con ! i)\<lparr>screen_buffer := Some b'\<rparr>]\<rparr>"
  have "console_wf f ?con"
    using Cons.prems(1) b' i by (auto simp: console_wf_def area_def screen_def cursor_ok_def nth_list_update)
  moreover have "paint_tty i con = Some ?con" using b(1) b'(1) by (simp add: paint_tty_def)
  ultimately show ?case using Cons.IH [of ?con] Cons.prems(2) by auto
qed simp

lemma SetFont_commutes:
  "paint_tty i (SetFont x con) = map_option (SetFont x) (paint_tty i con)"
  "fold_opt paint_tty js (SetFont x con) = map_option (SetFont x) (fold_opt paint_tty js con)"
  "Redraw (SetFont x con) = map_option (SetFont x) (Redraw con)"
proof -
  show P: "paint_tty i (SetFont x con) = map_option (SetFont x) (paint_tty i con)" for i con
    by (cases "paint (unat (v_height con * v_width con)) bg_pixel (the (screen_buffer (ttys con ! i)))")
      (auto simp: paint_tty_def SetFont_def split: option.splits)
  show "fold_opt paint_tty js (SetFont x con) = map_option (SetFont x) (fold_opt paint_tty js con)"
  proof (induction js arbitrary: con)
    case (Cons i js)
    then show ?case by (cases "paint_tty i con") (simp_all add: P)
  qed simp
  show "Redraw (SetFont x con) = map_option (SetFont x) (Redraw con)"
    by (cases "copy_screen (unat (v_width con * v_height con)) (the (screen_buffer (ttys con ! nat (current_tty con - 1)))) (framebuffer con)")
      (auto simp: Redraw_def SetFont_def con_acquire_def con_release_def Let_def split: option.splits)
qed

lemma con_Init_SetFont: "con_Init (SetFont x con) = map_option (SetFont x) (con_Init con)"
proof -
  let ?c = "con\<lparr>tty_lock := 1, g_console := True\<rparr>"
  have 1: "(SetFont x con)\<lparr>tty_lock := 1, g_console := True\<rparr> = SetFont x ?c" "v_type (SetFont x c) = v_type c"
    "con_release (SetFont x c) = SetFont x (con_release c)" for c
    by (cases con; simp add: SetFont_def con_release_def)+
  then show ?thesis
    by (cases "fold_opt paint_tty [0..<TTYS] ?c") (simp_all add: con_Init_def con_acquire_def SetFont_commutes Let_def)
qed

lemma tty_title_ok: "t < 7 \<Longrightarrow> 0 \<in> set (tty_title t) \<and> (\<forall>c\<in>set (tty_title t). c < 128)"
proof -
  have "\<forall>t\<in>set [0..<7]. 0 \<in> set (tty_title t) \<and> (\<forall>c\<in>set (tty_title t). c < 128)" by code_simp
  then show "t < 7 \<Longrightarrow> 0 \<in> set (tty_title t) \<and> (\<forall>c\<in>set (tty_title t). c < 128)" by simp
qed

lemma tty_start_ok:
  assumes fresh: "console_fresh f con"
  shows "\<exists>con' k'. tty_start f con k = Some (con', k') \<and> console_ok f con'"
proof -
  let ?c = "con\<lparr>tty_lock := 1, g_console := True\<rparr>"
  have wf: "console_wf f (SetFont (Some f) ?c)"
    using fresh by (auto simp: console_fresh_def console_wf_def con_new_def screen_def area_def cursor_ok_def TTYS_def SetFont_def)
  from paint_all [OF this, of "[0..<TTYS]"] obtain c1 where
    c1: "fold_opt paint_tty [0..<TTYS] (SetFont (Some f) ?c) = Some c1" "console_wf f c1" by auto
  have "console_wf f (con_release c1)" using c1(2)
    by (simp add: console_wf_def con_release_def area_def screen_def)
  from Redraw_ok [OF this] obtain c2 where c2: "Redraw (con_release c1) = Some c2" "console_ok f c2" by blast
  have "(SetFont (Some f) con)\<lparr>tty_lock := 1, g_console := True\<rparr> = SetFont (Some f) ?c" by (cases con) (simp add: SetFont_def)
  moreover have "v_type (SetFont (Some f) con) = FRAMEBUFFER_TYPE_RGB" using fresh by (simp add: console_fresh_def SetFont_def)
  ultimately have "con_Init (SetFont (Some f) con) = Some c2"
    using c1(1) c2(1) by (simp add: con_Init_def con_acquire_def Let_def)
  then obtain c3 where c3: "con_Init con = Some c3" "SetFont (Some f) c3 = c2"
    unfolding con_Init_SetFont by auto
  have titles: "\<exists>c'. fold_opt (\<lambda>t. con_Puts (int t) (tty_title t) DEFAULT_COLOR) ts c = Some c' \<and> console_ok f c'"
    if "console_ok f c" "\<forall>t\<in>set ts. t < 7" for ts c
    using that
  proof (induction ts arbitrary: c)
    case (Cons t ts)
    have "t < 7" using Cons.prems(2) by simp
    note title = tty_title_ok [OF this]
    from con_Puts_keeps [OF Cons.prems(1) title [THEN conjunct1] title [THEN conjunct2], of "int t" DEFAULT_COLOR] obtain c' where
      "con_Puts (int t) (tty_title t) DEFAULT_COLOR c = Some c'" "console_ok f c'" by blast
    then show ?case using Cons.IH Cons.prems(2) by simp
  qed simp
  have "\<forall>t\<in>set [1..<TTYS + 1]. t < 7" by (simp add: TTYS_def)
  from titles [OF c2(2) this] show ?thesis using c3 by (auto simp: tty_start_def)
qed

text \<open>
  C18.  The console.  After the service has started in a graphics mode whose screen the font divides, any
  sequence of characters, strings and terminal switches, with seven-bit characters on any terminal
  number, runs without writing outside a buffer, and at every point the frame buffer shows the screen
  of the current terminal.  From any state reached in this way, a character changes the cell at the
  cursor of its terminal to the bitmap of the font, or moves the cursor or blanks the cell for a newline or
  a backspace, and leaves all other pixels, all other terminals, and for a terminal in the background
  the frame buffer as they are; a switch shows the other terminal and changes no screen.
\<close>

theorem console_shows_current:
  assumes "console_fresh f con"
  shows "\<exists>con0 k0. tty_start f con k = Some (con0, k0) \<and>
     (\<forall>ps. list_all seven_bit ps \<longrightarrow> (\<exists>con'. fold_opt con_step ps con0 = Some con' \<and>
        take (area con') (framebuffer con') = screen con' (nat (current_tty con' - 1)) \<and>
        (\<forall>n c color. 1 \<le> n \<and> n \<le> int TTYS \<and> c < 128 \<longrightarrow> (\<exists>con''. PutChar n c color con' = Some con'' \<and>
           char_done f c color con' (nat (n - 1)) con'' \<and> others_same (nat (n - 1)) con' con'')) \<and>
        (\<forall>n. 1 \<le> n \<and> n \<le> int TTYS \<longrightarrow> (\<exists>con''. SwitchTTY n con' = Some con'' \<and> current_tty con'' = n \<and>
           (\<forall>i<TTYS. screen con'' i = screen con' i)))))"
proof -
  from tty_start_ok [OF assms] obtain con0 k0 where
    s: "tty_start f con k = Some (con0, k0)" "console_ok f con0" by blast
  have "\<exists>con'. fold_opt con_step ps con0 = Some con' \<and>
        take (area con') (framebuffer con') = screen con' (nat (current_tty con' - 1)) \<and>
        (\<forall>n c color. 1 \<le> n \<and> n \<le> int TTYS \<and> c < 128 \<longrightarrow> (\<exists>con''. PutChar n c color con' = Some con'' \<and>
           char_done f c color con' (nat (n - 1)) con'' \<and> others_same (nat (n - 1)) con' con'')) \<and>
        (\<forall>n. 1 \<le> n \<and> n \<le> int TTYS \<longrightarrow> (\<exists>con''. SwitchTTY n con' = Some con'' \<and> current_tty con'' = n \<and>
           (\<forall>i<TTYS. screen con'' i = screen con' i)))"
    if "list_all seven_bit ps" for ps
  proof -
    from con_run_keeps [OF s(2)] that obtain con' where
      r: "fold_opt con_step ps con0 = Some con'" "console_ok f con'" by (auto simp: list_all_iff)
    have "take (area con') (framebuffer con') = screen con' (nat (current_tty con' - 1))"
      using r(2) by (simp add: console_ok_def)
    moreover have "\<exists>con''. PutChar n c color con' = Some con'' \<and>
           char_done f c color con' (nat (n - 1)) con'' \<and> others_same (nat (n - 1)) con' con''"
      if "1 \<le> n \<and> n \<le> int TTYS \<and> c < 128" for n c color
      using PutChar_ok [OF r(2), of n c color] that by blast
    moreover have "\<exists>con''. SwitchTTY n con' = Some con'' \<and> current_tty con'' = n \<and> (\<forall>i<TTYS. screen con'' i = screen con' i)"
      if "1 \<le> n \<and> n \<le> int TTYS" for n
      using SwitchTTY_ok [OF r(2), of n] that by auto
    ultimately show ?thesis using r(1) by blast
  qed
  with s(1) show ?thesis by blast
qed

text \<open>A font of two characters' width and height one on a screen of eight pixels.\<close>

definition font2 :: FontData where
  "font2 = \<lparr>font_width = 2, font_height = 1, font_data = replicate 65 0 @ [192] @ replicate 62 0\<rparr>"

definition con4 :: Console where
  "con4 = con_new (map Some (replicate 6 (replicate 8 0)))
     \<lparr>ttys = [], current_tty = 0, con_alt_pressed = False, fontdata = None, g_console = False, tty_lock = 0,
      v_width = 4, v_height = 2, v_size = 4, v_type = FRAMEBUFFER_TYPE_RGB, framebuffer = replicate 8 7\<rparr>"

theorem console_shows_current_witness:
  "\<forall>k. \<exists>con0 k0 con'. tty_start font2 con4 k = Some (con0, k0) \<and>
     fold_opt con_step [Con_Switch 2, Con_Put 2 65 5, Con_Put 1 8 5] con0 = Some con' \<and>
     take (area con') (framebuffer con') = screen con' (nat (current_tty con' - 1))"
proof
  fix k
  have "console_fresh font2 con4"
    unfolding console_fresh_def
  proof (intro conjI exI)
    show "con4 = con_new (map Some (replicate 6 (replicate 8 0))) con4" by (simp add: con4_def con_new_def)
  qed (simp_all add: font_fits_def font2_def con4_def con_new_def area_def TTYS_def)
  moreover have "list_all seven_bit [Con_Switch 2, Con_Put 2 65 5, Con_Put 1 8 5]" by simp
  ultimately show "\<exists>con0 k0 con'. tty_start font2 con4 k = Some (con0, k0) \<and>
     fold_opt con_step [Con_Switch 2, Con_Put 2 65 5, Con_Put 1 8 5] con0 = Some con' \<and>
     take (area con') (framebuffer con') = screen con' (nat (current_tty con' - 1))"
    using console_shows_current [of font2 con4 k] by blast
qed

end
