(* ===== verification/Devices.thy ===== *)
theory Devices
  imports ThreadRun Ide LibcNumber
begin

text \<open>
  The block service: the registry of devices and their partitions (\<^verbatim>\<open>src/drivers/block/block.cc\<close>), the
  request queues of \<^verbatim>\<open>include/kernel/block.h\<close>, and the detection of drives in
  \<^verbatim>\<open>src/drivers/block/ide.cc\<close>.  Objects live in stores by address; \<^verbatim>\<open>new\<close> takes their addresses
  from the page allocator.
\<close>

unbundle bit_operations_syntax

section \<open>State\<close>

datatype DeviceType = DEVICE_TYPE_UNKNOWN | DEVICE_TYPE_IDE | DEVICE_TYPE_SCSI | DEVICE_TYPE_VIRTIO | DEVICE_TYPE_ATA

datatype RequestType = REQ_TYPE_READ | REQ_TYPE_WRITE | REQ_TYPE_FLUSH

record Bio =
  bio_sector :: u64
  bio_count :: u32
  bio_buf :: ptr
  bio_rw :: RequestType
  bio_next :: ptr

record Request =
  rq_sector :: u64
  rq_count :: u32
  rq_buf :: ptr
  rq_rw :: RequestType
  rq_next :: ptr
  rq_bios :: ptr

record RequestQueue =
  rq_head :: ptr
  rq_tail :: ptr
  request_fn :: ptr
  max_sectors :: u16
  max_hw_sectors :: u16
  plugged :: bool
  rq_length :: int

record HdStruct =
  start_sect :: u64
  nr_sects :: u64
  hd_name :: "byte list"
  hd_next :: ptr

record BlockDevice =
  disk_name :: "byte list"
  queue_at :: addr
  capacity :: u64
  sector_size :: u16
  dev_type :: DeviceType
  partitions :: ptr
  part_count :: int
  dev_next :: ptr
  dev_io_base :: u16
  dev_drive :: u8

record IDEDeviceController =
  ctl_io_base :: u16
  ctl_drive :: u8
  ctl_status :: u8
  ctl_lba :: u64
  ctl_dev :: addr

record Blocks =
  devs :: "addr \<Rightarrow> BlockDevice"
  queues :: "addr \<Rightarrow> RequestQueue"
  reqs :: "addr \<Rightarrow> Request"
  bios :: "addr \<Rightarrow> Bio"
  hds :: "addr \<Rightarrow> HdStruct"
  ctls :: "addr \<Rightarrow> IDEDeviceController"
  device_list :: ptr
  controllers :: "ptr list"
  device_count :: int
  blk_lock :: u32
  blk_frames :: FrameMem
  blk_words :: "u64 \<Rightarrow> u64"

definition upd_dev :: "addr \<Rightarrow> (BlockDevice \<Rightarrow> BlockDevice) \<Rightarrow> Blocks \<Rightarrow> Blocks" where
  "upd_dev a f s = s\<lparr>devs := (devs s)(a := f (devs s a))\<rparr>"

definition upd_queue :: "addr \<Rightarrow> (RequestQueue \<Rightarrow> RequestQueue) \<Rightarrow> Blocks \<Rightarrow> Blocks" where
  "upd_queue q f s = s\<lparr>queues := (queues s)(q := f (queues s q))\<rparr>"

text \<open>\<^verbatim>\<open>operator new\<close>, which returns a null pointer when there is no memory.\<close>

definition blk_new :: "u64 \<Rightarrow> Blocks \<Rightarrow> (ptr \<times> Blocks) option" where
  "blk_new sz s = do {
     (p, f, w) \<leftarrow> Alloc sz (blk_frames s, blk_words s);
     Some (p, s\<lparr>blk_frames := f, blk_words := w\<rparr>) }"

section \<open>Request queues\<close>

definition RequestQueue_new :: RequestQueue where
  "RequestQueue_new = \<lparr>rq_head = None, rq_tail = None, request_fn = None, max_sectors = 0, max_hw_sectors = 0,
     plugged = False, rq_length = 0\<rparr>"

definition Request_new :: "addr \<Rightarrow> Bio \<Rightarrow> Request" where
  "Request_new b bio = \<lparr>rq_sector = bio_sector bio, rq_count = bio_count bio, rq_buf = bio_buf bio, rq_rw = bio_rw bio,
     rq_next = None, rq_bios = Some b\<rparr>"

definition set_next :: "addr \<Rightarrow> ptr \<Rightarrow> Blocks \<Rightarrow> Blocks" where
  "set_next r p s = s\<lparr>reqs := (reqs s)(r := (reqs s r)\<lparr>rq_next := p\<rparr>)\<rparr>"

definition rq_push :: "addr \<Rightarrow> addr \<Rightarrow> Blocks \<Rightarrow> Blocks option" where
  "rq_push q r s = do {
     s1 \<leftarrow> (if rq_head (queues s q) = None then Some (upd_queue q (\<lambda>Q. Q\<lparr>rq_head := Some r, rq_tail := Some r\<rparr>) s)
            else do { t \<leftarrow> rq_tail (queues s q); Some (upd_queue q (\<lambda>Q. Q\<lparr>rq_tail := Some r\<rparr>) (set_next t (Some r) s)) });
     t \<leftarrow> rq_tail (queues s1 q);
     Some (upd_queue q (\<lambda>Q. Q\<lparr>rq_length := rq_length Q + 1\<rparr>) (set_next t None s1)) }"

definition rq_pop :: "addr \<Rightarrow> Blocks \<Rightarrow> ptr \<times> Blocks" where
  "rq_pop q s = (case rq_head (queues s q) of
       None \<Rightarrow> (None, s)
     | Some r \<Rightarrow>
         let s1 = upd_queue q (\<lambda>Q. Q\<lparr>rq_head := rq_next (reqs s r)\<rparr>) s;
             s2 = (if rq_head (queues s1 q) = None then upd_queue q (\<lambda>Q. Q\<lparr>rq_tail := None\<rparr>) s1 else s1)
         in (Some r, upd_queue q (\<lambda>Q. Q\<lparr>rq_length := rq_length Q - 1\<rparr>) s2))"

definition set_request_fn :: "ptr \<Rightarrow> addr \<Rightarrow> Blocks \<Rightarrow> Blocks" where
  "set_request_fn fn q = upd_queue q (\<lambda>Q. Q\<lparr>request_fn := fn\<rparr>)"

definition blk_queue_make_request :: "ptr \<Rightarrow> ptr \<Rightarrow> Blocks \<Rightarrow> Blocks" where
  "blk_queue_make_request q fn s = (case q of None \<Rightarrow> s | Some a \<Rightarrow> set_request_fn fn a s)"

text \<open>\<open>run fn r\<close> is the call of the function at \<open>fn\<close> with the request \<open>r\<close>.\<close>

definition flush_body :: "(addr \<Rightarrow> addr \<Rightarrow> Blocks \<Rightarrow> Blocks option) \<Rightarrow> addr \<Rightarrow> Blocks \<Rightarrow> (Blocks, Blocks) step option" where
  "flush_body run q s = (case (rq_head (queues s q), request_fn (queues s q)) of
       (Some _, Some _) \<Rightarrow> (case rq_pop q s of
           (None, s1) \<Rightarrow> Some (Next s1)
         | (Some r, s1) \<Rightarrow> do { fn \<leftarrow> request_fn (queues s1 q); s2 \<leftarrow> run fn r s1; Some (Next s2) })
     | _ \<Rightarrow> Some (Done s))"

definition flush_plug :: "(addr \<Rightarrow> addr \<Rightarrow> Blocks \<Rightarrow> Blocks option) \<Rightarrow> addr \<Rightarrow> Blocks \<Rightarrow> Blocks option" where
  "flush_plug run a s =
     (let q = queue_at (devs s a) in
      if plugged (queues s q) then loop (flush_body run q) (upd_queue q (\<lambda>Q. Q\<lparr>plugged := False\<rparr>) s) else Some s)"

definition submit_bio :: "Bio option \<Rightarrow> int" where
  "submit_bio bio = (case bio of None \<Rightarrow> -1 | Some b \<Rightarrow> if bio_buf b = None then -1 else 0)"

text \<open>The destructor of a request releases its list of \<open>Bio\<close> objects.\<close>

definition blk_delete :: "addr \<Rightarrow> Blocks \<Rightarrow> Blocks" where
  "blk_delete a s = (let (f, w) = Free a (blk_frames s, blk_words s) in s\<lparr>blk_frames := f, blk_words := w\<rparr>)"

definition delete_bios_body :: "ptr \<times> Blocks \<Rightarrow> (ptr \<times> Blocks, Blocks) step option" where
  "delete_bios_body = (\<lambda>(p, s). Some (case p of
       None \<Rightarrow> Done s
     | Some b \<Rightarrow> Next (bio_next (bios s b), blk_delete b s)))"

definition Request_delete :: "addr \<Rightarrow> Blocks \<Rightarrow> Blocks option" where
  "Request_delete r s = do { s1 \<leftarrow> loop delete_bios_body (rq_bios (reqs s r), s); Some (blk_delete r s1) }"

text \<open>
  The handler of the driver, over the memory that buffers lie in and the drive at each port and drive
  number.  It takes the first controller, whatever device the request was for.
\<close>

definition IDEProcessRequest :: "ptr \<Rightarrow> (u64 \<Rightarrow> byte) \<times> (u16 \<Rightarrow> u8 \<Rightarrow> Ide) \<times> Blocks \<Rightarrow>
    ((u64 \<Rightarrow> byte) \<times> (u16 \<Rightarrow> u8 \<Rightarrow> Ide) \<times> Blocks) option" where
  "IDEProcessRequest p = (\<lambda>(mem, disks, s). case p of None \<Rightarrow> Some (mem, disks, s) | Some r \<Rightarrow> do {
     (mem1, disks1) \<leftarrow> (if device_count s > 0 then do {
         c \<leftarrow> controllers s ! 0;
         let io = ctl_io_base (ctls s c);
         let drv = ctl_drive (ctls s c);
         let rq = reqs s r;
         (case rq_rw rq of
            REQ_TYPE_READ \<Rightarrow> do {
              a \<leftarrow> rq_buf rq;
              let (ret, bs, d) = IDEDeviceRead drv (rq_sector rq) (rq_count rq) (disks io drv);
              Some (mem_store a bs mem, disks(io := (disks io)(drv := d))) }
          | REQ_TYPE_WRITE \<Rightarrow> do {
              a \<leftarrow> rq_buf rq;
              (ret, d) \<leftarrow> IDEDeviceWrite drv (rq_sector rq) (rq_count rq)
                 (mem_bytes mem a (512 * ucast (rq_count rq))) (disks io drv);
              Some (mem, disks(io := (disks io)(drv := d))) }
          | REQ_TYPE_FLUSH \<Rightarrow> Some (mem, disks)) }
       else Some (mem, disks));
     s1 \<leftarrow> Request_delete r s;
     Some (mem1, disks1, s1) })"

definition IDE_Ioctl :: "u32 \<Rightarrow> ptr \<Rightarrow> int" where
  "IDE_Ioctl cmd arg = -1"

section \<open>The registry\<close>

text \<open>A comparison with \<^verbatim>\<open>strcmp\<close> is equality of the characters before the zero.\<close>

definition find_dev_body :: "byte list \<Rightarrow> Blocks \<Rightarrow> ptr \<Rightarrow> (ptr, ptr) step option" where
  "find_dev_body name s p = Some (case p of
       None \<Rightarrow> Done None
     | Some a \<Rightarrow> if disk_name (devs s a) = name then Done (Some a) else Next (dev_next (devs s a)))"

definition FindDevice :: "byte list \<Rightarrow> Blocks \<Rightarrow> ptr option" where
  "FindDevice name s = loop (find_dev_body name s) (device_list s)"

definition RegisterDevice :: "ptr \<Rightarrow> Blocks \<Rightarrow> Blocks" where
  "RegisterDevice p s = (case p of None \<Rightarrow> s | Some a \<Rightarrow>
     let s1 = (if sector_size (devs s a) = 0 then upd_dev a (\<lambda>d. d\<lparr>sector_size := 512\<rparr>) s else s);
         s2 = upd_dev a (\<lambda>d. d\<lparr>dev_next := device_list s1\<rparr>) s1
     in s2\<lparr>device_list := Some a\<rparr>)"

definition HdStruct_new :: "u64 \<Rightarrow> u64 \<Rightarrow> byte list \<Rightarrow> HdStruct" where
  "HdStruct_new start num nm = \<lparr>start_sect = start, nr_sects = num, hd_name = take 31 nm, hd_next = None\<rparr>"

text \<open>
  \<^verbatim>\<open>snprintf(name, 32, "%s%d", ...)\<close>: a text that does not fit is written beyond the array.
\<close>

definition part_name :: "byte list \<Rightarrow> int \<Rightarrow> byte list option" where
  "part_name nm minor =
     (let t = nm @ number_text (of_int minor) 10 (-1) (-1) SIGN in if length t < 32 then Some t else None)"

definition add_partition :: "ptr \<Rightarrow> u64 \<Rightarrow> u64 \<Rightarrow> int \<Rightarrow> Blocks \<Rightarrow> Blocks option" where
  "add_partition p start num minor s = (case p of None \<Rightarrow> Some s | Some a \<Rightarrow>
     if num = 0 then Some s else do {
       (h, s1) \<leftarrow> blk_new 56 s;
       h \<leftarrow> h;
       nm \<leftarrow> part_name (disk_name (devs s1 a)) minor;
       let s2 = s1\<lparr>hds := (hds s1)(h := (HdStruct_new start num (disk_name (devs s1 a)))
           \<lparr>hd_name := nm, hd_next := partitions (devs s1 a)\<rparr>)\<rparr>;
       Some (upd_dev a (\<lambda>d. d\<lparr>partitions := Some h, part_count := part_count d + 1\<rparr>) s2) })"

section \<open>Detection of drives\<close>

text \<open>
  What a drive answers to the identify command: the status at once, the status when it is ready, and
  256 words of data.
\<close>

record Probe =
  st_first :: u8
  st_ready :: u8
  ident :: "nat \<Rightarrow> u16"

definition IDE_STATUS_ERR :: u8 where "IDE_STATUS_ERR = 0x01"
definition IDE_PRIMARY_IO :: u16 where "IDE_PRIMARY_IO = 0x1F0"
definition IDE_SECONDARY_IO :: u16 where "IDE_SECONDARY_IO = 0x170"

definition Identify :: "Probe \<Rightarrow> u32 \<Rightarrow> (int \<times> (nat \<Rightarrow> u16) \<times> u32) option" where
  "Identify pr l0 = do {
     l \<leftarrow> lock l0;
     Some (if st_first pr = 0 then (-1, \<lambda>_. 0, unlock l)
           else if st_ready pr AND IDE_STATUS_ERR \<noteq> 0 then (-2, \<lambda>_. 0, unlock l)
           else (0, ident pr, unlock l)) }"

definition drive_sectors :: "(nat \<Rightarrow> u16) \<Rightarrow> u64" where
  "drive_sectors w =
     (if w 83 AND push_bit 10 1 \<noteq> 0
      then push_bit 48 (ucast (w 103)) OR push_bit 32 (ucast (w 102)) OR push_bit 16 (ucast (w 101)) OR ucast (w 100)
      else ucast (push_bit 16 (ucast (w 61) :: u32) OR ucast (w 60)))"

definition IDEBlockDevice_new :: "byte list \<Rightarrow> u16 \<Rightarrow> u8 \<Rightarrow> Blocks \<Rightarrow> (addr \<times> Blocks) option" where
  "IDEBlockDevice_new name io drv s = do {
     (a, s1) \<leftarrow> blk_new 96 s;
     a \<leftarrow> a;
     (q, s2) \<leftarrow> blk_new 40 s1;
     q \<leftarrow> q;
     let s3 = s2\<lparr>queues := (queues s2)(q := RequestQueue_new\<lparr>max_sectors := 256, max_hw_sectors := 256\<rparr>)\<rparr>;
     Some (a, s3\<lparr>devs := (devs s3)(a := \<lparr>disk_name = take 31 name, queue_at = q, capacity = 0, sector_size = 512,
       dev_type = DEVICE_TYPE_IDE, partitions = None, part_count = 0, dev_next = None, dev_io_base = io, dev_drive = drv\<rparr>)\<rparr>) }"

definition hd_text :: "int \<Rightarrow> byte list" where
  "hd_text n = [104, 100, of_int (97 + n)]"

definition controller_new :: "u16 \<Rightarrow> u8 \<Rightarrow> addr \<Rightarrow> Blocks \<Rightarrow> Blocks option" where
  "controller_new io drv a s = do {
     (c, s1) \<leftarrow> blk_new 24 s;
     let s2 = (case c of None \<Rightarrow> s1
       | Some c \<Rightarrow> s1\<lparr>ctls := (ctls s1)(c := \<lparr>ctl_io_base = io, ctl_drive = drv, ctl_status = 0, ctl_lba = 0, ctl_dev = a\<rparr>)\<rparr>);
     if 0 \<le> device_count s2 \<and> nat (device_count s2) < length (controllers s2)
     then Some (s2\<lparr>controllers := (controllers s2)[nat (device_count s2) := c], device_count := device_count s2 + 1\<rparr>)
     else None }"

definition detect_drive :: "ptr \<Rightarrow> (u16 \<Rightarrow> u8 \<Rightarrow> Probe) \<Rightarrow> u16 \<Rightarrow> u8 \<Rightarrow> Blocks \<Rightarrow> Blocks option" where
  "detect_drive fn probe io drv s = do {
     (ret, w, l) \<leftarrow> Identify (probe io drv) (blk_lock s);
     let s1 = s\<lparr>blk_lock := l\<rparr>;
     if ret \<noteq> 0 then Some s1 else do {
       (a, s2) \<leftarrow> IDEBlockDevice_new (hd_text (device_count s1)) io drv s1;
       s3 \<leftarrow> controller_new io drv a s2;
       let s4 = upd_dev a (\<lambda>d. d\<lparr>capacity := drive_sectors w\<rparr>) s3;
       let s5 = set_request_fn fn (queue_at (devs s4 a)) s4;
       add_partition (Some a) 0 (drive_sectors w) 1 (RegisterDevice (Some a) s5) } }"

definition DetectDevices :: "ptr \<Rightarrow> (u16 \<Rightarrow> u8 \<Rightarrow> Probe) \<Rightarrow> u16 \<Rightarrow> Blocks \<Rightarrow> Blocks option" where
  "DetectDevices fn probe io s = do {
     l \<leftarrow> lock (blk_lock s);
     s1 \<leftarrow> detect_drive fn probe io 0 (s\<lparr>blk_lock := l\<rparr>);
     s2 \<leftarrow> detect_drive fn probe io 1 s1;
     Some (s2\<lparr>blk_lock := unlock (blk_lock s2)\<rparr>) }"

definition ide_Init :: "ptr \<Rightarrow> (u16 \<Rightarrow> u8 \<Rightarrow> Probe) \<Rightarrow> Blocks \<Rightarrow> Blocks option" where
  "ide_Init fn probe s = do {
     s1 \<leftarrow> DetectDevices fn probe IDE_PRIMARY_IO s;
     DetectDevices fn probe IDE_SECONDARY_IO s1 }"

section \<open>Waiting for a drive\<close>

text \<open>
  The three wait loops differ in the status they wait for.  Round \<open>i\<close> of the loop reads the clock
  \<open>ticks i\<close> and then the status \<open>status i\<close>; the start is kept in an \<^verbatim>\<open>int\<close>.  The result is the round that
  ended the loop.
\<close>

definition IDE_TIMEOUT :: u64 where "IDE_TIMEOUT = 1000"
definition TIMER_FREQUENCY :: u64 where "TIMER_FREQUENCY = 100"
definition IDE_STATUS_BSY :: u8 where "IDE_STATUS_BSY = 0x80"
definition IDE_STATUS_DRDY :: u8 where "IDE_STATUS_DRDY = 0x40"
definition IDE_STATUS_DRQ :: u8 where "IDE_STATUS_DRQ = 0x08"

definition wait_status_body :: "(u8 \<Rightarrow> bool) \<Rightarrow> u32 \<Rightarrow> (nat \<Rightarrow> u64) \<Rightarrow> (nat \<Rightarrow> u8) \<Rightarrow> nat \<Rightarrow> (nat, nat) step option" where
  "wait_status_body ok t ticks status i =
     (if (ticks i - scast t) * 1000 div TIMER_FREQUENCY < IDE_TIMEOUT
      then Some (if ok (status i) then Done i else Next (i + 1)) else Some (Done i))"

definition wait_status :: "(u8 \<Rightarrow> bool) \<Rightarrow> u64 \<Rightarrow> (nat \<Rightarrow> u64) \<Rightarrow> (nat \<Rightarrow> u8) \<Rightarrow> nat option" where
  "wait_status ok now ticks status = loop (wait_status_body ok (ucast now) ticks status) 0"

definition ready_status :: "u8 \<Rightarrow> bool" where
  "ready_status st \<longleftrightarrow> st AND IDE_STATUS_BSY = 0 \<and> st AND IDE_STATUS_DRDY \<noteq> 0"

definition WaitReady :: "u64 \<Rightarrow> (nat \<Rightarrow> u64) \<Rightarrow> (nat \<Rightarrow> u8) \<Rightarrow> nat option" where
  "WaitReady = wait_status ready_status"

definition WaitDrq :: "u64 \<Rightarrow> (nat \<Rightarrow> u64) \<Rightarrow> (nat \<Rightarrow> u8) \<Rightarrow> nat option" where
  "WaitDrq = wait_status (\<lambda>st. st AND IDE_STATUS_DRQ \<noteq> 0)"

definition WaitNotBusy :: "u64 \<Rightarrow> (nat \<Rightarrow> u64) \<Rightarrow> (nat \<Rightarrow> u8) \<Rightarrow> nat option" where
  "WaitNotBusy = wait_status (\<lambda>st. st AND IDE_STATUS_BSY = 0)"

section \<open>The service\<close>

definition SYS_BLOCK_GET :: u64 where "SYS_BLOCK_GET = 0x10"

text \<open>
  What the service does with a message: the reply to its sender, or none for a type it does not know.
\<close>

definition block_serve :: "(addr \<Rightarrow> u64) \<Rightarrow> ptr \<Rightarrow> Message \<Rightarrow> Blocks \<Rightarrow> Message option option" where
  "block_serve pids self m s =
     (if msg_type m = SYS_BLOCK_GET then do {
        name \<leftarrow> msg_str m;
        p \<leftarrow> FindDevice name s;
        c \<leftarrow> sender m;
        Some (Some ((set_num0 (ptr_num p) m)\<lparr>dst_pid := pids c, sender := self\<rparr>)) }
      else Some None)"

definition block_start :: "ptr \<Rightarrow> (u16 \<Rightarrow> u8 \<Rightarrow> Probe) \<Rightarrow> Blocks \<Rightarrow> Blocks option" where
  "block_start fn probe s = ide_Init fn probe (s\<lparr>device_list := None\<rparr>)"

end
