(* ===== verification/DevicesProps.thy ===== *)
theory DevicesProps
  imports Devices ThreadProps
begin

text \<open>
  The block service: a request queue is a first-in first-out list, the registry finds every drive that
  answered under its name, and the wait loops of the driver end.
\<close>

section \<open>Request queues\<close>

fun rq_chain :: "(addr \<Rightarrow> Request) \<Rightarrow> ptr \<Rightarrow> addr list \<Rightarrow> bool" where
  "rq_chain h p [] \<longleftrightarrow> p = None"
| "rq_chain h p (x # xs) \<longleftrightarrow> p = Some x \<and> rq_chain h (rq_next (h x)) xs"

definition queue_holds :: "Blocks \<Rightarrow> addr \<Rightarrow> addr list \<Rightarrow> bool" where
  "queue_holds s q xs \<longleftrightarrow> rq_chain (reqs s) (rq_head (queues s q)) xs \<and> distinct xs \<and>
     rq_tail (queues s q) = (if xs = [] then None else Some (last xs)) \<and> rq_length (queues s q) = int (length xs)"

lemma rq_chain_cong: "(\<And>x. x \<in> set xs \<Longrightarrow> rq_next (h x) = rq_next (h' x)) \<Longrightarrow> rq_chain h p xs = rq_chain h' p xs"
  by (induction xs arbitrary: p) auto

lemma rq_chain_snoc:
  "rq_chain h p xs \<Longrightarrow> xs \<noteq> [] \<Longrightarrow> distinct xs \<Longrightarrow> r \<notin> set xs \<Longrightarrow>
     rq_chain (h(last xs := (h (last xs))\<lparr>rq_next := Some r\<rparr>, r := (h r)\<lparr>rq_next := None\<rparr>)) p (xs @ [r])"
proof (induction xs arbitrary: p)
  case (Cons x xs)
  show ?case
  proof (cases "xs = []")
    case False
    then have "last xs \<noteq> x" "last xs \<noteq> r" using Cons.prems by auto
    with Cons False show ?thesis by (auto simp: fun_upd_twist)
  qed (use Cons.prems in auto)
qed simp

lemma rq_push_holds:
  assumes "queue_holds s q xs" "r \<notin> set xs"
  shows "\<exists>s'. rq_push q r s = Some s' \<and> queue_holds s' q (xs @ [r])"
proof (cases "xs = []")
  case True
  then show ?thesis using assms by (simp add: queue_holds_def rq_push_def upd_queue_def set_next_def)
next
  case False
  then have h: "rq_head (queues s q) \<noteq> None" "rq_tail (queues s q) = Some (last xs)" "last xs \<noteq> r"
    using assms by (cases xs; auto simp: queue_holds_def)+
  then show ?thesis
    using assms False rq_chain_snoc [of "reqs s" "rq_head (queues s q)" xs r]
    by (auto simp: queue_holds_def rq_push_def upd_queue_def set_next_def)
qed

lemma rq_pop_holds:
  "queue_holds s q [] \<Longrightarrow> rq_pop q s = (None, s)"
  "queue_holds s q (x # xs) \<Longrightarrow> fst (rq_pop q s) = Some x \<and> queue_holds (snd (rq_pop q s)) q xs"
  by (cases xs; simp add: queue_holds_def rq_pop_def upd_queue_def Let_def)+

lemma rq_pop_frame:
  "reqs (snd (rq_pop q s)) = reqs s" "devs (snd (rq_pop q s)) = devs s"
  "request_fn (queues (snd (rq_pop q s)) q) = request_fn (queues s q)"
  by (simp_all add: rq_pop_def upd_queue_def Let_def split: option.splits)

text \<open>A handler that leaves the queues and the other requests alone is called for each request in order.\<close>

fun run_all :: "(addr \<Rightarrow> addr \<Rightarrow> Blocks \<Rightarrow> Blocks option) \<Rightarrow> addr \<Rightarrow> addr \<Rightarrow> addr list \<Rightarrow> Blocks \<Rightarrow> Blocks option" where
  "run_all run fn q [] s = Some s"
| "run_all run fn q (x # xs) s = do { s1 \<leftarrow> run fn x (snd (rq_pop q s)); run_all run fn q xs s1 }"

definition handler_ok :: "(addr \<Rightarrow> addr \<Rightarrow> Blocks \<Rightarrow> Blocks option) \<Rightarrow> addr \<Rightarrow> bool" where
  "handler_ok run fn \<longleftrightarrow> (\<forall>r s. \<exists>s'. run fn r s = Some s' \<and> queues s' = queues s \<and>
     (\<forall>x. x \<noteq> r \<longrightarrow> rq_next (reqs s' x) = rq_next (reqs s x)))"

lemma flush_loop:
  assumes "handler_ok run fn"
  shows "queue_holds s q xs \<Longrightarrow> request_fn (queues s q) = Some fn \<Longrightarrow>
    \<exists>s'. loop (flush_body run q) s = Some s' \<and> run_all run fn q xs s = Some s' \<and> queue_holds s' q []"
proof (induction xs arbitrary: s)
  case Nil
  then have "flush_body run q s = Some (Done s)" by (simp add: flush_body_def queue_holds_def)
  then have "loop (flush_body run q) s = Some s" by (rule loop_Done)
  then show ?case using Nil by simp
next
  case (Cons x xs)
  let ?s = "snd (rq_pop q s)"
  have p: "fst (rq_pop q s) = Some x" "queue_holds ?s q xs" using rq_pop_holds(2) [OF Cons.prems(1)] by auto
  from assms obtain s1 where s1: "run fn x ?s = Some s1" "queues s1 = queues ?s"
    "\<forall>y. y \<noteq> x \<longrightarrow> rq_next (reqs s1 y) = rq_next (reqs ?s y)" unfolding handler_ok_def by blast
  have x: "x \<notin> set xs" using Cons.prems(1) by (simp add: queue_holds_def)
  have "rq_chain (reqs s1) p' xs = rq_chain (reqs ?s) p' xs" for p'
    by (rule rq_chain_cong) (use x s1(3) in auto)
  then have q1: "queue_holds s1 q xs" using p(2) by (simp add: queue_holds_def s1(2))
  have f1: "request_fn (queues s1 q) = Some fn" using Cons.prems(2) by (simp add: s1(2) rq_pop_frame)
  have pop: "rq_pop q s = (Some x, ?s)" using p(1) by (metis prod.collapse)
  have fn: "request_fn (queues ?s q) = Some fn" using Cons.prems(2) by (simp add: rq_pop_frame)
  have "rq_head (queues s q) = Some x" using Cons.prems(1) by (simp add: queue_holds_def)
  then have "flush_body run q s = Some (Next s1)"
    using Cons.prems(2) fn s1(1) by (simp add: flush_body_def) (subst pop, simp)
  then have "loop (flush_body run q) s = loop (flush_body run q) s1" by (rule loop_Next)
  then show ?case using Cons.IH [OF q1 f1] s1(1) by auto
qed

lemma flush_plug_runs:
  assumes "handler_ok run fn" "queue_holds s q xs" "request_fn (queues s q) = Some fn"
    "queue_at (devs s a) = q" "plugged (queues s q)"
  shows "\<exists>s0 s'. s0 = upd_queue q (\<lambda>Q. Q\<lparr>plugged := False\<rparr>) s \<and> flush_plug run a s = Some s' \<and>
    run_all run fn q xs s0 = Some s' \<and> queue_holds s' q []"
proof -
  let ?s = "upd_queue q (\<lambda>Q. Q\<lparr>plugged := False\<rparr>) s"
  have "queue_holds ?s q xs" "request_fn (queues ?s q) = Some fn"
    using assms(2,3) by (simp_all add: queue_holds_def upd_queue_def)
  from flush_loop [OF assms(1) this] show ?thesis using assms(4,5) by (simp add: flush_plug_def Let_def)
qed

section \<open>The list of devices\<close>

fun dev_chain :: "(addr \<Rightarrow> BlockDevice) \<Rightarrow> ptr \<Rightarrow> addr list \<Rightarrow> bool" where
  "dev_chain h p [] \<longleftrightarrow> p = None"
| "dev_chain h p (x # xs) \<longleftrightarrow> p = Some x \<and> dev_chain h (dev_next (h x)) xs"

lemma dev_chain_cong: "(\<And>x. x \<in> set xs \<Longrightarrow> h x = h' x) \<Longrightarrow> dev_chain h p xs = dev_chain h' p xs"
  by (induction xs arbitrary: p) auto

lemma find_dev_chain:
  "dev_chain (devs s) p xs \<Longrightarrow> loop (find_dev_body name s) p = Some (find (\<lambda>a. disk_name (devs s a) = name) xs)"
proof (induction xs arbitrary: p)
  case Nil
  then show ?case by (intro loop_Done) (simp add: find_dev_body_def)
next
  case (Cons x xs)
  show ?case
  proof (cases "disk_name (devs s x) = name")
    case True
    then show ?thesis using Cons.prems by (intro loop_Done) (simp add: find_dev_body_def)
  next
    case False
    have "loop (find_dev_body name s) p = loop (find_dev_body name s) (dev_next (devs s x))"
      by (rule loop_Next) (use Cons.prems False in \<open>simp add: find_dev_body_def\<close>)
    then show ?thesis using Cons False by simp
  qed
qed

lemma FindDevice_chain:
  "dev_chain (devs s) (device_list s) xs \<Longrightarrow> FindDevice name s = Some (find (\<lambda>a. disk_name (devs s a) = name) xs)"
  by (simp add: FindDevice_def find_dev_chain)

section \<open>Detection\<close>

text \<open>Objects come from successive pages.\<close>

definition pages_below :: "u64 \<Rightarrow> nat \<Rightarrow> addr set" where
  "pages_below su k = page_at su ` {..<k}"

lemma page_at_inj: "i < 2 ^ 51 \<Longrightarrow> j < 2 ^ 51 \<Longrightarrow> page_at su i = page_at su j \<longleftrightarrow> i = j"
proof
  assume b: "i < 2 ^ 51" "j < 2 ^ 51" and "page_at su i = page_at su j"
  then have "(of_nat (i * 4096) :: u64) = of_nat (j * 4096)" by (simp add: page_at_def Phy2Vir_def PAGE_SIZE_def)
  then have "unat (of_nat (i * 4096) :: u64) = unat (of_nat (j * 4096) :: u64)" by simp
  moreover have "unat (of_nat (i * 4096) :: u64) = i * 4096" "unat (of_nat (j * 4096) :: u64) = j * 4096"
    using b by (intro unat_small; simp)+
  ultimately show "i = j" by simp
qed simp

lemma page_fresh: "k < 2 ^ 51 \<Longrightarrow> page_at su k \<notin> pages_below su k"
  using page_at_inj by (auto simp: pages_below_def)

lemma pages_below_mono: "k \<le> k' \<Longrightarrow> a \<in> pages_below su k \<Longrightarrow> a \<in> pages_below su k'"
  by (auto simp: pages_below_def)

lemma page_in_below: "i < k \<Longrightarrow> page_at su i \<in> pages_below su k"
  by (auto simp: pages_below_def)

lemma blk_new_seq:
  assumes "frames_at su tp k (blk_frames s)" "k < unat tp" "sz \<in> {24, 40, 56, 96}"
  shows "\<exists>f w. blk_new sz s = Some (Some (page_at su k), s\<lparr>blk_frames := f, blk_words := w\<rparr>) \<and> frames_at su tp (k + 1) f"
proof -
  have n: "(sz + 8 + PAGE_SIZE - 1) div PAGE_SIZE = 1" "sz \<noteq> 0" using assms(3) by (auto simp: PAGE_SIZE_def)
  have F: "frame_ok (blk_frames s)" "used (blk_frames s) = {..<k}" "start_usable (blk_frames s) = su"
    "total_pages (blk_frames s) = tp" using assms(1) by (auto simp: frames_at_def)
  have "unat (free_pages (blk_frames s)) = unat tp - k" using F by (simp add: frame_ok_def)
  then have "1 \<le> free_pages (blk_frames s)" using assms(2) by (simp add: word_le_nat_alt)
  from AllocPages_prefix [OF F(1,2) _ this] obtain f where
    "AllocPages 1 (blk_frames s) = Some (Some (page_at su k), f)" "frames_at su tp (k + 1) f"
    by (auto simp: F frames_at_def page_at_def)
  then show ?thesis unfolding blk_new_def Alloc_def Let_def prod.case if_not_P [OF n(2)] n(1)
    by (intro exI [of _ f] exI [of _ "(blk_words s)(page_at su k := 1)"]) simp
qed

definition dev_is :: "ptr \<Rightarrow> Probe \<Rightarrow> nat \<Rightarrow> u16 \<Rightarrow> u8 \<Rightarrow> Blocks \<Rightarrow> addr \<Rightarrow> bool" where
  "dev_is fn pr i io drv s a \<longleftrightarrow>
     (let d = devs s a; c = drive_sectors (ident pr) in
      disk_name d = hd_text (int i) \<and> dev_io_base d = io \<and> dev_drive d = drv \<and> capacity d = c \<and>
      sector_size d = 512 \<and> request_fn (queues s (queue_at d)) = fn \<and>
      (if c = 0 then partitions d = None
       else map_option (hds s) (partitions d) =
         Some \<lparr>start_sect = 0, nr_sects = c, hd_name = hd_text (int i) @ [49], hd_next = None\<rparr>))"

definition answers :: "Probe \<Rightarrow> bool" where
  "answers pr \<longleftrightarrow> st_first pr \<noteq> 0 \<and> st_ready pr AND IDE_STATUS_ERR = 0"

definition blk_ok :: "ptr \<Rightarrow> (u16 \<Rightarrow> u8 \<Rightarrow> Probe) \<Rightarrow> u64 \<Rightarrow> u64 \<Rightarrow> nat \<Rightarrow> (u16 \<times> u8) list \<Rightarrow> addr list \<Rightarrow> Blocks \<Rightarrow> bool" where
  "blk_ok fn probe su tp k ds ads s \<longleftrightarrow> frames_at su tp k (blk_frames s) \<and> dev_chain (devs s) (device_list s) (rev ads) \<and>
     length ads = length ds \<and> length (controllers s) = 4 \<and> device_count s = int (length ds) \<and>
     set ads \<subseteq> pages_below su k \<and>
     (\<forall>i<length ds. dev_is fn (probe (fst (ds ! i)) (snd (ds ! i))) i (fst (ds ! i)) (snd (ds ! i)) s (ads ! i) \<and>
        queue_at (devs s (ads ! i)) \<in> pages_below su k \<and> set_option (partitions (devs s (ads ! i))) \<subseteq> pages_below su k)"

text \<open>What stays true of a device when a new one is added.\<close>

definition grows :: "addr set \<Rightarrow> Blocks \<Rightarrow> Blocks \<Rightarrow> bool" where
  "grows P s s' \<longleftrightarrow> (\<forall>a\<in>P. devs s' a = devs s a \<and> queues s' a = queues s a \<and> hds s' a = hds s a)"

lemma dev_is_grows:
  assumes "grows P s s'" "a \<in> P" "queue_at (devs s a) \<in> P" "set_option (partitions (devs s a)) \<subseteq> P" "dev_is fn pr i io drv s a"
  shows "dev_is fn pr i io drv s' a"
  using assms by (auto simp: dev_is_def grows_def Let_def split: if_splits)

lemma hd_text_len: "length (hd_text n) = 3"
  by (simp add: hd_text_def)

lemma part_name_1: "part_name (hd_text n) 1 = Some (hd_text n @ [49])"
proof -
  have "number_text 1 10 (-1) (-1) SIGN = [49]" by code_simp
  then show ?thesis by (simp add: part_name_def hd_text_len)
qed

lemma device_new_seq:
  assumes "frames_at su tp k (blk_frames s)" "k + 2 \<le> unat tp" "length name \<le> 31"
  shows "\<exists>f w. IDEBlockDevice_new name io drv s = Some (page_at su k,
     s\<lparr>blk_frames := f, blk_words := w,
       queues := (queues s)(page_at su (k + 1) := RequestQueue_new\<lparr>max_sectors := 256, max_hw_sectors := 256\<rparr>),
       devs := (devs s)(page_at su k := \<lparr>disk_name = name, queue_at = page_at su (k + 1), capacity = 0, sector_size = 512,
         dev_type = DEVICE_TYPE_IDE, partitions = None, part_count = 0, dev_next = None, dev_io_base = io, dev_drive = drv\<rparr>)\<rparr>) \<and> frames_at su tp (k + 2) f"
proof -
  from blk_new_seq [OF assms(1), of 96] assms(2) obtain f w where
    1: "blk_new 96 s = Some (Some (page_at su k), s\<lparr>blk_frames := f, blk_words := w\<rparr>)" "frames_at su tp (k + 1) f" by auto
  have "frames_at su tp (k + 1) (blk_frames (s\<lparr>blk_frames := f, blk_words := w\<rparr>))" using 1(2) by simp
  from blk_new_seq [OF this, of 40] assms(2) obtain f' w' where
    2: "blk_new 40 (s\<lparr>blk_frames := f, blk_words := w\<rparr>) = Some (Some (page_at su (k + 1)),
         s\<lparr>blk_frames := f', blk_words := w'\<rparr>)" "frames_at su tp (k + 2) f'" by auto
  show ?thesis using 1(1) 2 assms(3) by (auto simp: IDEBlockDevice_new_def Let_def)
qed

lemma controller_seq:
  assumes "frames_at su tp k (blk_frames s)" "k < unat tp" "device_count s = int n" "n < length (controllers s)"
  shows "\<exists>f w. controller_new io drv a s = Some (s\<lparr>blk_frames := f, blk_words := w,
       ctls := (ctls s)(page_at su k := \<lparr>ctl_io_base = io, ctl_drive = drv, ctl_status = 0, ctl_lba = 0, ctl_dev = a\<rparr>),
       controllers := (controllers s)[n := Some (page_at su k)], device_count := int n + 1\<rparr>) \<and> frames_at su tp (k + 1) f"
proof -
  from blk_new_seq [OF assms(1,2), of 24] obtain f w where
    "blk_new 24 s = Some (Some (page_at su k), s\<lparr>blk_frames := f, blk_words := w\<rparr>)" "frames_at su tp (k + 1) f" by auto
  with assms(3,4) show ?thesis by (auto simp: controller_new_def Let_def)
qed

lemma add_partition_seq:
  assumes "frames_at su tp k (blk_frames s)" "k < unat tp" "disk_name (devs s a) = hd_text n" "num \<noteq> 0"
  shows "\<exists>f w. add_partition (Some a) 0 num 1 s = Some (upd_dev a (\<lambda>d. d\<lparr>partitions := Some (page_at su k), part_count := part_count d + 1\<rparr>)
       (s\<lparr>blk_frames := f, blk_words := w, hds := (hds s)(page_at su k :=
          \<lparr>start_sect = 0, nr_sects = num, hd_name = hd_text n @ [49], hd_next = partitions (devs s a)\<rparr>)\<rparr>)) \<and> frames_at su tp (k + 1) f"
proof -
  from blk_new_seq [OF assms(1,2), of 56] obtain f w where
    "blk_new 56 s = Some (Some (page_at su k), s\<lparr>blk_frames := f, blk_words := w\<rparr>)" "frames_at su tp (k + 1) f" by auto
  with assms(3,4) show ?thesis by (auto simp: add_partition_def part_name_1 HdStruct_new_def Let_def)
qed

lemma detect_answer:
  assumes F: "frames_at su tp k (blk_frames s)" "k + 4 \<le> unat tp" "unat tp < 2 ^ 51"
    and n: "device_count s = int n" "n < length (controllers s)" and pr: "answers (probe io drv)"
  shows "\<exists>s' k'. detect_drive fn probe io drv s = Some s' \<and> grows (pages_below su k) s s' \<and>
     dev_is fn (probe io drv) n io drv s' (page_at su k) \<and> device_list s' = Some (page_at su k) \<and>
     dev_next (devs s' (page_at su k)) = device_list s \<and> device_count s' = int n + 1 \<and>
     length (controllers s') = length (controllers s) \<and> frames_at su tp k' (blk_frames s') \<and> k + 3 \<le> k' \<and> k' \<le> k + 4 \<and>
     queue_at (devs s' (page_at su k)) \<in> pages_below su k' \<and>
     set_option (partitions (devs s' (page_at su k))) \<subseteq> pages_below su k'"
proof -
  let ?a = "page_at su k" and ?q = "page_at su (k + 1)" and ?c = "drive_sectors (ident (probe io drv))"
  let ?s1 = "s\<lparr>blk_lock := 0\<rparr>"
  have id: "Identify (probe io drv) (blk_lock s) = Some (0, ident (probe io drv), 0)"
    using pr by (simp add: Identify_def answers_def unlock_def)
  have "frames_at su tp k (blk_frames ?s1)" using F(1) by simp
  from device_new_seq [OF this, of "hd_text (int n)" io drv] F(2) obtain f2 w2 s2 where
    2: "IDEBlockDevice_new (hd_text (int n)) io drv ?s1 = Some (?a, s2)" "frames_at su tp (k + 2) f2" and
    s2: "s2 = ?s1\<lparr>blk_frames := f2, blk_words := w2,
       queues := (queues s)(?q := RequestQueue_new\<lparr>max_sectors := 256, max_hw_sectors := 256\<rparr>),
       devs := (devs s)(?a := \<lparr>disk_name = hd_text (int n), queue_at = ?q, capacity = 0, sector_size = 512,
         dev_type = DEVICE_TYPE_IDE, partitions = None, part_count = 0, dev_next = None, dev_io_base = io, dev_drive = drv\<rparr>)\<rparr>"
    by (auto simp: hd_text_len)
  have "frames_at su tp (k + 2) (blk_frames s2)" "k + 2 < unat tp" "device_count s2 = int n" "n < length (controllers s2)"
    using 2(2) n F(2) by (simp_all add: s2)
  from controller_seq [OF this, of io drv ?a] obtain f3 w3 where
    c3: "controller_new io drv ?a s2 = Some (s2\<lparr>blk_frames := f3, blk_words := w3,
       ctls := (ctls s2)(page_at su (k + 2) := \<lparr>ctl_io_base = io, ctl_drive = drv, ctl_status = 0, ctl_lba = 0, ctl_dev = ?a\<rparr>),
       controllers := (controllers s2)[n := Some (page_at su (k + 2))], device_count := int n + 1\<rparr>)" "frames_at su tp (k + 2 + 1) f3"
    by blast
  define s3 where s3: "s3 = s2\<lparr>blk_frames := f3, blk_words := w3,
       ctls := (ctls s2)(page_at su (k + 2) := \<lparr>ctl_io_base = io, ctl_drive = drv, ctl_status = 0, ctl_lba = 0, ctl_dev = ?a\<rparr>),
       controllers := (controllers s2)[n := Some (page_at su (k + 2))], device_count := int n + 1\<rparr>"
  have "k + 2 + 1 = k + 3" by simp
  with c3 have 3: "controller_new io drv ?a s2 = Some s3" "frames_at su tp (k + 3) f3" by (simp_all only: s3)
  define s5 where "s5 = set_request_fn fn (queue_at (devs (upd_dev ?a (\<lambda>d. d\<lparr>capacity := ?c\<rparr>) s3) ?a))
      (upd_dev ?a (\<lambda>d. d\<lparr>capacity := ?c\<rparr>) s3)"
  define s6 where "s6 = RegisterDevice (Some ?a) s5"
  have fr: "page_at su (k + j) \<notin> pages_below su k" if "j < 4" for j
    using page_fresh [of "k + j" su] pages_below_mono [of k "k + j" "page_at su (k + j)" su] F(2,3) that by auto
  note fresh = fr [of 0, simplified] fr [of 1, simplified] fr [of 3, simplified]
  have d6: "devs s6 = (devs s)(?a := \<lparr>disk_name = hd_text (int n), queue_at = ?q, capacity = ?c, sector_size = 512,
         dev_type = DEVICE_TYPE_IDE, partitions = None, part_count = 0, dev_next = device_list s, dev_io_base = io, dev_drive = drv\<rparr>)"
    by (simp add: s6_def s5_def RegisterDevice_def set_request_fn_def upd_queue_def upd_dev_def s3 s2 Let_def)
  have r6: "queues s6 = (queues s)(?q := RequestQueue_new\<lparr>max_sectors := 256, max_hw_sectors := 256, request_fn := fn\<rparr>)"
    "hds s6 = hds s" "device_list s6 = Some ?a" "device_count s6 = int n + 1" "length (controllers s6) = length (controllers s)"
    "blk_frames s6 = f3"
    by (simp_all add: s6_def s5_def RegisterDevice_def set_request_fn_def upd_queue_def upd_dev_def s3 s2 Let_def)
  have step: "detect_drive fn probe io drv s = add_partition (Some ?a) 0 ?c 1 s6"
    using 2(1) 3(1) n(1) by (simp add: detect_drive_def id s6_def s5_def Let_def)
  show ?thesis
  proof (cases "?c = 0")
    case True
    then have "detect_drive fn probe io drv s = Some s6" unfolding step by (simp add: add_partition_def)
    moreover have "grows (pages_below su k) s s6" using fresh by (auto simp: grows_def d6 r6)
    moreover have "dev_is fn (probe io drv) n io drv s6 ?a" by (simp add: dev_is_def d6 r6 True)
    ultimately show ?thesis using 3(2) page_in_below [of "k + 1" "k + 3" su]
      by (intro exI [of _ s6] exI [of _ "k + 3"]) (simp add: d6 r6)
  next
    case False
    have "frames_at su tp (k + 3) (blk_frames s6)" "k + 3 < unat tp" "disk_name (devs s6 ?a) = hd_text (int n)"
      using 3(2) F(2) by (simp_all add: r6 d6)
    from add_partition_seq [OF this False] obtain f w s7 where
      7: "add_partition (Some ?a) 0 ?c 1 s6 = Some s7" "frames_at su tp (k + 4) f" and
      s7: "s7 = upd_dev ?a (\<lambda>d. d\<lparr>partitions := Some (page_at su (k + 3)), part_count := part_count d + 1\<rparr>)
         (s6\<lparr>blk_frames := f, blk_words := w, hds := (hds s6)(page_at su (k + 3) :=
          \<lparr>start_sect = 0, nr_sects = ?c, hd_name = hd_text (int n) @ [49], hd_next = partitions (devs s6 ?a)\<rparr>)\<rparr>)"
      by (auto simp: add.commute)
    have "grows (pages_below su k) s s7" using fresh by (auto simp: grows_def s7 upd_dev_def d6 r6)
    moreover have "dev_is fn (probe io drv) n io drv s7 ?a" using False by (simp add: dev_is_def s7 upd_dev_def d6 r6)
    ultimately show ?thesis using 7 page_in_below [of "k + 1" "k + 4" su] page_in_below [of "k + 3" "k + 4" su]
      by (intro exI [of _ s7] exI [of _ "k + 4"]) (simp add: step s7 upd_dev_def d6 r6)
  qed
qed

lemma blk_ok_lock: "blk_ok fn probe su tp k ds ads (s\<lparr>blk_lock := l\<rparr>) = blk_ok fn probe su tp k ds ads s"
proof -
  have "dev_is fn pr i io drv (s\<lparr>blk_lock := l\<rparr>) a = dev_is fn pr i io drv s a" for pr i io drv a
    unfolding dev_is_def by simp
  then show ?thesis unfolding blk_ok_def by simp
qed

lemma detect_keeps:
  assumes ok: "blk_ok fn probe su tp k ds ads s" and k: "k + 4 \<le> unat tp" "unat tp < 2 ^ 51" and l: "length ds < 4"
  shows "\<exists>s' k' ads'. detect_drive fn probe io drv s = Some s' \<and> k' \<le> k + 4 \<and>
     blk_ok fn probe su tp k' (ds @ filter (\<lambda>(i, d). answers (probe i d)) [(io, drv)]) ads' s'"
proof (cases "answers (probe io drv)")
  case False
  then have "detect_drive fn probe io drv s = Some (s\<lparr>blk_lock := 0\<rparr>)"
    by (auto simp: detect_drive_def Identify_def answers_def unlock_def)
  moreover have "blk_ok fn probe su tp k ds ads (s\<lparr>blk_lock := 0\<rparr>)" using ok by (simp only: blk_ok_lock)
  ultimately show ?thesis using False by (intro exI [of _ "s\<lparr>blk_lock := 0\<rparr>"] exI [of _ k] exI [of _ ads]) simp
next
  case True
  from ok have o: "frames_at su tp k (blk_frames s)" "device_count s = int (length ds)" "length (controllers s) = 4"
    "dev_chain (devs s) (device_list s) (rev ads)" "length ads = length ds" "set ads \<subseteq> pages_below su k"
    by (auto simp: blk_ok_def)
  have l': "length ds < length (controllers s)" using l o(3) by simp
  from detect_answer [where probe = probe and io = io and drv = drv and fn = fn, OF o(1) k o(2) l' True] obtain s' k' where
    d: "detect_drive fn probe io drv s = Some s'" "grows (pages_below su k) s s'"
     "dev_is fn (probe io drv) (length ds) io drv s' (page_at su k)" "device_list s' = Some (page_at su k)"
     "dev_next (devs s' (page_at su k)) = device_list s" "device_count s' = int (length ds) + 1"
     "length (controllers s') = length (controllers s)" "frames_at su tp k' (blk_frames s')" "k + 3 \<le> k'" "k' \<le> k + 4"
     "queue_at (devs s' (page_at su k)) \<in> pages_below su k'" "set_option (partitions (devs s' (page_at su k))) \<subseteq> pages_below su k'"
    by blast
  let ?a = "page_at su k"
  have sub: "pages_below su k \<subseteq> pages_below su k'" using d(9) by (auto simp: pages_below_def)
  have "dev_chain (devs s') (device_list s) (rev ads) = dev_chain (devs s) (device_list s) (rev ads)"
    by (rule dev_chain_cong) (use d(2) o(6) in \<open>auto simp: grows_def\<close>)
  then have "dev_chain (devs s') (device_list s') (rev (ads @ [?a]))" using d(4,5) o(4) by simp
  moreover have "dev_is fn (probe (fst ((ds @ [(io, drv)]) ! i)) (snd ((ds @ [(io, drv)]) ! i))) i (fst ((ds @ [(io, drv)]) ! i))
      (snd ((ds @ [(io, drv)]) ! i)) s' ((ads @ [?a]) ! i) \<and>
      queue_at (devs s' ((ads @ [?a]) ! i)) \<in> pages_below su k' \<and> set_option (partitions (devs s' ((ads @ [?a]) ! i))) \<subseteq> pages_below su k'"
    if i: "i < length (ds @ [(io, drv)])" for i
  proof (cases "i = length ds")
    case True
    then show ?thesis using d(3,11,12) o(5) by (simp add: nth_append)
  next
    case False
    then have i': "i < length ds" using i by simp
    have m: "ads ! i \<in> pages_below su k" using o(5,6) i' by auto
    from ok i' have p: "dev_is fn (probe (fst (ds ! i)) (snd (ds ! i))) i (fst (ds ! i)) (snd (ds ! i)) s (ads ! i)"
      "queue_at (devs s (ads ! i)) \<in> pages_below su k" "set_option (partitions (devs s (ads ! i))) \<subseteq> pages_below su k"
      by (auto simp: blk_ok_def)
    have "devs s' (ads ! i) = devs s (ads ! i)" using d(2) m by (simp add: grows_def)
    with dev_is_grows [OF d(2) m p(2,3,1)] p(2,3) sub i' o(5) show ?thesis by (auto simp: nth_append)
  qed
  moreover have "set (ads @ [?a]) \<subseteq> pages_below su k'" using o(6) sub page_in_below [of k k' su] d(9) by auto
  ultimately have "blk_ok fn probe su tp k' (ds @ [(io, drv)]) (ads @ [?a]) s'"
    using d(6,7,8) o(3,5) unfolding blk_ok_def by simp
  with d(1,10) True show ?thesis by auto
qed

lemma ide_Init_ok:
  assumes "blk_ok fn probe su tp k [] [] s" "k + 16 \<le> unat tp" "unat tp < 2 ^ 51"
  shows "\<exists>s' k' ads. ide_Init fn probe s = Some s' \<and> blk_ok fn probe su tp k'
     (filter (\<lambda>(i, d). answers (probe i d)) [(IDE_PRIMARY_IO, 0), (IDE_PRIMARY_IO, 1), (IDE_SECONDARY_IO, 0), (IDE_SECONDARY_IO, 1)]) ads s'"
proof -
  let ?f = "\<lambda>xs. filter (\<lambda>(i, d). answers (probe i d)) xs :: (u16 \<times> u8) list"
  have ch: "\<exists>s' k' ads'. DetectDevices fn probe io t = Some s' \<and> k' \<le> j + 8 \<and>
      blk_ok fn probe su tp k' (ds @ ?f [(io, 0), (io, 1)]) ads' s'"
    if a: "blk_ok fn probe su tp j ds ads t" "j + 8 \<le> unat tp" "length ds \<le> 2" for t j ds ads io
  proof -
    have "blk_ok fn probe su tp j ds ads (t\<lparr>blk_lock := 1\<rparr>)" using a(1) by (simp only: blk_ok_lock)
    from detect_keeps [OF this, of io 0] a(2,3) assms(3) obtain t1 k1 ads1 where
      1: "detect_drive fn probe io 0 (t\<lparr>blk_lock := 1\<rparr>) = Some t1" "k1 \<le> j + 4" "blk_ok fn probe su tp k1 (ds @ ?f [(io, 0)]) ads1 t1"
      by auto
    have "length (ds @ ?f [(io, 0)]) < 4" using a(3) by simp
    with detect_keeps [OF 1(3), of io 1] 1(2) a(2) assms(3) obtain t2 k2 ads2 where
      2: "detect_drive fn probe io 1 t1 = Some t2" "k2 \<le> k1 + 4" "blk_ok fn probe su tp k2 ((ds @ ?f [(io, 0)]) @ ?f [(io, 1)]) ads2 t2"
      by auto
    have "(ds @ ?f [(io, 0)]) @ ?f [(io, 1)] = ds @ ?f [(io, 0), (io, 1)]" by simp
    with 2(3) have "blk_ok fn probe su tp k2 (ds @ ?f [(io, 0), (io, 1)]) ads2 (t2\<lparr>blk_lock := 0\<rparr>)" by (simp only: blk_ok_lock)
    moreover have "DetectDevices fn probe io t = Some (t2\<lparr>blk_lock := 0\<rparr>)"
      using 1(1) 2(1) by (simp add: DetectDevices_def unlock_def)
    moreover have "k2 \<le> j + 8" using 1(2) 2(2) by simp
    ultimately show ?thesis by blast
  qed
  from ch [OF assms(1), of IDE_PRIMARY_IO] assms(2) obtain s1 k1 ads1 where
    1: "DetectDevices fn probe IDE_PRIMARY_IO s = Some s1" "k1 \<le> k + 8"
      "blk_ok fn probe su tp k1 (?f [(IDE_PRIMARY_IO, 0), (IDE_PRIMARY_IO, 1)]) ads1 s1" by auto
  have "length (?f [(IDE_PRIMARY_IO, 0), (IDE_PRIMARY_IO, 1)]) \<le> 2" by simp
  with ch [OF 1(3), of IDE_SECONDARY_IO] 1(2) assms(2) obtain s2 k2 ads2 where
    2: "DetectDevices fn probe IDE_SECONDARY_IO s1 = Some s2"
      "blk_ok fn probe su tp k2 (?f [(IDE_PRIMARY_IO, 0), (IDE_PRIMARY_IO, 1)] @ ?f [(IDE_SECONDARY_IO, 0), (IDE_SECONDARY_IO, 1)]) ads2 s2"
    by auto
  have "?f [(IDE_PRIMARY_IO, 0), (IDE_PRIMARY_IO, 1)] @ ?f [(IDE_SECONDARY_IO, 0), (IDE_SECONDARY_IO, 1)] =
    ?f [(IDE_PRIMARY_IO, 0), (IDE_PRIMARY_IO, 1), (IDE_SECONDARY_IO, 0), (IDE_SECONDARY_IO, 1)]" by simp
  note final = 2(2) [unfolded this]
  have "ide_Init fn probe s = Some s2" using 1(1) 2(1) by (simp add: ide_Init_def)
  then show ?thesis using final by blast
qed

lemma hd_text_inj: "i < 4 \<Longrightarrow> j < 4 \<Longrightarrow> hd_text (int i) = hd_text (int j) \<longleftrightarrow> i = j"
proof -
  have "\<forall>i\<in>set [0..<4]. \<forall>j\<in>set [0..<4]. hd_text (int i) = hd_text (int j) \<longrightarrow> i = j" by code_simp
  then show "i < 4 \<Longrightarrow> j < 4 \<Longrightarrow> hd_text (int i) = hd_text (int j) \<longleftrightarrow> i = j" by auto
qed

lemma find_rev_unique:
  assumes "i < length xs" "P (xs ! i)" "\<And>j. j < length xs \<Longrightarrow> P (xs ! j) \<Longrightarrow> j = i"
  shows "find P (rev xs) = Some (xs ! i)"
proof (cases "find P (rev xs)")
  case None
  then have "\<not> P (xs ! i)" using assms(1) by (auto simp: find_None_iff)
  then show ?thesis using assms(2) by simp
next
  case (Some x)
  then obtain j where "j < length (rev xs)" "P (rev xs ! j)" "x = rev xs ! j" by (auto simp: find_Some_iff)
  then have "x \<in> set (rev xs)" "P x" using nth_mem [of j "rev xs"] by auto
  then obtain i' where "i' < length xs" "x = xs ! i'" "P (xs ! i')" by (auto simp: in_set_conv_nth)
  with assms(3) Some show ?thesis by auto
qed

lemma blk_ok_find:
  assumes ok: "blk_ok fn probe su tp k ds ads s" and l: "length ds \<le> 4"
  shows "i < length ds \<Longrightarrow> FindDevice (hd_text (int i)) s = Some (Some (ads ! i))"
    "name \<notin> (\<lambda>i. hd_text (int i)) ` {..<length ds} \<Longrightarrow> FindDevice name s = Some None"
proof -
  have c: "dev_chain (devs s) (device_list s) (rev ads)" "length ads = length ds" using ok by (auto simp: blk_ok_def)
  have nm: "disk_name (devs s (ads ! j)) = hd_text (int j)" if "j < length ds" for j
    using ok that by (auto simp: blk_ok_def dev_is_def Let_def)
  show "FindDevice (hd_text (int i)) s = Some (Some (ads ! i))" if i: "i < length ds"
  proof -
    have "find (\<lambda>a. disk_name (devs s a) = hd_text (int i)) (rev ads) = Some (ads ! i)"
      by (rule find_rev_unique) (use i nm c(2) l hd_text_inj in auto)
    then show ?thesis using FindDevice_chain [OF c(1)] by simp
  qed
  show "FindDevice name s = Some None" if "name \<notin> (\<lambda>i. hd_text (int i)) ` {..<length ds}"
  proof -
    have "find (\<lambda>a. disk_name (devs s a) = name) (rev ads) = None"
      unfolding find_None_iff using that nm c(2) by (auto simp: in_set_conv_nth)
    then show ?thesis using FindDevice_chain [OF c(1)] by simp
  qed
qed

section \<open>Waiting\<close>

lemma wait_status_ends:
  assumes now: "unat now < 2 ^ 31" and mono: "\<And>i. now \<le> ticks i \<and> unat (ticks i) < 2 ^ 50"
    and ex: "unat (ticks n) \<ge> unat now + 100 \<or> ok (status n)"
  shows "\<exists>j\<le>n. wait_status ok now ticks status = Some j \<and>
     (\<forall>i<j. \<not> ok (status i) \<and> unat (ticks i) < unat now + 100) \<and> (ok (status j) \<or> unat now + 100 \<le> unat (ticks j))"
proof -
  have sx: "scast (ucast now :: u32) = now"
  proof -
    have "unat (ucast now :: u32) = unat now mod 2 ^ 32" by (simp add: unsigned_ucast_eq take_bit_eq_mod)
    also have "\<dots> = unat now" by (rule mod_less) (use now in simp)
    finally have u: "uint (ucast now :: u32) = uint now" by (metis uint_nat)
    have "int (unat now) < int (2 ^ 31)" using now by (rule of_nat_less_iff [THEN iffD2])
    then have "uint now < 2 ^ 31" by simp
    then have "signed_take_bit 31 (uint now) = uint now" by (intro signed_take_bit_int_eq_self order_trans [OF _ uint_ge_0]) simp_all
    then have "sint (ucast now :: u32) = uint now" by (simp add: sint_uint u)
    then show ?thesis by (metis scast_eq word_of_int_uint)
  qed
  have cond: "(ticks i - scast (ucast now :: u32)) * 1000 div TIMER_FREQUENCY < IDE_TIMEOUT \<longleftrightarrow> unat (ticks i) < unat now + 100" for i
  proof -
    have d: "unat (ticks i - now) = unat (ticks i) - unat now" using mono by (simp add: unat_sub)
    have "unat (ticks i) - unat now < 2 ^ 50" using mono [of i] by linarith
    then have "unat (ticks i - now) * 1000 < 2 ^ 64" by (simp add: d)
    then have "unat (ticks i - now) * unat (1000 :: u64) < 2 ^ LENGTH(64)" by simp
    then have "unat ((ticks i - now) * 1000) = unat (ticks i - now) * unat (1000 :: u64)" by (rule unat_mult_lem [THEN iffD1])
    then have "unat ((ticks i - now) * 1000) = (unat (ticks i) - unat now) * 1000" unfolding d by simp
    then show ?thesis unfolding sx word_less_nat_alt unat_div
      using mono [of i] by (simp add: TIMER_FREQUENCY_def IDE_TIMEOUT_def word_le_nat_alt; linarith)
  qed
  show ?thesis unfolding wait_status_def
  proof -
    let ?b = "wait_status_body ok (ucast now) ticks status"
    have "\<exists>j. loop ?b m = Some j \<and> m \<le> j \<and> j \<le> n \<and>
       (\<forall>i. m \<le> i \<and> i < j \<longrightarrow> \<not> ok (status i) \<and> unat (ticks i) < unat now + 100) \<and> (ok (status j) \<or> unat now + 100 \<le> unat (ticks j))"
      if "m \<le> n" for m
      using that
    proof (induction "n - m" arbitrary: m)
      case 0
      then have "m = n" by simp
      then have "?b m = Some (Done m)" using ex unfolding wait_status_body_def cond by auto
      then have "loop ?b m = Some m" by (rule loop_Done)
      then show ?case using ex \<open>m = n\<close> by auto
    next
      case (Suc d)
      show ?case
      proof (cases "unat (ticks m) < unat now + 100 \<and> \<not> ok (status m)")
        case True
        then have "?b m = Some (Next (m + 1))" unfolding wait_status_body_def cond by simp
        then have l: "loop ?b m = loop ?b (m + 1)" by (rule loop_Next)
        have "d = n - (m + 1)" "m + 1 \<le> n" using Suc.hyps(2) by simp_all
        from Suc.hyps(1) [OF this] obtain j where
          j: "loop ?b (m + 1) = Some j" "m + 1 \<le> j" "j \<le> n"
          "\<forall>i. m + 1 \<le> i \<and> i < j \<longrightarrow> \<not> ok (status i) \<and> unat (ticks i) < unat now + 100"
          "ok (status j) \<or> unat now + 100 \<le> unat (ticks j)" by blast
        have "\<not> ok (status i) \<and> unat (ticks i) < unat now + 100" if "m \<le> i \<and> i < j" for i
          using True j(4) that by (cases "i = m") auto
        with l j show ?thesis by (intro exI [of _ j]) auto
      next
        case False
        then have "?b m = Some (Done m)" unfolding wait_status_body_def cond by auto
        then have "loop ?b m = Some m" by (rule loop_Done)
        then show ?thesis using False Suc.prems by (intro exI [of _ m]) auto
      qed
    qed
    from this [of 0] show "\<exists>j\<le>n. loop ?b 0 = Some j \<and>
       (\<forall>i<j. \<not> ok (status i) \<and> unat (ticks i) < unat now + 100) \<and> (ok (status j) \<or> unat now + 100 \<le> unat (ticks j))" by auto
  qed
qed

text \<open>From \<open>2 ^ 31\<close> ticks on, the start wraps to a negative number and the first round ends the wait.\<close>

lemma wait_status_late:
  assumes "ticks 0 = 2 ^ 31"
  shows "wait_status ok (2 ^ 31) ticks status = Some 0"
proof -
  have "wait_status_body ok (ucast (2 ^ 31 :: u64)) ticks status 0 = Some (Done 0)"
    unfolding wait_status_body_def assms by (simp add: TIMER_FREQUENCY_def IDE_TIMEOUT_def)
  then show ?thesis unfolding wait_status_def by (rule loop_Done)
qed

section \<open>Properties\<close>

text \<open>
  C27.  The block service.  After its start on a machine with enough memory, the registry holds one
  device for each of the four drive positions that answered the identify command, in the order of detection, under
  the names \<^verbatim>\<open>hda\<close>, \<^verbatim>\<open>hdb\<close> and so on, with the port and drive number of its position, the capacity that the drive
  reported, and one partition over all of it.  The service answers a request for such a name with the address of the device and
  a request for any other name with a null pointer.
\<close>

theorem block_service_finds_drives:
  assumes "frames_at su tp k (blk_frames s)" "k + 16 \<le> unat tp" "unat tp < 2 ^ 51"
    "device_count s = 0" "length (controllers s) = 4"
  shows "\<exists>s'. block_start fn probe s = Some s' \<and>
     (let ds = filter (\<lambda>(i, d). answers (probe i d)) [(IDE_PRIMARY_IO, 0), (IDE_PRIMARY_IO, 1), (IDE_SECONDARY_IO, 0), (IDE_SECONDARY_IO, 1)] in
        device_count s' = int (length ds) \<and>
        (\<forall>m c name. msg_type m = SYS_BLOCK_GET \<and> sender m = Some c \<and> msg_str m = Some name \<longrightarrow>
           (\<exists>p. block_serve pids self m s' = Some (Some ((set_num0 (ptr_num p) m)\<lparr>dst_pid := pids c, sender := self\<rparr>)) \<and>
              (p = None \<longleftrightarrow> name \<notin> (\<lambda>i. hd_text (int i)) ` {..<length ds}) \<and>
              (\<forall>i<length ds. name = hd_text (int i) \<longrightarrow> (\<exists>a. p = Some a \<and>
                 dev_is fn (probe (fst (ds ! i)) (snd (ds ! i))) i (fst (ds ! i)) (snd (ds ! i)) s' a)))))"
proof -
  have "blk_ok fn probe su tp k [] [] (s\<lparr>device_list := None\<rparr>)" using assms by (simp add: blk_ok_def)
  from ide_Init_ok [OF this assms(2,3)] obtain s' k' ads where
    i: "ide_Init fn probe (s\<lparr>device_list := None\<rparr>) = Some s'" and
    ok: "blk_ok fn probe su tp k' (filter (\<lambda>(i, d). answers (probe i d)) [(IDE_PRIMARY_IO, 0), (IDE_PRIMARY_IO, 1), (IDE_SECONDARY_IO, 0), (IDE_SECONDARY_IO, 1)]) ads s'"
    by blast
  define ds :: "(u16 \<times> u8) list" where
    "ds = filter (\<lambda>(i, d). answers (probe i d)) [(IDE_PRIMARY_IO, 0), (IDE_PRIMARY_IO, 1), (IDE_SECONDARY_IO, 0), (IDE_SECONDARY_IO, 1)]"
  note ok = ok [folded ds_def]
  have l: "length ds \<le> 4" unfolding ds_def by simp
  note found = blk_ok_find [OF ok l]
  have serve: "\<exists>p. block_serve pids self m s' = Some (Some ((set_num0 (ptr_num p) m)\<lparr>dst_pid := pids c, sender := self\<rparr>)) \<and>
       (p = None \<longleftrightarrow> name \<notin> (\<lambda>i. hd_text (int i)) ` {..<length ds}) \<and>
       (\<forall>i<length ds. name = hd_text (int i) \<longrightarrow> (\<exists>a. p = Some a \<and>
          dev_is fn (probe (fst (ds ! i)) (snd (ds ! i))) i (fst (ds ! i)) (snd (ds ! i)) s' a))"
    if m: "msg_type m = SYS_BLOCK_GET" "sender m = Some c" "msg_str m = Some name" for m c name
  proof (cases "name \<in> (\<lambda>i. hd_text (int i)) ` {..<length ds}")
    case False
    with found(2) [OF this] m show ?thesis by (intro exI [of _ None]) (auto simp: block_serve_def)
  next
    case True
    then obtain i where i: "i < length ds" "name = hd_text (int i)" by auto
    have d: "dev_is fn (probe (fst (ds ! i)) (snd (ds ! i))) i (fst (ds ! i)) (snd (ds ! i)) s' (ads ! i)"
      using ok i(1) by (simp add: blk_ok_def)
    have u: "j = i" if "j < length ds" "name = hd_text (int j)" for j
      using that i l hd_text_inj [of i j] by simp
    have "block_serve pids self m s' = Some (Some ((set_num0 (ptr_num (Some (ads ! i))) m)\<lparr>dst_pid := pids c, sender := self\<rparr>))"
      using found(1) [OF i(1)] m unfolding i(2) by (simp add: block_serve_def)
    then show ?thesis
    proof (intro exI [of _ "Some (ads ! i)"] conjI allI impI)
      fix j assume "j < length ds" "name = hd_text (int j)"
      then have "j = i" by (rule u)
      then show "\<exists>a. Some (ads ! i) = Some a \<and> dev_is fn (probe (fst (ds ! j)) (snd (ds ! j))) j (fst (ds ! j)) (snd (ds ! j)) s' a"
        using d by simp
    next
      show "Some (ads ! i) = None \<longleftrightarrow> name \<notin> (\<lambda>i. hd_text (int i)) ` {..<length ds}" using True by blast
    qed
  qed
  have cnt: "device_count s' = int (length ds)" using ok by (simp add: blk_ok_def)
  have st: "block_start fn probe s = Some s'" using i by (simp add: block_start_def)
  show ?thesis
    unfolding ds_def [symmetric] Let_def
  proof (intro exI [of _ s'] conjI allI impI)
    fix m c name
    assume "msg_type m = SYS_BLOCK_GET \<and> sender m = Some c \<and> msg_str m = Some name"
    then show "\<exists>p. block_serve pids self m s' = Some (Some ((set_num0 (ptr_num p) m)\<lparr>dst_pid := pids c, sender := self\<rparr>)) \<and>
       (p = None \<longleftrightarrow> name \<notin> (\<lambda>i. hd_text (int i)) ` {..<length ds}) \<and>
       (\<forall>i<length ds. name = hd_text (int i) \<longrightarrow> (\<exists>a. p = Some a \<and>
          dev_is fn (probe (fst (ds ! i)) (snd (ds ! i))) i (fst (ds ! i)) (snd (ds ! i)) s' a))"
      by (elim conjE) (rule serve)
  qed (rule st, rule cnt)
qed

text \<open>
  One drive of a million sectors on the first position, and a request for it.
\<close>

definition probe1 :: "u16 \<Rightarrow> u8 \<Rightarrow> Probe" where
  "probe1 io drv = (if io = IDE_PRIMARY_IO \<and> drv = 0
     then \<lparr>st_first = 0x50, st_ready = 0x58, ident = (\<lambda>_. 0)(60 := 0x4240, 61 := 0xF)\<rparr>
     else \<lparr>st_first = 0, st_ready = 0, ident = \<lambda>_. 0\<rparr>)"

definition blocks1 :: Blocks where
  "blocks1 = \<lparr>devs = \<lambda>_. undefined, queues = \<lambda>_. undefined, reqs = \<lambda>_. undefined, bios = \<lambda>_. undefined,
     hds = \<lambda>_. undefined, ctls = \<lambda>_. undefined, device_list = Some 1, controllers = [None, None, None, None],
     device_count = 0, blk_lock = 0, blk_frames = frames256, blk_words = \<lambda>_. 0\<rparr>"

definition get_hda :: Message where
  "get_hda = \<lparr>sender = Some 0x9000, dst_pid = 2, msg_type = SYS_BLOCK_GET, msg_size = 0, payload = [104, 100, 97, 0]\<rparr>"

theorem block_service_finds_drives_witness:
  "\<exists>s' a. block_start (Some 0x7000) probe1 blocks1 = Some s' \<and> device_count s' = 1 \<and>
     block_serve (\<lambda>_. 3) (Some 0x8000) get_hda s' =
       Some (Some ((set_num0 a get_hda)\<lparr>dst_pid := 3, sender := Some 0x8000\<rparr>)) \<and> capacity (devs s' a) = 1000000"
proof -
  let ?ds = "filter (\<lambda>(i, d). answers (probe1 i d)) [(IDE_PRIMARY_IO, 0), (IDE_PRIMARY_IO, 1), (IDE_SECONDARY_IO, 0), (IDE_SECONDARY_IO, 1)]"
  have ds: "?ds = [(IDE_PRIMARY_IO, 0)]"
    by (simp add: probe1_def answers_def IDE_PRIMARY_IO_def IDE_SECONDARY_IO_def IDE_STATUS_ERR_def)
  have n: "hd_text 0 = [104, 100, 97]" by (simp add: hd_text_def)
  have m: "msg_type get_hda = SYS_BLOCK_GET" "sender get_hda = Some 0x9000" "msg_str get_hda = Some (hd_text 0)"
    by (simp_all add: get_hda_def msg_str_def n)
  have p: "ident (probe1 IDE_PRIMARY_IO 0) = (\<lambda>_. 0)(60 := 0x4240, 61 := 0xF)" by (simp add: probe1_def)
  have c: "drive_sectors ((\<lambda>_. 0)(60 := 0x4240, 61 := 0xF)) = 1000000" by (simp add: drive_sectors_def)
  have h: "frames_at 0x100000 256 0 (blk_frames blocks1)" "0 + 16 \<le> unat (256 :: u64)" "unat (256 :: u64) < 2 ^ 51"
    "device_count blocks1 = 0" "length (controllers blocks1) = 4"
    by (simp_all add: blocks1_def frames256_ok)
  note T = block_service_finds_drives [OF h, of "Some 0x7000" probe1 "\<lambda>_. 3" "Some 0x8000", unfolded ds Let_def]
  have "\<exists>s' q a. block_start (Some 0x7000) probe1 blocks1 = Some s' \<and> device_count s' = 1 \<and>
     block_serve (\<lambda>_. 3) (Some 0x8000) get_hda s' = Some (Some ((set_num0 (ptr_num q) get_hda)\<lparr>dst_pid := 3, sender := Some 0x8000\<rparr>)) \<and>
     q = Some a \<and> dev_is (Some 0x7000) (probe1 IDE_PRIMARY_IO 0) 0 IDE_PRIMARY_IO 0 s' a"
    by (insert T, elim exE conjE, drule spec [where x = get_hda], drule spec [where x = "0x9000"], drule spec [where x = "hd_text 0"])
      (simp add: m, blast)
  then show ?thesis by (auto simp: dev_is_def ptr_num_def p c Let_def)
qed

end
