(* ===== verification/Spec2Isabelle.thy ===== *)
theory Spec2Isabelle
  imports KernelProps VfsProps PageProps LibcProps ThreadProps ConsoleProps DevicesProps
begin

text \<open>
  Verification of a small Unix-like kernel for x86-64, written in C++ under \<^verbatim>\<open>src/\<close>.  (Paths below are
  relative to that directory of the repository: \<^verbatim>\<open>src/task/sched.cc\<close> and so on; headers are under
  \<^verbatim>\<open>include/\<close> and the C library under \<^verbatim>\<open>lib/\<close>.)

  \<^bold>\<open>The program.\<close>  The boot code reads the boot information, makes the first page tables and a bitmap of
  page frames.  \<^verbatim>\<open>task::thread::Init\<close> then creates an idle task and six services: the initial task, the block
  service, the file service, the terminal service, the memory service and the task service.  Tasks share
  nothing by intention; they send each other messages, addressed by process id, and block until the other
  side is there.  A completely fair scheduler over a red-black tree chooses the next task at each timer
  interrupt and whenever a task blocks.  The file service keeps mounts and descriptors and calls ext2, which
  reads and writes sectors through a block device, the IDE driver.  The terminal service draws characters on
  six screens and shows one of them.

  \<^bold>\<open>Conventions.\<close>  A definition has the name of the function or type it models, and its arguments in the
  same order with the state last.  The state is a record, passed and returned.  Machine integers are words of their
  width.  A result of type \<open>option\<close> is \<open>None\<close> exactly when the code has no defined result there: a null
  pointer that is dereferenced, an index outside an array, a division by zero, a signed overflow, a panic, a
  loop that does not end.  A pointer that may be null is itself an option (\<open>ptr\<close>), inside the result.  An error that the code
  returns is a value.  A \<^verbatim>\<open>while\<close> loop is \<open>loop\<close> of \<open>Prelude\<close> over a body that says \<open>Next\<close> or \<open>Done\<close>;
  it is a partial function into \<open>option\<close>, so a theorem that it gives \<open>Some\<close> is also a theorem that it ends.  No definition uses fuel.
  The bounds in statements are those of the code: 64 pipes of 4096 bytes, 256 message queues, 128 characters of
  input, 28 bits of sector number, file sizes that the arithmetic of the block tree can address.

  \<^bold>\<open>Tasks and scheduling\<close> (\<^verbatim>\<open>src/task/\<close>).
  \<open>TaskTypes\<close> has the control blocks and the run queue of \<^verbatim>\<open>include/kernel/task.h\<close>, with a store from
  addresses to blocks.  \<open>RbTree\<close> is \<^verbatim>\<open>rbtree.cc\<close> pointer by pointer.  \<open>RbShape\<close> says which tree a
  pointer structure stands for and proves rotations, transplants and descents correct on it; \<open>RbColour\<close>
  has the red-black invariants and the insertion fix-up; \<open>RbQueue\<close> and \<open>RbDelete\<close> put these together for
  \<open>RbInsert\<close> and \<open>RbErase\<close>.  The fix-up after an erase runs only when the node taken out has a child, so the colour
  invariant is lost by some erases; what survives any colouring is the sequence of tasks, and that is proved separately.
  \<open>Cfs\<close> is \<^verbatim>\<open>cfs.cc\<close> with the spin lock; its locale \<open>run_queue\<close> is what the scheduler relies on, interpreted on the
  tree operations.  \<open>Fairness\<close> has the accounting invariant of the queue.  \<open>Switch\<close> is \<^verbatim>\<open>sched.cc\<close>,
  \<^verbatim>\<open>timer.cc\<close> and \<^verbatim>\<open>sem.cc\<close>; \<open>SchedProps\<close> states the properties.
  \<open>Threads\<close> is the creation and the end of tasks and the system call (\<^verbatim>\<open>thread.cc\<close>, \<^verbatim>\<open>fork.cc\<close>,
  \<^verbatim>\<open>exit.cc\<close>, \<^verbatim>\<open>syscall.cc\<close>, \<^verbatim>\<open>sys.cc\<close>); \<open>ThreadRun\<close> and \<open>ThreadInit\<close> show what the
  allocator and the command-line parser give a new task and what its creation does to the run queue; \<open>ThreadProps\<close> shows that the system starts.

  \<^bold>\<open>Communication and devices\<close>.  \<open>Ring\<close> is the contract \<open>fifo\<close> of a bounded queue in a circular array.
  \<open>Pipe\<close> (\<^verbatim>\<open>pipe.cc\<close>) and \<open>Keyboard\<close> (\<^verbatim>\<open>src/drivers/tty/keyboard.cc\<close>) both interpret it.  \<open>Ipc\<close> is
  \<^verbatim>\<open>ipc.cc\<close>.  \<open>Console\<close> is \<^verbatim>\<open>console.cc\<close> and the text screen of \<^verbatim>\<open>video.cc\<close>; \<open>ConsoleProps\<close> shows
  that the frame buffer always shows the current terminal.

  \<^bold>\<open>Memory\<close>.  \<open>Bitmap\<close> is about bitmaps in arrays of bytes.  \<open>Frames\<close> is the allocators of
  \<^verbatim>\<open>src/mm/page.cc\<close> and \<^verbatim>\<open>src/kernel/boot/mm.cc\<close>.  \<open>Paging\<close> is the page tables of the same files and
  the boot information; its locale \<open>page_source\<close> in \<open>PageWalk\<close> is what mapping a page needs of an allocator, and \<open>PageInst\<close>
  interprets it on both.  \<open>PageProps\<close> shows that mapping changes one translation.

  \<^bold>\<open>Files\<close>.  \<open>Bytes\<close> has little-endian numbers in byte lists.  \<open>Blockdev\<close> is the interface \<open>block_io\<close> of a block device with a
  page allocator, and a small calculus for programs that use it; all of ext2 is written over this interface and \<open>Ide\<close>
  interprets it on the IDE driver (\<^verbatim>\<open>src/drivers/block/ide.cc\<close>).  \<open>Devices\<close> is the rest of the
  block service: its registry, the request queues and the detection of drives (\<^verbatim>\<open>block.cc\<close>, \<^verbatim>\<open>include/kernel/block.h\<close>);
  \<open>DevicesProps\<close> shows that a queue is first-in first-out, that the registry finds what was detected and that the waits end.  \<open>Ext2Layout\<close>
  and \<open>Ext2Alloc\<close> are the structures on the disk and their bitmaps (\<^verbatim>\<open>super.cc\<close>, \<^verbatim>\<open>balloc.cc\<close>),
  \<open>Ext2Inodes\<close> inodes and the tree of blocks (\<^verbatim>\<open>inode.cc\<close>), \<open>Ext2Dirs\<close> directories (\<^verbatim>\<open>dir.cc\<close>),
  \<open>Ext2Files\<close> files (\<^verbatim>\<open>file.cc\<close>, \<^verbatim>\<open>lseek.cc\<close>), \<open>Ext2Ops\<close> the operations that the virtual file system calls
  (\<^verbatim>\<open>fs.cc\<close>).  \<open>Ext2Disk\<close>, \<open>Ext2Map\<close>, \<open>Ext2Data\<close>, \<open>Ext2Search\<close>, \<open>Ext2Paths\<close> and
  \<open>Ext2Handles\<close> prove blocks, block map, contents, directory search, path lookup and open files correct
  over the interface; \<open>Ext2Props\<close> states the results on the driver.
  \<open>VfsTypes\<close> and \<open>Vfs\<close> are \<^verbatim>\<open>src/fs/vfs.cc\<close> with its service; \<open>VfsFiles\<close> has the locale \<open>file_store\<close>,
  what a file system promises for reading and writing, which \<open>VfsExt2\<close> interprets on ext2 over the driver; \<open>VfsPaths\<close> is about
  mounts; \<open>VfsProps\<close> states the results.

  \<^bold>\<open>C library\<close> (\<^verbatim>\<open>lib/klibc/\<close>; \<^verbatim>\<open>lib/libc/\<close> has the same text for user programs).  \<open>LibcStr\<close>,
  \<open>LibcSort\<close> (with a locale \<open>comparison\<close>, interpreted on \<open>strcmp\<close>), \<open>LibcChars\<close> and \<open>LibcFormat\<close> are the functions;
  \<open>LibcNumber\<close> says what a number looks like when printed; \<open>LibcProps\<close> states the results.

  \<^bold>\<open>What is shown.\<close>  The numbered texts (C1 to C40) state the properties.  C1 to C10 and C12: the run queue and the scheduler,
  with the sequences that break their invariants.  C11 and C15: formatted output, sorting and searching.  C13: page tables.
  C14: the start of the system.  C16: the semaphore.  C17 and C19: pipes.  C18: the console.  C20 to C22: messages.
  C23 and C24: the keyboard.  C25 and C26: page frames.  C27: the block service.  C28 to C37: ext2.  C38 to C40: the virtual file system over ext2 over the driver.

  \<^bold>\<open>Assumptions.\<close>  The processor runs one instruction stream: an operation is not interrupted except where the
  code blocks or the timer handler is called.  The hardware is modelled by what the code relies on: the drive moves
  the addressed sector, a load of a page table base changes the translation.  The wait loops of the driver are modelled by themselves;
  in a transfer the drive is taken to be ready in time.

  \<^bold>\<open>Not modelled.\<close>  The bitmaps of the font (\<^verbatim>\<open>src/kernel/font_8x16.cc\<close>, data).  The descriptor tables and
  fault handlers (\<^verbatim>\<open>gdt.cc\<close>, \<^verbatim>\<open>idt.cc\<close>), interrupt controller, timer chip and processor identification (\<^verbatim>\<open>pic.cc\<close>,
  \<^verbatim>\<open>pit.cc\<close>, \<^verbatim>\<open>cpuid.cc\<close>), serial port and kernel messages (\<^verbatim>\<open>serial.cc\<close>, \<^verbatim>\<open>printk.cc\<close>,
  \<^verbatim>\<open>assert.cc\<close>): port output and printing.  The boot screen (\<^verbatim>\<open>boot/video.cc\<close>, \<^verbatim>\<open>boot/start.cc\<close>), which has its own copy of
  formatted output.  The search of \<^verbatim>\<open>video::Init\<close> for a frame buffer.  The program loader (\<^verbatim>\<open>exec.cc\<close>); the task service has it
  as a parameter.  The memory service and the slab allocator (\<^verbatim>\<open>mm/alloc.cc\<close>, \<^verbatim>\<open>mm/slab.cc\<close>), which do nothing yet.
  The wrappers that turn library calls into messages (\<^verbatim>\<open>lib/klibc/ipc.cc\<close>) and the user programs.
  Assembly (\<^verbatim>\<open>head.S\<close>, \<^verbatim>\<open>interrupt.S\<close>) except for the context switch.
\<close>

end
